(* ===== verification/Prelude.thy ===== *)
theory Prelude
  imports Complex_Main "HOL-Library.List_Lexorder" "HOL-Library.Char_ord"
    "HOL-Library.Product_Lexorder"
begin

text \<open>
  What every component of the development shares: the errors the allocator returns, Go's
  integer division, \<open>strings.TrimSpace\<close> and \<open>strings.Join\<close>, rounding to a
  \<open>float64\<close>, and lemmas on sums over rows of a table.

  Go's \<open>int\<close> and \<open>int64\<close> are \<open>int\<close> here; where a computation could leave the
  64-bit range the component proves that it does not, or writes the wrap-around out
  (\<open>wrap64\<close>).
\<close>

named_theorems phase_defs \<open>definitions about the lease state machine\<close>
named_theorems query_defs \<open>definitions of the ledger's queries\<close>
named_theorems placer_simps \<open>fields of a placer after an operation\<close>

section \<open>Errors\<close>

text \<open>
  The sentinel errors of \<open>internal/alloc\<close> and \<open>internal/lease\<close>. \<open>ErrInvalid\<close>
  stands for the errors built in place with \<open>errors.New\<close> or \<open>fmt.Errorf\<close> that
  wrap no sentinel: a refused argument or a refused configuration. \<open>ErrStore\<close> is an
  error of the database or of the random source.
\<close>

datatype err =
    ErrLeaseNotFound
  | ErrNoCapacity
  | ErrFenced
  | ErrBadTransition
  | ErrUnknownTier
  | ErrWrongNode
  | ErrConflict
  | ErrGuestOSNotAllowed
  | ErrWrongProvider
  | ErrWrongSite
  | ErrNotPlaced
  | ErrNotPlaceable
  | ErrForceRelease
  | ErrForceHeld
  | ErrWithdrawalStale
  | ErrNotDecommissionable
  | ErrAdmissionGeneration
  | ErrAdmissionProvenance
  | ErrFleetHeld
  | ErrPoolHostReleased
  | ErrBadJoinToken
  | ErrPoolNameReserved
  | ErrEnrollmentConflict
  | ErrNotPending
  | ErrParentRevoked
  | ErrPoolOrderMoved
  | ErrPoolOrderClosed
  | ErrPoolOrderNotPlaced
  | ErrPoolJoinHeld
  | ErrPoolJoinNotHeld
  | ErrPoolReleaseWaits
  | ErrPoolReleaseContradicted
  | ErrPoolReleaseAsked
  | ErrAdmissionSealed
  | errWaiterShortNow
  | errWaiterLeftShort
  | ErrInvalid
  | ErrStore

type_synonym 'a result = "err + 'a"

section \<open>Go's integers\<close>

text \<open>Division of Go's integers truncates towards zero.\<close>

definition go_div :: "int \<Rightarrow> int \<Rightarrow> int" where
  "go_div a b = (if (a < 0) = (b < 0) then \<bar>a\<bar> div \<bar>b\<bar> else - (\<bar>a\<bar> div \<bar>b\<bar>))"

lemma go_div_pos [simp]: "0 \<le> a \<Longrightarrow> 0 < b \<Longrightarrow> go_div a b = a div b"
  by (simp add: go_div_def)

lemma go_div_neg: "a < 0 \<Longrightarrow> 0 < b \<Longrightarrow> go_div a b \<le> 0"
  by (simp add: go_div_def pos_imp_zdiv_nonneg_iff)

lemma go_div_pos_iff: "0 < b \<Longrightarrow> 0 < go_div a b \<longleftrightarrow> b \<le> a"
  using go_div_neg [of a b] by (cases "0 \<le> a") (auto simp: pos_imp_zdiv_pos_iff)

lemma go_div_sub:
  assumes "0 < b" and "b \<le> a"
  shows "go_div (a - b) b = go_div a b - 1"
proof -
  have "(a - b) div b = a div b - 1"
    using assms div_add_self2 [of b "a - b"] by simp
  then show ?thesis using assms by simp
qed

lemma max_go_div: "0 < b \<Longrightarrow> max (go_div a b) 0 = max a 0 div b"
  using go_div_neg [of a b] pos_imp_zdiv_nonneg_iff [of b a]
  by (cases "0 \<le> a") (auto simp: max_def)

lemma le_go_div_iff:
  assumes "0 < b" and "0 \<le> k"
  shows "k \<le> max (go_div a b) 0 \<longleftrightarrow> k * b \<le> max a 0"
proof -
  have "k \<le> max a 0 div b \<longleftrightarrow> k * b \<le> max a 0"
  proof
    assume "k \<le> max a 0 div b"
    then have "k * b \<le> max a 0 div b * b" using assms by (simp add: mult_right_mono)
    also have "\<dots> \<le> max a 0"
      using pos_mod_sign [of b "max a 0"] div_mult_mod_eq [of "max a 0" b] assms by linarith
    finally show "k * b \<le> max a 0" .
  next
    assume "k * b \<le> max a 0"
    then have "k * b div b \<le> max a 0 div b" by (rule zdiv_mono1) (rule assms(1))
    then show "k \<le> max a 0 div b" using assms by simp
  qed
  then show ?thesis using assms by (simp add: max_go_div)
qed

text \<open>The value a Go \<open>int\<close> or \<open>int64\<close> holds after an operation whose exact result is \<open>x\<close>.\<close>

definition wrap64 :: "int \<Rightarrow> int" where
  "wrap64 x = (x + 2 ^ 63) mod 2 ^ 64 - 2 ^ 63"

definition maxInt64 :: int where
  "maxInt64 = 2 ^ 63 - 1"

lemma wrap64_id: "- (2 ^ 63) \<le> x \<Longrightarrow> x \<le> maxInt64 \<Longrightarrow> wrap64 x = x"
  by (simp add: wrap64_def maxInt64_def)

lemma wrap64_range: "- (2 ^ 63) \<le> wrap64 x \<and> wrap64 x \<le> maxInt64"
proof -
  have "0 \<le> (x + 2 ^ 63) mod 2 ^ 64" "(x + 2 ^ 63) mod 2 ^ 64 < 2 ^ 64" by simp_all
  then show ?thesis by (simp add: wrap64_def maxInt64_def)
qed

section \<open>Strings\<close>

definition isSpace :: "char \<Rightarrow> bool" where
  "isSpace c = (c \<in> {CHR '' '', CHR 0x09, CHR 0x0A, CHR 0x0B, CHR 0x0C, CHR 0x0D})"

definition TrimSpace :: "string \<Rightarrow> string" where
  "TrimSpace s = rev (dropWhile isSpace (rev (dropWhile isSpace s)))"

fun Join :: "string list \<Rightarrow> string \<Rightarrow> string" where
  "Join [] sep = []"
| "Join [x] sep = x"
| "Join (x # xs) sep = x @ sep @ Join xs sep"

text \<open>\<open>strings.Split\<close> at a one-character separator.\<close>

fun Split :: "string \<Rightarrow> char \<Rightarrow> string list" where
  "Split [] c = [[]]"
| "Split (x # xs) c =
     (if x = c then [] # Split xs c
      else (case Split xs c of [] \<Rightarrow> [[x]] | w # ws \<Rightarrow> (x # w) # ws))"

lemma Split_nonempty [simp]: "Split s c \<noteq> []"
  by (induction s) (auto split: list.splits)

lemma Split_no_sep: "c \<notin> set s \<Longrightarrow> Split s c = [s]"
  by (induction s) auto

lemma Split_append:
  assumes "c \<notin> set s"
  shows "Split (s @ c # r) c = s # Split r c"
  using assms by (induction s) auto

lemma Split_Join:
  assumes "xs \<noteq> []" and "\<And>x. x \<in> set xs \<Longrightarrow> c \<notin> set x"
  shows "Split (Join xs [c]) c = xs"
  using assms
proof (induction xs "[c]" rule: Join.induct)
  case (3 x y ys)
  then show ?case by (simp add: Split_append)
qed (simp_all add: Split_no_sep)

section \<open>float64\<close>

text \<open>
  Rounding of an exact value to the nearest IEEE double, ties to even, for zero and the
  normal range. The code converts 64-bit integers and divides and adds the results, which
  stays inside that range.
\<close>

fun ilog2_nat :: "nat \<Rightarrow> nat" where
  "ilog2_nat n = (if n < 2 then 0 else Suc (ilog2_nat (n div 2)))"

declare ilog2_nat.simps [simp del]

definition ilog2 :: "rat \<Rightarrow> int" where
  "ilog2 x =
     (let (n, d) = quotient_of x;
          e = int (ilog2_nat (nat n)) - int (ilog2_nat (nat d))
      in if 2 powi e \<le> x then e else e - 1)"

definition roundHalfEven :: "rat \<Rightarrow> int" where
  "roundHalfEven m =
     (let f = \<lfloor>m\<rfloor>; r = m - of_int f
      in if r < 1 / 2 then f else if r > 1 / 2 then f + 1 else if even f then f else f + 1)"

definition float64 :: "rat \<Rightarrow> rat" where
  "float64 x =
     (if x = 0 then 0
      else let k = ilog2 \<bar>x\<bar> - 52
           in sgn x * of_int (roundHalfEven (\<bar>x\<bar> / 2 powi k)) * 2 powi k)"

section \<open>Tables\<close>

text \<open>
  A table is a list of rows. \<open>upd_where P f\<close> is
  \<open>UPDATE \<dots> SET f WHERE P\<close>.
\<close>

definition upd_where :: "('a \<Rightarrow> bool) \<Rightarrow> ('a \<Rightarrow> 'a) \<Rightarrow> 'a list \<Rightarrow> 'a list" where
  "upd_where P f xs = map (\<lambda>r. if P r then f r else r) xs"

lemma upd_where_Nil [simp]: "upd_where P f [] = []"
  by (simp add: upd_where_def)

lemma upd_where_Cons [simp]: "upd_where P f (x # xs) = (if P x then f x else x) # upd_where P f xs"
  by (simp add: upd_where_def)

lemma set_upd_where: "set (upd_where P f xs) = (\<lambda>r. if P r then f r else r) ` set xs"
  by (simp add: upd_where_def)

lemma length_upd_where [simp]: "length (upd_where P f xs) = length xs"
  by (simp add: upd_where_def)

lemma map_upd_where_same:
  assumes "\<And>r. P r \<Longrightarrow> k (f r) = k r"
  shows "map k (upd_where P f xs) = map k xs"
  using assms by (simp add: upd_where_def)

lemma upd_where_none: "(\<And>r. r \<in> set xs \<Longrightarrow> \<not> P r) \<Longrightarrow> upd_where P f xs = xs"
  by (simp add: upd_where_def map_idI)

lemma find_map_same: "(\<And>x. P (f x) = P x) \<Longrightarrow> find P (map f xs) = map_option f (find P xs)"
  by (induction xs) auto

lemma list_all2_source: "list_all2 R xs ys \<Longrightarrow> y \<in> set ys \<Longrightarrow> \<exists>x \<in> set xs. R x y"
  by (induction rule: list_all2_induct) auto

lemma list_all2_target: "list_all2 R xs ys \<Longrightarrow> x \<in> set xs \<Longrightarrow> \<exists>y \<in> set ys. R x y"
  by (induction rule: list_all2_induct) auto

lemma list_all2_keys:
  "list_all2 R xs ys \<Longrightarrow> (\<And>x y. R x y \<Longrightarrow> key y = key x) \<Longrightarrow> map key ys = map key xs"
  by (induction rule: list_all2_induct) auto

lemma find_upd_where:
  assumes "\<And>r. P r \<Longrightarrow> k (f r) = k r"
  shows "find (\<lambda>r. k r = i) (upd_where P f xs) =
         map_option (\<lambda>r. if P r then f r else r) (find (\<lambda>r. k r = i) xs)"
  using assms by (induction xs) auto

text \<open>\<open>SELECT SUM(w) \<dots> WHERE P\<close>.\<close>

definition sum_where :: "('a \<Rightarrow> bool) \<Rightarrow> ('a \<Rightarrow> int) \<Rightarrow> 'a list \<Rightarrow> int" where
  "sum_where P w xs = sum_list (map w (filter P xs))"

definition count_where :: "('a \<Rightarrow> bool) \<Rightarrow> 'a list \<Rightarrow> int" where
  "count_where P xs = int (length (filter P xs))"

lemma sum_where_Nil [simp]: "sum_where P w [] = 0"
  by (simp add: sum_where_def)

lemma sum_where_Cons [simp]:
  "sum_where P w (x # xs) = (if P x then w x else 0) + sum_where P w xs"
  by (simp add: sum_where_def)

lemma sum_where_append [simp]: "sum_where P w (xs @ ys) = sum_where P w xs + sum_where P w ys"
  by (simp add: sum_where_def)

lemma count_where_sum: "count_where P xs = sum_where P (\<lambda>_. 1) xs"
  by (induction xs) (auto simp: count_where_def)

lemma sum_where_nonneg: "(\<And>r. r \<in> set xs \<Longrightarrow> P r \<Longrightarrow> 0 \<le> w r) \<Longrightarrow> 0 \<le> sum_where P w xs"
  by (induction xs) (auto simp: add_nonneg_nonneg)

lemma sum_where_mono_pred:
  assumes "\<And>r. r \<in> set xs \<Longrightarrow> P r \<Longrightarrow> Q r" and "\<And>r. r \<in> set xs \<Longrightarrow> Q r \<Longrightarrow> 0 \<le> w r"
  shows "sum_where P w xs \<le> sum_where Q w xs"
  using assms by (induction xs) (auto simp: add_mono)

lemma sum_where_cong:
  "(\<And>r. r \<in> set xs \<Longrightarrow> P r = Q r) \<Longrightarrow> (\<And>r. r \<in> set xs \<Longrightarrow> P r \<Longrightarrow> w r = v r)
   \<Longrightarrow> sum_where P w xs = sum_where Q v xs"
  by (induction xs) auto

text \<open>
  A row-wise comparison carries to the sum: what an update may do to a usage is decided
  one row at a time.
\<close>

lemma sum_where_map_le:
  assumes "\<And>r. r \<in> set xs \<Longrightarrow> (if P (g r) then w (g r) else 0) \<le> (if P r then w r else 0)"
  shows "sum_where P w (map g xs) \<le> sum_where P w xs"
  using assms by (induction xs) (auto simp: add_mono)

lemma sum_where_map_eq:
  assumes "\<And>r. r \<in> set xs \<Longrightarrow> (if P (g r) then w (g r) else 0) = (if P r then w r else 0)"
  shows "sum_where P w (map g xs) = sum_where P w xs"
  using assms by (induction xs) auto

text \<open>Only the row with one key is touched, so only its term moves.\<close>

lemma sum_where_upd_key:
  assumes "distinct (map k xs)" and "r \<in> set xs" and "k r = i" and "P r" and "P (f r)"
    and "\<And>x. Q x \<Longrightarrow> k x = i" and "Q r"
  shows "sum_where P w (upd_where Q f xs) = sum_where P w xs - w r + w (f r)"
  using assms(1,2)
proof (induction xs)
  case (Cons x xs)
  show ?case
  proof (cases "x = r")
    case True
    have "r' \<in> set xs \<Longrightarrow> \<not> Q r'" for r'
      using Cons.prems(1) True assms(3,6) by (auto simp: image_iff)
    then have "upd_where Q f xs = xs" by (rule upd_where_none)
    then show ?thesis using True assms(4,5,7) by simp
  next
    case False
    then have r: "r \<in> set xs" using Cons.prems by simp
    then have "k x \<noteq> i" using Cons.prems(1) assms(3) by (auto simp: image_iff)
    then have "\<not> Q x" using assms(6) by blast
    then show ?thesis using Cons.IH r Cons.prems by simp
  qed
qed simp

text \<open>\<open>GROUP BY\<close>: the sums of the groups add up to the whole.\<close>

lemma sum_list_only:
  "distinct ks \<Longrightarrow> k \<in> set ks \<Longrightarrow> sum_list (map (\<lambda>x. if k = x then (c::int) else 0) ks) = c"
  by (simp add: sum_list_distinct_conv_sum_set)

lemma sum_where_groups:
  assumes "distinct ks" and "\<And>r. r \<in> set xs \<Longrightarrow> P r \<Longrightarrow> key r \<in> set ks"
  shows "sum_list (map (\<lambda>k. sum_where (\<lambda>r. P r \<and> key r = k) w xs) ks) = sum_where P w xs"
  using assms(2)
proof (induction xs)
  case (Cons x xs)
  have "sum_list (map (\<lambda>k. sum_where (\<lambda>r. P r \<and> key r = k) w xs) ks) = sum_where P w xs"
    using Cons by simp
  moreover have "sum_list (map (\<lambda>k. if P x \<and> key x = k then w x else 0) ks) = (if P x then w x else 0)"
    using sum_list_only [OF assms(1), of "key x" "w x"] Cons.prems [of x] by simp
  ultimately show ?case by (simp add: sum_list_addf)
qed (simp add: assms(1))

lemma find_distinct:
  "distinct (map k xs) \<Longrightarrow> r \<in> set xs \<Longrightarrow> find (\<lambda>x. k x = k r) xs = Some r"
  by (induction xs) (auto simp: image_iff)

lemma find_append: "find P (xs @ ys) = (case find P xs of None \<Rightarrow> find P ys | Some x \<Rightarrow> Some x)"
  by (induction xs) auto

end
