(* ===== verification/Lease_Phase.thy ===== *)
theory Lease_Phase
  imports Prelude
begin

text \<open>
  The lease lifecycle: the phases of \<open>internal/lease/lease.go\<close> and the state machine
  of \<open>internal/alloc/alloc.go\<close> (\<open>validTransitions\<close>, \<open>canMoveTo\<close>,
  \<open>requiresPlacement\<close>, \<open>hadCompute\<close>). The lemmas say that a terminal phase has
  no successor, that no walk of the machine returns to a phase it left, and that a lease
  whose compute may exist reaches a terminal phase only by a step that names one.
\<close>

section \<open>Phases and the state machine\<close>

datatype Phase =
    PhaseCapacity
  | PhaseAssigned
  | PhaseLaunching
  | PhaseOnline
  | PhaseBusy
  | PhaseCustody
  | PhaseTeardown
  | PhaseQuarantine
  | PhaseDone
  | PhaseFailed

definition Terminal :: "Phase \<Rightarrow> bool" where
  [phase_defs]: "Terminal p \<longleftrightarrow> p = PhaseDone \<or> p = PhaseFailed"

fun validTransitions :: "Phase \<Rightarrow> Phase list" where
  "validTransitions PhaseCapacity = [PhaseAssigned, PhaseDone, PhaseFailed]"
| "validTransitions PhaseAssigned = [PhaseLaunching, PhaseDone, PhaseFailed]"
| "validTransitions PhaseLaunching =
     [PhaseOnline, PhaseCustody, PhaseTeardown, PhaseQuarantine, PhaseDone, PhaseFailed]"
| "validTransitions PhaseOnline =
     [PhaseBusy, PhaseCustody, PhaseTeardown, PhaseQuarantine, PhaseDone, PhaseFailed]"
| "validTransitions PhaseBusy =
     [PhaseCustody, PhaseTeardown, PhaseQuarantine, PhaseDone, PhaseFailed]"
| "validTransitions PhaseCustody = [PhaseTeardown, PhaseQuarantine, PhaseDone, PhaseFailed]"
| "validTransitions PhaseTeardown = [PhaseQuarantine, PhaseDone, PhaseFailed]"
| "validTransitions PhaseQuarantine = [PhaseDone, PhaseFailed]"
| "validTransitions PhaseDone = []"
| "validTransitions PhaseFailed = []"

definition requiresPlacement :: "Phase \<Rightarrow> bool" where
  [phase_defs]: "requiresPlacement p \<longleftrightarrow>
     p = PhaseLaunching \<or> p = PhaseOnline \<or> p = PhaseBusy"

definition hadCompute :: "Phase \<Rightarrow> bool" where
  [phase_defs]: "hadCompute p \<longleftrightarrow>
     p = PhaseLaunching \<or> p = PhaseOnline \<or> p = PhaseBusy \<or>
     p = PhaseCustody \<or> p = PhaseTeardown"

fun anyEqual :: "Phase list \<Rightarrow> Phase \<Rightarrow> bool" where
  "anyEqual [] to_phase = False"
| "anyEqual (allowed # rest) to_phase = (if allowed = to_phase then True else anyEqual rest to_phase)"

definition canMoveTo :: "Phase \<Rightarrow> Phase \<Rightarrow> bool" where
  "canMoveTo p to_phase = anyEqual (validTransitions p) to_phase"

section \<open>Walks of the machine\<close>

lemma anyEqual_iff: "anyEqual xs p \<longleftrightarrow> p \<in> set xs"
  by (induction xs) auto

lemma canMoveTo_iff: "canMoveTo p q \<longleftrightarrow> q \<in> set (validTransitions p)"
  by (simp add: canMoveTo_def anyEqual_iff)

text \<open>Every edge moves strictly forward in this order of the phases.\<close>

fun phaseRank :: "Phase \<Rightarrow> nat" where
  "phaseRank PhaseCapacity = 0"
| "phaseRank PhaseAssigned = 1"
| "phaseRank PhaseLaunching = 2"
| "phaseRank PhaseOnline = 3"
| "phaseRank PhaseBusy = 4"
| "phaseRank PhaseCustody = 5"
| "phaseRank PhaseTeardown = 6"
| "phaseRank PhaseQuarantine = 7"
| "phaseRank PhaseDone = 8"
| "phaseRank PhaseFailed = 8"

lemma canMoveTo_rank: "canMoveTo p q \<Longrightarrow> phaseRank p < phaseRank q"
  by (cases p) (auto simp: canMoveTo_iff)

lemma canMoveTo_Terminal: "canMoveTo p q \<Longrightarrow> \<not> Terminal p"
  by (cases p) (auto simp: canMoveTo_iff Terminal_def)

lemma open_to_terminal: "\<not> Terminal p \<Longrightarrow> Terminal q \<Longrightarrow> canMoveTo p q"
  by (cases p) (auto simp: canMoveTo_iff Terminal_def)

lemma requiresPlacement_open: "requiresPlacement p \<Longrightarrow> \<not> Terminal p"
  by (auto simp: phase_defs)

lemma hadCompute_open: "hadCompute p \<Longrightarrow> \<not> Terminal p"
  by (auto simp: phase_defs)

inductive walk :: "Phase \<Rightarrow> Phase \<Rightarrow> bool" where
  walk_one: "canMoveTo p q \<Longrightarrow> walk p q"
| walk_more: "walk p q \<Longrightarrow> canMoveTo q r \<Longrightarrow> walk p r"

lemma walk_rank: "walk p q \<Longrightarrow> phaseRank p < phaseRank q"
  by (induction rule: walk.induct) (auto dest: canMoveTo_rank)

lemma walk_from_open: "walk p q \<Longrightarrow> \<not> Terminal p"
  by (induction rule: walk.induct) (auto dest: canMoveTo_Terminal)

text \<open>No walk returns, and a terminal phase has none: capacity once released is never taken again.\<close>

lemma walk_never_returns: "\<not> walk p p \<and> (Terminal p \<longrightarrow> \<not> walk p q)"
  using walk_rank [of p p] walk_from_open [of p q] by auto

end
