(* ===== verification/Catalog.thy ===== *)
theory Catalog
  imports Prelude
begin

text \<open>
  The configuration the allocator is built over, from \<open>internal/config\<close>: providers,
  guest operating systems, architectures, purchasable shapes, node policies, tiers, target
  shares and the allocator's own fields (\<open>alloc.Limits\<close>, \<open>alloc.Allocator\<close>).
  \<open>ProviderKind\<close>, \<open>GuestOS\<close> and \<open>Arch\<close> are named strings in the code, whose
  values a ledger row or a node may fill with a name this version does not know, so they
  stay strings here and \<open>Valid\<close> is what tells them apart.

  A Go map keyed by a name is a list of entries with distinct keys; \<open>nil\<close> pointers are
  \<open>None\<close>. Validators return whether they found no error.
\<close>

section \<open>Providers, guests and architectures\<close>

type_synonym ProviderKind = string
type_synonym GuestOS = string
type_synonym Arch = string

abbreviation "ProviderFirecracker \<equiv> ''firecracker''"
abbreviation "ProviderTart \<equiv> ''tart''"
abbreviation "ProviderEC2 \<equiv> ''ec2''"
abbreviation "ProviderCodeBuild \<equiv> ''codebuild''"
abbreviation "ProviderDocker \<equiv> ''docker''"
abbreviation "ProviderSimulated \<equiv> ''simulated''"

abbreviation "GuestLinux \<equiv> ''linux''"
abbreviation "GuestMacOS \<equiv> ''macos''"
abbreviation "GuestWindows \<equiv> ''windows''"

abbreviation "ArchX64 \<equiv> ''x64''"
abbreviation "ArchARM64 \<equiv> ''arm64''"

definition allProviders :: "ProviderKind list" where
  "allProviders = [ProviderFirecracker, ProviderTart, ProviderEC2, ProviderCodeBuild,
     ProviderDocker, ProviderSimulated]"

definition ProviderValid :: "ProviderKind \<Rightarrow> bool" where
  "ProviderValid p \<longleftrightarrow> p \<in> set allProviders"

definition RunsOnHost :: "ProviderKind \<Rightarrow> bool" where
  "RunsOnHost p \<longleftrightarrow>
     p = ProviderDocker \<or> p = ProviderFirecracker \<or> p = ProviderTart \<or> p = ProviderSimulated"

definition GuestOSValid :: "GuestOS \<Rightarrow> bool" where
  "GuestOSValid g \<longleftrightarrow> g \<in> set [GuestLinux, GuestMacOS, GuestWindows]"

definition ArchValid :: "Arch \<Rightarrow> bool" where
  "ArchValid a \<longleftrightarrow> a \<in> set [ArchX64, ArchARM64]"

definition SortedArchs :: "Arch list \<Rightarrow> Arch list" where
  "SortedArchs archs = sort (remdups archs)"

definition JoinArchs :: "Arch list \<Rightarrow> string" where
  "JoinArchs archs = Join (SortedArchs archs) '',''"

definition SplitArchs :: "string \<Rightarrow> Arch list result" where
  "SplitArchs s =
     (if s = [] then Inr []
      else let parts = Split s (CHR '','')
           in if list_all ArchValid parts then Inr (SortedArchs parts) else Inl ErrInvalid)"

section \<open>Purchasable shapes\<close>

record RemoteShape =
  s_type :: string
  s_vcpu :: int
  s_memory :: int
  s_price :: int
  s_arch :: Arch

fun checkShapesFrom :: "ProviderKind \<Rightarrow> string list \<Rightarrow> RemoteShape list \<Rightarrow> bool" where
  "checkShapesFrom p seen [] = True"
| "checkShapesFrom p seen (it # rest) =
     (let name = TrimSpace (s_type it)
      in name \<noteq> [] \<and> name \<notin> set seen \<and> 0 < s_vcpu it \<and> 0 < s_memory it
         \<and> (s_arch it = [] \<or> (p = ProviderEC2 \<and> ArchValid (s_arch it)))
         \<and> checkShapesFrom p (name # seen) rest)"

definition CheckRemoteShapes :: "ProviderKind \<Rightarrow> RemoteShape list \<Rightarrow> bool" where
  "CheckRemoteShapes p types \<longleftrightarrow> types \<noteq> [] \<and> checkShapesFrom p [] types"

text \<open>
  The ledger stores a catalogue as JSON, which is written and read by one library; the
  column holds the list itself here, and reading it validates it again.
\<close>

definition decodeRemoteShapes :: "ProviderKind \<Rightarrow> RemoteShape list \<Rightarrow> RemoteShape list result" where
  "decodeRemoteShapes kind stored =
     (if stored = [] then Inr []
      else if CheckRemoteShapes kind stored then Inr stored else Inl ErrInvalid)"

fun samePlacement :: "RemoteShape list \<Rightarrow> RemoteShape list \<Rightarrow> bool" where
  "samePlacement (c # cs) (n # ns) =
     (s_type c = s_type n \<and> s_vcpu c = s_vcpu n \<and> s_memory c = s_memory n \<and> samePlacement cs ns)"
| "samePlacement [] [] = True"
| "samePlacement _ _ = False"

definition sameEC2PlacementShapes ::
  "ProviderKind \<Rightarrow> RemoteShape list \<Rightarrow> RemoteShape list \<Rightarrow> bool result" where
  "sameEC2PlacementShapes kind encoded next_shapes =
     (case decodeRemoteShapes kind encoded of
        Inl e \<Rightarrow> Inl e
      | Inr current \<Rightarrow> Inr (samePlacement current next_shapes))"

definition CheckNodeArchitectures :: "ProviderKind \<Rightarrow> Arch list \<Rightarrow> RemoteShape list \<Rightarrow> bool" where
  "CheckNodeArchitectures kind archs shapes =
     (if archs = [] then True
      else if \<not> list_all ArchValid archs then False
      else if kind = ProviderEC2
      then JoinArchs archs = JoinArchs (filter (\<lambda>a. a \<noteq> []) (map s_arch shapes))
      else length (SortedArchs archs) = 1)"

section \<open>Node policies\<close>

record NodePolicy =
  np_name :: string
  np_provider :: ProviderKind
  np_guestOS :: "GuestOS list"
  np_macOSVMLimit :: "int option"

definition DefaultMacOSVMLimit :: int where
  "DefaultMacOSVMLimit = 2"

definition AllowsGuestOS :: "NodePolicy \<Rightarrow> GuestOS \<Rightarrow> bool" where
  "AllowsGuestOS p g \<longleftrightarrow> np_guestOS p = [] \<or> g \<in> set (np_guestOS p)"

definition MacOSLimit :: "NodePolicy \<Rightarrow> int" where
  "MacOSLimit p =
     (if \<not> AllowsGuestOS p GuestMacOS then 0
      else case np_macOSVMLimit p of None \<Rightarrow> DefaultMacOSVMLimit | Some n \<Rightarrow> n)"

section \<open>Tiers\<close>

text \<open>
  Of a tier, the fields the allocator reads. \<open>t_egress\<close> says whether
  \<open>network.egress\<close> is written, and \<open>t_launch\<close> holds the image of each
  \<open>launch\<close> entry.
\<close>

record CacheToggle =
  ct_enabled :: "bool option"
  ct_maxSize :: int

record TierCache =
  tc_publish :: string
  tc_docker :: "CacheToggle option"
  tc_stickyDisks :: "CacheToggle option"
  tc_maxArchive :: "int option"

record Tier =
  t_label :: string
  t_vcpu :: int
  t_memory :: int
  t_maxConcurrent :: int
  t_reserved :: int
  t_provider :: ProviderKind
  t_providers :: "ProviderKind list"
  t_node :: string
  t_site :: string
  t_guestOS :: GuestOS
  t_arch :: Arch
  t_target :: string
  t_trusted :: bool
  t_repositoryScope :: bool
  t_cache :: "TierCache option"
  t_egress :: bool
  t_image :: string
  t_launch :: "(ProviderKind \<times> string) list"

definition AcceptableProviders :: "Tier \<Rightarrow> ProviderKind list" where
  "AcceptableProviders t =
     (if t_providers t \<noteq> [] then t_providers t
      else if t_provider t \<noteq> [] then [t_provider t] else [])"

definition DefaultTargetName :: string where
  "DefaultTargetName = ''default''"

definition ShareTarget :: "Tier \<Rightarrow> string" where
  "ShareTarget t = (if t_target t = [] then DefaultTargetName else t_target t)"

abbreviation "GiB \<equiv> (1073741824 :: int)"

text \<open>One cache's setting: whether it is on, and its largest size.\<close>

definition toggle :: "CacheToggle option \<Rightarrow> bool \<Rightarrow> int \<Rightarrow> bool \<times> int" where
  "toggle t enabled dflt =
     (case t of
        None \<Rightarrow> (enabled, dflt)
      | Some c \<Rightarrow>
          ((case ct_enabled c of None \<Rightarrow> enabled | Some b \<Rightarrow> b),
           (if 0 < ct_maxSize c then ct_maxSize c else dflt)))"

definition defaultPublish :: "Tier \<Rightarrow> string \<Rightarrow> string" where
  "defaultPublish t publish =
     (if publish \<noteq> [] then publish
      else if \<not> t_trusted t \<and> t_repositoryScope t then ''default-branch''
      else ''trusted-only'')"

definition NeedsCacheAwareNode :: "Tier \<Rightarrow> bool" where
  "NeedsCacheAwareNode t =
     (let c = (case t_cache t of
                 None \<Rightarrow> \<lparr>tc_publish = [], tc_docker = None, tc_stickyDisks = None,
                          tc_maxArchive = None\<rparr>
               | Some c \<Rightarrow> c);
          publish = defaultPublish t (tc_publish c);
          docker = toggle (tc_docker c) True (100 * GiB);
          sticky = toggle (tc_stickyDisks c) True (100 * GiB);
          actionsMax = (case tc_maxArchive c of
                          None \<Rightarrow> 10 * GiB
                        | Some m \<Rightarrow> if 0 < m then m else 10 * GiB)
      in publish = ''default-branch''
         \<or> (t_trusted t \<and> publish \<noteq> ''trusted-only'')
         \<or> docker \<noteq> (True, 100 * GiB)
         \<or> sticky \<noteq> (True, 100 * GiB)
         \<or> actionsMax \<noteq> 10 * GiB)"

definition NeedsEgressAwareNode :: "Tier \<Rightarrow> bool" where
  "NeedsEgressAwareNode t = t_egress t"

definition ImageFor :: "Tier \<Rightarrow> ProviderKind \<Rightarrow> string" where
  "ImageFor t p = (case map_of (t_launch t) p of Some img \<Rightarrow> img | None \<Rightarrow> t_image t)"

text \<open>The base of \<open><image>@verified\<close>, and \<open>None\<close> for any other reference.\<close>

definition TartVerifiedImage :: "string \<Rightarrow> string option" where
  "TartVerifiedImage ref =
     (let s = TrimSpace ref; suf = ''@verified''; n = length s - length suf
      in if length suf < length s \<and> drop n s = suf then Some (take n s) else None)"

definition NamesTartVerified :: "Tier \<Rightarrow> bool" where
  "NamesTartVerified t \<longleftrightarrow> TartVerifiedImage (ImageFor t ProviderTart) \<noteq> None"

section \<open>The allocator\<close>

datatype PlacementPolicy = PlacementUnset | PlacementPack | PlacementSpread | PlacementTightest

definition PolicyOr :: "PlacementPolicy \<Rightarrow> PlacementPolicy" where
  "PolicyOr p = (if p = PlacementUnset then PlacementPack else p)"

record TargetShare =
  ts_vcpu :: int
  ts_memory :: int

record Limits =
  l_maxVCPU :: int
  l_maxMemory :: int
  l_nodes :: "(string \<times> NodePolicy) list"
  l_shares :: "(string \<times> TargetShare) list"

record Allocator =
  a_limits :: Limits
  a_tiers :: "Tier list"
  a_namesArch :: bool
  a_leaseTTL :: int
  a_placement :: PlacementPolicy

definition tierOf :: "Allocator \<Rightarrow> string \<Rightarrow> Tier option" where
  "tierOf a label = find (\<lambda>t. t_label t = label) (a_tiers a)"

definition macOSLimit :: "Allocator \<Rightarrow> string \<Rightarrow> int" where
  "macOSLimit a node =
     (case map_of (l_nodes (a_limits a)) node of
        Some p \<Rightarrow> MacOSLimit p
      | None \<Rightarrow> DefaultMacOSVMLimit)"

definition allowsGuestOS :: "Allocator \<Rightarrow> string \<Rightarrow> GuestOS \<Rightarrow> bool" where
  "allowsGuestOS a node os =
     (case map_of (l_nodes (a_limits a)) node of
        None \<Rightarrow> True
      | Some p \<Rightarrow> AllowsGuestOS p os)"

text \<open>
  What \<open>New\<close> has checked of the catalogue it is given: one tier a label, positive sizes,
  no negative floor, one share a target.
\<close>

definition allocOK :: "Allocator \<Rightarrow> bool" where
  "allocOK a \<longleftrightarrow>
     distinct (map t_label (a_tiers a)) \<and> distinct (map fst (l_shares (a_limits a)))
     \<and> (\<forall>t \<in> set (a_tiers a). 0 < t_vcpu t \<and> 0 < t_memory t \<and> 0 \<le> t_reserved t)"

lemma tierOf_label: "tierOf a label = Some t \<Longrightarrow> t_label t = label \<and> t \<in> set (a_tiers a)"
  by (auto simp: tierOf_def find_Some_iff)

lemma CheckRemoteShapes_positive:
  assumes "CheckRemoteShapes p types" and "s \<in> set types"
  shows "0 < s_vcpu s \<and> 0 < s_memory s"
proof -
  have "checkShapesFrom p seen types \<Longrightarrow> s \<in> set types \<Longrightarrow> 0 < s_vcpu s \<and> 0 < s_memory s" for seen
    by (induction p seen types rule: checkShapesFrom.induct) (auto simp: Let_def)
  then show ?thesis using assms by (auto simp: CheckRemoteShapes_def)
qed

lemma decodeRemoteShapes_positive:
  assumes "decodeRemoteShapes kind stored = Inr shapes" and "s \<in> set shapes"
  shows "0 < s_vcpu s \<and> 0 < s_memory s"
  using assms CheckRemoteShapes_positive
  by (auto simp: decodeRemoteShapes_def split: if_splits)

end
