(* ===== verification/Encoding.thy ===== *)
theory Encoding
  imports Catalog
begin

text \<open>
  The texts the ledger keeps: a tier's provider preference (\<open>encodeProviders\<close>,
  \<open>decodeProviders\<close>) and the packed lease references of a batched renewal
  (\<open>packLeaseRefs\<close>, with the recursive halving of the statement \<open>HeartbeatLeases\<close>
  that reads them back). Both are shown to read back what was written; the halving is shown
  to end and to lose no record.
\<close>

section \<open>Provider preferences\<close>

definition encodeProviders :: "ProviderKind list \<Rightarrow> string" where
  "encodeProviders ps = Join ps '',''"

definition decodeProviders :: "string \<Rightarrow> ProviderKind list" where
  "decodeProviders s =
     (if s = [] then []
      else let parts = Split s (CHR '','')
           in if list_all ProviderValid parts then parts else [])"

lemma ProviderValid_text: "ProviderValid p \<Longrightarrow> p \<noteq> [] \<and> CHR '','' \<notin> set p"
  by (auto simp: ProviderValid_def allProviders_def)

section \<open>Decimal numbers of fixed width\<close>

definition digitChar :: "nat \<Rightarrow> char" where
  "digitChar n = char_of (48 + n)"

definition digitVal :: "char \<Rightarrow> nat" where
  "digitVal c = of_char c - 48"

fun decimal :: "nat \<Rightarrow> string" where
  "decimal n = (if n < 10 then [digitChar n] else decimal (n div 10) @ [digitChar (n mod 10)])"

declare decimal.simps [simp del]

definition zeroPad :: "nat \<Rightarrow> string \<Rightarrow> string" where
  "zeroPad w s = replicate (w - length s) (CHR ''0'') @ s"

definition spacePad :: "nat \<Rightarrow> string \<Rightarrow> string" where
  "spacePad w s = s @ replicate (w - length s) (CHR '' '')"

definition castBigint :: "string \<Rightarrow> int" where
  "castBigint s = int (foldl (\<lambda>acc c. acc * 10 + digitVal c) 0 s)"

definition rtrim :: "string \<Rightarrow> string" where
  "rtrim s = rev (dropWhile (\<lambda>c. c = CHR '' '') (rev s))"

section \<open>Packed lease references\<close>

record LeaseRef =
  lr_id :: string
  lr_epoch :: int

abbreviation "packedLeaseIDWidth \<equiv> (64 :: nat)"
abbreviation "packedEpochWidth \<equiv> (19 :: nat)"

definition packable :: "LeaseRef \<Rightarrow> bool" where
  "packable ref \<longleftrightarrow>
     lr_id ref \<noteq> [] \<and> length (lr_id ref) \<le> packedLeaseIDWidth \<and> 0 \<le> lr_epoch ref
     \<and> list_all (\<lambda>c. CHR '' '' < c \<and> c \<le> CHR ''~'') (lr_id ref)"

definition packRef :: "LeaseRef \<Rightarrow> string" where
  "packRef ref = spacePad packedLeaseIDWidth (lr_id ref)
     @ zeroPad packedEpochWidth (decimal (nat (lr_epoch ref)))"

definition packLeaseRefs :: "LeaseRef list \<Rightarrow> string \<times> nat \<times> bool list" where
  "packLeaseRefs refs =
     (concat (map packRef (filter packable refs)), length (filter packable refs), map packable refs)"

text \<open>
  The statement's recursive cut: a part of at least two records is split into its first
  half of records and the rest, and the parts of one record are read.
\<close>

function halve :: "string \<Rightarrow> string list" where
  "halve rec =
     (if 166 \<le> length rec
      then let k = length rec div 166 * 83 in halve (take k rec) @ halve (drop k rec)
      else if length rec = 83 then [rec] else [])"
  by auto
termination
proof (relation "measure length")
  fix r :: string and k :: nat
  assume r: "166 \<le> length r" and k: "k = length r div 166 * 83"
  have "1 \<le> length r div 166" using r by (simp add: div_greater_zero_iff Suc_le_eq)
  then have "83 \<le> k" using k by simp
  moreover have "k < length r" using k r by linarith
  ultimately show "(take k r, r) \<in> measure length" "(drop k r, r) \<in> measure length" by auto
qed simp

declare halve.simps [simp del]

definition parts :: "string \<Rightarrow> string list" where
  "parts packed = (if 83 \<le> length packed \<and> length packed mod 83 = 0 then halve packed else [])"

definition unpackRef :: "string \<Rightarrow> LeaseRef" where
  "unpackRef rec = \<lparr>lr_id = rtrim (take 64 rec), lr_epoch = castBigint (take 19 (drop 64 rec))\<rparr>"

section \<open>Round trips\<close>

text \<open>
  A lease's provider preference survives the ledger: reading back what was written
  gives the same list in the same order. And reading fails closed: whatever the text, the
  list read is made only of providers this version knows, and any unknown entry empties it
  rather than leaving a narrower list that would still authorise a host.
\<close>

lemma providers_roundtrip:
  "(list_all ProviderValid ps \<longrightarrow> decodeProviders (encodeProviders ps) = ps)
   \<and> list_all ProviderValid (decodeProviders s)
   \<and> (\<not> list_all ProviderValid (Split s (CHR '','')) \<longrightarrow> decodeProviders s = [])"
proof (intro conjI impI)
  assume v: "list_all ProviderValid ps"
  show "decodeProviders (encodeProviders ps) = ps"
  proof (cases ps)
    case (Cons p qs)
    have "Split (encodeProviders ps) (CHR '','') = ps"
      unfolding encodeProviders_def
      using v Cons ProviderValid_text by (intro Split_Join) (auto simp: list_all_iff)
    moreover have "encodeProviders ps \<noteq> []"
      using v Cons ProviderValid_text [of p] by (cases qs) (auto simp: encodeProviders_def)
    ultimately show ?thesis using v by (simp add: decodeProviders_def)
  qed (simp add: decodeProviders_def encodeProviders_def)
qed (auto simp: decodeProviders_def Let_def)

lemma digit_inverse: "n < 10 \<Longrightarrow> digitVal (digitChar n) = n"
  by (simp add: digitVal_def digitChar_def)

lemma castBigint_app:
  "castBigint (s @ [c]) = castBigint s * 10 + int (digitVal c)"
  by (simp add: castBigint_def)

lemma castBigint_zeros: "castBigint (replicate k (CHR ''0'') @ s) = castBigint s"
proof -
  have "foldl (\<lambda>acc c. acc * 10 + digitVal c) 0 (replicate k (CHR ''0'')) = 0"
    by (induction k) (simp_all add: digitVal_def)
  then show ?thesis by (simp add: castBigint_def)
qed

lemma castBigint_decimal: "castBigint (decimal n) = int n"
proof (induction n rule: decimal.induct)
  case (1 n)
  show ?case
  proof (cases "n < 10")
    case True
    then show ?thesis by (subst decimal.simps) (simp add: castBigint_def digit_inverse)
  next
    case False
    then show ?thesis
      using 1 zdiv_int [of n 10] zmod_int [of n 10] div_mult_mod_eq [of "int n" 10]
      by (subst decimal.simps) (simp add: castBigint_app digit_inverse)
  qed
qed

lemma length_decimal: "n < 10 ^ w \<Longrightarrow> 0 < w \<Longrightarrow> length (decimal n) \<le> w"
proof (induction w arbitrary: n)
  case (Suc w)
  show ?case
  proof (cases "n < 10")
    case False
    then have "0 < w" using Suc.prems by (cases w) auto
    moreover have "n div 10 < 10 ^ w" using Suc.prems by (simp add: less_mult_imp_div_less mult.commute)
    ultimately show ?thesis using Suc.IH [of "n div 10"] False by (subst decimal.simps) simp
  qed (subst decimal.simps, simp)
qed simp

lemma length_packRef:
  assumes "packable ref" and "lr_epoch ref \<le> maxInt64"
  shows "length (packRef ref) = 83"
proof -
  have "nat (lr_epoch ref) < 10 ^ 19"
    using assms by (simp add: packable_def maxInt64_def)
  then have "length (decimal (nat (lr_epoch ref))) \<le> 19" by (rule length_decimal) simp
  then show ?thesis using assms(1) by (simp add: packRef_def spacePad_def zeroPad_def packable_def)
qed

lemma rtrim_pad:
  assumes "s \<noteq> []" and "last s \<noteq> CHR '' ''"
  shows "rtrim (s @ replicate k (CHR '' '')) = s"
proof -
  have "dropWhile (\<lambda>c. c = CHR '' '') (replicate k (CHR '' '') @ rev s) = rev s"
    using assms by (induction k) (auto simp: dropWhile_eq_self_iff hd_rev)
  then show ?thesis by (simp add: rtrim_def)
qed

lemma unpack_packRef:
  assumes "packable ref" and "lr_epoch ref \<le> maxInt64"
  shows "unpackRef (packRef ref) = ref"
proof -
  have id: "lr_id ref \<noteq> []" "length (lr_id ref) \<le> 64" using assms(1) by (simp_all add: packable_def)
  have "CHR '' '' < last (lr_id ref)"
    using assms(1) last_in_set [OF id(1)] by (simp add: packable_def list_all_iff)
  then have last: "last (lr_id ref) \<noteq> CHR '' ''" by (metis less_irrefl)
  have "nat (lr_epoch ref) < 10 ^ 19" using assms by (simp add: packable_def maxInt64_def)
  then have "length (decimal (nat (lr_epoch ref))) \<le> 19" by (rule length_decimal) simp
  then have "castBigint (take 19 (zeroPad 19 (decimal (nat (lr_epoch ref))))) = lr_epoch ref"
    using assms(1) by (simp add: zeroPad_def castBigint_zeros castBigint_decimal packable_def)
  then show ?thesis
    using id last by (simp add: unpackRef_def packRef_def spacePad_def rtrim_pad)
qed

text \<open>Cutting a string of whole records gives its records, in order.\<close>

lemma halve_records:
  "\<forall>x \<in> set xs. length x = 83 \<Longrightarrow> xs \<noteq> [] \<Longrightarrow> halve (concat xs) = xs"
proof (induction "length xs" arbitrary: xs rule: less_induct)
  case less
  have len: "length (concat ys) = length ys * 83" if "set ys \<subseteq> set xs" for ys
    using that less.prems(1) by (induction ys) auto
  show ?case
  proof (cases "length xs < 2")
    case True
    then obtain x where "xs = [x]" using less.prems(2) by (cases xs) auto
    then show ?thesis using less.prems(1) by (subst halve.simps) simp
  next
    case False
    let ?n = "length xs div 2"
    have n: "0 < ?n" "?n < length xs" using False by auto
    have k: "length (concat xs) div 166 * 83 = ?n * 83" using len [of xs] by simp
    have cut: "concat xs = concat (take ?n xs) @ concat (drop ?n xs)"
      by (metis append_take_drop_id concat_append)
    have t: "length (concat (take ?n xs)) = ?n * 83"
      using len [of "take ?n xs"] n by (simp add: set_take_subset)
    have "halve (concat (take ?n xs)) = take ?n xs"
      using less n by (intro less.hyps) (auto dest: in_set_takeD)
    moreover have "halve (concat (drop ?n xs)) = drop ?n xs"
      using less n by (intro less.hyps) (auto dest: in_set_dropD)
    moreover have "166 \<le> length (concat xs)" using len [of xs] False by simp
    ultimately show ?thesis
      using cut t k by (subst halve.simps) (simp add: Let_def)
  qed
qed

lemma parts_records:
  assumes "\<forall>x \<in> set xs. length x = 83"
  shows "parts (concat xs) = xs"
proof (cases xs)
  case (Cons x ys)
  have "length (concat zs) = length zs * 83" if "set zs \<subseteq> set xs" for zs
    using that assms by (induction zs) auto
  from this [of xs] show ?thesis using halve_records [OF assms] Cons by (simp add: parts_def)
qed (simp add: parts_def)

lemma unpack_packLeaseRefs:
  assumes "\<forall>ref \<in> set refs. lr_epoch ref \<le> maxInt64"
  shows "map unpackRef (parts (fst (packLeaseRefs refs))) = filter packable refs"
proof -
  have p: "\<forall>ref \<in> set (filter packable refs). packable ref \<and> lr_epoch ref \<le> maxInt64"
    using assms by simp
  have cut: "parts (concat (map packRef (filter packable refs))) = map packRef (filter packable refs)"
    using p length_packRef by (intro parts_records) auto
  have "map unpackRef (map packRef xs) = xs" if "set xs \<subseteq> set (filter packable refs)" for xs
    using that
  proof (induction xs)
    case (Cons x xs)
    have "x \<in> set (filter packable refs)" using Cons.prems by simp
    then have "packable x \<and> lr_epoch x \<le> maxInt64" using p by blast
    then show ?case using Cons unpack_packRef by simp
  qed simp
  from this [of "filter packable refs"] show ?thesis
    using cut by (simp add: packLeaseRefs_def)
qed

text \<open>
  C24. A batched renewal renews exactly the leases it packed: for references whose epochs
  are 64-bit, cutting the packed string in halves until every part is one record reads back
  every packable reference, in order and nothing else, with the id's padding removed and
  the epoch it was packed with.
\<close>

theorem packLeaseRefs_roundtrip:
  assumes "\<forall>ref \<in> set refs. lr_epoch ref \<le> maxInt64"
  shows "map unpackRef (parts (fst (packLeaseRefs refs))) = filter packable refs"
  using assms by (rule unpack_packLeaseRefs)

theorem packLeaseRefs_roundtrip_witness:
  "map unpackRef (parts (fst (packLeaseRefs
     [\<lparr>lr_id = ''lease-a'', lr_epoch = 3\<rparr>, \<lparr>lr_id = ''no good'', lr_epoch = 1\<rparr>,
      \<lparr>lr_id = ''b'', lr_epoch = 12\<rparr>])))
   = [\<lparr>lr_id = ''lease-a'', lr_epoch = 3\<rparr>, \<lparr>lr_id = ''b'', lr_epoch = 12\<rparr>]"
proof -
  let ?refs = "[\<lparr>lr_id = ''lease-a'', lr_epoch = 3\<rparr>, \<lparr>lr_id = ''no good'', lr_epoch = 1\<rparr>,
      \<lparr>lr_id = ''b'', lr_epoch = 12\<rparr>]"
  have "filter packable ?refs = [\<lparr>lr_id = ''lease-a'', lr_epoch = 3\<rparr>, \<lparr>lr_id = ''b'', lr_epoch = 12\<rparr>]"
    by code_simp
  then show ?thesis using packLeaseRefs_roundtrip [of ?refs] by (simp add: maxInt64_def)
qed

end
