(* ===== verification/Ledger.thy ===== *)
theory Ledger
  imports Lease_Phase Encoding
begin

text \<open>
  The ledger: the tables the allocator reads and writes inside one transaction, and the
  statements of \<open>internal/state/queries/*.sql\<close> it runs on them, named as the code calls
  them. A transaction of the single-writer store runs alone, so an operation is a function
  from a ledger to an error or a new ledger, and an error leaves the old one.

  A \<open>NULL\<close> host or job identity is \<open>None\<close>. Timestamps are nanoseconds; the
  columns hold their fixed-width rendering, whose text order is their order in time
  (theory \<open>Timestamps\<close>). Columns that only record what a cache did are left out.
\<close>

section \<open>Tables\<close>

record LeaseRow =
  r_id :: string
  r_tier :: string
  r_node :: "string option"
  r_target :: "string option"
  r_macosSlot :: bool
  r_guestOS :: GuestOS
  r_providers :: string
  r_chosenProvider :: ProviderKind
  r_phase :: Phase
  r_vcpu :: int
  r_memory :: int
  r_requestedVCPU :: int
  r_requestedMemory :: int
  r_instanceType :: string
  r_site :: string
  r_price :: int
  r_epoch :: int
  r_createdAt :: int
  r_heartbeatAt :: int
  r_expiresAt :: int
  r_runID :: "int option"
  r_requestID :: "int option"
  r_heldAt :: "int option"
  r_forceRelease :: bool
  r_holder :: string
  r_failureReason :: string
  r_disruption :: string
  r_disruptedAt :: "int option"
  r_deregistered :: bool

record NodeRow =
  n_name :: string
  n_provider :: ProviderKind
  n_site :: string
  n_vcpu :: int
  n_memory :: int
  n_shapes :: "RemoteShape list"
  n_architectures :: string
  n_live :: bool
  n_drained :: bool
  n_epoch :: int
  n_dispatch :: int
  n_lastSeenAt :: int
  n_incarnation :: string
  n_release :: string
  n_highestRelease :: string
  n_digest :: string
  n_wireMin :: int
  n_wireMax :: int
  n_wireVersion :: int
  n_fleet :: string
  n_jitPath :: string
  n_region :: string
  n_decommissionedAt :: "int option"
  n_decommissionProven :: bool
  n_decommissionActor :: string

record HistoryRow =
  h_leaseID :: string
  h_tier :: string
  h_node :: "string option"
  h_runID :: "int option"
  h_requestID :: "int option"
  h_conclusion :: "Phase option"
  h_result :: string
  h_failureReason :: string
  h_disruption :: string
  h_disruptedAt :: "int option"
  h_chosenProvider :: ProviderKind
  h_instanceType :: string
  h_vcpu :: int
  h_memory :: int
  h_site :: string
  h_price :: int
  h_holder :: string
  h_queuedAt :: int
  h_assignedAt :: "int option"
  h_startedAt :: "int option"
  h_finishedAt :: "int option"
  h_boughtAt :: "int option"
  h_launchedAt :: "int option"
  h_launchIncarnation :: string
  h_custodyAt :: "int option"
  h_teardownAt :: "int option"
  h_quarantinedAt :: "int option"
  h_usageSeq :: int

record PoolOrder =
  po_orderID :: string
  po_source :: string
  po_scope :: string
  po_shape :: string
  po_location :: string
  po_arch :: string
  po_state :: string
  po_hostID :: string
  po_nodeName :: string
  po_reason :: string
  po_firstAttemptAt :: int
  po_updatedAt :: int
  po_fingerprint :: string
  po_certSerial :: string
  po_joinHold :: string
  po_releaseRequestedAt :: "int option"
  po_releaseReason :: string
  po_contradicted :: bool
  po_clearEpoch :: int
  po_clearDispatch :: int
  po_clearSince :: "int option"
  po_clearObservedAt :: "int option"
  po_clearGeneration :: int

text \<open>
  The credentials: join tokens (kept as the hash of the secret), the machines that asked to
  join, the certificates handed out and those taken back, and the instant before which every
  certificate of a node is refused. The end of a certificate's validity is kept as the text its
  issuer wrote.
\<close>

record JoinTokenRow =
  jt_sha256 :: string
  jt_note :: string
  jt_uses :: int
  jt_createdAt :: int
  jt_expiresAt :: int
  jt_poolOrder :: string

record Enrollment =
  en_name :: string
  en_fingerprint :: string
  en_csr :: string
  en_cert :: string
  en_state :: string
  en_source :: string
  en_requestedAt :: int
  en_decidedAt :: "int option"
  en_poolOrder :: string

record IssuedCert =
  ic_serial :: string
  ic_node :: string
  ic_source :: string
  ic_notAfter :: string
  ic_issuedAt :: int

record RevokedCert =
  rv_serial :: string
  rv_node :: string
  rv_reason :: string
  rv_revokedAt :: int

record NodeRevocation =
  nr_node :: string
  nr_revokedBefore :: int
  nr_reason :: string
  nr_revokedAt :: int

record Credentials =
  joinTokens :: "JoinTokenRow list"
  enrollments :: "Enrollment list"
  issuedCerts :: "IssuedCert list"
  revokedCerts :: "RevokedCert list"
  nodeRevocations :: "NodeRevocation list"

text \<open>What a host last said it was running, and its continuous empty run under a barrier.\<close>

record InventoryRow =
  iv_node :: string
  iv_epoch :: int
  iv_receivedAt :: int
  iv_running :: int

record BarrierRow =
  br_node :: string
  br_barrierID :: string
  br_epoch :: int
  br_dispatch :: int
  br_emptySince :: int
  br_observedAt :: int

record ComputeBarrier =
  cb_id :: string
  cb_generation :: int
  cb_requestedAt :: int
  cb_requestedBy :: string

datatype AdmissionMode = AdmissionOpen | AdmissionSealed | AdmissionUnknown

text \<open>The rest of the admission row.\<close>

record Seal =
  sl_generation :: int
  sl_provenance :: string
  sl_reason :: string
  sl_actor :: string
  sl_changedAt :: int

record Ledger =
  leases :: "LeaseRow list"
  nodes :: "NodeRow list"
  history :: "HistoryRow list"
  pending :: "(string \<times> string) list"
  poolOrders :: "PoolOrder list"
  admission :: AdmissionMode
  seal :: Seal
  tierReleases :: "(string \<times> int) list"
  usageSeq :: int
  inventories :: "InventoryRow list"
  barrier :: "ComputeBarrier option"
  barrierRuns :: "BarrierRow list"
  credentials :: Credentials

section \<open>Predicates and sums on leases\<close>

definition isOpen :: "LeaseRow \<Rightarrow> bool" where
  [query_defs]: "isOpen r \<longleftrightarrow> \<not> Terminal (r_phase r)"

text \<open>\<open>COALESCE(node, target_node)\<close>, and with the empty string last.\<close>

definition coalesceNode :: "LeaseRow \<Rightarrow> string option" where
  "coalesceNode r = (case r_node r of Some n \<Rightarrow> Some n | None \<Rightarrow> r_target r)"

definition attributedTo :: "LeaseRow \<Rightarrow> string" where
  "attributedTo r = (case coalesceNode r of Some n \<Rightarrow> n | None \<Rightarrow> [])"

record Usage =
  u_vcpu :: int
  u_memory :: int
  u_leases :: int

definition TotalUsage :: "LeaseRow list \<Rightarrow> Usage" where
  "TotalUsage ls = \<lparr>u_vcpu = sum_where isOpen r_vcpu ls, u_memory = sum_where isOpen r_memory ls,
     u_leases = count_where isOpen ls\<rparr>"

definition UsageOnNode :: "LeaseRow list \<Rightarrow> string \<Rightarrow> Usage" where
  "UsageOnNode ls node =
     (let mine = (\<lambda>r. isOpen r \<and> coalesceNode r = Some node)
      in \<lparr>u_vcpu = sum_where mine r_vcpu ls, u_memory = sum_where mine r_memory ls,
          u_leases = count_where mine ls\<rparr>)"

definition CountOpenInTier :: "LeaseRow list \<Rightarrow> string \<Rightarrow> int" where
  "CountOpenInTier ls tier = count_where (\<lambda>r. isOpen r \<and> r_tier r = tier) ls"

definition UsageByTier :: "LeaseRow list \<Rightarrow> (string \<times> int \<times> int) list" where
  "UsageByTier ls =
     map (\<lambda>tier. (tier, sum_where (\<lambda>r. isOpen r \<and> r_tier r = tier) r_vcpu ls,
                        sum_where (\<lambda>r. isOpen r \<and> r_tier r = tier) r_memory ls))
       (remdups (map r_tier (filter isOpen ls)))"

text \<open>One host's row of \<open>UsageByNode\<close>; a host with no open lease has no row and reads as zero.\<close>

record nodeUsage =
  nu_vcpu :: int
  nu_memory :: int
  nu_macOS :: int

definition usageOfHost :: "LeaseRow list \<Rightarrow> string \<Rightarrow> nodeUsage" where
  "usageOfHost ls node =
     (let mine = (\<lambda>r. isOpen r \<and> attributedTo r = node)
      in \<lparr>nu_vcpu = sum_where mine r_vcpu ls, nu_memory = sum_where mine r_memory ls,
          nu_macOS = count_where (\<lambda>r. mine r \<and> r_macosSlot r) ls\<rparr>)"

definition leasesOfTierOn :: "LeaseRow list \<Rightarrow> string \<Rightarrow> string \<Rightarrow> int" where
  "leasesOfTierOn ls node tier =
     count_where (\<lambda>r. isOpen r \<and> attributedTo r = node \<and> r_tier r = tier) ls"

definition findLease :: "Ledger \<Rightarrow> string \<Rightarrow> LeaseRow option" where
  "findLease d i = find (\<lambda>r. r_id r = i) (leases d)"

definition findNode :: "Ledger \<Rightarrow> string \<Rightarrow> NodeRow option" where
  "findNode d name = find (\<lambda>n. n_name n = name) (nodes d)"

definition ListPlaceableNodes :: "Ledger \<Rightarrow> NodeRow list" where
  "ListPlaceableNodes d = sort_key n_name (filter (\<lambda>n. n_live n \<and> \<not> n_drained n) (nodes d))"

definition ListLiveNodeNames :: "Ledger \<Rightarrow> string list" where
  "ListLiveNodeNames d = sort (map n_name (filter n_live (nodes d)))"

definition hostIsLive :: "Ledger \<Rightarrow> string option \<Rightarrow> bool" where
  "hostIsLive d host =
     (case host of None \<Rightarrow> False
      | Some name \<Rightarrow> (case findNode d name of None \<Rightarrow> False | Some n \<Rightarrow> n_live n))"

definition CountOpenPerTierOnLiveHosts :: "Ledger \<Rightarrow> string \<Rightarrow> int" where
  "CountOpenPerTierOnLiveHosts d tier =
     count_where (\<lambda>r. isOpen r \<and> (attributedTo r = [] \<or> hostIsLive d (coalesceNode r))
                      \<and> r_tier r = tier) (leases d)"

definition CountLiveWorkOnNode :: "Ledger \<Rightarrow> string \<Rightarrow> int \<Rightarrow> int" where
  "CountLiveWorkOnNode d node now =
     count_where (\<lambda>r. coalesceNode r = Some node \<and> isOpen r
       \<and> (hadCompute (r_phase r) \<or> r_phase r = PhaseQuarantine \<or> now < r_expiresAt r)) (leases d)"

definition ListExpiredLeases :: "Ledger \<Rightarrow> int \<Rightarrow> nat \<Rightarrow> LeaseRow list" where
  "ListExpiredLeases d cutoff maxRows =
     take maxRows (sort_key r_expiresAt
       (filter (\<lambda>r. isOpen r \<and> r_phase r \<noteq> PhaseQuarantine \<and> r_expiresAt r \<le> cutoff) (leases d)))"

section \<open>Statements that write\<close>

text \<open>Every fenced statement names a lease by its id at an epoch.\<close>

definition atEpoch :: "string \<Rightarrow> int \<Rightarrow> LeaseRow \<Rightarrow> bool" where
  "atEpoch i e r \<longleftrightarrow> r_id r = i \<and> r_epoch r = e"

definition updLease :: "(LeaseRow \<Rightarrow> bool) \<Rightarrow> (LeaseRow \<Rightarrow> LeaseRow) \<Rightarrow> Ledger \<Rightarrow> Ledger" where
  "updLease P f d = d\<lparr>leases := upd_where P f (leases d)\<rparr>"

definition updNode :: "(NodeRow \<Rightarrow> bool) \<Rightarrow> (NodeRow \<Rightarrow> NodeRow) \<Rightarrow> Ledger \<Rightarrow> Ledger" where
  "updNode P f d = d\<lparr>nodes := upd_where P f (nodes d)\<rparr>"

definition addLeases :: "LeaseRow list \<Rightarrow> Ledger \<Rightarrow> Ledger" where
  "addLeases rows d = d\<lparr>leases := leases d @ rows\<rparr>"

text \<open>\<open>id\<close> is the table's primary key, so a second row under one id is refused.\<close>

definition InsertLease :: "LeaseRow \<Rightarrow> Ledger \<Rightarrow> Ledger result" where
  "InsertLease r d =
     (if r_id r \<in> set (map r_id (leases d)) then Inl ErrStore
      else Inr (addLeases [r] d))"

definition AssignLease :: "int \<Rightarrow> int \<Rightarrow> int \<Rightarrow> int \<Rightarrow> string \<Rightarrow> int \<Rightarrow> Ledger \<Rightarrow> Ledger" where
  "AssignLease run request now expires i e =
     updLease (atEpoch i e) (\<lambda>r. r\<lparr>r_phase := PhaseAssigned, r_runID := Some run,
       r_requestID := Some request, r_heartbeatAt := now, r_expiresAt := expires\<rparr>)"

definition BindLease :: "string \<Rightarrow> ProviderKind \<Rightarrow> string \<Rightarrow> string \<Rightarrow> int \<Rightarrow> Ledger \<Rightarrow> Ledger" where
  "BindLease node provider holder i e =
     updLease (atEpoch i e) (\<lambda>r. r\<lparr>r_node := Some node, r_chosenProvider := provider,
       r_holder := holder\<rparr>)"

definition ResizeLease :: "int \<Rightarrow> int \<Rightarrow> string \<Rightarrow> int \<Rightarrow> string \<Rightarrow> int \<Rightarrow> Ledger \<Rightarrow> Ledger" where
  "ResizeLease vcpu memory instanceType price i e =
     updLease (atEpoch i e) (\<lambda>r. r\<lparr>r_vcpu := vcpu, r_memory := memory,
       r_instanceType := instanceType, r_price := price\<rparr>)"

definition HeartbeatLease :: "int \<Rightarrow> int \<Rightarrow> string \<Rightarrow> int \<Rightarrow> Ledger \<Rightarrow> Ledger" where
  "HeartbeatLease now expires i e =
     updLease (atEpoch i e) (\<lambda>r. r\<lparr>r_heartbeatAt := now, r_expiresAt := expires\<rparr>)"

definition MarkLeaseFailure :: "string \<Rightarrow> string \<Rightarrow> int \<Rightarrow> Ledger \<Rightarrow> Ledger" where
  "MarkLeaseFailure reason i e = updLease (atEpoch i e) (\<lambda>r. r\<lparr>r_failureReason := reason\<rparr>)"

definition BackfillLeaseFailureReason :: "string \<Rightarrow> string \<Rightarrow> Ledger \<Rightarrow> Ledger" where
  "BackfillLeaseFailureReason reason i =
     updLease (\<lambda>r. r_id r = i \<and> r_phase r = PhaseFailed \<and> r_failureReason r = [])
       (\<lambda>r. r\<lparr>r_failureReason := reason\<rparr>)"

definition MarkLeaseDeregistered :: "string \<Rightarrow> Ledger \<Rightarrow> Ledger" where
  "MarkLeaseDeregistered i = updLease (\<lambda>r. r_id r = i) (\<lambda>r. r\<lparr>r_deregistered := True\<rparr>)"

definition SetLeasePhase :: "Phase \<Rightarrow> string \<Rightarrow> int \<Rightarrow> Ledger \<Rightarrow> Ledger" where
  "SetLeasePhase p i e = updLease (atEpoch i e) (\<lambda>r. r\<lparr>r_phase := p\<rparr>)"

definition HoldLease ::
  "Phase \<Rightarrow> int option \<Rightarrow> int \<Rightarrow> int \<Rightarrow> string \<Rightarrow> string \<Rightarrow> int \<Rightarrow> Ledger \<Rightarrow> Ledger" where
  "HoldLease p heldAt now expires holder i e =
     updLease (atEpoch i e) (\<lambda>r. r\<lparr>r_phase := p, r_heldAt := heldAt, r_heartbeatAt := now,
       r_expiresAt := expires, r_holder := holder\<rparr>)"

definition RefreshLeaseHolder :: "string \<Rightarrow> string \<Rightarrow> int \<Rightarrow> Ledger \<Rightarrow> Ledger" where
  "RefreshLeaseHolder holder i e =
     updLease (\<lambda>r. atEpoch i e r \<and> r_holder r \<noteq> holder) (\<lambda>r. r\<lparr>r_holder := holder\<rparr>)"

definition ReclaimLease :: "Phase \<Rightarrow> int \<Rightarrow> string \<Rightarrow> int \<Rightarrow> Ledger \<Rightarrow> Ledger" where
  "ReclaimLease p heldAt i e =
     updLease (atEpoch i e) (\<lambda>r. r\<lparr>r_phase := p, r_epoch := r_epoch r + 1,
       r_heldAt := (if p = PhaseQuarantine \<and> r_heldAt r = None then Some heldAt else r_heldAt r)\<rparr>)"

lemmas lease_writes =
  AssignLease_def BindLease_def ResizeLease_def HeartbeatLease_def MarkLeaseFailure_def
  BackfillLeaseFailureReason_def MarkLeaseDeregistered_def SetLeasePhase_def HoldLease_def
  RefreshLeaseHolder_def ReclaimLease_def

text \<open>
  The tables' primary keys, the check on a node's name, and sizes that are not negative.
\<close>

definition ledgerOK :: "Ledger \<Rightarrow> bool" where
  "ledgerOK d \<longleftrightarrow>
     distinct (map r_id (leases d)) \<and> distinct (map n_name (nodes d))
     \<and> (\<forall>n \<in> set (nodes d). n_name n \<noteq> [])
     \<and> (\<forall>r \<in> set (leases d). 0 \<le> r_vcpu r \<and> 0 \<le> r_memory r)"

section \<open>Facts the components share\<close>

lemma leases_updLease [simp]: "leases (updLease P f d) = upd_where P f (leases d)"
  by (simp add: updLease_def)

lemma updLease_other [simp]:
  "nodes (updLease P f d) = nodes d" "history (updLease P f d) = history d"
  "pending (updLease P f d) = pending d" "poolOrders (updLease P f d) = poolOrders d"
  "admission (updLease P f d) = admission d" "tierReleases (updLease P f d) = tierReleases d"
  "usageSeq (updLease P f d) = usageSeq d" "inventories (updLease P f d) = inventories d"
  "seal (updLease P f d) = seal d" "barrier (updLease P f d) = barrier d"
  "barrierRuns (updLease P f d) = barrierRuns d" "credentials (updLease P f d) = credentials d"
  by (simp_all add: updLease_def)

lemma addLeases_fields [simp]:
  "leases (addLeases rs d) = leases d @ rs" "nodes (addLeases rs d) = nodes d"
  "history (addLeases rs d) = history d" "pending (addLeases rs d) = pending d"
  "poolOrders (addLeases rs d) = poolOrders d" "admission (addLeases rs d) = admission d"
  "tierReleases (addLeases rs d) = tierReleases d" "usageSeq (addLeases rs d) = usageSeq d"
  "inventories (addLeases rs d) = inventories d" "seal (addLeases rs d) = seal d"
  "barrier (addLeases rs d) = barrier d" "barrierRuns (addLeases rs d) = barrierRuns d"
  "credentials (addLeases rs d) = credentials d"
  by (simp_all add: addLeases_def)

lemma addLeases_Nil [simp]: "addLeases [] d = d"
  by (simp add: addLeases_def)

lemma addLeases_addLeases [simp]: "addLeases rs (addLeases qs d) = addLeases (qs @ rs) d"
  by (simp add: addLeases_def)

lemma updNode_fields [simp]:
  "leases (updNode P f d) = leases d" "nodes (updNode P f d) = upd_where P f (nodes d)"
  "history (updNode P f d) = history d" "admission (updNode P f d) = admission d"
  "pending (updNode P f d) = pending d" "poolOrders (updNode P f d) = poolOrders d"
  "seal (updNode P f d) = seal d" "usageSeq (updNode P f d) = usageSeq d"
  "inventories (updNode P f d) = inventories d" "barrier (updNode P f d) = barrier d"
  "barrierRuns (updNode P f d) = barrierRuns d" "credentials (updNode P f d) = credentials d"
  by (simp_all add: updNode_def)

lemma TotalUsage_sel [simp]:
  "u_vcpu (TotalUsage ls) = sum_where isOpen r_vcpu ls"
  "u_memory (TotalUsage ls) = sum_where isOpen r_memory ls"
  "u_leases (TotalUsage ls) = count_where isOpen ls"
  by (simp_all add: TotalUsage_def)

lemma usageOfHost_sel [simp]:
  "nu_vcpu (usageOfHost ls n) = sum_where (\<lambda>r. isOpen r \<and> attributedTo r = n) r_vcpu ls"
  "nu_memory (usageOfHost ls n) = sum_where (\<lambda>r. isOpen r \<and> attributedTo r = n) r_memory ls"
  "nu_macOS (usageOfHost ls n) =
     count_where (\<lambda>r. (isOpen r \<and> attributedTo r = n) \<and> r_macosSlot r) ls"
  by (simp_all add: usageOfHost_def Let_def)

lemma findLease_Some: "findLease d i = Some r \<Longrightarrow> r \<in> set (leases d) \<and> r_id r = i"
  by (auto simp: findLease_def find_Some_iff)

lemma findLease_None: "findLease d i = None \<longleftrightarrow> i \<notin> set (map r_id (leases d))"
  by (auto simp: findLease_def find_None_iff)

lemma findLease_distinct:
  "distinct (map r_id (leases d)) \<Longrightarrow> r \<in> set (leases d) \<Longrightarrow> findLease d (r_id r) = Some r"
  by (simp add: findLease_def find_distinct)

lemma findNode_distinct:
  "ledgerOK d \<Longrightarrow> n \<in> set (nodes d) \<Longrightarrow> findNode d (n_name n) = Some n"
  by (simp add: ledgerOK_def findNode_def find_distinct)

lemma findNode_Some: "findNode d name = Some n \<Longrightarrow> n \<in> set (nodes d) \<and> n_name n = name"
  by (auto simp: findNode_def find_Some_iff)

lemma ListLiveNodeNames_iff:
  assumes "ledgerOK d"
  shows "name \<in> set (ListLiveNodeNames d) \<longleftrightarrow> hostIsLive d (Some name)"
proof
  assume "name \<in> set (ListLiveNodeNames d)"
  then obtain n where n: "n \<in> set (nodes d)" "n_live n" "n_name n = name"
    by (auto simp: ListLiveNodeNames_def)
  then show "hostIsLive d (Some name)"
    using findNode_distinct [OF assms n(1)] by (simp add: hostIsLive_def)
next
  assume "hostIsLive d (Some name)"
  then obtain n where "findNode d name = Some n" "n_live n"
    by (cases "findNode d name") (simp_all add: hostIsLive_def)
  then show "name \<in> set (ListLiveNodeNames d)"
    using findNode_Some [of d name n] by (auto simp: ListLiveNodeNames_def)
qed

lemma coalesceNode_attributed: "attributedTo r \<noteq> [] \<Longrightarrow> coalesceNode r = Some (attributedTo r)"
  by (simp add: attributedTo_def split: option.splits)

end
