(* ===== verification/Placement.thy ===== *)
theory Placement
  imports Ledger
begin

text \<open>
  Choosing a machine: \<open>internal/alloc/placement.go\<close> and the candidate filter of
  \<open>internal/alloc/headroom_node.go\<close>. The placer is a record; a map read at a missing
  key is Go's zero value, so the free resources are total functions. \<open>placerNext\<close> is
  \<open>placer.next\<close>; it returns the machine, its cost and the placer with that cost spent.

  The lemmas characterise a choice as the least candidate under one key (preference rank,
  then the policy's measure, then the name), and say what a choice spends.
\<close>

section \<open>Hosts, costs and candidates\<close>

record nodeRow =
  nr_name :: string
  nr_provider :: ProviderKind
  nr_site :: string
  nr_vcpu :: int
  nr_memory :: int
  nr_shapes :: "RemoteShape list"
  nr_wire :: int
  nr_architectures :: "Arch list"

record placementCost =
  c_vcpu :: int
  c_memory :: int
  c_instanceType :: string
  c_price :: int

definition zeroCost :: placementCost where
  "zeroCost = \<lparr>c_vcpu = 0, c_memory = 0, c_instanceType = [], c_price = 0\<rparr>"

fun firstShape :: "ProviderKind \<Rightarrow> Tier \<Rightarrow> RemoteShape list \<Rightarrow> placementCost option" where
  "firstShape provider t [] = None"
| "firstShape provider t (sh # rest) =
     (if t_arch t \<noteq> [] \<and> provider = ProviderEC2 \<and> s_arch sh \<noteq> t_arch t
      then firstShape provider t rest
      else if t_vcpu t \<le> s_vcpu sh \<and> t_memory t \<le> s_memory sh
      then Some \<lparr>c_vcpu = s_vcpu sh, c_memory = s_memory sh, c_instanceType = s_type sh,
                 c_price = s_price sh\<rparr>
      else firstShape provider t rest)"

definition nodeCost :: "nodeRow \<Rightarrow> Tier \<Rightarrow> placementCost option" where
  "nodeCost n t =
     (if RunsOnHost (nr_provider n)
      then Some \<lparr>c_vcpu = t_vcpu t, c_memory = t_memory t, c_instanceType = [], c_price = 0\<rparr>
      else firstShape (nr_provider n) t (nr_shapes n))"

definition CacheAuthorityWireVersion :: int where "CacheAuthorityWireVersion = 23"
definition EgressWireVersion :: int where "EgressWireVersion = 40"
definition WindowsGuestsWireVersion :: int where "WindowsGuestsWireVersion = 39"
definition TartVerifiedWireVersion :: int where "TartVerifiedWireVersion = 41"

definition guestWireFloor :: "Tier \<Rightarrow> int" where
  "guestWireFloor t = (if t_guestOS t = GuestWindows then WindowsGuestsWireVersion else 0)"

definition wireFloor :: "Tier \<Rightarrow> int" where
  "wireFloor t =
     (if NeedsCacheAwareNode t then max (guestWireFloor t) CacheAuthorityWireVersion
      else guestWireFloor t)"

definition holdsOne :: "nodeRow \<Rightarrow> Tier \<Rightarrow> bool" where
  "holdsOne n t =
     (case nodeCost n t of
        None \<Rightarrow> False
      | Some cost \<Rightarrow> c_vcpu cost \<le> nr_vcpu n \<and> c_memory cost \<le> nr_memory n)"

definition eligible :: "Allocator \<Rightarrow> Tier \<Rightarrow> int \<Rightarrow> nodeRow \<Rightarrow> bool" where
  "eligible a t minWire n =
     (if t_node t \<noteq> [] \<and> nr_name n \<noteq> t_node t then False
      else if t_site t \<noteq> [] \<and> nr_site n \<noteq> t_site t then False
      else if nr_provider n \<notin> set (AcceptableProviders t) then False
      else if \<not> allowsGuestOS a (nr_name n) (t_guestOS t) then False
      else if t_arch t \<noteq> [] \<and> t_arch t \<notin> set (nr_architectures n) then False
      else if nodeCost n t = None then False
      else if nr_wire n < minWire then False
      else if nr_wire n < EgressWireVersion \<and> NeedsEgressAwareNode t then False
      else if nr_provider n = ProviderTart \<and> nr_wire n < TartVerifiedWireVersion
              \<and> NamesTartVerified t then False
      else True)"

definition eligibleFrom :: "Allocator \<Rightarrow> nodeRow list \<Rightarrow> Tier \<Rightarrow> int \<Rightarrow> nodeRow list" where
  "eligibleFrom a rows t minWire = filter (eligible a t minWire) rows"

definition nodeRowFrom :: "NodeRow \<Rightarrow> nodeRow result" where
  "nodeRowFrom row =
     (case SplitArchs (n_architectures row) of
        Inl e \<Rightarrow> Inl e
      | Inr archs \<Rightarrow>
          (case decodeRemoteShapes (n_provider row) (n_shapes row) of
             Inl e \<Rightarrow> Inl e
           | Inr shapes \<Rightarrow>
               Inr \<lparr>nr_name = n_name row, nr_provider = n_provider row, nr_site = n_site row,
                    nr_vcpu = n_vcpu row, nr_memory = n_memory row, nr_shapes = shapes,
                    nr_wire = n_wireVersion row, nr_architectures = archs\<rparr>))"

fun nodeRowsFrom :: "NodeRow list \<Rightarrow> nodeRow list result" where
  "nodeRowsFrom [] = Inr []"
| "nodeRowsFrom (row # rows) =
     (case nodeRowFrom row of
        Inl e \<Rightarrow> Inl e
      | Inr n \<Rightarrow> (case nodeRowsFrom rows of Inl e \<Rightarrow> Inl e | Inr ns \<Rightarrow> Inr (n # ns)))"

definition liveNodes :: "Ledger \<Rightarrow> nodeRow list result" where
  "liveNodes d = nodeRowsFrom (ListPlaceableNodes d)"

section \<open>The placer\<close>

record placer =
  p_order :: "nodeRow list"
  p_freeVCPU :: "string \<Rightarrow> int"
  p_freeMemory :: "string \<Rightarrow> int"
  p_freeMacOS :: "string \<Rightarrow> int"
  p_cost :: "string \<Rightarrow> placementCost option"
  p_deploymentVCPU :: int
  p_deploymentMemory :: int
  p_rank :: "string \<Rightarrow> int"
  p_policy :: PlacementPolicy
  p_sizes :: "string \<Rightarrow> int \<times> int"
  p_committedVCPU :: int
  p_committedMemory :: int

definition costOf :: "placer \<Rightarrow> string \<Rightarrow> placementCost" where
  "costOf p node = (case p_cost p node of Some c \<Rightarrow> c | None \<Rightarrow> zeroCost)"

definition roomFor :: "placer \<Rightarrow> string \<Rightarrow> Tier \<Rightarrow> int" where
  "roomFor p node t =
     (case p_cost p node of
        None \<Rightarrow> 0
      | Some cost \<Rightarrow>
          let room = min (go_div (p_freeVCPU p node) (c_vcpu cost))
                         (go_div (p_freeMemory p node) (c_memory cost));
              room = min room (go_div (p_deploymentVCPU p) (c_vcpu cost));
              room = min room (go_div (p_deploymentMemory p) (c_memory cost));
              room = (if t_guestOS t = GuestMacOS then min room (p_freeMacOS p node) else room)
          in max room 0)"

text \<open>What a host would have free after one more lease, in shares of its own size.\<close>

definition leftOver :: "placer \<Rightarrow> string \<Rightarrow> rat" where
  "leftOver p node =
     (let cost = costOf p node; (sv, sm) = p_sizes p node;
          out = (if 0 < sv
                 then float64 (float64 (of_int (p_freeVCPU p node - c_vcpu cost)) / float64 (of_int sv))
                 else 0)
      in if 0 < sm
         then float64 (out + float64 (float64 (of_int (p_freeMemory p node - c_memory cost))
                                      / float64 (of_int sm)))
         else out)"

definition better :: "placer \<Rightarrow> string \<Rightarrow> int \<Rightarrow> string \<Rightarrow> int \<Rightarrow> bool" where
  "better p a roomA b roomB =
     (if p_rank p a \<noteq> p_rank p b then p_rank p a < p_rank p b
      else if p_policy p = PlacementTightest
      then (if leftOver p a \<noteq> leftOver p b then leftOver p a < leftOver p b else a < b)
      else if roomA \<noteq> roomB
      then (if p_policy p = PlacementSpread then roomA > roomB else roomA < roomB)
      else a < b)"

definition pick :: "placer \<Rightarrow> Tier \<Rightarrow> string \<times> int \<Rightarrow> nodeRow \<Rightarrow> string \<times> int" where
  "pick p t = (\<lambda>(best, bestRoom) n.
     let room = roomFor p (nr_name n) t
     in if room \<le> 0 then (best, bestRoom)
        else if best = [] \<or> better p (nr_name n) room best bestRoom then (nr_name n, room)
        else (best, bestRoom))"

definition spend :: "placer \<Rightarrow> string \<Rightarrow> Tier \<Rightarrow> placer" where
  "spend p node t =
     (let cost = costOf p node
      in p\<lparr>p_freeVCPU := (p_freeVCPU p)(node := p_freeVCPU p node - c_vcpu cost),
          p_freeMemory := (p_freeMemory p)(node := p_freeMemory p node - c_memory cost),
          p_deploymentVCPU := p_deploymentVCPU p - c_vcpu cost,
          p_deploymentMemory := p_deploymentMemory p - c_memory cost,
          p_freeMacOS := (if t_guestOS t = GuestMacOS
                          then (p_freeMacOS p)(node := p_freeMacOS p node - 1)
                          else p_freeMacOS p)\<rparr>)"

definition placerNext :: "placer \<Rightarrow> Tier \<Rightarrow> (string \<times> placementCost \<times> placer) option" where
  "placerNext p t =
     (let best = fst (foldl (pick p t) ([], 0) (p_order p))
      in if best = [] then None else Some (best, costOf p best, spend p best t))"

definition siteOf :: "placer \<Rightarrow> string \<Rightarrow> string" where
  "siteOf p node =
     (case find (\<lambda>n. nr_name n = node) (p_order p) of Some n \<Rightarrow> nr_site n | None \<Rightarrow> [])"

text \<open>The position of a provider in a preference list, and \<open>-1\<close> when it is not in it.\<close>

fun providerIndex :: "ProviderKind list \<Rightarrow> ProviderKind \<Rightarrow> int \<Rightarrow> int" where
  "providerIndex [] p i = - 1"
| "providerIndex (x # xs) p i = (if x = p then i else providerIndex xs p (i + 1))"

definition rankBy :: "nodeRow list \<Rightarrow> Tier \<Rightarrow> string \<Rightarrow> int" where
  "rankBy order t = (\<lambda>name. case find (\<lambda>n. nr_name n = name) order of
     None \<Rightarrow> 0 | Some n \<Rightarrow> providerIndex (AcceptableProviders t) (nr_provider n) 0)"

definition avoid :: "string \<Rightarrow> placer \<Rightarrow> placer" where
  "avoid host p = p\<lparr>p_cost := (p_cost p)(host := None)\<rparr>"

fun keepFor :: "(string \<times> string) list \<Rightarrow> Allocator \<Rightarrow> placer \<Rightarrow> placer" where
  "keepFor [] a p = p"
| "keepFor ((host, owner) # holds) a p =
     (case tierOf a owner of
        None \<Rightarrow> keepFor holds a (avoid host p)
      | Some shape \<Rightarrow>
          keepFor holds a
            (p\<lparr>p_freeVCPU := (p_freeVCPU p)(host := p_freeVCPU p host - t_vcpu shape),
              p_freeMemory := (p_freeMemory p)(host := p_freeMemory p host - t_memory shape)\<rparr>))"

section \<open>Counting what fits\<close>

text \<open>
  The loop that places one job at a time until no machine takes another. Each round takes
  one off the room of the machine it chose, so the rooms of the candidates together bound
  the rounds (\<open>placeLoop_done\<close> in theory \<open>Placement_Count\<close>).
\<close>

fun placeLoop :: "nat \<Rightarrow> placer \<Rightarrow> Tier \<Rightarrow> int \<times> placer" where
  "placeLoop 0 p t = (0, p)"
| "placeLoop (Suc fuel) p t =
     (case placerNext p t of
        None \<Rightarrow> (0, p)
      | Some (_, _, p') \<Rightarrow> (let (n, q) = placeLoop fuel p' t in (n + 1, q)))"

definition roomSum :: "placer \<Rightarrow> Tier \<Rightarrow> nat" where
  "roomSum p t = sum_list (map (\<lambda>n. nat (roomFor p (nr_name n) t)) (p_order p))"

definition placeAll :: "placer \<Rightarrow> Tier \<Rightarrow> int \<times> placer" where
  "placeAll p t = placeLoop (roomSum p t) p t"

definition oneCost :: "placer \<Rightarrow> nodeRow list \<Rightarrow> placementCost option" where
  "oneCost p hosts =
     (let cost = costOf p (nr_name (hd hosts))
      in if list_all (\<lambda>n. c_vcpu (costOf p (nr_name n)) = c_vcpu cost
                          \<and> c_memory (costOf p (nr_name n)) = c_memory cost) (tl hosts)
            \<and> 0 < c_vcpu cost \<and> 0 < c_memory cost
         then Some cost else None)"

definition uniformCount ::
  "placer \<Rightarrow> Tier \<Rightarrow> nodeRow list \<Rightarrow> placementCost \<Rightarrow> int \<Rightarrow> int \<Rightarrow> int" where
  "uniformCount p t hosts cost deploymentVCPU deploymentMemory =
     (let deployment = max (min (go_div deploymentVCPU (c_vcpu cost))
                                (go_div deploymentMemory (c_memory cost))) 0
      in foldl (\<lambda>acc n.
           let room = min (go_div (p_freeVCPU p (nr_name n)) (c_vcpu cost))
                          (go_div (p_freeMemory p (nr_name n)) (c_memory cost));
               room = (if t_guestOS t = GuestMacOS then min room (p_freeMacOS p (nr_name n)) else room)
           in acc + min (max room 0) (deployment - acc)) 0 hosts)"

definition hasCost :: "placer \<Rightarrow> nodeRow \<Rightarrow> bool" where
  "hasCost p n \<longleftrightarrow> p_cost p (nr_name n) \<noteq> None"

fun countRanks :: "placer \<Rightarrow> Tier \<Rightarrow> int list \<Rightarrow> int \<Rightarrow> int \<Rightarrow> int" where
  "countRanks p t [] depVCPU depMemory = 0"
| "countRanks p t (rank # ranks) depVCPU depMemory =
     (let hosts = filter (\<lambda>n. hasCost p n \<and> p_rank p (nr_name n) = rank) (p_order p)
      in case oneCost p hosts of
           Some cost \<Rightarrow>
             (let n = uniformCount p t hosts cost depVCPU depMemory
              in n + countRanks p t ranks (depVCPU - n * c_vcpu cost) (depMemory - n * c_memory cost))
         | None \<Rightarrow>
             (let (n, placed) = placeAll (p\<lparr>p_order := hosts, p_deploymentVCPU := depVCPU,
                                            p_deploymentMemory := depMemory\<rparr>) t
              in n + countRanks p t ranks (p_deploymentVCPU placed) (p_deploymentMemory placed)))"

definition ranksOf :: "placer \<Rightarrow> int list" where
  "ranksOf p = sort (remdups (map (\<lambda>n. p_rank p (nr_name n)) (filter (hasCost p) (p_order p))))"

definition countByRank :: "placer \<Rightarrow> Tier \<Rightarrow> int" where
  "countByRank p t = countRanks p t (ranksOf p) (p_deploymentVCPU p) (p_deploymentMemory p)"

definition placerTotal :: "placer \<Rightarrow> Tier \<Rightarrow> int" where
  "placerTotal p t = countByRank p t"

section \<open>What a choice spends\<close>

lemma spend_fields [placer_simps]:
  "p_order (spend p h t) = p_order p" "p_cost (spend p h t) = p_cost p"
  "p_rank (spend p h t) = p_rank p" "p_policy (spend p h t) = p_policy p"
  "p_sizes (spend p h t) = p_sizes p"
  "p_deploymentVCPU (spend p h t) = p_deploymentVCPU p - c_vcpu (costOf p h)"
  "p_deploymentMemory (spend p h t) = p_deploymentMemory p - c_memory (costOf p h)"
  "p_freeVCPU (spend p h t) n = p_freeVCPU p n - (if n = h then c_vcpu (costOf p h) else 0)"
  "p_freeMemory (spend p h t) n = p_freeMemory p n - (if n = h then c_memory (costOf p h) else 0)"
  "p_freeMacOS (spend p h t) n =
     p_freeMacOS p n - (if n = h \<and> t_guestOS t = GuestMacOS then 1 else 0)"
  by (simp_all add: spend_def Let_def)

lemma costOf_spend [placer_simps]: "costOf (spend p h t) n = costOf p n"
  by (simp add: costOf_def placer_simps)

lemma roomFor_Some:
  "p_cost p h = Some c \<Longrightarrow> roomFor p h t =
     max (if t_guestOS t = GuestMacOS
          then min (min (min (min (go_div (p_freeVCPU p h) (c_vcpu c)) (go_div (p_freeMemory p h) (c_memory c)))
                 (go_div (p_deploymentVCPU p) (c_vcpu c))) (go_div (p_deploymentMemory p) (c_memory c)))
                 (p_freeMacOS p h)
          else min (min (min (go_div (p_freeVCPU p h) (c_vcpu c)) (go_div (p_freeMemory p h) (c_memory c)))
                 (go_div (p_deploymentVCPU p) (c_vcpu c))) (go_div (p_deploymentMemory p) (c_memory c))) 0"
  by (simp only: roomFor_def option.case Let_def)

lemma roomFor_None: "p_cost p h = None \<Longrightarrow> roomFor p h t = 0"
  by (simp only: roomFor_def option.case)

lemma roomFor_nonneg [simp]: "0 \<le> roomFor p n t"
  by (cases "p_cost p n") (simp_all only: roomFor_None roomFor_Some order_refl max.cobounded2)

text \<open>A placer all of whose costs can be divided by, over hosts with distinct, non-empty names.\<close>

definition placerOK :: "placer \<Rightarrow> bool" where
  "placerOK p \<longleftrightarrow>
     distinct (map nr_name (p_order p)) \<and> (\<forall>n \<in> set (p_order p). nr_name n \<noteq> [])
     \<and> (\<forall>h c. p_cost p h = Some c \<longrightarrow> 0 < c_vcpu c \<and> 0 < c_memory c)"

lemma placerOK_spend [simp]: "placerOK (spend p h t) = placerOK p"
  by (simp add: placerOK_def placer_simps)

lemma roomFor_pos:
  assumes "placerOK p"
  shows "0 < roomFor p h t \<longleftrightarrow>
    (\<exists>c. p_cost p h = Some c \<and> c_vcpu c \<le> p_freeVCPU p h \<and> c_memory c \<le> p_freeMemory p h
      \<and> c_vcpu c \<le> p_deploymentVCPU p \<and> c_memory c \<le> p_deploymentMemory p
      \<and> (t_guestOS t = GuestMacOS \<longrightarrow> 0 < p_freeMacOS p h))"
proof (cases "p_cost p h")
  case (Some c)
  then have pos: "0 < c_vcpu c" "0 < c_memory c" using assms by (auto simp: placerOK_def)
  show ?thesis
    by (cases "t_guestOS t = GuestMacOS")
       (simp_all only: roomFor_Some [OF Some] Some option.inject ex_simps simp_thms if_True if_False
          less_max_iff_disj min_less_iff_conj order_less_irrefl go_div_pos_iff pos conj_ac)
qed (simp add: roomFor_None)

lemma roomFor_le:
  assumes "placerOK p" and "p_cost p h = Some c"
  shows "roomFor p h t * c_vcpu c \<le> max (p_freeVCPU p h) 0"
    and "roomFor p h t * c_memory c \<le> max (p_freeMemory p h) 0"
proof -
  have pos: "0 < c_vcpu c" "0 < c_memory c" using assms by (auto simp: placerOK_def)
  have "roomFor p h t \<le> max (go_div (p_freeVCPU p h) (c_vcpu c)) 0"
    "roomFor p h t \<le> max (go_div (p_freeMemory p h) (c_memory c)) 0"
    unfolding roomFor_Some [OF assms(2)]
    by (auto intro!: max.mono simp: min_le_iff_disj simp del: go_div_pos)
  then show "roomFor p h t * c_vcpu c \<le> max (p_freeVCPU p h) 0"
    "roomFor p h t * c_memory c \<le> max (p_freeMemory p h) 0"
    using pos le_go_div_iff by simp_all
qed

section \<open>A choice is the least candidate\<close>

text \<open>
  \<open>better\<close> compares one key: rank, then the policy's measure, then the name. Distinct
  names make the keys distinct, so the scan finds the one least candidate whatever order
  it walks them in.
\<close>

definition policyKey :: "placer \<Rightarrow> Tier \<Rightarrow> string \<Rightarrow> rat" where
  "policyKey p t h =
     (if p_policy p = PlacementTightest then leftOver p h
      else if p_policy p = PlacementSpread then - of_int (roomFor p h t)
      else of_int (roomFor p h t))"

definition placeKey :: "placer \<Rightarrow> Tier \<Rightarrow> string \<Rightarrow> int \<times> rat \<times> string" where
  "placeKey p t h = (p_rank p h, policyKey p t h, h)"

lemma better_key:
  "better p x (roomFor p x t) y (roomFor p y t) \<longleftrightarrow> placeKey p t x < placeKey p t y"
  by (auto simp: better_def placeKey_def policyKey_def less_prod_def)

definition candidates :: "placer \<Rightarrow> Tier \<Rightarrow> string set" where
  "candidates p t = {h \<in> nr_name ` set (p_order p). 0 < roomFor p h t}"

lemma foldl_pick:
  assumes "\<And>n. n \<in> set xs \<Longrightarrow> nr_name n \<noteq> []"
    and "best \<noteq> [] \<Longrightarrow> bestRoom = roomFor p best t"
  shows "(let C = {h \<in> nr_name ` set xs. 0 < roomFor p h t} \<union> (if best = [] then {} else {best});
              r = foldl (pick p t) (best, bestRoom) xs
          in if C = {} then fst r = []
             else fst r \<in> C \<and> (\<forall>h \<in> C. placeKey p t (fst r) \<le> placeKey p t h))"
  using assms
proof (induction xs arbitrary: best bestRoom)
  case (Cons n xs)
  let ?h = "nr_name n"
  have h: "?h \<noteq> []" using Cons.prems by simp
  show ?case
  proof (cases "0 < roomFor p ?h t \<and> (best = [] \<or> placeKey p t ?h < placeKey p t best)")
    case True
    have "pick p t (best, bestRoom) n = (?h, roomFor p ?h t)"
      using True Cons.prems(2) better_key [of p ?h t best] by (auto simp: pick_def Let_def)
    then show ?thesis
      using Cons.IH [of ?h "roomFor p ?h t"] Cons.prems(1) h True
      by (auto simp: Let_def split: if_splits)
  next
    case False
    have eq: "pick p t (best, bestRoom) n = (best, bestRoom)"
      using False Cons.prems(2) better_key [of p ?h t best] by (auto simp: pick_def Let_def)
    show ?thesis
      using Cons.IH [of best bestRoom] Cons.prems False
      by (auto simp: Let_def eq not_less split: if_splits intro: order_trans)
  qed
qed (auto simp: Let_def)

definition bestHost :: "placer \<Rightarrow> Tier \<Rightarrow> string" where
  "bestHost p t = fst (foldl (pick p t) ([], 0) (p_order p))"

lemma placerNext_best:
  "placerNext p t =
     (if bestHost p t = [] then None
      else Some (bestHost p t, costOf p (bestHost p t), spend p (bestHost p t) t))"
  by (simp add: placerNext_def bestHost_def Let_def)

lemma candidates_named: "placerOK p \<Longrightarrow> h \<in> candidates p t \<Longrightarrow> h \<noteq> []"
  by (auto simp: candidates_def placerOK_def)

lemma bestHost_empty:
  assumes "placerOK p"
  shows "bestHost p t = [] \<longleftrightarrow> candidates p t = {}"
  using foldl_pick [of "p_order p" "[]" 0 p t] assms candidates_named [OF assms, of _ t]
  unfolding bestHost_def Let_def placerOK_def candidates_def by (auto split: if_splits)

lemma bestHost_least:
  assumes "placerOK p" and "candidates p t \<noteq> {}"
  shows "bestHost p t \<in> candidates p t"
    and "h \<in> candidates p t \<Longrightarrow> placeKey p t (bestHost p t) \<le> placeKey p t h"
  using foldl_pick [of "p_order p" "[]" 0 p t] assms
  unfolding bestHost_def Let_def placerOK_def candidates_def by (simp_all split: if_splits)

lemma bestHost_unique:
  assumes "placerOK p" and "h \<in> candidates p t"
    and "\<And>h'. h' \<in> candidates p t \<Longrightarrow> placeKey p t h \<le> placeKey p t h'"
  shows "bestHost p t = h"
proof -
  have ne: "candidates p t \<noteq> {}" using assms(2) by auto
  have "placeKey p t (bestHost p t) = placeKey p t h"
    using bestHost_least [OF assms(1) ne] assms(2,3) by (meson antisym)
  then show ?thesis by (simp add: placeKey_def)
qed

lemma placerNext_None: "placerOK p \<Longrightarrow> placerNext p t = None \<longleftrightarrow> candidates p t = {}"
  by (simp add: placerNext_best bestHost_empty)

lemma placerNext_Some:
  assumes "placerOK p"
  shows "placerNext p t = Some (h, c, q) \<longleftrightarrow>
    h \<in> candidates p t \<and> (\<forall>h' \<in> candidates p t. placeKey p t h \<le> placeKey p t h')
    \<and> c = costOf p h \<and> q = spend p h t"
  using bestHost_least [OF assms, of t] bestHost_unique [OF assms, of h t] bestHost_empty [OF assms, of t]
  by (auto simp: placerNext_best)

end
