(* ===== verification/Sample.thy ===== *)
theory Sample
  imports Placement
begin

text \<open>
  One small deployment, on which the theorems with hypotheses are applied: two Firecracker
  hosts and a Mac, a Linux tier with a floor, a larger Linux tier, a macOS tier, a ceiling
  and one target's share, and a ledger with a running lease and one in escrow.
\<close>

definition smallTier :: Tier where
  "smallTier = \<lparr>t_label = ''small'', t_vcpu = 2, t_memory = 4, t_maxConcurrent = 0,
     t_reserved = 0, t_provider = ProviderFirecracker, t_providers = [], t_node = [],
     t_site = [], t_guestOS = GuestLinux, t_arch = [], t_target = [], t_trusted = True,
     t_repositoryScope = False, t_cache = None, t_egress = False, t_image = ''ubuntu'',
     t_launch = []\<rparr>"

definition bigTier :: Tier where
  "bigTier = smallTier\<lparr>t_label := ''big'', t_vcpu := 4, t_memory := 8, t_reserved := 1,
     t_maxConcurrent := 3\<rparr>"

definition macTier :: Tier where
  "macTier = smallTier\<lparr>t_label := ''mac'', t_vcpu := 4, t_memory := 8,
     t_provider := ProviderTart, t_guestOS := GuestMacOS\<rparr>"

definition sampleAlloc :: Allocator where
  "sampleAlloc = \<lparr>a_limits = \<lparr>l_maxVCPU = 24, l_maxMemory = 64, l_nodes = [],
       l_shares = [(''default'', \<lparr>ts_vcpu = 20, ts_memory = 0\<rparr>)]\<rparr>,
     a_tiers = [smallTier, bigTier, macTier], a_namesArch = False, a_leaseTTL = 60,
     a_placement = PlacementUnset\<rparr>"

definition sampleNode :: "string \<Rightarrow> ProviderKind \<Rightarrow> int \<Rightarrow> int \<Rightarrow> NodeRow" where
  "sampleNode name provider vcpu memory =
     \<lparr>n_name = name, n_provider = provider, n_site = ''rack'', n_vcpu = vcpu, n_memory = memory,
      n_shapes = [], n_architectures = ''x64'', n_live = True, n_drained = False, n_epoch = 1, n_dispatch = 0,
      n_lastSeenAt = 0, n_incarnation = ''boot-1'', n_release = [], n_highestRelease = [],
      n_digest = [], n_wireMin = 1, n_wireMax = 41, n_wireVersion = 41, n_fleet = [],
      n_jitPath = [], n_region = [], n_decommissionedAt = None, n_decommissionProven = False,
      n_decommissionActor = []\<rparr>"

definition sampleLease :: "string \<Rightarrow> string \<Rightarrow> string \<Rightarrow> Phase \<Rightarrow> LeaseRow" where
  "sampleLease i tier host phase =
     \<lparr>r_id = i, r_tier = tier, r_node = (if requiresPlacement phase then Some host else None),
      r_target = Some host, r_macosSlot = False, r_guestOS = GuestLinux,
      r_providers = ''firecracker'', r_chosenProvider = ProviderFirecracker, r_phase = phase,
      r_vcpu = 4, r_memory = 8, r_requestedVCPU = 4, r_requestedMemory = 8,
      r_instanceType = [], r_site = ''rack'', r_price = 0, r_epoch = 1, r_createdAt = 0,
      r_heartbeatAt = 0, r_expiresAt = 60, r_runID = None, r_requestID = None,
      r_heldAt = None, r_forceRelease = False, r_holder = [], r_failureReason = [],
      r_disruption = [], r_disruptedAt = None, r_deregistered = False\<rparr>"

definition sampleLedger :: Ledger where
  "sampleLedger = \<lparr>leases = [sampleLease ''l1'' ''big'' ''alpha'' PhaseBusy,
       sampleLease ''l2'' ''big'' ''beta'' PhaseCapacity],
     nodes = [sampleNode ''alpha'' ProviderFirecracker 16 64,
       sampleNode ''beta'' ProviderFirecracker 8 32, sampleNode ''mac1'' ProviderTart 8 32],
     history = [], pending = [], poolOrders = [], admission = AdmissionOpen,
     seal = \<lparr>sl_generation = 1, sl_provenance = [], sl_reason = [], sl_actor = [],
       sl_changedAt = 0\<rparr>, tierReleases = [], usageSeq = 0, inventories = [], barrier = None,
     barrierRuns = [],
     credentials = \<lparr>joinTokens = [], enrollments = [], issuedCerts = [], revokedCerts = [], nodeRevocations = []\<rparr>\<rparr>"

text \<open>A placer over two hosts with room for three and for one, four placements left overall.\<close>

definition sampleHost :: "string \<Rightarrow> int \<Rightarrow> int \<Rightarrow> nodeRow" where
  "sampleHost name vcpu memory =
     \<lparr>nr_name = name, nr_provider = ProviderFirecracker, nr_site = ''rack'', nr_vcpu = vcpu,
      nr_memory = memory, nr_shapes = [], nr_wire = 41, nr_architectures = [ArchX64]\<rparr>"

definition sampleCost :: placementCost where
  "sampleCost = \<lparr>c_vcpu = 2, c_memory = 4, c_instanceType = [], c_price = 0\<rparr>"

definition samplePlacer :: placer where
  "samplePlacer = \<lparr>p_order = [sampleHost ''alpha'' 8 64, sampleHost ''beta'' 8 32],
     p_freeVCPU = (\<lambda>h. if h = ''alpha'' then 7 else 8),
     p_freeMemory = (\<lambda>h. if h = ''alpha'' then 64 else 4),
     p_freeMacOS = (\<lambda>_. 0),
     p_cost = (\<lambda>h. if h = ''alpha'' \<or> h = ''beta'' then Some sampleCost else None),
     p_deploymentVCPU = 9, p_deploymentMemory = 100, p_rank = (\<lambda>_. 0),
     p_policy = PlacementPack, p_sizes = (\<lambda>_. (0, 0)), p_committedVCPU = 0,
     p_committedMemory = 0\<rparr>"

lemmas sample_defs = smallTier_def bigTier_def macTier_def sampleAlloc_def sampleNode_def
  sampleLease_def sampleLedger_def sampleHost_def sampleCost_def samplePlacer_def

lemma sampleLedger_OK: "ledgerOK sampleLedger"
  by (simp add: sample_defs ledgerOK_def)

lemma placerOK_samplePlacer: "placerOK samplePlacer"
  by (auto simp: placerOK_def sample_defs split: if_splits)

end
