(* ===== verification/Placement_Count.thy ===== *)
theory Placement_Count
  imports Sample
begin

text \<open>
  The optimised count of \<open>placer.total\<close> against its reference. \<open>countByRank\<close>
  fills one preference rank at a time and, where a rank's hosts all charge the same,
  replaces placing by one division a host. The reference places one job at a time over the
  whole fleet until nothing fits (\<open>placeAll\<close>). The two agree, and the reference's
  loop really ends because no machine takes another job.
\<close>

section \<open>One placement takes one off the rooms\<close>

definition slots :: "int \<Rightarrow> int \<Rightarrow> int" where
  "slots a b = max a 0 div b"

lemma slots_mono: "x \<le> y \<Longrightarrow> 0 < b \<Longrightarrow> slots x b \<le> slots y b"
  by (auto simp: slots_def intro!: zdiv_mono1)

lemma slots_sub: "0 < b \<Longrightarrow> b \<le> a \<Longrightarrow> slots (a - b) b = slots a b - 1"
  using go_div_sub [of b a] by (simp add: slots_def max_def)

definition roomOfCost :: "placer \<Rightarrow> string \<Rightarrow> Tier \<Rightarrow> placementCost \<Rightarrow> int" where
  "roomOfCost p h t c =
     (let base = min (min (slots (p_freeVCPU p h) (c_vcpu c)) (slots (p_freeMemory p h) (c_memory c)))
                     (min (slots (p_deploymentVCPU p) (c_vcpu c)) (slots (p_deploymentMemory p) (c_memory c)))
      in if t_guestOS t = GuestMacOS then min base (max (p_freeMacOS p h) 0) else base)"

lemma roomFor_slots:
  assumes "placerOK p" and "p_cost p h = Some c"
  shows "roomFor p h t = roomOfCost p h t c"
proof -
  have pos: "0 < c_vcpu c" "0 < c_memory c" using assms by (auto simp: placerOK_def)
  have m: "max (min x y) (0::int) = min (max x 0) (max y 0)" for x y by simp
  show ?thesis
    by (cases "t_guestOS t = GuestMacOS")
       (simp_all only: roomFor_Some [OF assms(2)] roomOfCost_def Let_def m slots_def min.assoc
          max_go_div pos if_True if_False simp_thms)
qed

lemma roomFor_spend_le:
  assumes "placerOK p"
  shows "roomFor (spend p h t) n t \<le> roomFor p n t"
proof (cases "p_cost p n")
  case (Some c)
  have pos: "0 < c_vcpu c" "0 < c_memory c" using assms Some by (auto simp: placerOK_def)
  have cost: "0 \<le> c_vcpu (costOf p h)" "0 \<le> c_memory (costOf p h)"
    using assms by (auto simp: placerOK_def costOf_def zeroCost_def split: option.splits intro: less_imp_le)
  have "roomOfCost (spend p h t) n t c \<le> roomOfCost p n t c"
    unfolding roomOfCost_def Let_def placer_simps
    by (auto intro!: min.mono slots_mono max.mono simp: pos cost simp del: min_le_iff_disj min.bounded_iff)
  then show ?thesis
    using Some assms roomFor_slots [OF assms Some, of t] roomFor_slots [of "spend p h t" n c t]
    by (simp add: placer_simps)
qed (simp add: roomFor_def placer_simps)

lemma roomFor_spend_same:
  assumes "placerOK p" and "0 < roomFor p h t"
  shows "roomFor (spend p h t) h t = roomFor p h t - 1"
proof -
  obtain c where c: "p_cost p h = Some c" and fit: "c_vcpu c \<le> p_freeVCPU p h" "c_memory c \<le> p_freeMemory p h"
    "c_vcpu c \<le> p_deploymentVCPU p" "c_memory c \<le> p_deploymentMemory p"
    and mac: "t_guestOS t = GuestMacOS \<longrightarrow> 0 < p_freeMacOS p h"
    using assms roomFor_pos by blast
  have pos: "0 < c_vcpu c" "0 < c_memory c" using assms(1) c by (auto simp: placerOK_def)
  have co: "costOf p h = c" using c by (simp add: costOf_def)
  have mac': "max (p_freeMacOS p h - 1) 0 = max (p_freeMacOS p h) 0 - 1" if "t_guestOS t = GuestMacOS"
    using mac that by simp
  have "roomOfCost (spend p h t) h t c = roomOfCost p h t c - 1"
    using pos fit mac' unfolding roomOfCost_def Let_def
    by (simp add: placer_simps co slots_sub min_diff_distrib_left)
  then show ?thesis
    using assms c roomFor_slots [OF assms(1) c, of t] roomFor_slots [of "spend p h t" h c t]
    by (simp add: placer_simps)
qed

lemma roomFor_order [simp]: "roomFor (p\<lparr>p_order := xs\<rparr>) n t = roomFor p n t"
proof -
  let ?q = "p\<lparr>p_order := xs\<rparr>"
  have "p_cost ?q = p_cost p" "p_freeVCPU ?q = p_freeVCPU p" "p_freeMemory ?q = p_freeMemory p"
    "p_freeMacOS ?q = p_freeMacOS p" "p_deploymentVCPU ?q = p_deploymentVCPU p"
    "p_deploymentMemory ?q = p_deploymentMemory p"
    by simp_all
  then show ?thesis by (simp only: roomFor_def)
qed

lemma roomSum_spend:
  assumes "placerOK p" and "h \<in> candidates p t"
  shows "roomSum (spend p h t) t < roomSum p t"
proof -
  obtain n where n: "n \<in> set (p_order p)" "nr_name n = h" "0 < roomFor p h t"
    using assms(2) by (auto simp: candidates_def)
  have le: "sum_list (map (\<lambda>n. nat (roomFor (spend p h t) (nr_name n) t)) xs)
        \<le> sum_list (map (\<lambda>n. nat (roomFor p (nr_name n) t)) xs)" for xs
    by (rule sum_list_mono) (simp add: roomFor_spend_le [OF assms(1)] nat_mono)
  have lt: "nat (roomFor (spend p h t) (nr_name n) t) < nat (roomFor p (nr_name n) t)"
    using n roomFor_spend_same [OF assms(1) n(3)] by simp
  obtain xs ys where "p_order p = xs @ n # ys" using n(1) by (meson split_list)
  then show ?thesis
    using add_le_less_mono [OF le [of xs] add_less_le_mono [OF lt le [of ys]]]
    by (simp add: roomSum_def placer_simps)
qed

section \<open>The placing loop ends\<close>

lemma placeLoop_stop: "placerNext p t = None \<Longrightarrow> placeLoop fuel p t = (0, p)"
  by (cases fuel) auto

lemma placeLoop_go:
  "placerNext p t = Some (h, c, q) \<Longrightarrow>
   placeLoop (Suc fuel) p t = (fst (placeLoop fuel q t) + 1, snd (placeLoop fuel q t))"
  by (simp add: split_beta Let_def)

declare placeLoop.simps(2) [simp del]

lemma placeLoop_done:
  "placerOK p \<Longrightarrow> roomSum p t \<le> fuel \<Longrightarrow> candidates (snd (placeLoop fuel p t)) t = {}"
proof (induction fuel arbitrary: p)
  case 0
  then have "\<forall>n \<in> set (p_order p). roomFor p (nr_name n) t \<le> 0"
    by (simp add: roomSum_def)
  then show ?case by (auto simp: candidates_def not_less)
next
  case (Suc fuel)
  show ?case
  proof (cases "placerNext p t")
    case None
    then show ?thesis using Suc.prems placerNext_None by (simp add: placeLoop_stop)
  next
    case (Some x)
    then obtain h c q where x: "placerNext p t = Some (h, c, q)" by (cases x) auto
    then have h: "h \<in> candidates p t" and q: "q = spend p h t"
      using placerNext_Some [OF Suc.prems(1)] by blast+
    have "roomSum q t \<le> fuel" using roomSum_spend [OF Suc.prems(1) h] Suc.prems(2) q by simp
    then show ?thesis using Suc.IH [of q] Suc.prems(1) q by (simp add: placeLoop_go [OF x])
  qed
qed

lemma placeLoop_fuel:
  assumes "placerOK p" and "roomSum p t \<le> fuel"
  shows "placeLoop fuel p t = placeAll p t"
proof -
  have indep: "placerOK p \<Longrightarrow> roomSum p t \<le> f \<Longrightarrow> roomSum p t \<le> g \<Longrightarrow> placeLoop f p t = placeLoop g p t"
    for f g p
  proof (induction f arbitrary: p g)
    case 0
    then have "candidates p t = {}" using placeLoop_done [of p t 0] by simp
    then have "placerNext p t = None" using 0 placerNext_None by simp
    then show ?case by (simp add: placeLoop_stop)
  next
    case (Suc f)
    show ?case
    proof (cases "placerNext p t")
      case None
      then show ?thesis by (simp add: placeLoop_stop)
    next
      case (Some x)
      then obtain h c q where x: "placerNext p t = Some (h, c, q)" by (cases x) auto
      then have h: "h \<in> candidates p t" and q: "q = spend p h t"
        using placerNext_Some [OF Suc.prems(1)] by blast+
      have less: "roomSum q t < roomSum p t" using roomSum_spend [OF Suc.prems(1) h] q by simp
      then obtain g' where g': "g = Suc g'" using Suc.prems(3) by (cases g) auto
      have "placeLoop f q t = placeLoop g' q t"
        using Suc.IH [of q g'] Suc.prems less q g' by simp
      then show ?thesis by (simp add: placeLoop_go [OF x] g')
    qed
  qed
  show ?thesis unfolding placeAll_def by (rule indep [OF assms order_refl])
qed

lemma placeAll_none: "placerOK p \<Longrightarrow> candidates p t = {} \<Longrightarrow> placeAll p t = (0, p)"
  by (simp add: placeAll_def placeLoop_stop placerNext_None)

lemma placeAll_some:
  assumes "placerOK p" and "candidates p t \<noteq> {}"
  shows "placeAll p t =
    (fst (placeAll (spend p (bestHost p t) t) t) + 1, snd (placeAll (spend p (bestHost p t) t) t))"
proof -
  let ?q = "spend p (bestHost p t) t"
  have h: "bestHost p t \<in> candidates p t" using assms bestHost_least by blast
  have less: "roomSum ?q t < roomSum p t" using roomSum_spend [OF assms(1) h] .
  then obtain k where k: "roomSum p t = Suc k" by (cases "roomSum p t") auto
  have nx: "placerNext p t = Some (bestHost p t, costOf p (bestHost p t), ?q)"
    using assms by (simp add: placerNext_best bestHost_empty)
  have "placeAll p t = (fst (placeLoop k ?q t) + 1, snd (placeLoop k ?q t))"
    by (simp add: placeAll_def k placeLoop_go [OF nx])
  moreover have "placeLoop k ?q t = placeAll ?q t"
    using placeLoop_fuel [of ?q t k] assms(1) less k by simp
  ultimately show ?thesis by simp
qed

text \<open>Induction over the placements of one run.\<close>

lemma placing_induct [consumes 1, case_names none some]:
  assumes "placerOK p"
    and "\<And>p. placerOK p \<Longrightarrow> candidates p t = {} \<Longrightarrow> P p"
    and "\<And>p. placerOK p \<Longrightarrow> candidates p t \<noteq> {} \<Longrightarrow> bestHost p t \<in> candidates p t \<Longrightarrow>
           P (spend p (bestHost p t) t) \<Longrightarrow> P p"
  shows "P p"
  using assms(1)
proof (induction "roomSum p t" arbitrary: p rule: less_induct)
  case less
  show ?case
  proof (cases "candidates p t = {}")
    case True
    then show ?thesis using assms(2) less by blast
  next
    case False
    then have h: "bestHost p t \<in> candidates p t" using bestHost_least [OF less.prems] by blast
    have "placerOK (spend p (bestHost p t) t)" using less.prems by simp
    then have "P (spend p (bestHost p t) t)"
      using less.hyps roomSum_spend [OF less.prems h] by blast
    then show ?thesis using assms(3) [OF less.prems False h] by blast
  qed
qed

text \<open>
  C25. Placing one job at a time always ends, and ends for the right reason: after the run
  no candidate machine has room for one more of the tier, and every further choice is
  refused.
\<close>

theorem placeAll_exhausts:
  assumes "placerOK p"
  shows "candidates (snd (placeAll p t)) t = {} \<and> placerNext (snd (placeAll p t)) t = None"
proof -
  have "placerOK (snd (placeAll p t))"
    using assms by (induction rule: placing_induct [where t = t]) (simp_all add: placeAll_none placeAll_some)
  moreover have "candidates (snd (placeAll p t)) t = {}"
    using placeLoop_done [OF assms] by (simp add: placeAll_def)
  ultimately show ?thesis by (simp add: placerNext_None)
qed

theorem placeAll_exhausts_witness:
  "placerOK samplePlacer \<and> fst (placeAll samplePlacer smallTier) = 4
   \<and> placerNext (snd (placeAll samplePlacer smallTier)) smallTier = None"
proof -
  have "fst (placeAll samplePlacer smallTier) = 4" by code_simp
  then show ?thesis
    using placerOK_samplePlacer placeAll_exhausts [OF placerOK_samplePlacer, of smallTier] by blast
qed

section \<open>Candidates in two parts\<close>

definition onlyHosts :: "(nodeRow \<Rightarrow> bool) \<Rightarrow> placer \<Rightarrow> placer" where
  "onlyHosts G p = p\<lparr>p_order := filter G (p_order p)\<rparr>"

lemma onlyHosts_fields [placer_simps]:
  "p_order (onlyHosts G p) = filter G (p_order p)" "p_cost (onlyHosts G p) = p_cost p"
  "p_rank (onlyHosts G p) = p_rank p" "p_policy (onlyHosts G p) = p_policy p"
  "p_sizes (onlyHosts G p) = p_sizes p" "p_freeVCPU (onlyHosts G p) = p_freeVCPU p"
  "p_freeMemory (onlyHosts G p) = p_freeMemory p" "p_freeMacOS (onlyHosts G p) = p_freeMacOS p"
  "p_deploymentVCPU (onlyHosts G p) = p_deploymentVCPU p"
  "p_deploymentMemory (onlyHosts G p) = p_deploymentMemory p"
  by (simp_all add: onlyHosts_def)

text \<open>Two placers that read the same at a host choose alike there.\<close>

definition agreeAt :: "placer \<Rightarrow> placer \<Rightarrow> string \<Rightarrow> bool" where
  "agreeAt p q h \<longleftrightarrow>
     p_cost p h = p_cost q h \<and> p_rank p h = p_rank q h \<and> p_sizes p h = p_sizes q h
     \<and> p_freeVCPU p h = p_freeVCPU q h \<and> p_freeMemory p h = p_freeMemory q h
     \<and> p_freeMacOS p h = p_freeMacOS q h \<and> p_policy p = p_policy q
     \<and> p_deploymentVCPU p = p_deploymentVCPU q \<and> p_deploymentMemory p = p_deploymentMemory q"

lemma agreeAt_room: "agreeAt p q h \<Longrightarrow> roomFor p h t = roomFor q h t"
  unfolding agreeAt_def roomFor_def by (elim conjE) (simp only:)

lemma agreeAt_key: "agreeAt p q h \<Longrightarrow> placeKey p t h = placeKey q t h"
  using agreeAt_room [of p q h t]
  by (cases "p_sizes q h") (simp add: agreeAt_def placeKey_def policyKey_def leftOver_def costOf_def Let_def)

lemma agreeAt_onlyHosts: "agreeAt (onlyHosts G p) p h"
  by (simp add: agreeAt_def placer_simps)

lemmas roomFor_onlyHosts [simp] = agreeAt_room [OF agreeAt_onlyHosts]
lemmas placeKey_onlyHosts [simp] = agreeAt_key [OF agreeAt_onlyHosts]

lemma placerOK_onlyHosts: "placerOK p \<Longrightarrow> placerOK (onlyHosts G p)"
  by (auto simp: placerOK_def placer_simps distinct_map_filter)

lemma spend_onlyHosts: "spend (onlyHosts G p) h t = onlyHosts G (spend p h t)"
  by (simp add: spend_def onlyHosts_def costOf_def Let_def)

lemma candidates_onlyHosts_sub: "candidates (onlyHosts G p) t \<subseteq> candidates p t"
  by (auto simp: candidates_def placer_simps)

text \<open>
  A part of the candidates that holds every least one decides the choice.
\<close>

lemma bestHost_onlyHosts:
  assumes "placerOK p" and "candidates (onlyHosts G p) t \<noteq> {}"
    and "\<And>h h'. h \<in> candidates (onlyHosts G p) t \<Longrightarrow> h' \<in> candidates p t \<Longrightarrow>
           h' \<notin> candidates (onlyHosts G p) t \<Longrightarrow> placeKey p t h \<le> placeKey p t h'"
  shows "bestHost p t = bestHost (onlyHosts G p) t"
proof (rule bestHost_unique [OF assms(1)])
  have least: "bestHost (onlyHosts G p) t \<in> candidates (onlyHosts G p) t"
    "\<And>h. h \<in> candidates (onlyHosts G p) t \<Longrightarrow> placeKey p t (bestHost (onlyHosts G p) t) \<le> placeKey p t h"
    using bestHost_least [OF placerOK_onlyHosts [OF assms(1)] assms(2)] by simp_all
  then show "bestHost (onlyHosts G p) t \<in> candidates p t" using candidates_onlyHosts_sub by blast
  fix h' assume h': "h' \<in> candidates p t"
  show "placeKey p t (bestHost (onlyHosts G p) t) \<le> placeKey p t h'"
    using least assms(3) [OF least(1) h'] by blast
qed

lemma candidates_spend_none:
  assumes "placerOK p" and "candidates (onlyHosts G p) t = {}"
  shows "candidates (onlyHosts G (spend p h t)) t = {}"
proof -
  have "0 < roomFor (spend p h t) n t \<Longrightarrow> 0 < roomFor p n t" for n
    using roomFor_spend_le [OF assms(1), of h t n] by linarith
  then show ?thesis using assms(2) by (auto simp: candidates_def placer_simps)
qed

text \<open>Hosts with no room stay without it, and leaving them out changes nothing.\<close>

lemma placeAll_drop:
  assumes "placerOK p" and "candidates (onlyHosts G p) t = {}"
  shows "fst (placeAll p t) = fst (placeAll (onlyHosts (\<lambda>n. \<not> G n) p) t)"
  using assms
proof (induction rule: placing_induct [where t = t])
  case (none p)
  then have "candidates (onlyHosts (\<lambda>n. \<not> G n) p) t = {}" using candidates_onlyHosts_sub by blast
  then show ?case using none by (simp add: placeAll_none placerOK_onlyHosts)
next
  case (some p)
  let ?R = "onlyHosts (\<lambda>n. \<not> G n) p"
  have same: "candidates p t = candidates ?R t"
    using some.prems by (auto simp: candidates_def placer_simps image_iff)
  have best: "bestHost p t = bestHost ?R t"
    using some.hyps same by (intro bestHost_onlyHosts) auto
  have "fst (placeAll (spend p (bestHost p t) t) t) =
        fst (placeAll (spend ?R (bestHost ?R t) t) t)"
    using some.IH candidates_spend_none [OF some.hyps(1) some.prems] best
    by (simp add: spend_onlyHosts)
  then show ?case
    using some.hyps same placeAll_some [OF some.hyps(1,2)]
      placeAll_some [OF placerOK_onlyHosts [OF some.hyps(1)], of "\<lambda>n. \<not> G n" t] by simp
qed

text \<open>
  A run fills the hosts of a lower rank before it takes any of a higher one, so it is a run
  over the first followed by a run over the rest.
\<close>

lemma placeAll_split:
  assumes "placerOK p"
    and "\<And>n m. n \<in> set (p_order p) \<Longrightarrow> m \<in> set (p_order p) \<Longrightarrow> G n \<Longrightarrow> \<not> G m \<Longrightarrow>
           p_rank p (nr_name n) < p_rank p (nr_name m)"
  shows "fst (placeAll p t) =
    fst (placeAll (onlyHosts G p) t) +
    fst (placeAll ((snd (placeAll (onlyHosts G p) t))\<lparr>p_order := filter (\<lambda>n. \<not> G n) (p_order p)\<rparr>) t)"
  using placerOK_onlyHosts [OF assms(1), of G] assms
proof (induction "onlyHosts G p" arbitrary: p rule: placing_induct [where t = t])
  case (none p)
  then show ?case
    by (simp add: placeAll_none placeAll_drop) (simp add: onlyHosts_def)
next
  case (some p)
  let ?h = "bestHost (onlyHosts G p) t"
  have G: "h \<in> candidates (onlyHosts G p) t \<Longrightarrow> h' \<in> candidates p t \<Longrightarrow>
      h' \<notin> candidates (onlyHosts G p) t \<Longrightarrow> placeKey p t h \<le> placeKey p t h'" for h h'
    using some.prems(2) by (auto simp: candidates_def placer_simps placeKey_def)
  have best: "bestHost p t = ?h" using some.prems some.hyps G by (intro bestHost_onlyHosts)
  have ne: "candidates p t \<noteq> {}" using some.hyps candidates_onlyHosts_sub by blast
  have "fst (placeAll (spend p ?h t) t) =
    fst (placeAll (onlyHosts G (spend p ?h t)) t) +
    fst (placeAll ((snd (placeAll (onlyHosts G (spend p ?h t)) t))
          \<lparr>p_order := filter (\<lambda>n. \<not> G n) (p_order p)\<rparr>) t)"
    using some.hyps(4) [of "spend p ?h t"] some.prems by (simp add: spend_onlyHosts placer_simps)
  then show ?case
    using placeAll_some [OF some.prems(1) ne] placeAll_some [OF some.hyps(1,2)] best
    by (simp add: spend_onlyHosts)
qed

section \<open>A run reads only its own hosts\<close>

definition agree :: "placer \<Rightarrow> placer \<Rightarrow> bool" where
  "agree p q \<longleftrightarrow> p_order p = p_order q
     \<and> p_deploymentVCPU p = p_deploymentVCPU q \<and> p_deploymentMemory p = p_deploymentMemory q
     \<and> (\<forall>n \<in> set (p_order p). agreeAt p q (nr_name n))
     \<and> placerOK p \<and> placerOK q"

lemma agree_candidates: "agree p q \<Longrightarrow> candidates p t = candidates q t"
  using agreeAt_room [of p q _ t] by (auto simp: agree_def candidates_def)

lemma agree_bestHost:
  assumes "agree p q" and "candidates p t \<noteq> {}"
  shows "bestHost p t = bestHost q t"
proof -
  have pq: "placerOK p" "placerOK q" and c: "candidates p t = candidates q t"
    using assms agree_candidates by (auto simp: agree_def)
  have key: "h \<in> candidates p t \<Longrightarrow> placeKey p t h = placeKey q t h" for h
    using assms(1) agreeAt_key [of p q _ t] by (auto simp: agree_def candidates_def)
  show ?thesis
  proof (rule bestHost_unique [OF pq(1)])
    show "bestHost q t \<in> candidates p t" using bestHost_least [OF pq(2)] assms(2) c by auto
    then show "h' \<in> candidates p t \<Longrightarrow> placeKey p t (bestHost q t) \<le> placeKey p t h'" for h'
      using bestHost_least [OF pq(2), of t] assms(2) c key by auto
  qed
qed

lemma agree_spend:
  assumes "agree p q" and "h \<in> candidates p t"
  shows "agree (spend p h t) (spend q h t)"
proof -
  have "costOf p h = costOf q h" and "agreeAt p q h"
    using assms by (auto simp: agree_def candidates_def agreeAt_def costOf_def)
  then show ?thesis using assms(1) by (auto simp: agree_def agreeAt_def placer_simps)
qed

lemma placeAll_agree:
  assumes "agree p q"
  shows "fst (placeAll p t) = fst (placeAll q t)"
proof -
  have "placerOK p" using assms by (simp add: agree_def)
  then show ?thesis using assms
  proof (induction arbitrary: q rule: placing_induct [where t = t])
    case (none p)
    then have "candidates q t = {}" "placerOK q" using agree_candidates by (auto simp: agree_def)
    then show ?case using none by (simp add: placeAll_none)
  next
    case (some p)
    have q: "candidates q t \<noteq> {}" "placerOK q"
      using some.prems some.hyps agree_candidates by (auto simp: agree_def)
    have "agree (spend p (bestHost p t) t) (spend q (bestHost q t) t)"
      using agree_spend [OF some.prems some.hyps(3)] agree_bestHost [OF some.prems some.hyps(2)] by simp
    then show ?case
      using some.IH placeAll_some [OF some.hyps(1,2)] placeAll_some [OF q(2,1)] by simp
  qed
qed

text \<open>A run leaves a host that is not its own, and everything but the free room, as it was.\<close>

lemma placeAll_fixed:
  assumes "placerOK p"
  shows "p_cost (snd (placeAll p t)) = p_cost p \<and> p_rank (snd (placeAll p t)) = p_rank p
      \<and> p_policy (snd (placeAll p t)) = p_policy p \<and> p_sizes (snd (placeAll p t)) = p_sizes p
      \<and> p_order (snd (placeAll p t)) = p_order p \<and> placerOK (snd (placeAll p t))"
  using assms
  by (induction rule: placing_induct [where t = t]) (simp_all add: placeAll_none placeAll_some placer_simps)

lemma placeAll_frame:
  assumes "placerOK p" and "h \<notin> nr_name ` set (p_order p)"
  shows "p_freeVCPU (snd (placeAll p t)) h = p_freeVCPU p h
      \<and> p_freeMemory (snd (placeAll p t)) h = p_freeMemory p h
      \<and> p_freeMacOS (snd (placeAll p t)) h = p_freeMacOS p h"
  using assms
proof (induction rule: placing_induct [where t = t])
  case (some p)
  moreover have "bestHost p t \<noteq> h" using some.hyps(3) some.prems by (auto simp: candidates_def)
  ultimately show ?case by (simp add: placeAll_some placer_simps)
qed (simp add: placeAll_none)

section \<open>Hosts that charge the same\<close>

text \<open>A host's own room, before the deployment's ceiling.\<close>

definition hostRoom :: "placer \<Rightarrow> Tier \<Rightarrow> int \<Rightarrow> int \<Rightarrow> string \<Rightarrow> int" where
  "hostRoom p t cv cm h =
     (let room = min (slots (p_freeVCPU p h) cv) (slots (p_freeMemory p h) cm)
      in if t_guestOS t = GuestMacOS then min room (max (p_freeMacOS p h) 0) else room)"

definition depRoom :: "int \<Rightarrow> int \<Rightarrow> int \<Rightarrow> int \<Rightarrow> int" where
  "depRoom dv dm cv cm = min (slots dv cv) (slots dm cm)"

definition uniform :: "placer \<Rightarrow> int \<Rightarrow> int \<Rightarrow> bool" where
  "uniform p cv cm \<longleftrightarrow> placerOK p \<and> 0 < cv \<and> 0 < cm \<and>
     (\<forall>n \<in> set (p_order p). \<exists>c. p_cost p (nr_name n) = Some c \<and> c_vcpu c = cv \<and> c_memory c = cm)"

lemma hostRoom_nonneg [simp]: "0 < cv \<Longrightarrow> 0 < cm \<Longrightarrow> 0 \<le> hostRoom p t cv cm h"
  by (simp add: hostRoom_def Let_def slots_def pos_imp_zdiv_nonneg_iff)

lemma depRoom_nonneg [simp]: "0 < cv \<Longrightarrow> 0 < cm \<Longrightarrow> 0 \<le> depRoom dv dm cv cm"
  by (simp add: depRoom_def slots_def pos_imp_zdiv_nonneg_iff)

lemma uniform_room:
  assumes "uniform p cv cm" and "n \<in> set (p_order p)"
  shows "roomFor p (nr_name n) t =
    min (hostRoom p t cv cm (nr_name n)) (depRoom (p_deploymentVCPU p) (p_deploymentMemory p) cv cm)"
proof -
  obtain c where c: "p_cost p (nr_name n) = Some c" "c_vcpu c = cv" "c_memory c = cm"
    using assms by (auto simp: uniform_def)
  have "roomFor p (nr_name n) t = roomOfCost p (nr_name n) t c"
    using roomFor_slots [OF _ c(1)] assms by (simp add: uniform_def)
  then show ?thesis
    by (cases "t_guestOS t = GuestMacOS")
       (simp_all only: roomOfCost_def hostRoom_def depRoom_def Let_def c min.assoc min.commute
          min.left_commute if_True if_False simp_thms)
qed

lemma uniform_spend:
  assumes "uniform p cv cm" and "h \<in> candidates p t"
  shows "uniform (spend p h t) cv cm"
    "c_vcpu (costOf p h) = cv" "c_memory (costOf p h) = cm"
    "hostRoom (spend p h t) t cv cm h = hostRoom p t cv cm h - 1" "0 < hostRoom p t cv cm h"
    "x \<noteq> h \<Longrightarrow> hostRoom (spend p h t) t cv cm x = hostRoom p t cv cm x"
    "depRoom (p_deploymentVCPU p - cv) (p_deploymentMemory p - cm) cv cm =
     depRoom (p_deploymentVCPU p) (p_deploymentMemory p) cv cm - 1"
    "0 < depRoom (p_deploymentVCPU p) (p_deploymentMemory p) cv cm"
proof -
  obtain n where n: "n \<in> set (p_order p)" "nr_name n = h" and pos: "0 < roomFor p h t"
    using assms(2) by (auto simp: candidates_def)
  have cc: "0 < cv" "0 < cm" and ok: "placerOK p" using assms(1) by (auto simp: uniform_def)
  obtain c where c: "p_cost p h = Some c" "c_vcpu c = cv" "c_memory c = cm"
    using assms(1) n by (auto simp: uniform_def)
  then show cost: "c_vcpu (costOf p h) = cv" "c_memory (costOf p h) = cm" by (simp_all add: costOf_def)
  have fit: "cv \<le> p_freeVCPU p h" "cm \<le> p_freeMemory p h" "cv \<le> p_deploymentVCPU p"
    "cm \<le> p_deploymentMemory p" "t_guestOS t = GuestMacOS \<longrightarrow> 0 < p_freeMacOS p h"
    using pos roomFor_pos [OF ok, of h t] c by auto
  have mac: "max (p_freeMacOS p h - 1) 0 = max (p_freeMacOS p h) 0 - 1" if "t_guestOS t = GuestMacOS"
    using fit(5) that by simp
  show "uniform (spend p h t) cv cm" using assms(1) by (simp add: uniform_def placer_simps)
  show "hostRoom (spend p h t) t cv cm h = hostRoom p t cv cm h - 1"
    using cc fit mac by (simp add: hostRoom_def Let_def placer_simps cost slots_sub min_diff_distrib_left)
  show "x \<noteq> h \<Longrightarrow> hostRoom (spend p h t) t cv cm x = hostRoom p t cv cm x"
    by (simp add: hostRoom_def Let_def placer_simps)
  show "depRoom (p_deploymentVCPU p - cv) (p_deploymentMemory p - cm) cv cm =
     depRoom (p_deploymentVCPU p) (p_deploymentMemory p) cv cm - 1"
    using cc fit by (simp add: depRoom_def slots_sub min_diff_distrib_left)
  show "0 < hostRoom p t cv cm h" "0 < depRoom (p_deploymentVCPU p) (p_deploymentMemory p) cv cm"
    using pos uniform_room [OF assms(1) n(1), of t] n(2) by auto
qed

definition hostRooms :: "placer \<Rightarrow> Tier \<Rightarrow> int \<Rightarrow> int \<Rightarrow> int" where
  "hostRooms p t cv cm = sum_list (map (\<lambda>n. hostRoom p t cv cm (nr_name n)) (p_order p))"

lemma hostRooms_spend:
  assumes "uniform p cv cm" and "h \<in> candidates p t"
  shows "hostRooms (spend p h t) t cv cm = hostRooms p t cv cm - 1"
proof -
  obtain n xs ys where n: "p_order p = xs @ n # ys" "nr_name n = h"
    using assms(2) by (auto simp: candidates_def dest: split_list)
  have "distinct (map nr_name (p_order p))" using assms(1) by (simp add: uniform_def placerOK_def)
  then have "m \<in> set xs \<union> set ys \<Longrightarrow> nr_name m \<noteq> h" for m
    using n by (force simp: image_iff)
  then have same: "map (\<lambda>m. hostRoom (spend p h t) t cv cm (nr_name m)) zs
      = map (\<lambda>m. hostRoom p t cv cm (nr_name m)) zs" if "set zs \<subseteq> set xs \<union> set ys" for zs
    using that uniform_spend(6) [OF assms] by (intro map_cong) auto
  show ?thesis
    using n uniform_spend(4) [OF assms] same [of xs] same [of ys]
    by (simp add: hostRooms_def placer_simps del: map_eq_conv)
qed

lemma placeAll_uniform:
  assumes "uniform p cv cm"
  shows "fst (placeAll p t) =
      min (hostRooms p t cv cm) (depRoom (p_deploymentVCPU p) (p_deploymentMemory p) cv cm)
    \<and> p_deploymentVCPU (snd (placeAll p t)) = p_deploymentVCPU p - fst (placeAll p t) * cv
    \<and> p_deploymentMemory (snd (placeAll p t)) = p_deploymentMemory p - fst (placeAll p t) * cm"
proof -
  have "placerOK p" using assms by (simp add: uniform_def)
  then show ?thesis using assms
  proof (induction rule: placing_induct [where t = t])
    case (none p)
    have cc: "0 < cv" "0 < cm" using none.prems by (auto simp: uniform_def)
    let ?d = "depRoom (p_deploymentVCPU p) (p_deploymentMemory p) cv cm"
    have "\<forall>n \<in> set (p_order p). min (hostRoom p t cv cm (nr_name n)) ?d \<le> 0"
      using none uniform_room [OF none.prems, of _ t] by (auto simp: candidates_def not_less)
    then have "?d = 0 \<or> (\<forall>n \<in> set (p_order p). hostRoom p t cv cm (nr_name n) = 0)"
      using cc by (force simp: min_le_iff_disj intro: antisym)
    moreover have "0 \<le> hostRooms p t cv cm" "0 \<le> ?d"
      using cc by (auto simp: hostRooms_def intro!: sum_list_nonneg)
    moreover have "(\<forall>n \<in> set (p_order p). hostRoom p t cv cm (nr_name n) = 0) \<Longrightarrow> hostRooms p t cv cm = 0"
      by (simp add: hostRooms_def cong: map_cong)
    ultimately show ?case using none by (auto simp: placeAll_none)
  next
    case (some p)
    let ?q = "spend p (bestHost p t) t"
    note u = uniform_spend [OF some.prems some.hyps(3)]
    have n: "fst (placeAll ?q t) + 1 =
        min (hostRooms p t cv cm) (depRoom (p_deploymentVCPU p) (p_deploymentMemory p) cv cm)"
      using some.IH [OF u(1)] hostRooms_spend [OF some.prems some.hyps(3)] u(2,3,7)
      by (simp add: placer_simps)
    have "p_deploymentVCPU (snd (placeAll ?q t)) = p_deploymentVCPU p - (fst (placeAll ?q t) + 1) * cv"
      "p_deploymentMemory (snd (placeAll ?q t)) = p_deploymentMemory p - (fst (placeAll ?q t) + 1) * cm"
      using some.IH [OF u(1), THEN conjunct2] u(2,3) by (simp_all add: placer_simps algebra_simps)
    then show ?case using n by (simp add: placeAll_some [OF some.hyps(1,2)])
  qed
qed

lemma foldl_capped:
  assumes "\<And>x. x \<in> set xs \<Longrightarrow> 0 \<le> f x" and "acc \<le> (d::int)"
  shows "foldl (\<lambda>acc x. acc + min (f x) (d - acc)) acc xs = min (acc + sum_list (map f xs)) d"
  using assms
proof (induction xs arbitrary: acc)
  case (Cons x xs)
  have "0 \<le> sum_list (map f xs)" using Cons.prems(1) by (intro sum_list_nonneg) auto
  then show ?case using Cons.IH [of "acc + min (f x) (d - acc)"] Cons.prems by (simp add: min_def)
qed simp

lemma uniformCount_eq:
  assumes "0 < c_vcpu cost" and "0 < c_memory cost"
  shows "uniformCount p t hosts cost dv dm =
    min (sum_list (map (\<lambda>n. hostRoom p t (c_vcpu cost) (c_memory cost) (nr_name n)) hosts))
        (depRoom dv dm (c_vcpu cost) (c_memory cost))"
proof -
  have m: "max (min x y) (0::int) = min (max x 0) (max y 0)" for x y by simp
  have d: "max (min (go_div dv (c_vcpu cost)) (go_div dm (c_memory cost))) 0 =
      depRoom dv dm (c_vcpu cost) (c_memory cost)"
    using assms by (simp add: m max_go_div depRoom_def slots_def)
  have h: "max (if t_guestOS t = GuestMacOS
        then min (min (go_div (p_freeVCPU p x) (c_vcpu cost)) (go_div (p_freeMemory p x) (c_memory cost)))
               (p_freeMacOS p x)
        else min (go_div (p_freeVCPU p x) (c_vcpu cost)) (go_div (p_freeMemory p x) (c_memory cost))) 0 =
      hostRoom p t (c_vcpu cost) (c_memory cost) x" for x
    using assms by (simp add: m max_go_div hostRoom_def slots_def Let_def)
  show ?thesis
    using assms foldl_capped [of hosts "\<lambda>n. hostRoom p t (c_vcpu cost) (c_memory cost) (nr_name n)" 0
        "depRoom dv dm (c_vcpu cost) (c_memory cost)"]
    by (simp add: uniformCount_def Let_def d h)
qed

section \<open>The two counts agree\<close>

definition atRank :: "placer \<Rightarrow> int \<Rightarrow> nodeRow \<Rightarrow> bool" where
  "atRank p r n \<longleftrightarrow> hasCost p n \<and> p_rank p (nr_name n) = r"

definition ofRanks :: "placer \<Rightarrow> int list \<Rightarrow> int \<Rightarrow> int \<Rightarrow> placer" where
  "ofRanks p rs dv dm = p\<lparr>p_order := filter (\<lambda>n. hasCost p n \<and> p_rank p (nr_name n) \<in> set rs) (p_order p),
     p_deploymentVCPU := dv, p_deploymentMemory := dm\<rparr>"

lemma ofRanks_OK: "placerOK p \<Longrightarrow> placerOK (ofRanks p rs dv dm)"
  by (auto simp: placerOK_def ofRanks_def distinct_map_filter)

lemma oneCost_uniform:
  assumes "placerOK p" and "oneCost p hosts = Some cost" and "hosts \<noteq> []"
    and "hosts = filter (atRank p r) (p_order p)"
  shows "uniform (p\<lparr>p_order := hosts, p_deploymentVCPU := dv, p_deploymentMemory := dm\<rparr>)
           (c_vcpu cost) (c_memory cost)"
proof -
  have same: "\<forall>n \<in> set hosts. c_vcpu (costOf p (nr_name n)) = c_vcpu cost
      \<and> c_memory (costOf p (nr_name n)) = c_memory cost" and pos: "0 < c_vcpu cost" "0 < c_memory cost"
    using assms(2,3) by (cases hosts; auto simp: oneCost_def Let_def list_all_iff split: if_splits)+
  have "n \<in> set hosts \<Longrightarrow> \<exists>c. p_cost p (nr_name n) = Some c \<and> c_vcpu c = c_vcpu cost \<and> c_memory c = c_memory cost" for n
    using same assms(4) by (auto simp: atRank_def hasCost_def costOf_def)
  then show ?thesis
    using assms(1,4) pos by (auto simp: uniform_def placerOK_def distinct_map_filter)
qed

lemma countRanks_eq:
  assumes "placerOK p" and "sorted_wrt (<) rs"
    and "\<And>r. r \<in> set rs \<Longrightarrow> filter (atRank p r) (p_order p) \<noteq> []"
  shows "countRanks p t rs dv dm = fst (placeAll (ofRanks p rs dv dm) t)"
  using assms(2,3)
proof (induction rs arbitrary: dv dm)
  case Nil
  have "candidates (ofRanks p [] dv dm) t = {}" by (simp add: candidates_def ofRanks_def)
  then show ?case using ofRanks_OK [OF assms(1)] by (simp add: placeAll_none)
next
  case (Cons r rs)
  let ?p = "ofRanks p (r # rs) dv dm"
  let ?hosts = "filter (atRank p r) (p_order p)"
  let ?g = "p\<lparr>p_order := ?hosts, p_deploymentVCPU := dv, p_deploymentMemory := dm\<rparr>"
  let ?q = "snd (placeAll ?g t)"
  have ok: "placerOK ?p" "placerOK ?g"
    using assms(1) by (auto simp: placerOK_def ofRanks_def distinct_map_filter)
  have g: "onlyHosts (atRank p r) ?p = ?g"
    by (rule placer.equality)
       (simp_all add: onlyHosts_def ofRanks_def atRank_def, auto intro!: filter_cong simp: atRank_def)
  have hosts: "filter (\<lambda>n. hasCost p n \<and> p_rank p (nr_name n) = r) (p_order p) = ?hosts"
    by (simp add: atRank_def [abs_def])
  have rest: "filter (\<lambda>n. \<not> atRank p r n) (p_order ?p) =
      filter (\<lambda>n. hasCost p n \<and> p_rank p (nr_name n) \<in> set rs) (p_order p)"
    using Cons.prems(1) by (auto simp: ofRanks_def atRank_def intro!: filter_cong)
  have lower: "fst (placeAll ?p t) = fst (placeAll ?g t) +
      fst (placeAll (?q\<lparr>p_order := filter (\<lambda>n. hasCost p n \<and> p_rank p (nr_name n) \<in> set rs) (p_order p)\<rparr>) t)"
    using placeAll_split [OF ok(1), of "atRank p r" t] Cons.prems(1) g rest
    by (force simp: ofRanks_def atRank_def)
  have "agree (?q\<lparr>p_order := filter (\<lambda>n. hasCost p n \<and> p_rank p (nr_name n) \<in> set rs) (p_order p)\<rparr>)
      (ofRanks p rs (p_deploymentVCPU ?q) (p_deploymentMemory ?q))" (is "agree ?a ?b")
  proof -
    have "placerOK ?a" "placerOK ?b"
      using placeAll_fixed [OF ok(2), of t] assms(1) by (auto simp: placerOK_def ofRanks_def distinct_map_filter)
    moreover have "agreeAt ?a ?b (nr_name n)"
      if "n \<in> set (p_order p)" "p_rank p (nr_name n) \<in> set rs" for n
    proof -
      have "nr_name n \<notin> nr_name ` set (p_order ?g)"
        using that Cons.prems(1) by (auto simp: atRank_def)
      then show ?thesis
        using placeAll_fixed [OF ok(2), of t] placeAll_frame [OF ok(2), of "nr_name n" t]
        by (simp add: agreeAt_def ofRanks_def)
    qed
    ultimately show ?thesis by (auto simp: agree_def ofRanks_def)
  qed
  then have total: "fst (placeAll ?p t) = fst (placeAll ?g t) +
      countRanks p t rs (p_deploymentVCPU ?q) (p_deploymentMemory ?q)"
    using lower placeAll_agree Cons.IH Cons.prems by simp
  show ?case
  proof (cases "oneCost p ?hosts")
    case None
    then show ?thesis using total by (simp add: hosts Let_def split_beta)
  next
    case (Some cost)
    have u: "uniform ?g (c_vcpu cost) (c_memory cost)"
      using oneCost_uniform [OF assms(1) Some] Cons.prems(2) by simp
    have "hostRoom ?g t (c_vcpu cost) (c_memory cost) x = hostRoom p t (c_vcpu cost) (c_memory cost) x" for x
      by (simp add: hostRoom_def Let_def)
    then have "uniformCount p t ?hosts cost dv dm = fst (placeAll ?g t)"
      using placeAll_uniform [OF u, of t] u
      by (simp add: uniformCount_eq uniform_def hostRooms_def)
    then show ?thesis
      using placeAll_uniform [OF u, of t] total Some by (simp add: hosts Let_def)
  qed
qed

lemma placerTotal_placeAll:
  assumes "placerOK p"
  shows "placerTotal p t = fst (placeAll p t)"
proof -
  have ranks: "set (ranksOf p) = (\<lambda>n. p_rank p (nr_name n)) ` {n \<in> set (p_order p). hasCost p n}"
    by (simp add: ranksOf_def)
  have "sorted (ranksOf p)" "distinct (ranksOf p)" by (simp_all add: ranksOf_def)
  then have "sorted_wrt (<) (ranksOf p)" by (simp add: strict_sorted_iff)
  then have "placerTotal p t = fst (placeAll (ofRanks p (ranksOf p) (p_deploymentVCPU p) (p_deploymentMemory p)) t)"
    unfolding placerTotal_def countByRank_def
    by (rule countRanks_eq [OF assms]) (auto simp: ranks atRank_def filter_empty_conv)
  also have "ofRanks p (ranksOf p) (p_deploymentVCPU p) (p_deploymentMemory p) = onlyHosts (\<lambda>n. \<not> \<not> hasCost p n) p"
    by (rule placer.equality) (simp_all add: ofRanks_def onlyHosts_def ranks, auto intro!: filter_cong)
  also have "fst (placeAll \<dots> t) = fst (placeAll p t)"
    by (rule placeAll_drop [OF assms, symmetric])
       (auto simp: candidates_def placer_simps hasCost_def roomFor_def)
  finally show ?thesis .
qed

lemma placeAll_nonneg: "placerOK p \<Longrightarrow> 0 \<le> fst (placeAll p t)"
  by (induction rule: placing_induct [where t = t]) (simp_all add: placeAll_none placeAll_some)

lemma placerTotal_places: "placerOK p \<Longrightarrow> placerTotal p t = fst (placeAll p t) \<and> 0 \<le> placerTotal p t"
  by (simp add: placerTotal_placeAll placeAll_nonneg)

text \<open>
  C14. Counting what fits, one preference rank at a time and by one division a host where a
  rank charges alike, gives exactly the number of jobs that placing one at a time over the
  whole fleet would place: every limit at once (each host's vCPU, memory and macOS slots,
  the deployment's remaining vCPU and memory), for every placement policy. The number a
  tier is told fits is the number its purchases can really place.
\<close>

theorem placerTotal_counts_placements:
  assumes "placerOK p"
  shows "placerTotal p t = fst (placeAll p t)"
  using assms by (rule placerTotal_placeAll)

theorem placerTotal_counts_placements_witness:
  "placerOK samplePlacer \<and> placerTotal samplePlacer smallTier = fst (placeAll samplePlacer smallTier)
   \<and> placerTotal samplePlacer smallTier = 4"
proof -
  have "placerTotal samplePlacer smallTier = 4" by code_simp
  then show ?thesis
    using placerOK_samplePlacer placerTotal_counts_placements [OF placerOK_samplePlacer, of smallTier]
    by blast
qed

end
