(* ===== verification/Fleet.thy ===== *)
theory Fleet
  imports Placement_Count
begin

text \<open>
  Measuring the fleet and holding the reserved floors: \<open>fleetResources\<close>,
  \<open>usageByNode\<close>, \<open>floorLeases\<close>, \<open>forTier\<close> of
  \<open>internal/alloc/placement.go\<close>; \<open>reserveFloors\<close> and \<open>holdFloor\<close> of
  \<open>internal/alloc/floors.go\<close>; the target shares of \<open>internal/alloc/share.go\<close>; and
  \<open>headroomWithPlacer\<close> of \<open>internal/alloc/alloc.go\<close>.

  In the code every placer made from one fleet spends the same maps; here a floor's placer
  hands its free room back and the next placer is made from what is left.
\<close>

section \<open>The fleet\<close>

type_synonym charge = "int \<times> int"

record fleet =
  f_vcpu :: "string \<Rightarrow> int"
  f_memory :: "string \<Rightarrow> int"
  f_macOS :: "string \<Rightarrow> int"
  f_rows :: "nodeRow list"
  f_heldOn :: "(string \<times> string \<times> int) list option"
  f_committedVCPU :: int
  f_committedMemory :: int

definition unboundedVCPU :: int where "unboundedVCPU = maxInt64"
definition unboundedMemory :: int where "unboundedMemory = maxInt64"

definition keepsFloor :: "Allocator \<Rightarrow> bool" where
  "keepsFloor a \<longleftrightarrow> list_ex (\<lambda>t. 0 < t_reserved t) (a_tiers a)"

text \<open>The rows of \<open>UsageByNodeAndTier\<close>: a host, a tier, and what its open leases there hold.\<close>

definition UsageByNodeAndTier :: "LeaseRow list \<Rightarrow> (string \<times> string \<times> nodeUsage \<times> int) list" where
  "UsageByNodeAndTier ls =
     map (\<lambda>(node, tier).
       let mine = (\<lambda>r. isOpen r \<and> attributedTo r = node \<and> r_tier r = tier)
       in (node, tier,
           \<lparr>nu_vcpu = sum_where mine r_vcpu ls, nu_memory = sum_where mine r_memory ls,
            nu_macOS = count_where (\<lambda>r. mine r \<and> r_macosSlot r) ls\<rparr>,
           count_where mine ls))
       (remdups (map (\<lambda>r. (attributedTo r, r_tier r)) (filter isOpen ls)))"

definition addUsage :: "nodeUsage \<Rightarrow> nodeUsage \<Rightarrow> nodeUsage" where
  "addUsage u v = \<lparr>nu_vcpu = nu_vcpu u + nu_vcpu v, nu_memory = nu_memory u + nu_memory v,
     nu_macOS = nu_macOS u + nu_macOS v\<rparr>"

definition noUsage :: nodeUsage where
  "noUsage = \<lparr>nu_vcpu = 0, nu_memory = 0, nu_macOS = 0\<rparr>"

text \<open>
  The first component is every host's committed capacity, the second the hosts that have a
  row, and the third the leases each tier holds on each host, read only where some tier
  keeps a floor.
\<close>

definition usageByNode ::
  "Allocator \<Rightarrow> LeaseRow list \<Rightarrow>
   (string \<Rightarrow> nodeUsage) \<times> string list \<times> (string \<times> string \<times> int) list option" where
  "usageByNode a ls =
     (let hosts = remdups (map attributedTo (filter isOpen ls))
      in if \<not> keepsFloor a then (usageOfHost ls, hosts, None)
         else let rows = UsageByNodeAndTier ls
              in (\<lambda>node. foldl (\<lambda>u (n, _, v, _). if n = node then addUsage u v else u) noUsage rows,
                  hosts, Some (map (\<lambda>(n, tier, _, k). (n, tier, k)) rows)))"

definition rowOf :: "nodeRow list \<Rightarrow> string \<Rightarrow> nodeRow option" where
  "rowOf rows name = find (\<lambda>n. nr_name n = name) rows"

definition fleetResources :: "Allocator \<Rightarrow> Ledger \<Rightarrow> fleet result" where
  "fleetResources a d =
     (case liveNodes d of
        Inl e \<Rightarrow> Inl e
      | Inr rows \<Rightarrow>
          (let (used, hosts, held) = usageByNode a (leases d)
           in Inr \<lparr>f_vcpu = (\<lambda>name. case rowOf rows name of None \<Rightarrow> 0
                               | Some n \<Rightarrow> nr_vcpu n - nu_vcpu (used name)),
                   f_memory = (\<lambda>name. case rowOf rows name of None \<Rightarrow> 0
                               | Some n \<Rightarrow> nr_memory n - nu_memory (used name)),
                   f_macOS = (\<lambda>name. case rowOf rows name of None \<Rightarrow> 0
                               | Some n \<Rightarrow> macOSLimit a name - nu_macOS (used name)),
                   f_rows = rows, f_heldOn = held,
                   f_committedVCPU = sum_list (map (\<lambda>h. nu_vcpu (used h)) hosts),
                   f_committedMemory = sum_list (map (\<lambda>h. nu_memory (used h)) hosts)\<rparr>))"

definition floorLeases :: "Ledger \<Rightarrow> fleet \<Rightarrow> string \<Rightarrow> int" where
  "floorLeases d f tier =
     (case f_heldOn f of
        None \<Rightarrow> CountOpenPerTierOnLiveHosts d tier
      | Some held \<Rightarrow>
          (let live = ListLiveNodeNames d
           in sum_list (map (\<lambda>(_, _, n). n)
                (filter (\<lambda>(holder, tr, _). (holder = [] \<or> holder \<in> set live) \<and> tr = tier) held))))"

definition forTier :: "fleet \<Rightarrow> Allocator \<Rightarrow> Tier \<Rightarrow> placer" where
  "forTier f a t =
     (let hosts = eligibleFrom a (f_rows f) t (wireFloor t); policy = PolicyOr (a_placement a)
      in \<lparr>p_order = hosts, p_freeVCPU = f_vcpu f, p_freeMemory = f_memory f,
          p_freeMacOS = f_macOS f,
          p_cost = (\<lambda>name. case rowOf hosts name of None \<Rightarrow> None | Some n \<Rightarrow> nodeCost n t),
          p_deploymentVCPU = unboundedVCPU, p_deploymentMemory = unboundedMemory,
          p_rank = rankBy hosts t, p_policy = policy,
          p_sizes = (\<lambda>name. if policy = PlacementTightest
                       then (case rowOf hosts name of None \<Rightarrow> (0, 0)
                             | Some n \<Rightarrow> (nr_vcpu n, nr_memory n))
                       else (0, 0)),
          p_committedVCPU = f_committedVCPU f, p_committedMemory = f_committedMemory f\<rparr>)"

section \<open>Target shares\<close>

record shareUsage =
  su_byTarget :: "string \<Rightarrow> charge"
  su_unattributed :: charge

definition addCharge :: "charge \<Rightarrow> charge \<Rightarrow> charge" where
  "addCharge x y = (fst x + fst y, snd x + snd y)"

definition chargeTier :: "Allocator \<Rightarrow> shareUsage \<Rightarrow> string \<times> int \<times> int \<Rightarrow> shareUsage" where
  "chargeTier a out = (\<lambda>(tier, v, m).
     case tierOf a tier of
       None \<Rightarrow> out\<lparr>su_unattributed := addCharge (su_unattributed out) (v, m)\<rparr>
     | Some owner \<Rightarrow>
         out\<lparr>su_byTarget := (su_byTarget out)(ShareTarget owner :=
                addCharge (su_byTarget out (ShareTarget owner)) (v, m))\<rparr>)"

definition readTargetUsage :: "Allocator \<Rightarrow> LeaseRow list \<Rightarrow> shareUsage" where
  "readTargetUsage a ls =
     foldl (chargeTier a) \<lparr>su_byTarget = (\<lambda>_. (0, 0)), su_unattributed = (0, 0)\<rparr> (UsageByTier ls)"

definition readShareUsage :: "Allocator \<Rightarrow> LeaseRow list \<Rightarrow> shareUsage" where
  "readShareUsage a ls =
     (if l_shares (a_limits a) = []
      then \<lparr>su_byTarget = (\<lambda>_. (0, 0)), su_unattributed = (0, 0)\<rparr>
      else readTargetUsage a ls)"

definition shareRoom :: "Allocator \<Rightarrow> shareUsage \<Rightarrow> string \<Rightarrow> charge \<Rightarrow> charge" where
  "shareRoom a u target returned =
     (case map_of (l_shares (a_limits a)) target of
        None \<Rightarrow> (unboundedVCPU, unboundedMemory)
      | Some share \<Rightarrow>
          (let used = su_byTarget u target
           in (if 0 < ts_vcpu share
               then ts_vcpu share - fst used - fst (su_unattributed u) + fst returned
               else unboundedVCPU,
               if 0 < ts_memory share
               then ts_memory share - snd used - snd (su_unattributed u) + snd returned
               else unboundedMemory)))"

definition shareTargets :: "Allocator \<Rightarrow> string list" where
  "shareTargets a = sort (map fst (l_shares (a_limits a)))"

record floorCharge =
  fc_vcpu :: int
  fc_memory :: int
  fc_byTarget :: "string \<Rightarrow> charge"

definition noFloors :: floorCharge where
  "noFloors = \<lparr>fc_vcpu = 0, fc_memory = 0, fc_byTarget = (\<lambda>_. (0, 0))\<rparr>"

definition roomAfterFloors :: "Allocator \<Rightarrow> shareUsage \<Rightarrow> charge \<Rightarrow> floorCharge \<Rightarrow> string \<Rightarrow> charge" where
  "roomAfterFloors a u returned floors target =
     (let r = shareRoom a u target returned
      in case map_of (l_shares (a_limits a)) target of
           None \<Rightarrow> r
         | Some _ \<Rightarrow> (fst r - fst (fc_byTarget floors target), snd r - snd (fc_byTarget floors target)))"

definition roomForTier :: "Allocator \<Rightarrow> shareUsage \<Rightarrow> string \<Rightarrow> charge \<Rightarrow> floorCharge \<Rightarrow> charge" where
  "roomForTier a u label returned floors =
     (case tierOf a label of
        Some t \<Rightarrow> roomAfterFloors a u returned floors (ShareTarget t)
      | None \<Rightarrow>
          foldl (\<lambda>out target. let r = roomAfterFloors a u returned floors target
                               in (min (fst out) (fst r), min (snd out) (snd r)))
            (unboundedVCPU, unboundedMemory) (shareTargets a))"

definition shareRoomFor :: "Allocator \<Rightarrow> Ledger \<Rightarrow> string \<Rightarrow> charge \<Rightarrow> floorCharge \<Rightarrow> charge" where
  "shareRoomFor a d label returned floors =
     roomForTier a (readShareUsage a (leases d)) label returned floors"

section \<open>Reserved floors\<close>

fun holdLoop :: "nat \<Rightarrow> placer \<Rightarrow> Tier \<Rightarrow> charge \<times> placer" where
  "holdLoop 0 p t = ((0, 0), p)"
| "holdLoop (Suc missing) p t =
     (case placerNext p t of
        None \<Rightarrow> ((0, 0), p)
      | Some (_, one, q) \<Rightarrow>
          (let (cost, r) = holdLoop missing q t in (addCharge (c_vcpu one, c_memory one) cost, r)))"

definition takeRoom :: "fleet \<Rightarrow> placer \<Rightarrow> fleet" where
  "takeRoom f p = f\<lparr>f_vcpu := p_freeVCPU p, f_memory := p_freeMemory p, f_macOS := p_freeMacOS p\<rparr>"

definition holdFloor :: "Allocator \<Rightarrow> Tier \<Rightarrow> int \<Rightarrow> fleet \<Rightarrow> charge \<Rightarrow> charge \<times> fleet" where
  "holdFloor a t missing f limit =
     (let held = (forTier f a t)\<lparr>p_deploymentVCPU := max (fst limit) 0,
                                 p_deploymentMemory := max (snd limit) 0\<rparr>;
          (cost, p) = holdLoop (nat missing) held t
      in (cost, takeRoom f p))"

fun holdFloors ::
  "Allocator \<Rightarrow> Ledger \<Rightarrow> fleet \<Rightarrow> string \<Rightarrow> Tier list \<Rightarrow>
   (string \<Rightarrow> charge option) \<Rightarrow> floorCharge \<Rightarrow> fleet \<Rightarrow> floorCharge \<times> fleet" where
  "holdFloors a d measured forTier_label [] budget held f = (held, f)"
| "holdFloors a d measured forTier_label (t # ts) budget held f =
     (let missing = t_reserved t - floorLeases d measured (t_label t)
      in if t_label t = forTier_label \<or> t_reserved t = 0 \<or> missing \<le> 0
         then holdFloors a d measured forTier_label ts budget held f
         else let target = ShareTarget t;
                  limit = (case budget target of None \<Rightarrow> (unboundedVCPU, unboundedMemory)
                           | Some l \<Rightarrow> l);
                  (cost, f') = holdFloor a t missing f limit;
                  budget' = (case budget target of None \<Rightarrow> budget
                     | Some _ \<Rightarrow> budget(target \<mapsto> (fst limit - fst cost, snd limit - snd cost)));
                  held' = \<lparr>fc_vcpu = fc_vcpu held + fst cost, fc_memory = fc_memory held + snd cost,
                     fc_byTarget = (fc_byTarget held)(target := addCharge (fc_byTarget held target) cost)\<rparr>
              in holdFloors a d measured forTier_label ts budget' held' f')"

definition floorBudget :: "Allocator \<Rightarrow> shareUsage \<Rightarrow> string \<Rightarrow> charge \<Rightarrow> string \<Rightarrow> charge option" where
  "floorBudget a usage forTier_label returned target =
     (let returnedTo = (case tierOf a forTier_label of None \<Rightarrow> [] | Some t \<Rightarrow> ShareTarget t)
      in if target \<in> set (shareTargets a)
         then Some (shareRoom a usage target
                (if returnedTo = [] \<or> returnedTo = target then returned else (0, 0)))
         else None)"

definition reserveFloors ::
  "Allocator \<Rightarrow> Ledger \<Rightarrow> string \<Rightarrow> fleet \<Rightarrow> charge \<Rightarrow> floorCharge \<times> fleet" where
  "reserveFloors a d forTier_label f returned =
     (if \<not> list_ex (\<lambda>t. t_label t \<noteq> forTier_label \<and> 0 < t_reserved t) (a_tiers a)
      then (noFloors, f)
      else holdFloors a d f forTier_label (sort_key t_label (a_tiers a))
             (floorBudget a (readShareUsage a (leases d)) forTier_label returned) noFloors f)"

definition placerWithFloors :: "Allocator \<Rightarrow> Ledger \<Rightarrow> Tier \<Rightarrow> (placer \<times> floorCharge) result" where
  "placerWithFloors a d t =
     (case fleetResources a d of
        Inl e \<Rightarrow> Inl e
      | Inr f \<Rightarrow>
          (let (floors, f') = reserveFloors a d (t_label t) f (0, 0)
           in Inr (forTier f' a t, floors)))"

section \<open>Headroom\<close>

definition headroomWithPlacer :: "Allocator \<Rightarrow> Ledger \<Rightarrow> Tier \<Rightarrow> (int \<times> placer) result" where
  "headroomWithPlacer a d t =
     (case placerWithFloors a d t of
        Inl e \<Rightarrow> Inl e
      | Inr (place, floors) \<Rightarrow>
          (let depVCPU = max (l_maxVCPU (a_limits a) - p_committedVCPU place - fc_vcpu floors) 0;
               depMemory = max (l_maxMemory (a_limits a) - p_committedMemory place - fc_memory floors) 0;
               share = shareRoomFor a d (t_label t) (0, 0) floors;
               place = place\<lparr>p_deploymentVCPU := min depVCPU (max (fst share) 0),
                             p_deploymentMemory := min depMemory (max (snd share) 0)\<rparr>;
               n = placerTotal place t;
               n = (if 0 < t_maxConcurrent t
                    then min n (t_maxConcurrent t - CountOpenInTier (leases d) (t_label t)) else n)
           in Inr (max n 0, place)))"

definition headroom :: "Allocator \<Rightarrow> Ledger \<Rightarrow> Tier \<Rightarrow> int result" where
  "headroom a d t = (case headroomWithPlacer a d t of Inl e \<Rightarrow> Inl e | Inr (n, _) \<Rightarrow> Inr n)"

definition Headroom :: "Allocator \<Rightarrow> Ledger \<Rightarrow> string \<Rightarrow> int result" where
  "Headroom a d tier =
     (case tierOf a tier of None \<Rightarrow> Inl ErrUnknownTier | Some t \<Rightarrow> headroom a d t)"

definition AdvertisedCeiling :: "Allocator \<Rightarrow> string \<Rightarrow> int result" where
  "AdvertisedCeiling a tier =
     (case tierOf a tier of
        None \<Rightarrow> Inl ErrUnknownTier
      | Some t \<Rightarrow>
          (let ceiling = 2147483647;
               ceiling = (if 0 < t_maxConcurrent t then min ceiling (t_maxConcurrent t) else ceiling);
               ceiling = (if 0 < l_maxVCPU (a_limits a) \<and> 0 < t_vcpu t
                          then min ceiling (go_div (l_maxVCPU (a_limits a)) (t_vcpu t)) else ceiling);
               ceiling = (if 0 < l_maxMemory (a_limits a) \<and> 0 < t_memory t
                          then min ceiling (go_div (l_maxMemory (a_limits a)) (t_memory t)) else ceiling)
           in Inr ceiling))"

end
