(* ===== verification/Fleet_Facts.thy ===== *)
theory Fleet_Facts
  imports Fleet
begin

text \<open>
  What the fleet measurement reports: the two ways of reading the committed capacity agree,
  the deployment total is the sum over hosts, a tier's count towards its floor is the same
  from either reading, and the placer a tier gets is one its costs can be divided by.
\<close>

section \<open>Reading the committed capacity\<close>

lemma foldl_addUsage:
  "foldl (\<lambda>u (n, _, v, _). if n = node then addUsage u v else u) u0 rows =
     \<lparr>nu_vcpu = nu_vcpu u0 + sum_list (map (\<lambda>(n, _, v, _). if n = node then nu_vcpu v else 0) rows),
      nu_memory = nu_memory u0 + sum_list (map (\<lambda>(n, _, v, _). if n = node then nu_memory v else 0) rows),
      nu_macOS = nu_macOS u0 + sum_list (map (\<lambda>(n, _, v, _). if n = node then nu_macOS v else 0) rows)\<rparr>"
  by (induction rows arbitrary: u0) (auto simp: addUsage_def split: prod.splits)

text \<open>Grouping by host and tier, then adding one host's groups.\<close>

lemma sum_groups_at:
  fixes w :: "LeaseRow \<Rightarrow> int"
  assumes "\<And>r. Q r \<Longrightarrow> isOpen r"
  shows "sum_list (map (\<lambda>(n, tier). if n = node
            then sum_where (\<lambda>r. Q r \<and> attributedTo r = n \<and> r_tier r = tier) w ls else 0)
          (remdups (map (\<lambda>r. (attributedTo r, r_tier r)) (filter isOpen ls))))
     = sum_where (\<lambda>r. Q r \<and> attributedTo r = node) w ls"
proof -
  let ?ks = "remdups (map (\<lambda>r. (attributedTo r, r_tier r)) (filter isOpen ls))"
  let ?P = "\<lambda>r. Q r \<and> attributedTo r = node"
  have eq: "(\<lambda>(n, tier). if n = node
            then sum_where (\<lambda>r. Q r \<and> attributedTo r = n \<and> r_tier r = tier) w ls else 0)
      = (\<lambda>k. sum_where (\<lambda>r. ?P r \<and> (attributedTo r, r_tier r) = k) w ls)"
    by (auto simp: fun_eq_iff sum_where_def intro!: arg_cong [where f = "\<lambda>x. sum_list (map w x)"]
        filter_cong)
  show ?thesis unfolding eq
    by (rule sum_where_groups) (auto dest: assms)
qed

lemma rows_at:
  assumes "\<And>r. Q r \<Longrightarrow> isOpen r"
    and "\<And>n tier. g (let mine = (\<lambda>r. isOpen r \<and> attributedTo r = n \<and> r_tier r = tier)
           in \<lparr>nu_vcpu = sum_where mine r_vcpu ls, nu_memory = sum_where mine r_memory ls,
               nu_macOS = count_where (\<lambda>r. mine r \<and> r_macosSlot r) ls\<rparr>)
         = sum_where (\<lambda>r. Q r \<and> attributedTo r = n \<and> r_tier r = tier) w ls"
  shows "sum_list (map (\<lambda>(n, _, v, _). if n = node then g v else 0) (UsageByNodeAndTier ls)) =
     sum_where (\<lambda>r. Q r \<and> attributedTo r = node) w ls"
proof -
  have "(\<lambda>(n, _, v, _). if n = node then g v else 0) \<circ> (\<lambda>(node, tier).
       let mine = (\<lambda>r. isOpen r \<and> attributedTo r = node \<and> r_tier r = tier)
       in (node, tier,
           \<lparr>nu_vcpu = sum_where mine r_vcpu ls, nu_memory = sum_where mine r_memory ls,
            nu_macOS = count_where (\<lambda>r. mine r \<and> r_macosSlot r) ls\<rparr>,
           count_where mine ls))
     = (\<lambda>(n, tier). if n = node
          then sum_where (\<lambda>r. Q r \<and> attributedTo r = n \<and> r_tier r = tier) w ls else 0)"
    by (rule ext) (simp add: split_beta Let_def assms(2) [unfolded Let_def, symmetric])
  then show ?thesis
    by (simp only: UsageByNodeAndTier_def map_map sum_groups_at [OF assms(1)])
qed

lemma usageByNode_fst: "fst (usageByNode a ls) node = usageOfHost ls node"
proof (cases "keepsFloor a")
  case True
  have v: "sum_list (map (\<lambda>(n, _, v, _). if n = node then nu_vcpu v else 0) (UsageByNodeAndTier ls)) =
      sum_where (\<lambda>r. isOpen r \<and> attributedTo r = node) r_vcpu ls"
    by (rule rows_at) (simp_all add: Let_def)
  have m: "sum_list (map (\<lambda>(n, _, v, _). if n = node then nu_memory v else 0) (UsageByNodeAndTier ls)) =
      sum_where (\<lambda>r. isOpen r \<and> attributedTo r = node) r_memory ls"
    by (rule rows_at) (simp_all add: Let_def)
  have c: "sum_list (map (\<lambda>(n, _, v, _). if n = node then nu_macOS v else 0) (UsageByNodeAndTier ls)) =
      sum_where (\<lambda>r. (isOpen r \<and> r_macosSlot r) \<and> attributedTo r = node) (\<lambda>_. 1) ls"
    by (rule rows_at) (auto simp: Let_def count_where_sum conj_ac)
  have "sum_where (\<lambda>r. (isOpen r \<and> r_macosSlot r) \<and> attributedTo r = node) (\<lambda>_. 1) ls =
      nu_macOS (usageOfHost ls node)"
    by (simp add: count_where_sum conj_ac)
  then show ?thesis
    using True v m c
    by (simp add: usageByNode_def Let_def foldl_addUsage noUsage_def usageOfHost_def)
qed (simp add: usageByNode_def Let_def)

lemma usageByNode_hosts: "fst (snd (usageByNode a ls)) = remdups (map attributedTo (filter isOpen ls))"
  by (simp add: usageByNode_def Let_def)

lemma usageByNode_held:
  "snd (snd (usageByNode a ls)) =
     (if keepsFloor a then Some (map (\<lambda>(n, tier, _, k). (n, tier, k)) (UsageByNodeAndTier ls)) else None)"
  by (simp add: usageByNode_def Let_def)

lemma committed_total:
  "sum_list (map (\<lambda>h. nu_vcpu (usageOfHost ls h)) (remdups (map attributedTo (filter isOpen ls))))
     = u_vcpu (TotalUsage ls)"
  "sum_list (map (\<lambda>h. nu_memory (usageOfHost ls h)) (remdups (map attributedTo (filter isOpen ls))))
     = u_memory (TotalUsage ls)"
  unfolding usageOfHost_sel TotalUsage_sel by (rule sum_where_groups; auto)+

section \<open>The fleet a transaction measures\<close>

lemma nodeRowFrom_fields:
  assumes "nodeRowFrom row = Inr n"
  shows "nr_name n = n_name row" and "nr_vcpu n = n_vcpu row" and "nr_memory n = n_memory row"
    and "nr_provider n = n_provider row"
    and "s \<in> set (nr_shapes n) \<Longrightarrow> 0 < s_vcpu s \<and> 0 < s_memory s"
  using assms decodeRemoteShapes_positive
  by (auto simp: nodeRowFrom_def split: sum.splits)

lemma nodeRowsFrom_names: "nodeRowsFrom rows = Inr ns \<Longrightarrow> map nr_name ns = map n_name rows"
  by (induction rows arbitrary: ns) (auto split: sum.splits simp: nodeRowFrom_fields)

lemma nodeRowsFrom_mem:
  assumes "nodeRowsFrom rows = Inr ns" and "n \<in> set ns"
  shows "\<exists>row \<in> set rows. nodeRowFrom row = Inr n"
  using assms by (induction rows arbitrary: ns) (auto split: sum.splits)

lemma liveNodes_names:
  assumes "ledgerOK d" and "liveNodes d = Inr rows"
  shows "distinct (map nr_name rows)" and "n \<in> set rows \<Longrightarrow> nr_name n \<noteq> []"
    and "n \<in> set rows \<Longrightarrow> \<exists>row \<in> set (nodes d). n_live row \<and> \<not> n_drained row \<and> nodeRowFrom row = Inr n"
proof -
  have r: "nodeRowsFrom (ListPlaceableNodes d) = Inr rows" using assms(2) by (simp add: liveNodes_def)
  have "distinct (map n_name (filter P (nodes d)))" for P
    using assms(1) by (simp add: ledgerOK_def distinct_map_filter)
  then have "distinct (map n_name (ListPlaceableNodes d))"
    unfolding ListPlaceableNodes_def distinct_map distinct_sort set_sort .
  then show "distinct (map nr_name rows)" unfolding nodeRowsFrom_names [OF r] .
  show mem: "n \<in> set rows \<Longrightarrow> \<exists>row \<in> set (nodes d). n_live row \<and> \<not> n_drained row \<and> nodeRowFrom row = Inr n"
    using nodeRowsFrom_mem [OF r, of n] by (auto simp: ListPlaceableNodes_def)
  show "n \<in> set rows \<Longrightarrow> nr_name n \<noteq> []"
    using mem assms(1) nodeRowFrom_fields(1) by (fastforce simp: ledgerOK_def)
qed

lemma fleetResources_measures: "liveNodes d = Inr rows \<Longrightarrow> \<exists>f. fleetResources a d = Inr f"
  unfolding fleetResources_def split_beta Let_def by (simp only: sum.case) blast

lemma fleetResources_fields:
  assumes "fleetResources a d = Inr f"
  shows "liveNodes d = Inr (f_rows f)"
    and "f_vcpu f h = (case rowOf (f_rows f) h of None \<Rightarrow> 0 | Some n \<Rightarrow> nr_vcpu n - nu_vcpu (usageOfHost (leases d) h))"
    and "f_memory f h = (case rowOf (f_rows f) h of None \<Rightarrow> 0 | Some n \<Rightarrow> nr_memory n - nu_memory (usageOfHost (leases d) h))"
    and "f_macOS f h = (case rowOf (f_rows f) h of None \<Rightarrow> 0 | Some n \<Rightarrow> macOSLimit a h - nu_macOS (usageOfHost (leases d) h))"
    and "f_committedVCPU f = u_vcpu (TotalUsage (leases d))"
    and "f_committedMemory f = u_memory (TotalUsage (leases d))"
    and "f_heldOn f = snd (snd (usageByNode a (leases d)))"
proof -
  obtain rows where r: "liveNodes d = Inr rows" using assms
    by (cases "liveNodes d") (auto simp: fleetResources_def)
  obtain held where used: "usageByNode a (leases d) = (usageOfHost (leases d),
      remdups (map attributedTo (filter isOpen (leases d))), held)"
    by (cases "usageByNode a (leases d)")
       (metis fst_conv snd_conv surjective_pairing usageByNode_fst usageByNode_hosts ext)
  have f: "f = \<lparr>f_vcpu = (\<lambda>name. case rowOf rows name of None \<Rightarrow> 0
                     | Some n \<Rightarrow> nr_vcpu n - nu_vcpu (usageOfHost (leases d) name)),
       f_memory = (\<lambda>name. case rowOf rows name of None \<Rightarrow> 0
                     | Some n \<Rightarrow> nr_memory n - nu_memory (usageOfHost (leases d) name)),
       f_macOS = (\<lambda>name. case rowOf rows name of None \<Rightarrow> 0
                     | Some n \<Rightarrow> macOSLimit a name - nu_macOS (usageOfHost (leases d) name)),
       f_rows = rows, f_heldOn = held,
       f_committedVCPU = u_vcpu (TotalUsage (leases d)),
       f_committedMemory = u_memory (TotalUsage (leases d))\<rparr>"
    using assms unfolding fleetResources_def r sum.case used Let_def prod.case committed_total
    by (rule sum.inject(2) [THEN iffD1, symmetric])
  show "liveNodes d = Inr (f_rows f)" using f r by simp
  show "f_vcpu f h = (case rowOf (f_rows f) h of None \<Rightarrow> 0 | Some n \<Rightarrow> nr_vcpu n - nu_vcpu (usageOfHost (leases d) h))"
    "f_memory f h = (case rowOf (f_rows f) h of None \<Rightarrow> 0 | Some n \<Rightarrow> nr_memory n - nu_memory (usageOfHost (leases d) h))"
    "f_macOS f h = (case rowOf (f_rows f) h of None \<Rightarrow> 0 | Some n \<Rightarrow> macOSLimit a h - nu_macOS (usageOfHost (leases d) h))"
    "f_committedVCPU f = u_vcpu (TotalUsage (leases d))" "f_committedMemory f = u_memory (TotalUsage (leases d))"
    "f_heldOn f = snd (snd (usageByNode a (leases d)))"
    by (simp_all only: f used fleet.select_convs snd_conv)
qed

text \<open>
  A tier's count towards its reserved floor does not depend on how it is read: counted
  from the per-host, per-tier rows the fleet measurement already holds, keeping the rows of
  live hosts and of leases with no host, it is the number the dedicated query
  \<open>CountOpenPerTierOnLiveHosts\<close> returns, for every tier and every ledger.
\<close>

theorem floorLeases_counts:
  assumes "ledgerOK d" and "fleetResources a d = Inr f"
  shows "floorLeases d f tier = CountOpenPerTierOnLiveHosts d tier"
proof (cases "keepsFloor a")
  case True
  let ?ks = "remdups (map (\<lambda>r. (attributedTo r, r_tier r)) (filter isOpen (leases d)))"
  let ?live = "\<lambda>h. h = [] \<or> h \<in> set (ListLiveNodeNames d)"
  let ?P = "\<lambda>r. isOpen r \<and> ?live (attributedTo r) \<and> r_tier r = tier"
  have held: "f_heldOn f = Some (map (\<lambda>(n, t). (n, t, count_where (\<lambda>r. isOpen r \<and> attributedTo r = n \<and> r_tier r = t) (leases d))) ?ks)"
    using fleetResources_fields(7) [OF assms(2)] True
    by (simp add: usageByNode_held UsageByNodeAndTier_def Let_def split_beta)
  have fm: "sum_list (map g (filter Q ks)) = sum_list (map (\<lambda>x. if Q x then g x else 0) ks)"
    for g :: "string \<times> string \<Rightarrow> int" and Q ks
    by (induction ks) auto
  have "floorLeases d f tier =
      sum_list (map (\<lambda>k. if ?live (fst k) \<and> snd k = tier
        then sum_where (\<lambda>r. isOpen r \<and> attributedTo r = fst k \<and> r_tier r = snd k) (\<lambda>_. 1) (leases d) else 0) ?ks)"
    by (simp add: floorLeases_def held Let_def filter_map o_def split_beta fm count_where_sum)
  also have "(\<lambda>k. if ?live (fst k) \<and> snd k = tier
        then sum_where (\<lambda>r. isOpen r \<and> attributedTo r = fst k \<and> r_tier r = snd k) (\<lambda>_. 1) (leases d) else 0)
      = (\<lambda>k. sum_where (\<lambda>r. ?P r \<and> (attributedTo r, r_tier r) = k) (\<lambda>_. 1) (leases d))"
    by (auto simp: fun_eq_iff sum_where_def intro!: arg_cong [where f = "\<lambda>x. sum_list (map (\<lambda>_. 1) x)"]
        filter_cong)
  also have "sum_list (map (\<lambda>k. sum_where (\<lambda>r. ?P r \<and> (attributedTo r, r_tier r) = k) (\<lambda>_. 1) (leases d)) ?ks)
      = sum_where ?P (\<lambda>_. 1) (leases d)"
    by (rule sum_where_groups) auto
  also have "\<dots> = CountOpenPerTierOnLiveHosts d tier"
    unfolding CountOpenPerTierOnLiveHosts_def count_where_sum
  proof (rule sum_where_cong)
    fix r
    show "(isOpen r \<and> ?live (attributedTo r) \<and> r_tier r = tier) =
        (isOpen r \<and> (attributedTo r = [] \<or> hostIsLive d (coalesceNode r)) \<and> r_tier r = tier)"
      by (cases "attributedTo r = []")
         (simp_all add: ListLiveNodeNames_iff [OF assms(1)] coalesceNode_attributed)
  qed simp
  finally show ?thesis .
next
  case False
  then show ?thesis
    using fleetResources_fields(7) [OF assms(2)] by (simp add: usageByNode_held floorLeases_def)
qed

end
