(* ===== verification/Escrow.thy ===== *)
theory Escrow
  imports Fleet_Facts
begin

text \<open>
  Granting capacity: \<open>Reserve\<close>, \<open>insertLease\<close>, \<open>escrow\<close>, \<open>EscrowFor\<close>,
  \<open>EscrowLeaving\<close> and \<open>Escrow\<close> of \<open>internal/alloc/alloc.go\<close>, with the checks
  an admission order asks of a purchase (\<open>placerAvoiding\<close>, \<open>ownersWithRoom\<close>,
  \<open>guardedHaveRoom\<close>, \<open>roomOf\<close>).

  The ids a transaction draws from the random source are an argument; running out of them
  is the source's error. An id that is already in the table is refused by its primary key.
  The clock's reading is an argument too. A grant is the new row with the preference rank
  of its host.
\<close>

section \<open>Inserting a lease\<close>

definition refuseIfSealed :: "Ledger \<Rightarrow> unit result" where
  "refuseIfSealed d = (if admission d = AdmissionOpen then Inr () else Inl ErrAdmissionSealed)"

definition newLease :: "Allocator \<Rightarrow> int \<Rightarrow> Tier \<Rightarrow> string \<Rightarrow> string \<Rightarrow> placementCost \<Rightarrow> string \<Rightarrow> LeaseRow" where
  "newLease a now t target site cost i =
     \<lparr>r_id = i, r_tier = t_label t, r_node = None,
      r_target = (if target \<noteq> [] then Some target else None),
      r_macosSlot = (t_guestOS t = GuestMacOS), r_guestOS = t_guestOS t,
      r_providers = encodeProviders (AcceptableProviders t), r_chosenProvider = [],
      r_phase = PhaseCapacity, r_vcpu = c_vcpu cost, r_memory = c_memory cost,
      r_requestedVCPU = t_vcpu t, r_requestedMemory = t_memory t,
      r_instanceType = c_instanceType cost, r_site = site, r_price = c_price cost,
      r_epoch = 0, r_createdAt = now, r_heartbeatAt = now, r_expiresAt = now + a_leaseTTL a,
      r_runID = None, r_requestID = None, r_heldAt = None, r_forceRelease = False,
      r_holder = [], r_failureReason = [], r_disruption = [], r_disruptedAt = None,
      r_deregistered = False\<rparr>"

type_synonym grant = "LeaseRow \<times> int"

definition insertLease ::
  "Allocator \<Rightarrow> int \<Rightarrow> Tier \<Rightarrow> string \<Rightarrow> string \<Rightarrow> placementCost \<Rightarrow> int \<Rightarrow> string list \<Rightarrow> Ledger \<Rightarrow>
   (grant \<times> string list \<times> Ledger) result" where
  "insertLease a now t target site cost preferenceRank ids d =
     (case refuseIfSealed d of
        Inl e \<Rightarrow> Inl e
      | Inr _ \<Rightarrow>
          (case ids of
             [] \<Rightarrow> Inl ErrStore
           | i # rest \<Rightarrow>
               (let row = newLease a now t target site cost i
                in case InsertLease row d of
                     Inl e \<Rightarrow> Inl e
                   | Inr d' \<Rightarrow> Inr ((row, preferenceRank), rest, d'))))"

definition Reserve :: "Allocator \<Rightarrow> int \<Rightarrow> string \<Rightarrow> string list \<Rightarrow> Ledger \<Rightarrow> (grant \<times> Ledger) result" where
  "Reserve a now tier ids d =
     (case tierOf a tier of
        None \<Rightarrow> Inl ErrUnknownTier
      | Some t \<Rightarrow>
          (case refuseIfSealed d of
             Inl e \<Rightarrow> Inl e
           | Inr _ \<Rightarrow>
               (case headroomWithPlacer a d t of
                  Inl e \<Rightarrow> Inl e
                | Inr (room, place) \<Rightarrow>
                    if room < 1 then Inl ErrNoCapacity
                    else (case placerNext place t of
                            None \<Rightarrow> Inl ErrNoCapacity
                          | Some (target, cost, place') \<Rightarrow>
                              (case insertLease a now t target (siteOf place' target) cost
                                      (p_rank place' target) ids d of
                                 Inl e \<Rightarrow> Inl e
                               | Inr (g, _, d') \<Rightarrow> Inr (g, d'))))))"

section \<open>What a purchase must leave alone\<close>

record Purchase =
  pu_protect :: "string list"
  pu_avoid :: "string \<Rightarrow> (string \<times> string) list"
  pu_keep :: "string list"

text \<open>The last component says whether the placer handed back is the narrowed copy.\<close>

definition placerAvoiding ::
  "Allocator \<Rightarrow> Ledger \<Rightarrow> Tier \<Rightarrow> placer \<Rightarrow> (string \<times> string) list \<Rightarrow> int \<Rightarrow> placer \<times> int \<times> bool" where
  "placerAvoiding a d t place holds want =
     (if holds = [] then (place, want, False)
      else let opened = keepFor holds a place;
               short = t_reserved t - CountOpenPerTierOnLiveHosts d (t_label t)
           in if 0 < short \<and> placerTotal opened t = 0 then (place, min want short, False)
              else (opened, want, True))"

definition roomOf :: "Allocator \<Rightarrow> Ledger \<Rightarrow> Tier \<Rightarrow> (string \<times> string) list \<Rightarrow> int result" where
  "roomOf a d t holds =
     (case headroomWithPlacer a d t of
        Inl e \<Rightarrow> Inl e
      | Inr (room, place) \<Rightarrow>
          if 0 < room \<and> holds \<noteq> []
          then Inr (placerTotal (fst (placerAvoiding a d t place holds room)) t)
          else Inr room)"

fun guardedHaveRoom ::
  "Allocator \<Rightarrow> Ledger \<Rightarrow> Tier list \<Rightarrow> (string \<Rightarrow> (string \<times> string) list) \<Rightarrow> err \<Rightarrow> unit result" where
  "guardedHaveRoom a d [] av short = Inr ()"
| "guardedHaveRoom a d (g # gs) av short =
     (case roomOf a d g (av (t_label g)) of
        Inl e \<Rightarrow> Inl e
      | Inr room \<Rightarrow> if room < 1 then Inl short else guardedHaveRoom a d gs av short)"

fun fittingTiers ::
  "Allocator \<Rightarrow> Ledger \<Rightarrow> Tier list \<Rightarrow> (string \<Rightarrow> (string \<times> string) list) \<Rightarrow> Tier list result" where
  "fittingTiers a d [] av = Inr []"
| "fittingTiers a d (k # ks) av =
     (case roomOf a d k (av (t_label k)) of
        Inl e \<Rightarrow> Inl e
      | Inr room \<Rightarrow>
          (case fittingTiers a d ks av of
             Inl e \<Rightarrow> Inl e
           | Inr fs \<Rightarrow> Inr (if 0 < room then k # fs else fs)))"

fun ownersWithRoom :: "Allocator \<Rightarrow> Ledger \<Rightarrow> (string \<times> string) list \<Rightarrow> string list result" where
  "ownersWithRoom a d [] = Inr []"
| "ownersWithRoom a d ((host, owner) # holds) =
     (case tierOf a owner of
        None \<Rightarrow> ownersWithRoom a d holds
      | Some shape \<Rightarrow>
          (case headroomWithPlacer a d shape of
             Inl e \<Rightarrow> Inl e
           | Inr (_, place) \<Rightarrow>
               (case ownersWithRoom a d holds of
                  Inl e \<Rightarrow> Inl e
                | Inr out \<Rightarrow> Inr (if 0 < roomFor place host shape then host # out else out))))"

section \<open>Buying in one transaction\<close>

fun buyLoop ::
  "Allocator \<Rightarrow> int \<Rightarrow> Tier \<Rightarrow> nat \<Rightarrow> placer \<Rightarrow> string list \<Rightarrow> Ledger \<Rightarrow> (grant list \<times> Ledger) result" where
  "buyLoop a now t 0 place ids d = Inr ([], d)"
| "buyLoop a now t (Suc n) place ids d =
     (case placerNext place t of
        None \<Rightarrow> Inr ([], d)
      | Some (target, cost, place') \<Rightarrow>
          (case insertLease a now t target (siteOf place' target) cost (p_rank place' target) ids d of
             Inl e \<Rightarrow> Inl e
           | Inr (g, rest, d') \<Rightarrow>
               (case buyLoop a now t n place' rest d' of
                  Inl e \<Rightarrow> Inl e
                | Inr (gs, d'') \<Rightarrow> Inr (g # gs, d''))))"

definition readBack ::
  "Allocator \<Rightarrow> Ledger \<Rightarrow> Tier \<Rightarrow> Tier list \<Rightarrow> Tier list \<Rightarrow> bool \<Rightarrow> string list \<Rightarrow>
   (string \<Rightarrow> (string \<times> string) list) \<Rightarrow> unit result" where
  "readBack a d t guarded fitting narrowed fitted av =
     (case guardedHaveRoom a d guarded av errWaiterLeftShort of
        Inl e \<Rightarrow> Inl e
      | Inr _ \<Rightarrow>
          (case guardedHaveRoom a d fitting av errWaiterLeftShort of
             Inl e \<Rightarrow> Inl e
           | Inr _ \<Rightarrow>
               if \<not> narrowed then Inr ()
               else (case ownersWithRoom a d (av (t_label t)) of
                       Inl e \<Rightarrow> Inl e
                     | Inr after \<Rightarrow>
                         if list_all (\<lambda>host. host \<in> set after) fitted then Inr ()
                         else Inl errWaiterLeftShort)))"

definition escrow ::
  "Allocator \<Rightarrow> int \<Rightarrow> Tier \<Rightarrow> int \<Rightarrow> Tier list \<Rightarrow> Tier list \<Rightarrow>
   (string \<Rightarrow> (string \<times> string) list) \<Rightarrow> string list \<Rightarrow> Ledger \<Rightarrow> (grant list \<times> Ledger) result" where
  "escrow a now t want guarded kept av ids d =
     (if want = 0 then Inr ([], d)
      else case refuseIfSealed d of
        Inl e \<Rightarrow> Inl e
      | Inr _ \<Rightarrow>
          (case headroomWithPlacer a d t of
             Inl e \<Rightarrow> Inl e
           | Inr (room, unheld) \<Rightarrow>
               (let (place, limit, narrowed) = placerAvoiding a d t unheld (av (t_label t)) want
                in case guardedHaveRoom a d guarded av errWaiterShortNow of
                     Inl e \<Rightarrow> Inl e
                   | Inr _ \<Rightarrow>
                       (case fittingTiers a d kept av of
                          Inl e \<Rightarrow> Inl e
                        | Inr fitting \<Rightarrow>
                            (case (if narrowed then ownersWithRoom a d (av (t_label t)) else Inr []) of
                               Inl e \<Rightarrow> Inl e
                             | Inr fitted \<Rightarrow>
                                 (case buyLoop a now t (nat (min limit room)) place ids d of
                                    Inl e \<Rightarrow> Inl e
                                  | Inr (grants, d') \<Rightarrow>
                                      if grants = [] then Inr (grants, d')
                                      else (case readBack a d' t guarded fitting narrowed fitted av of
                                              Inl e \<Rightarrow> Inl e
                                            | Inr _ \<Rightarrow> Inr (grants, d'))))))))"

text \<open>The tiers a purchase names, less itself and the ones the catalogue does not have.\<close>

definition otherTiers :: "Allocator \<Rightarrow> string \<Rightarrow> string list \<Rightarrow> Tier list" where
  "otherTiers a tier labels =
     concat (map (\<lambda>label. case tierOf a label of
        Some w \<Rightarrow> if label \<noteq> tier then [w] else [] | None \<Rightarrow> []) labels)"

text \<open>
  The attempts of \<open>EscrowFor\<close>, each in its own transaction with the ids drawn for it:
  \<open>ids n\<close> for the attempt to buy \<open>n\<close>.
\<close>

fun escrowTries ::
  "Allocator \<Rightarrow> int \<Rightarrow> Tier \<Rightarrow> nat \<Rightarrow> Tier list \<Rightarrow> Tier list \<Rightarrow>
   (string \<Rightarrow> (string \<times> string) list) \<Rightarrow> (nat \<Rightarrow> string list) \<Rightarrow> Ledger \<Rightarrow> (grant list \<times> Ledger) result" where
  "escrowTries a now t 0 guarded kept av ids d = Inr ([], d)"
| "escrowTries a now t (Suc n) guarded kept av ids d =
     (case escrow a now t (int (Suc n)) guarded kept av (ids (Suc n)) d of
        Inl e \<Rightarrow>
          if e = errWaiterLeftShort then escrowTries a now t n guarded kept av ids d
          else if e = errWaiterShortNow then Inr ([], d)
          else Inl e
      | Inr r \<Rightarrow> Inr r)"

definition EscrowFor ::
  "Allocator \<Rightarrow> int \<Rightarrow> string \<Rightarrow> int \<Rightarrow> Purchase \<Rightarrow> (nat \<Rightarrow> string list) \<Rightarrow> Ledger \<Rightarrow>
   (grant list \<times> Ledger) result" where
  "EscrowFor a now tier want purchase ids d =
     (if want < 0 then Inl ErrInvalid
      else case tierOf a tier of
        None \<Rightarrow> Inl ErrUnknownTier
      | Some t \<Rightarrow>
          escrowTries a now t (nat want) (otherTiers a tier (pu_protect purchase))
            (otherTiers a tier (pu_keep purchase)) (pu_avoid purchase) ids d)"

definition EscrowLeaving ::
  "Allocator \<Rightarrow> int \<Rightarrow> string \<Rightarrow> int \<Rightarrow> string list \<Rightarrow> (nat \<Rightarrow> string list) \<Rightarrow> Ledger \<Rightarrow>
   (grant list \<times> Ledger) result" where
  "EscrowLeaving a now tier want protect =
     EscrowFor a now tier want \<lparr>pu_protect = protect, pu_avoid = (\<lambda>_. []), pu_keep = []\<rparr>"

definition Escrow ::
  "Allocator \<Rightarrow> int \<Rightarrow> string \<Rightarrow> int \<Rightarrow> (nat \<Rightarrow> string list) \<Rightarrow> Ledger \<Rightarrow> (grant list \<times> Ledger) result" where
  "Escrow a now tier want = EscrowLeaving a now tier want []"

section \<open>A purchase of the sample deployment\<close>

definition sampleIds :: "nat \<Rightarrow> string list" where
  "sampleIds n = [''n1'', ''n2'', ''n3'', ''n4'']"

definition samplePurchase :: Purchase where
  "samplePurchase = \<lparr>pu_protect = [''mac''], pu_avoid = (\<lambda>_. []), pu_keep = []\<rparr>"

lemma sample_OK: "allocOK sampleAlloc" "ledgerOK sampleLedger" "tierOf sampleAlloc ''small'' = Some smallTier"
  "tierOf sampleAlloc ''mac'' = Some macTier"
  by (simp_all add: sample_defs allocOK_def ledgerOK_def tierOf_def)

lemma sample_buys:
  "\<exists>gs d'. EscrowFor sampleAlloc 100 ''small'' 3 samplePurchase sampleIds sampleLedger = Inr (gs, d')
     \<and> length gs = 3"
proof -
  have "(case EscrowFor sampleAlloc 100 ''small'' 3 samplePurchase sampleIds sampleLedger of
      Inl _ \<Rightarrow> False | Inr (gs, _) \<Rightarrow> length gs = 3)"
    by code_simp
  then show ?thesis by (auto split: sum.splits)
qed

end
