(* ===== verification/Admission_Queue.thy ===== *)
theory Admission_Queue
  imports Escrow
begin

text \<open>
  The order in which waiting tiers buy freed room: \<open>internal/server/admissionorder.go\<close>,
  with \<open>TierAdmission\<close> of \<open>internal/alloc/potential.go\<close>, \<open>HoldCandidate\<close> of
  \<open>internal/alloc/hold.go\<close> and \<open>internal/config/admissionorder.go\<close>. The queue is
  the one every listener of a control plane shares (a listener without peers has none and is
  never held back). Go's map of waiting tiers is an association list with distinct labels:
  its order stands for the order a map happens to be ranged over. A method that takes the
  queue's lock is one definition, given one reading of the clock; log lines are left out. A
  rank is a rational where the code has a \<open>float64\<close>, and is only ever compared.
\<close>

section \<open>The configured order\<close>

type_synonym AdmissionOrder = string

abbreviation "AdmissionFair \<equiv> ''fair''"
abbreviation "AdmissionFill \<equiv> ''fill''"
abbreviation "AdmissionHold \<equiv> ''hold''"

definition AdmissionOr :: "AdmissionOrder \<Rightarrow> AdmissionOrder" where
  "AdmissionOr q = (if q = [] then AdmissionFair else q)"

definition AdmissionOrderValid :: "AdmissionOrder \<Rightarrow> bool" where
  "AdmissionOrderValid q = (q \<in> {[], AdmissionFair, AdmissionFill, AdmissionHold})"

section \<open>Places\<close>

text \<open>
  By what stands above a rank, then by the target's rank, then by when the wait began, then
  by label.
\<close>

datatype place = Place (pl_class: nat) (pl_rank: rat) (pl_since: int) (pl_label: string)

definition placeBelowFloor :: nat where "placeBelowFloor = 0"
definition placeHead :: nat where "placeHead = 1"
definition placeRanked :: nat where "placeRanked = 2"

definition before :: "place \<Rightarrow> place \<Rightarrow> bool" where
  "before p q =
     (if pl_class p \<noteq> pl_class q then pl_class p < pl_class q
      else if pl_rank p \<noteq> pl_rank q then pl_rank p < pl_rank q
      else if pl_since p \<noteq> pl_since q then pl_since p < pl_since q
      else pl_label p < pl_label q)"

instantiation place :: linorder
begin

definition less_place :: "place \<Rightarrow> place \<Rightarrow> bool" where
  "less_place p q = before p q"

definition less_eq_place :: "place \<Rightarrow> place \<Rightarrow> bool" where
  "less_eq_place p q \<longleftrightarrow> before p q \<or> p = q"

instance
proof
  fix p q r :: place
  have irr: "\<not> before p p" for p by (simp add: before_def)
  have asym: "before p q \<Longrightarrow> \<not> before q p" for p q by (auto simp: before_def split: if_splits)
  have trans: "before p q \<Longrightarrow> before q r \<Longrightarrow> before p r" for p q r by (auto simp: before_def split: if_splits)
  have total: "before p q \<or> p = q \<or> before q p" for p q
    by (cases p; cases q) (auto simp: before_def split: if_splits)
  show "p < q \<longleftrightarrow> p \<le> q \<and> \<not> q \<le> p" using irr asym by (auto simp: less_place_def less_eq_place_def)
  show "p \<le> p" by (simp add: less_eq_place_def)
  show "p \<le> q \<Longrightarrow> q \<le> r \<Longrightarrow> p \<le> r" using trans by (auto simp: less_eq_place_def)
  show "p \<le> q \<Longrightarrow> q \<le> p \<Longrightarrow> p = q" using asym by (auto simp: less_eq_place_def)
  show "p \<le> q \<or> q \<le> p" using total by (auto simp: less_eq_place_def)
qed

end

section \<open>Waiters and the queue\<close>

type_synonym ranks = "(string \<times> rat) list"

record TierAdmission =
  ta_canGrow :: bool
  ta_nodes :: "string list"
  ta_ceilingBound :: bool
  ta_target :: string
  ta_targetShared :: bool
  ta_shareBound :: bool
  ta_targetRank :: "ranks option"
  ta_belowFloor :: bool
  ta_vcpu :: int
  ta_memory :: int

record HoldCandidate =
  hc_node :: string
  hc_readyAt :: int
  hc_late :: bool

record waitingTier =
  w_since :: int
  w_where :: TierAdmission
  w_progress :: int
  w_passed :: bool
  w_head :: bool
  w_candidates :: "HoldCandidate list"
  w_held :: string
  w_late :: bool
  w_behindAsLarge :: bool
  w_spent :: bool

record admissionQueue =
  q_policy :: AdmissionOrder
  q_waiting :: "(string \<times> waitingTier) list"
  q_lastRanks :: "ranks option"
  q_launchFailed :: "(string \<times> int) list"

definition WaiterAllowance :: int where
  "WaiterAllowance = 180000000000"

definition WeightPatience :: int where
  "WeightPatience = 900000000000"

definition LaunchBackoff :: int where
  "LaunchBackoff = WaiterAllowance"

text \<open>The start of 31 December 9999, after every wait there is.\<close>

definition notWaiting :: int where
  "notWaiting = 253402214400000000000"

definition newAdmissionQueue :: "AdmissionOrder \<Rightarrow> admissionQueue" where
  "newAdmissionQueue policy =
     \<lparr>q_policy = AdmissionOr policy, q_waiting = [], q_lastRanks = None, q_launchFailed = []\<rparr>"

definition noAdmission :: TierAdmission where
  "noAdmission = \<lparr>ta_canGrow = False, ta_nodes = [], ta_ceilingBound = False, ta_target = [],
     ta_targetShared = False, ta_shareBound = False, ta_targetRank = None, ta_belowFloor = False,
     ta_vcpu = 0, ta_memory = 0\<rparr>"

definition noWaiter :: waitingTier where
  "noWaiter = \<lparr>w_since = 0, w_where = noAdmission, w_progress = 0, w_passed = False, w_head = False,
     w_candidates = [], w_held = [], w_late = False, w_behindAsLarge = False, w_spent = False\<rparr>"

text \<open>Reading and writing one entry of a map; a missing waiter reads as the zero one.\<close>

fun mapSet :: "'k \<Rightarrow> 'v \<Rightarrow> ('k \<times> 'v) list \<Rightarrow> ('k \<times> 'v) list" where
  "mapSet k v [] = [(k, v)]"
| "mapSet k v ((j, w) # rest) = (if j = k then (k, v) # rest else (j, w) # mapSet k v rest)"

definition waiterOf :: "admissionQueue \<Rightarrow> string \<Rightarrow> waitingTier" where
  "waiterOf q tier = (case map_of (q_waiting q) tier of Some w \<Rightarrow> w | None \<Rightarrow> noWaiter)"

definition isWaiting :: "admissionQueue \<Rightarrow> string \<Rightarrow> bool" where
  "isWaiting q tier \<longleftrightarrow> tier \<in> set (map fst (q_waiting q))"

definition setWaiter :: "string \<Rightarrow> waitingTier \<Rightarrow> admissionQueue \<Rightarrow> admissionQueue" where
  "setWaiter tier w q = q\<lparr>q_waiting := mapSet tier w (q_waiting q)\<rparr>"

section \<open>Who holds whom back\<close>

definition holdsTheLine :: "waitingTier \<Rightarrow> int \<Rightarrow> bool" where
  "holdsTheLine waiter now \<longleftrightarrow> now - w_progress waiter \<le> WaiterAllowance"

definition gates :: "admissionQueue \<Rightarrow> bool" where
  "gates q \<longleftrightarrow> q_policy q \<noteq> AdmissionFill"

definition holds :: "admissionQueue \<Rightarrow> bool" where
  "holds q \<longleftrightarrow> q_policy q = AdmissionHold"

definition competes :: "TierAdmission \<Rightarrow> TierAdmission \<Rightarrow> bool" where
  "competes buyer waiter =
     (let known = ta_target buyer \<noteq> [] \<and> ta_target waiter \<noteq> []
      in if known \<and> ta_target buyer \<noteq> ta_target waiter \<and> ta_shareBound waiter then False
         else if known \<and> ta_target buyer = ta_target waiter \<and> ta_targetShared buyer \<and> ta_targetShared waiter then True
         else if ta_ceilingBound waiter then True
         else if ta_nodes buyer = [] \<or> ta_nodes waiter = [] then True
         else list_ex (\<lambda>x. x \<in> set (ta_nodes waiter)) (ta_nodes buyer))"

definition blocks :: "admissionQueue \<Rightarrow> TierAdmission \<Rightarrow> waitingTier \<Rightarrow> bool" where
  "blocks q here waiter =
     (let there = w_where waiter
      in if \<not> competes here there then False
         else if q_policy q \<noteq> AdmissionHold then True
         else if ta_vcpu here = 0 \<or> ta_vcpu there = 0 then True
         else if ta_target here = ta_target there \<and> ta_targetShared here \<and> ta_targetShared there then True
         else if w_held waiter \<noteq> [] then w_late waiter
         else if ta_targetRank here \<noteq> None \<and> ta_target here \<noteq> ta_target there then True
         else if w_candidates waiter \<noteq> [] then False
         else if \<not> w_behindAsLarge waiter then True
         else ta_vcpu there \<le> ta_vcpu here \<and> ta_memory there \<le> ta_memory here)"

definition steppedAside :: "admissionQueue \<Rightarrow> string \<Rightarrow> waitingTier \<Rightarrow> ranks option \<Rightarrow> int \<Rightarrow> bool" where
  "steppedAside q label waiter ranks now \<longleftrightarrow>
     \<not> holdsTheLine waiter now
     \<or> ranks \<noteq> None \<and> (case map_of (q_launchFailed q) label of
          None \<Rightarrow> False | Some failed \<Rightarrow> now - failed < LaunchBackoff)"

definition knownIn :: "ranks \<Rightarrow> string \<Rightarrow> bool" where
  "knownIn r target \<longleftrightarrow> target \<in> set (map fst r)"

definition rankOf :: "ranks \<Rightarrow> string \<Rightarrow> rat" where
  "rankOf r target = (case map_of r target of Some x \<Rightarrow> x | None \<Rightarrow> 0)"

definition ranksFor :: "admissionQueue \<Rightarrow> string \<Rightarrow> TierAdmission \<Rightarrow> int \<Rightarrow> ranks option" where
  "ranksFor q tier here now =
     (case ta_targetRank here of
        None \<Rightarrow> None
      | Some r \<Rightarrow>
          if \<not> knownIn r (ta_target here) then None
          else if list_ex (\<lambda>(label, waiter).
                    (holdsTheLine waiter now \<or> label = tier)
                    \<and> (label = tier \<or> q_policy q = AdmissionHold \<or> blocks q here waiter)
                    \<and> \<not> knownIn r (ta_target (w_where waiter))) (q_waiting q)
          then None else Some r)"

definition standing :: "string \<Rightarrow> waitingTier \<Rightarrow> ranks option \<Rightarrow> int \<Rightarrow> place" where
  "standing label waiter ranks now =
     (case ranks of
        None \<Rightarrow> Place placeRanked 0 (w_since waiter) label
      | Some r \<Rightarrow>
          if ta_belowFloor (w_where waiter) then Place placeBelowFloor 0 (w_since waiter) label
          else if w_head waiter \<or> WeightPatience \<le> now - w_since waiter then Place placeHead 0 (w_since waiter) label
          else Place placeRanked (rankOf r (ta_target (w_where waiter))) (w_since waiter) label)"

definition placeOf :: "admissionQueue \<Rightarrow> string \<Rightarrow> TierAdmission \<Rightarrow> ranks option \<Rightarrow> int \<Rightarrow> place" where
  "placeOf q tier here ranks now =
     (let own = (if isWaiting q tier then waiterOf q tier else noWaiter\<lparr>w_since := notWaiting\<rparr>)
      in standing tier (own\<lparr>w_where := here\<rparr>) ranks now)"

section \<open>Holding hosts\<close>

text \<open>The ranks last read, unless a live waiter's target is not among them.\<close>

definition orderRanks :: "admissionQueue \<Rightarrow> int \<Rightarrow> ranks option" where
  "orderRanks q now =
     (case q_lastRanks q of
        None \<Rightarrow> None
      | Some r \<Rightarrow> if list_ex (\<lambda>(_, w). \<not> knownIn r (ta_target (w_where w)) \<and> holdsTheLine w now) (q_waiting q)
                  then None else Some r)"

definition inOrder :: "admissionQueue \<Rightarrow> int \<Rightarrow> string list" where
  "inOrder q now =
     (let ranks = orderRanks q now
      in map fst (sort_key (\<lambda>(label, w). standing label w ranks now) (q_waiting q)))"

definition keepsHost :: "waitingTier \<Rightarrow> bool" where
  "keepsHost waiter \<longleftrightarrow> list_ex (\<lambda>c. hc_node c = w_held waiter) (w_candidates waiter)"

fun planLoop :: "admissionQueue \<Rightarrow> int \<Rightarrow> string list \<Rightarrow> string list \<Rightarrow> (string \<times> string) list" where
  "planLoop q now [] taken = []"
| "planLoop q now (label # rest) taken =
     (let waiter = waiterOf q label
      in if steppedAside q label waiter (q_lastRanks q) now then planLoop q now rest taken
         else if keepsHost waiter \<and> w_held waiter \<notin> set taken
         then (label, w_held waiter) # planLoop q now rest (w_held waiter # taken)
         else (case find (\<lambda>c. hc_node c \<notin> set taken) (w_candidates waiter) of
                 None \<Rightarrow> planLoop q now rest taken
               | Some c \<Rightarrow> (label, hc_node c) # planLoop q now rest (hc_node c # taken)))"

definition planned :: "(string \<times> string) list \<Rightarrow> string \<Rightarrow> waitingTier \<Rightarrow> waitingTier" where
  "planned plan label waiter =
     (let host = (case map_of plan label of Some h \<Rightarrow> h | None \<Rightarrow> [])
      in waiter\<lparr>w_late := (case find (\<lambda>c. hc_node c = host) (w_candidates waiter) of
                 Some c \<Rightarrow> hc_late c | None \<Rightarrow> False), w_held := host\<rparr>)"

definition planHolds :: "admissionQueue \<Rightarrow> int \<Rightarrow> admissionQueue" where
  "planHolds q now =
     (if q_policy q \<noteq> AdmissionHold then q
      else let plan = planLoop q now (inOrder q now) []
           in q\<lparr>q_waiting := map (\<lambda>(label, w). (label, planned plan label w)) (q_waiting q)\<rparr>)"

fun holdsAhead :: "admissionQueue \<Rightarrow> string \<Rightarrow> bool \<Rightarrow> string list \<Rightarrow> (string \<times> string) list \<Rightarrow> (string \<times> string) list" where
  "holdsAhead q tier spent [] out = out"
| "holdsAhead q tier spent (label # rest) out =
     (if label = tier then (if \<not> spent then out else holdsAhead q tier spent rest out)
      else let held = w_held (waiterOf q label)
           in holdsAhead q tier spent rest (if held \<noteq> [] then mapSet held label out else out))"

definition heldAgainstLocked :: "admissionQueue \<Rightarrow> string \<Rightarrow> int \<Rightarrow> (string \<times> string) list" where
  "heldAgainstLocked q tier now = holdsAhead q tier (w_spent (waiterOf q tier)) (inOrder q now) []"

definition heldAgainst :: "admissionQueue \<Rightarrow> string \<Rightarrow> int \<Rightarrow> (string \<times> string) list \<times> admissionQueue" where
  "heldAgainst q tier now =
     (if \<not> holds q then ([], q)
      else let q' = planHolds q now in (heldAgainstLocked q' tier now, q'))"

definition avoiding :: "admissionQueue \<Rightarrow> string \<Rightarrow> int \<Rightarrow> string list" where
  "avoiding q tier now = sort (map fst (fst (heldAgainst q tier now)))"

text \<open>The waiters ahead that a purchase passes and whose room it must leave them.\<close>

fun keepAhead :: "admissionQueue \<Rightarrow> int \<Rightarrow> string \<Rightarrow> bool \<Rightarrow> string list \<Rightarrow> string list \<Rightarrow> string list" where
  "keepAhead q now tier spent protect [] = []"
| "keepAhead q now tier spent protect (label # rest) =
     (if label = tier then (if \<not> spent then [] else keepAhead q now tier spent protect rest)
      else let waiter = waiterOf q label
           in if w_behindAsLarge waiter \<and> w_held waiter = [] \<and> label \<notin> set protect
                \<and> \<not> steppedAside q label waiter (q_lastRanks q) now
              then label # keepAhead q now tier spent protect rest
              else keepAhead q now tier spent protect rest)"

definition purchaseFor :: "admissionQueue \<Rightarrow> string \<Rightarrow> string list \<Rightarrow> int \<Rightarrow> Purchase \<times> admissionQueue" where
  "purchaseFor q tier protect now =
     (if \<not> holds q then (\<lparr>pu_protect = protect, pu_avoid = (\<lambda>_. []), pu_keep = []\<rparr>, q)
      else let q' = planHolds q now;
               keep = keepAhead q' now tier (w_spent (waiterOf q' tier)) protect (inOrder q' now)
           in (\<lparr>pu_protect = protect,
                pu_avoid = (\<lambda>label. if label \<in> set (tier # protect @ keep) then heldAgainstLocked q' label now else []),
                pu_keep = keep\<rparr>, q'))"

definition boughtOne :: "admissionQueue \<Rightarrow> string \<Rightarrow> admissionQueue" where
  "boughtOne q tier =
     (if \<not> holds q \<or> \<not> isWaiting q tier then q
      else setWaiter tier ((waiterOf q tier)\<lparr>w_held := [], w_candidates := [], w_late := False, w_spent := True\<rparr>) q)"

definition ownHold :: "admissionQueue \<Rightarrow> string \<Rightarrow> int \<Rightarrow> string \<times> admissionQueue" where
  "ownHold q tier now =
     (if \<not> holds q then ([], q) else let q' = planHolds q now in (w_held (waiterOf q' tier), q'))"

definition readHold :: "admissionQueue \<Rightarrow> string \<Rightarrow> HoldCandidate list \<Rightarrow> bool \<Rightarrow> int \<Rightarrow> admissionQueue" where
  "readHold q tier cs behind now =
     (if \<not> holds q then q
      else planHolds (if isWaiting q tier
             then setWaiter tier ((waiterOf q tier)\<lparr>w_candidates := cs, w_behindAsLarge := behind\<rparr>) q else q) now)"

definition mayHold :: "admissionQueue \<Rightarrow> string \<Rightarrow> HoldCandidate list \<Rightarrow> int \<Rightarrow> admissionQueue" where
  "mayHold q tier cs now = readHold q tier cs False now"

definition behindAsLarge :: "admissionQueue \<Rightarrow> string \<Rightarrow> int \<Rightarrow> admissionQueue" where
  "behindAsLarge q tier now = readHold q tier [] True now"

section \<open>Whether a tier may buy\<close>

definition noteRanks :: "TierAdmission \<Rightarrow> admissionQueue \<Rightarrow> admissionQueue" where
  "noteRanks here q = (if ta_targetRank here \<noteq> None then q\<lparr>q_lastRanks := ta_targetRank here\<rparr> else q)"

definition refreshBuyer :: "admissionQueue \<Rightarrow> string \<Rightarrow> TierAdmission \<Rightarrow> int \<Rightarrow> admissionQueue" where
  "refreshBuyer q tier here now =
     (if q_policy q \<noteq> AdmissionHold then q
      else planHolds (if isWaiting q tier \<and> ta_vcpu here \<noteq> 0
             then setWaiter tier ((waiterOf q tier)\<lparr>w_where := here\<rparr>) q else q) now)"

definition noPlace :: place where
  "noPlace = Place 0 0 0 []"

text \<open>One waiter of the loop of \<open>headAmong\<close>: the best place so far and the stalled ones.\<close>

definition headStep ::
  "admissionQueue \<Rightarrow> string \<Rightarrow> TierAdmission \<Rightarrow> (TierAdmission \<Rightarrow> waitingTier \<Rightarrow> bool) \<Rightarrow> ranks option \<Rightarrow> int \<Rightarrow>
   place \<times> string list \<Rightarrow> string \<times> waitingTier \<Rightarrow> place \<times> string list" where
  "headStep q tier here inLine ranks now acc entry =
     (let (best, stalled) = acc; (label, waiter) = entry
      in if label \<noteq> tier \<and> \<not> inLine here waiter then (best, stalled)
         else if label \<noteq> tier \<and> steppedAside q label waiter ranks now then (best, stalled @ [label])
         else let candidate = (if label = tier then placeOf q tier here ranks now else standing label waiter ranks now)
              in (if pl_label best = [] \<or> before candidate best then candidate else best, stalled))"

definition headAmong ::
  "admissionQueue \<Rightarrow> string \<Rightarrow> TierAdmission \<Rightarrow> (TierAdmission \<Rightarrow> waitingTier \<Rightarrow> bool) \<Rightarrow> int \<Rightarrow>
   string \<times> int \<times> string list" where
  "headAmong q tier here inLine now =
     (let ranks = ranksFor q tier here now;
          (best, stalled) = foldl (headStep q tier here inLine ranks now) (noPlace, []) (q_waiting q);
          own = placeOf q tier here ranks now;
          best = (if \<not> isWaiting q tier \<and> (pl_label best = [] \<or> before own best) then own else best)
      in (pl_label best, pl_since best, stalled))"

definition queueHead :: "admissionQueue \<Rightarrow> string \<Rightarrow> TierAdmission \<Rightarrow> int \<Rightarrow> string \<times> int \<times> string list" where
  "queueHead q tier here now = headAmong q tier here (blocks q) now"

fun letPastEach :: "place \<Rightarrow> ranks option \<Rightarrow> int \<Rightarrow> string list \<Rightarrow> admissionQueue \<Rightarrow> admissionQueue" where
  "letPastEach own ranks now [] q = q"
| "letPastEach own ranks now (label # rest) q =
     (let waiter = waiterOf q label
      in letPastEach own ranks now rest
           (if w_passed waiter \<or> before own (standing label waiter ranks now) then q
            else setWaiter label (waiter\<lparr>w_passed := True\<rparr>) q))"

definition letPast :: "admissionQueue \<Rightarrow> string \<Rightarrow> TierAdmission \<Rightarrow> string list \<Rightarrow> int \<Rightarrow> admissionQueue" where
  "letPast q tier here stalled now =
     (let ranks = ranksFor q tier here now
      in letPastEach (placeOf q tier here ranks now) ranks now stalled q)"

definition mayBuy :: "admissionQueue \<Rightarrow> string \<Rightarrow> TierAdmission \<Rightarrow> int \<Rightarrow> bool \<times> admissionQueue" where
  "mayBuy q tier here now =
     (if q_policy q = AdmissionFill then (True, q)
      else let q1 = refreshBuyer (noteRanks here q) tier here now;
               (first, _, stalled) = queueHead q1 tier here now;
               allowed = (first = [] \<or> first = tier)
           in (allowed, if allowed then letPast q1 tier here stalled now else q1))"

definition heldByLocked :: "admissionQueue \<Rightarrow> string \<Rightarrow> TierAdmission \<Rightarrow> int \<Rightarrow> (string \<times> int) option" where
  "heldByLocked q tier here now =
     (let (first, since, _) = queueHead q tier here now
      in if first = [] \<or> first = tier then None else Some (first, since))"

definition heldBy :: "admissionQueue \<Rightarrow> string \<Rightarrow> TierAdmission \<Rightarrow> int \<Rightarrow> (string \<times> int) option" where
  "heldBy q tier here now = (if q_policy q = AdmissionFill then None else heldByLocked q tier here now)"

definition waiterHeldBy :: "admissionQueue \<Rightarrow> string \<Rightarrow> int \<Rightarrow> (string \<times> int) option \<times> admissionQueue" where
  "waiterHeldBy q tier now =
     (if q_policy q = AdmissionFill then (None, q)
      else let q' = planHolds q now
           in if \<not> isWaiting q' tier then (None, q')
              else let here = w_where (waiterOf q' tier);
                       here = (if q_lastRanks q' \<noteq> None then here\<lparr>ta_targetRank := q_lastRanks q'\<rparr> else here)
                   in (heldByLocked q' tier here now, q'))"

definition ahead :: "admissionQueue \<Rightarrow> string \<Rightarrow> TierAdmission \<Rightarrow> int \<Rightarrow> string list \<times> admissionQueue" where
  "ahead q tier here now =
     (if q_policy q = AdmissionFill then ([], q)
      else let q' = refreshBuyer q tier here now;
               ranks = ranksFor q' tier here now;
               own = placeOf q' tier here ranks now
           in (sort (map fst (filter (\<lambda>(label, waiter).
                 \<not> (label = tier \<or> \<not> blocks q' here waiter \<or> steppedAside q' label waiter ranks now)
                 \<and> \<not> before own (standing label waiter ranks now)) (q_waiting q'))), q'))"

section \<open>What moves a waiter\<close>

definition progressed :: "string \<Rightarrow> waitingTier \<Rightarrow> int \<Rightarrow> admissionQueue \<Rightarrow> admissionQueue" where
  "progressed tier waiter now q = setWaiter tier (waiter\<lparr>w_progress := now, w_passed := False\<rparr>) q"

definition newWaiter :: "TierAdmission \<Rightarrow> int \<Rightarrow> waitingTier" where
  "newWaiter here now = noWaiter\<lparr>w_since := now, w_where := here, w_progress := now\<rparr>"

definition waits :: "admissionQueue \<Rightarrow> string \<Rightarrow> TierAdmission \<Rightarrow> int \<Rightarrow> admissionQueue" where
  "waits q tier here now =
     (let q0 = noteRanks here q;
          q1 = (if isWaiting q0 tier then progressed tier ((waiterOf q0 tier)\<lparr>w_where := here\<rparr>) now q0
                else setWaiter tier (newWaiter here now) q0);
          (first, _, _) = headAmong q1 tier here (\<lambda>here waiter. competes here (w_where waiter)) now
      in if first = tier \<and> ta_targetRank here \<noteq> None
         then setWaiter tier ((waiterOf q1 tier)\<lparr>w_head := True\<rparr>) q1 else q1)"

definition waitsOnLaunches :: "admissionQueue \<Rightarrow> string \<Rightarrow> TierAdmission \<Rightarrow> int \<Rightarrow> admissionQueue" where
  "waitsOnLaunches q tier here now =
     (if isWaiting q tier then setWaiter tier ((waiterOf q tier)\<lparr>w_where := here\<rparr>) q
      else setWaiter tier (newWaiter here now) q)"

definition launchMark :: "admissionQueue \<Rightarrow> string \<Rightarrow> int \<Rightarrow> admissionQueue" where
  "launchMark q tier now = (if isWaiting q tier then progressed tier (waiterOf q tier) now q else q)"

definition launchBegins :: "admissionQueue \<Rightarrow> string \<Rightarrow> int \<Rightarrow> admissionQueue" where
  "launchBegins q tier now = launchMark q tier now"

definition launchEnds :: "admissionQueue \<Rightarrow> string \<Rightarrow> int \<Rightarrow> admissionQueue" where
  "launchEnds q tier now = launchMark q tier now"

definition launchResult :: "admissionQueue \<Rightarrow> string \<Rightarrow> bool \<Rightarrow> int \<Rightarrow> admissionQueue" where
  "launchResult q tier failed now =
     (if failed then q\<lparr>q_launchFailed := mapSet tier now (q_launchFailed q)\<rparr>
      else q\<lparr>q_launchFailed := filter (\<lambda>(label, _). label \<noteq> tier) (q_launchFailed q)\<rparr>)"

definition bought :: "admissionQueue \<Rightarrow> string \<Rightarrow> int \<Rightarrow> admissionQueue" where
  "bought q tier now =
     (if \<not> isWaiting q tier then q
      else progressed tier ((waiterOf q tier)\<lparr>w_since := now, w_head := False, w_held := [], w_candidates := [],
             w_late := False, w_behindAsLarge := False, w_spent := False\<rparr>) now q)"

definition served :: "admissionQueue \<Rightarrow> string \<Rightarrow> admissionQueue" where
  "served q tier = q\<lparr>q_waiting := filter (\<lambda>(label, _). label \<noteq> tier) (q_waiting q)\<rparr>"

definition waitingSince :: "admissionQueue \<Rightarrow> string \<Rightarrow> (int \<times> int) option" where
  "waitingSince q tier = map_option (\<lambda>w. (w_since w, w_progress w)) (map_of (q_waiting q) tier)"

end
