(* ===== verification/Queue_Facts.thy ===== *)
theory Queue_Facts
  imports Admission_Queue
begin

text \<open>
  What the admission order promises. The head of the line is the least place among the buyer
  and the waiters that hold it back, whatever order the map is ranged over; a buyer may buy
  exactly when no waiter is ahead of it; the oldest waiter always may, and nobody it holds
  back may; a tier that bought stands behind everyone who was waiting; and holds are exclusive
  and stay where they are.
\<close>

section \<open>Maps\<close>

lemma map_of_mapSet: "map_of (mapSet k v xs) j = (if j = k then Some v else map_of xs j)"
  by (induction k v xs rule: mapSet.induct) auto

lemma fst_mapSet: "fst ` set (mapSet k v xs) = insert k (fst ` set xs)"
  by (induction k v xs rule: mapSet.induct) auto

lemma distinct_mapSet: "distinct (map fst xs) \<Longrightarrow> distinct (map fst (mapSet k v xs))"
  by (induction k v xs rule: mapSet.induct) (auto simp: fst_mapSet)

text \<open>A queue as the code makes one: one record a tier, and no tier without a label.\<close>

definition queueOK :: "admissionQueue \<Rightarrow> bool" where
  "queueOK q \<longleftrightarrow> distinct (map fst (q_waiting q)) \<and> [] \<notin> set (map fst (q_waiting q))"

lemma queueOK_labels: "queueOK q \<Longrightarrow> \<forall>e \<in> set (q_waiting q). fst e \<noteq> []"
  unfolding queueOK_def by force

lemma isWaiting_map: "isWaiting q tier \<longleftrightarrow> map_of (q_waiting q) tier \<noteq> None"
  by (force simp: isWaiting_def map_of_eq_None_iff)

lemma waiterOf_member: "queueOK q \<Longrightarrow> (label, w) \<in> set (q_waiting q) \<Longrightarrow> waiterOf q label = w"
  by (simp add: queueOK_def waiterOf_def)

lemma waiterOf_in: "isWaiting q label \<Longrightarrow> (label, waiterOf q label) \<in> set (q_waiting q)"
  by (auto simp: isWaiting_map waiterOf_def dest: map_of_SomeD)

lemma setWaiter_OK: "queueOK q \<Longrightarrow> tier \<noteq> [] \<Longrightarrow> queueOK (setWaiter tier w q)"
  by (simp add: queueOK_def setWaiter_def distinct_mapSet fst_mapSet)

lemma waiterOf_setWaiter [simp]:
  "waiterOf (setWaiter tier w q) label = (if label = tier then w else waiterOf q label)"
  "isWaiting (setWaiter tier w q) label \<longleftrightarrow> label = tier \<or> isWaiting q label"
  "q_policy (setWaiter tier w q) = q_policy q" "q_lastRanks (setWaiter tier w q) = q_lastRanks q"
  "q_launchFailed (setWaiter tier w q) = q_launchFailed q"
  by (simp_all add: waiterOf_def setWaiter_def map_of_mapSet isWaiting_def fst_mapSet)

section \<open>The head is a minimum\<close>

lemma standing_label [simp]: "pl_label (standing label w ranks now) = label"
  by (simp add: standing_def split: option.splits)

lemma standing_since [simp]: "pl_since (standing label w ranks now) = w_since w"
  by (simp add: standing_def split: option.splits)

lemma placeOf_label [simp]: "pl_label (placeOf q tier here ranks now) = tier"
  by (simp add: placeOf_def Let_def)

text \<open>The waiters the loop compares the buyer with.\<close>

definition inTheWay ::
  "admissionQueue \<Rightarrow> string \<Rightarrow> TierAdmission \<Rightarrow> (TierAdmission \<Rightarrow> waitingTier \<Rightarrow> bool) \<Rightarrow> ranks option \<Rightarrow> int \<Rightarrow>
   string \<times> waitingTier \<Rightarrow> bool" where
  "inTheWay q tier here inLine ranks now entry \<longleftrightarrow>
     fst entry \<noteq> tier \<and> inLine here (snd entry) \<and> \<not> steppedAside q (fst entry) (snd entry) ranks now"

definition rivals ::
  "admissionQueue \<Rightarrow> string \<Rightarrow> TierAdmission \<Rightarrow> (TierAdmission \<Rightarrow> waitingTier \<Rightarrow> bool) \<Rightarrow> ranks option \<Rightarrow> int \<Rightarrow>
   (string \<times> waitingTier) list \<Rightarrow> place set" where
  "rivals q tier here inLine ranks now xs =
     (\<lambda>(label, w). standing label w ranks now) ` {e \<in> set xs. inTheWay q tier here inLine ranks now e}
     \<union> (if tier \<in> fst ` set xs then {placeOf q tier here ranks now} else {})"

lemma finite_rivals [simp]: "finite (rivals q tier here inLine ranks now xs)"
  by (simp add: rivals_def)

lemma rivals_Cons:
  "rivals q tier here inLine ranks now ((label, w) # xs) =
     (if label = tier then insert (placeOf q tier here ranks now) (rivals q tier here inLine ranks now xs)
      else if inTheWay q tier here inLine ranks now (label, w)
      then insert (standing label w ranks now) (rivals q tier here inLine ranks now xs)
      else rivals q tier here inLine ranks now xs)"
  by (auto simp: rivals_def inTheWay_def)

lemma rivals_labels:
  "tier \<noteq> [] \<Longrightarrow> \<forall>e \<in> set xs. fst e \<noteq> [] \<Longrightarrow> p \<in> rivals q tier here inLine ranks now xs \<Longrightarrow> pl_label p \<noteq> []"
  by (auto simp: rivals_def split: if_splits)

lemma before_min: "before c best \<Longrightarrow> min c best = c" "\<not> before c best \<Longrightarrow> min c best = best"
  by (auto simp: min_def less_eq_place_def)

lemma Min_insert_min: "finite R \<Longrightarrow> Min (insert (min a b) R) = min a (Min (insert b R))" for a b :: place
  by (cases "R = {}") (simp_all add: min.assoc)

lemma pick_min: "(if pl_label best = [] \<or> before c best then c else best) =
    (if pl_label best = [] then c else min c best)"
  by (auto simp: min_def less_eq_place_def less_place_def before_def split: if_splits)

lemma headStep_fold:
  assumes "tier \<noteq> []" and "\<forall>e \<in> set xs. fst e \<noteq> []"
  shows "fst (foldl (headStep q tier here inLine ranks now) (best, stalled) xs) =
    (let R = rivals q tier here inLine ranks now xs
     in if pl_label best \<noteq> [] then Min (insert best R) else if R = {} then best else Min R)"
  using assms(2)
proof (induction xs arbitrary: best stalled)
  case Nil
  then show ?case by (simp add: rivals_def)
next
  case (Cons e xs)
  obtain label w where e: "e = (label, w)" by (cases e)
  let ?R = "rivals q tier here inLine ranks now xs"
  let ?c = "if label = tier then placeOf q tier here ranks now else standing label w ranks now"
  have lab: "label \<noteq> []" "\<forall>e \<in> set xs. fst e \<noteq> []" using Cons.prems e by auto
  show ?case
  proof (cases "label = tier \<or> inTheWay q tier here inLine ranks now (label, w)")
    case True
    have R: "rivals q tier here inLine ranks now (e # xs) = insert ?c ?R"
      using True by (auto simp: e rivals_Cons)
    have step: "headStep q tier here inLine ranks now (best, stalled) e =
        (if pl_label best = [] then ?c else min ?c best, stalled)"
      using True by (auto simp: headStep_def e inTheWay_def Let_def before_min)
    have "pl_label ?c \<noteq> []" using lab assms(1) by simp
    moreover have "pl_label (min ?c best) \<noteq> []" if "pl_label best \<noteq> []"
      using that calculation by (auto simp: min_def)
    ultimately show ?thesis
      unfolding foldl.simps step R using Cons.IH [OF lab(2)]
      by (auto simp: Let_def Min_insert_min min.commute)
  next
    case False
    then have "rivals q tier here inLine ranks now (e # xs) = ?R" by (auto simp: e rivals_Cons)
    moreover have "fst (headStep q tier here inLine ranks now (best, stalled) e) = best"
      using False by (auto simp: headStep_def e inTheWay_def Let_def)
    ultimately show ?thesis using Cons.IH [OF lab(2)] by (metis foldl.simps(2) prod.collapse)
  qed
qed

lemma headAmong_Min:
  fixes here :: TierAdmission and now :: int and inLine :: "TierAdmission \<Rightarrow> waitingTier \<Rightarrow> bool"
  assumes "queueOK q" and "tier \<noteq> []"
  defines "ranks \<equiv> ranksFor q tier here now"
  defines "C \<equiv> insert (placeOf q tier here ranks now)
      ((\<lambda>(label, w). standing label w ranks now) ` {e \<in> set (q_waiting q). inTheWay q tier here inLine ranks now e})"
  shows "fst (headAmong q tier here inLine now) = pl_label (Min C)"
    and "fst (snd (headAmong q tier here inLine now)) = pl_since (Min C)"
proof -
  let ?R = "rivals q tier here inLine ranks now (q_waiting q)" and ?own = "placeOf q tier here ranks now"
  obtain best stalled where f: "foldl (headStep q tier here inLine ranks now) (noPlace, []) (q_waiting q) = (best, stalled)"
    by (rule prod.exhaust)
  have lab: "\<forall>e \<in> set (q_waiting q). fst e \<noteq> []" by (rule queueOK_labels [OF assms(1)])
  have "best = (if ?R = {} then noPlace else Min ?R)"
    using headStep_fold [OF assms(2) lab, of q here inLine ranks now noPlace "[]"] f
    by (simp add: Let_def noPlace_def split: if_splits)
  then have best: "pl_label best = [] \<longleftrightarrow> ?R = {}" "?R \<noteq> {} \<Longrightarrow> best = Min ?R"
    using rivals_labels [OF assms(2) lab, of "Min ?R" q here inLine ranks now]
    by (auto simp: noPlace_def)
  have C: "C = insert ?own ?R" "isWaiting q tier \<Longrightarrow> ?own \<in> ?R"
    by (auto simp: C_def rivals_def isWaiting_def)
  have "(if \<not> isWaiting q tier \<and> (pl_label best = [] \<or> before ?own best) then ?own else best) = Min C"
  proof (cases "isWaiting q tier")
    case True
    then have "?R \<noteq> {}" "C = ?R" using C by auto
    then show ?thesis using True best(2) by simp
  next
    case False
    show ?thesis
    proof (cases "?R = {}")
      case True
      then show ?thesis using False best(1) by (simp add: C(1))
    next
      case R: False
      then have "Min C = min ?own best" using best by (simp add: C(1))
      then show ?thesis using False R best(1) pick_min [of best ?own] by (simp add: less_place_def min_def) 
    qed
  qed
  then show "fst (headAmong q tier here inLine now) = pl_label (Min C)"
    "fst (snd (headAmong q tier here inLine now)) = pl_since (Min C)"
    unfolding headAmong_def Let_def ranks_def [symmetric] f prod.case by simp_all
qed

section \<open>What planning holds changes\<close>

lemma planHolds_fields [simp]:
  "q_policy (planHolds q now) = q_policy q" "q_lastRanks (planHolds q now) = q_lastRanks q"
  "q_launchFailed (planHolds q now) = q_launchFailed q"
  "map fst (q_waiting (planHolds q now)) = map fst (q_waiting q)"
  by (simp_all add: planHolds_def Let_def comp_def case_prod_beta)

lemma planHolds_OK [simp]: "queueOK (planHolds q now) = queueOK q"
  unfolding queueOK_def planHolds_fields ..

lemma map_of_planned: "map_of (map (\<lambda>(label, w). (label, f label w)) xs) l = map_option (f l) (map_of xs l)"
  by (induction xs) auto

lemma isWaiting_planHolds [simp]: "isWaiting (planHolds q now) l = isWaiting q l"
  unfolding isWaiting_def planHolds_fields ..

lemma waiterOf_planHolds:
  assumes "isWaiting q l"
  shows "waiterOf (planHolds q now) l =
    (if q_policy q = AdmissionHold then planned (planLoop q now (inOrder q now) []) l (waiterOf q l) else waiterOf q l)"
  using assms by (auto simp: planHolds_def waiterOf_def map_of_planned Let_def isWaiting_map)

lemma planned_fields [simp]:
  "w_since (planned plan l w) = w_since w" "w_where (planned plan l w) = w_where w"
  "w_progress (planned plan l w) = w_progress w" "w_head (planned plan l w) = w_head w"
  "w_candidates (planned plan l w) = w_candidates w" "w_behindAsLarge (planned plan l w) = w_behindAsLarge w"
  "w_spent (planned plan l w) = w_spent w" "w_passed (planned plan l w) = w_passed w"
  by (simp_all add: planned_def Let_def)

lemma noteRanks_fields [simp]:
  "q_policy (noteRanks here q) = q_policy q" "q_waiting (noteRanks here q) = q_waiting q"
  "queueOK (noteRanks here q) = queueOK q" "isWaiting (noteRanks here q) l = isWaiting q l"
  "waiterOf (noteRanks here q) l = waiterOf q l" "q_launchFailed (noteRanks here q) = q_launchFailed q"
  by (simp_all add: noteRanks_def queueOK_def isWaiting_def waiterOf_def)

lemma refreshBuyer_OK: "queueOK q \<Longrightarrow> tier \<noteq> [] \<Longrightarrow> queueOK (refreshBuyer q tier here now)"
  by (simp add: refreshBuyer_def setWaiter_OK)

lemma refreshBuyer_fields [simp]:
  "q_policy (refreshBuyer q tier here now) = q_policy q"
  "isWaiting (refreshBuyer q tier here now) l = isWaiting q l"
  "q_launchFailed (refreshBuyer q tier here now) = q_launchFailed q"
  by (auto simp: refreshBuyer_def)

lemma refreshBuyer_fair: "q_policy q \<noteq> AdmissionHold \<Longrightarrow> refreshBuyer q tier here now = q"
  by (simp add: refreshBuyer_def)

lemma refreshBuyer_since:
  "isWaiting q l \<Longrightarrow> w_since (waiterOf (refreshBuyer q tier here now) l) = w_since (waiterOf q l)"
  by (simp add: refreshBuyer_def waiterOf_planHolds)

section \<open>Who may buy\<close>

lemma Min_own:
  assumes "finite R" and "\<forall>p \<in> R. pl_label p \<noteq> pl_label own"
  shows "pl_label (Min (insert own R)) = pl_label own \<longleftrightarrow> (\<forall>p \<in> R. before own p)"
proof -
  have fin: "finite (insert own R)" "insert own R \<noteq> {}" using assms(1) by simp_all
  have m: "Min (insert own R) \<in> insert own R" by (rule Min_in [OF fin])
  show ?thesis
  proof
    assume "pl_label (Min (insert own R)) = pl_label own"
    then have eq: "Min (insert own R) = own" using m assms(2) by blast
    show "\<forall>p \<in> R. before own p"
    proof
      fix p assume "p \<in> R"
      then have "own \<le> p" using Min_le [OF fin(1), of p] eq by simp
      then show "before own p" using \<open>p \<in> R\<close> assms(2) by (auto simp: less_eq_place_def)
    qed
  next
    assume "\<forall>p \<in> R. before own p"
    then have "Min (insert own R) = own"
      using fin(1) by (intro Min_eqI) (auto simp: less_eq_place_def)
    then show "pl_label (Min (insert own R)) = pl_label own" by simp
  qed
qed

lemma queueHead_own:
  fixes here :: TierAdmission and now :: int
  assumes "queueOK q" and "tier \<noteq> []"
  defines "ranks \<equiv> ranksFor q tier here now"
  shows "fst (queueHead q tier here now) = [] \<or> fst (queueHead q tier here now) = tier \<longleftrightarrow>
    (\<forall>(label, w) \<in> set (q_waiting q). label \<noteq> tier \<and> blocks q here w \<and> \<not> steppedAside q label w ranks now
       \<longrightarrow> before (placeOf q tier here ranks now) (standing label w ranks now))"
proof -
  let ?own = "placeOf q tier here ranks now"
  let ?S = "{e \<in> set (q_waiting q). inTheWay q tier here (blocks q) ranks now e}"
  let ?R = "(\<lambda>(label, w). standing label w ranks now) ` ?S"
  have head: "fst (queueHead q tier here now) = pl_label (Min (insert ?own ?R))"
    unfolding queueHead_def ranks_def by (rule headAmong_Min(1) [OF assms(1,2)])
  have lab: "\<forall>p \<in> ?R. pl_label p \<noteq> pl_label ?own" by (auto simp: inTheWay_def)
  have ne: "\<forall>p \<in> insert ?own ?R. pl_label p \<noteq> []" using queueOK_labels [OF assms(1)] assms(2) by auto
  have "Min (insert ?own ?R) \<in> insert ?own ?R" by (rule Min_in) simp_all
  then have "pl_label (Min (insert ?own ?R)) \<noteq> []" by (rule bspec [OF ne])
  then show ?thesis
    using Min_own [OF _ lab] unfolding head placeOf_label by (auto simp: inTheWay_def)
qed

lemma queueHead_blocked:
  fixes here :: TierAdmission and now :: int
  assumes "queueOK q" and "tier \<noteq> []" and "isWaiting q l" and "l \<noteq> tier" and "blocks q here (waiterOf q l)"
  defines "ranks \<equiv> ranksFor q tier here now"
  assumes "\<not> steppedAside q l (waiterOf q l) ranks now"
    and "\<not> before (placeOf q tier here ranks now) (standing l (waiterOf q l) ranks now)"
  shows "\<not> (fst (queueHead q tier here now) = [] \<or> fst (queueHead q tier here now) = tier)"
proof
  assume "fst (queueHead q tier here now) = [] \<or> fst (queueHead q tier here now) = tier"
  from this [unfolded queueHead_own [OF assms(1,2)], folded ranks_def, THEN bspec, OF waiterOf_in [OF assms(3)]]
  show False using assms(4,5,7,8) by simp
qed

lemma sort_Nil_iff [simp]: "sort xs = [] \<longleftrightarrow> xs = []"
  by (metis length_0_conv length_sort)

text \<open>
  The two questions the order answers agree. A tier may buy now exactly when no waiter is
  ahead of it; one that may not is told the waiters to leave room for, each of them waiting,
  contending for the same room and not stepped aside, and each before it in the order. Under
  \<open>fill\<close> every tier may buy.
\<close>

lemma may_buy_iff_nobody_ahead:
  assumes "queueOK q" and "tier \<noteq> []"
  shows "(fst (mayBuy q tier here now) \<longleftrightarrow> fst (ahead (noteRanks here q) tier here now) = [])
    \<and> (q_policy q = AdmissionFill \<longrightarrow> fst (mayBuy q tier here now))
    \<and> (\<forall>label \<in> set (fst (ahead q tier here now)).
         label \<noteq> tier \<and> isWaiting q label \<and> competes here (w_where (waiterOf q label)) \<and> holdsTheLine (waiterOf q label) now)"
proof (cases "q_policy q = AdmissionFill")
  case True
  then show ?thesis by (simp add: mayBuy_def ahead_def)
next
  case False
  let ?q = "refreshBuyer (noteRanks here q) tier here now"
  have ok: "queueOK ?q" using assms by (simp add: refreshBuyer_OK)
  have "fst (mayBuy q tier here now) \<longleftrightarrow> fst (queueHead ?q tier here now) = [] \<or> fst (queueHead ?q tier here now) = tier"
    using False by (simp add: mayBuy_def Let_def split: prod.splits)
  also have "\<dots> \<longleftrightarrow> fst (ahead (noteRanks here q) tier here now) = []"
    unfolding queueHead_own [OF ok assms(2)] using False
    by (auto simp: ahead_def Let_def filter_empty_conv)
  finally have one: "fst (mayBuy q tier here now) \<longleftrightarrow> fst (ahead (noteRanks here q) tier here now) = []" .
  have ok': "queueOK (refreshBuyer q tier here now)" using assms by (simp add: refreshBuyer_OK)
  have "label \<noteq> tier \<and> isWaiting q label \<and> competes here (w_where (waiterOf q label)) \<and> holdsTheLine (waiterOf q label) now"
    if member: "label \<in> set (fst (ahead q tier here now))" for label
  proof -
    let ?r = "refreshBuyer q tier here now"
    obtain w where w: "(label, w) \<in> set (q_waiting ?r)" "label \<noteq> tier" "blocks ?r here w" "\<not> steppedAside ?r label w (ranksFor ?r tier here now) now"
      using member False by (auto simp: ahead_def Let_def)
    have l: "isWaiting q label" using w(1) refreshBuyer_fields(2) [of q tier here now label] by (force simp: isWaiting_def)
    have "w = waiterOf ?r label" by (rule waiterOf_member [OF ok' w(1), symmetric])
    then have "w_where w = w_where (waiterOf q label)" "w_progress w = w_progress (waiterOf q label)"
      using w(2) l by (simp_all add: refreshBuyer_def waiterOf_planHolds)
    then show ?thesis using w l by (auto simp: blocks_def steppedAside_def holdsTheLine_def Let_def split: if_splits)
  qed
  then show ?thesis using one False by blast
qed

text \<open>Two tiers waiting for room on one host, the larger since earlier.\<close>

definition sampleGround :: TierAdmission where
  "sampleGround = noAdmission\<lparr>ta_canGrow := True, ta_nodes := [''alpha''], ta_target := ''default'', ta_vcpu := 4, ta_memory := 8\<rparr>"

definition sampleQueue :: admissionQueue where
  "sampleQueue = (newAdmissionQueue [])\<lparr>q_waiting := [(''small'', newWaiter sampleGround 20), (''big'', newWaiter sampleGround 10)]\<rparr>"

lemma sampleQueue_OK: "queueOK sampleQueue"
  by (simp add: sampleQueue_def queueOK_def)

text \<open>
  There is one winner, and waiting never loses it. With no weights in play the tier that
  has waited longest may always buy, under every order and wherever it could be placed; and
  under \<open>fair\<close>, while its listener makes progress, no tier that contends for its room may
  buy before it, whether that tier is waiting or not.
\<close>

lemma oldest_waiter_wins:
  assumes "queueOK q" and "isWaiting q t"
    and "\<forall>(label, w) \<in> set (q_waiting q). label \<noteq> t \<longrightarrow>
        w_since (waiterOf q t) < w_since w \<or> w_since (waiterOf q t) = w_since w \<and> t < label"
    and "ta_targetRank here = None"
  shows "fst (mayBuy q t here now)
    \<and> (q_policy q = AdmissionFair \<and> holdsTheLine (waiterOf q t) now \<and> w_since (waiterOf q t) < notWaiting
         \<and> u \<noteq> t \<and> u \<noteq> [] \<and> ta_targetRank there = None \<and> competes there (w_where (waiterOf q t))
       \<longrightarrow> \<not> fst (mayBuy q u there now))"
proof
  have t: "t \<noteq> []" using assms(1,2) by (force simp: queueOK_def isWaiting_def)
  let ?r = "refreshBuyer (noteRanks here q) t here now"
  have ok: "queueOK ?r" using assms(1) t by (simp add: refreshBuyer_OK)
  have ranks: "ranksFor ?r t here now = None" using assms(4) by (simp add: ranksFor_def)
  have own: "placeOf ?r t here None now = Place placeRanked 0 (w_since (waiterOf q t)) t"
    using assms(2) by (simp add: placeOf_def standing_def refreshBuyer_since)
  have "before (placeOf ?r t here None now) (standing label w None now)"
    if "(label, w) \<in> set (q_waiting ?r)" "label \<noteq> t" for label w
  proof -
    have "isWaiting ?r label" using that(1) by (force simp: isWaiting_def)
    then have l: "isWaiting q label" by simp
    then have "w_since w = w_since (waiterOf q label)"
      using waiterOf_member [OF ok that(1)] refreshBuyer_since [of "noteRanks here q" label t here now] by auto
    then show ?thesis
      using assms(3) waiterOf_in [OF l] that(2) unfolding own by (fastforce simp: standing_def before_def)
  qed
  then show "fst (mayBuy q t here now)"
    using queueHead_own [OF ok t, of here now] ranks
    by (simp add: mayBuy_def Let_def case_prod_beta)
  show "q_policy q = AdmissionFair \<and> holdsTheLine (waiterOf q t) now \<and> w_since (waiterOf q t) < notWaiting
         \<and> u \<noteq> t \<and> u \<noteq> [] \<and> ta_targetRank there = None \<and> competes there (w_where (waiterOf q t))
       \<longrightarrow> \<not> fst (mayBuy q u there now)"
  proof
    assume c: "q_policy q = AdmissionFair \<and> holdsTheLine (waiterOf q t) now \<and> w_since (waiterOf q t) < notWaiting
         \<and> u \<noteq> t \<and> u \<noteq> [] \<and> ta_targetRank there = None \<and> competes there (w_where (waiterOf q t))"
    have q: "refreshBuyer (noteRanks there q) u there now = q"
      using c by (simp add: refreshBuyer_def noteRanks_def)
    have r: "ranksFor q u there now = None" using c by (simp add: ranksFor_def)
    have "w_since (waiterOf q t) < w_since (waiterOf q u) \<or> w_since (waiterOf q t) = w_since (waiterOf q u) \<and> t < u"
      if "isWaiting q u" using assms(3) waiterOf_in [OF that] c by fastforce
    then have "\<not> before (placeOf q u there None now) (standing t (waiterOf q t) None now)"
      using c by (auto simp: placeOf_def standing_def before_def)
    moreover have "blocks q there (waiterOf q t)" "\<not> steppedAside q t (waiterOf q t) None now" "u \<noteq> []" "t \<noteq> u"
      using c by (auto simp: blocks_def steppedAside_def)
    ultimately have "\<not> (fst (queueHead q u there now) = [] \<or> fst (queueHead q u there now) = u)"
      using assms(1,2) by (intro queueHead_blocked) (simp_all add: r)
    then show "\<not> fst (mayBuy q u there now)" using c q by (simp add: mayBuy_def Let_def case_prod_beta)
  qed
qed

section \<open>Turns\<close>

datatype queueEvent = BoughtBy string | ServedTier string | Asked

text \<open>Every operation on the queue, at the instant it takes the lock.\<close>

inductive queueStep :: "int \<Rightarrow> queueEvent \<Rightarrow> admissionQueue \<Rightarrow> admissionQueue \<Rightarrow> bool" for now where
  buy: "queueStep now (BoughtBy tier) q (bought q tier now)"
| serve: "queueStep now (ServedTier tier) q (served q tier)"
| ask: "tier \<noteq> [] \<Longrightarrow> queueStep now Asked q (snd (mayBuy q tier here now))"
| askAhead: "tier \<noteq> [] \<Longrightarrow> queueStep now Asked q (snd (ahead q tier here now))"
| refuse: "tier \<noteq> [] \<Longrightarrow> queueStep now Asked q (waits q tier here now)"
| refuseOnLaunches: "tier \<noteq> [] \<Longrightarrow> queueStep now Asked q (waitsOnLaunches q tier here now)"
| mark: "queueStep now Asked q (launchMark q tier now)"
| launched: "queueStep now Asked q (launchResult q tier failed now)"
| poolBuy: "queueStep now Asked q (boughtOne q tier)"
| read: "queueStep now Asked q (readHold q tier cs behind now)"
| against: "queueStep now Asked q (snd (heldAgainst q tier now))"
| purchase: "queueStep now Asked q (snd (purchaseFor q tier protect now))"
| own: "queueStep now Asked q (snd (ownHold q tier now))"
| report: "queueStep now Asked q (snd (waiterHeldBy q tier now))"

inductive queueRun :: "int \<Rightarrow> admissionQueue \<Rightarrow> queueEvent list \<Rightarrow> int \<Rightarrow> admissionQueue \<Rightarrow> bool" for t0 q0 where
  start: "queueRun t0 q0 [] t0 q0"
| step: "queueRun t0 q0 es t q \<Longrightarrow> t \<le> t' \<Longrightarrow> queueStep t' e q q' \<Longrightarrow> queueRun t0 q0 (e # es) t' q'"

text \<open>
  A step leaves every place where it was: a waiter's wait is dated anew only by its own
  purchase, and a tier that was not waiting starts at the present.
\<close>

definition placesKept :: "int \<Rightarrow> queueEvent \<Rightarrow> admissionQueue \<Rightarrow> admissionQueue \<Rightarrow> bool" where
  "placesKept now e q q' \<longleftrightarrow> (queueOK q \<longrightarrow> queueOK q') \<and> q_policy q' = q_policy q
     \<and> (\<forall>l. isWaiting q l \<longrightarrow> e \<noteq> BoughtBy l \<longrightarrow> e \<noteq> ServedTier l \<longrightarrow>
          isWaiting q' l \<and> w_since (waiterOf q' l) = w_since (waiterOf q l)
          \<and> (w_head (waiterOf q l) \<longrightarrow> w_head (waiterOf q' l)))
     \<and> (\<forall>l. isWaiting q' l \<longrightarrow> isWaiting q l \<and> w_since (waiterOf q' l) = w_since (waiterOf q l) \<or> w_since (waiterOf q' l) = now)"

lemma placesKept_refl [simp]: "placesKept now e q q"
  by (simp add: placesKept_def)

lemma placesKept_trans: "placesKept now Asked q r \<Longrightarrow> placesKept now Asked r s \<Longrightarrow> placesKept now Asked q s"
  unfolding placesKept_def by (metis queueEvent.distinct)

lemma placesKept_planHolds: "placesKept now Asked q (planHolds q t)"
  by (auto simp: placesKept_def waiterOf_planHolds)

lemma placesKept_setWaiter:
  assumes "tier \<noteq> [] \<or> isWaiting q tier" and "isWaiting q tier \<Longrightarrow> w_since w = w_since (waiterOf q tier)"
    and "\<not> isWaiting q tier \<Longrightarrow> w_since w = now"
    and "isWaiting q tier \<Longrightarrow> w_head (waiterOf q tier) \<Longrightarrow> w_head w"
  shows "placesKept now Asked q (setWaiter tier w q)"
proof -
  have "tier \<noteq> []" if "queueOK q" using that assms(1) by (force simp: queueOK_def isWaiting_def)
  then show ?thesis using assms(2-4) by (auto simp: placesKept_def setWaiter_OK)
qed

lemma placesKept_letPast:
  "\<forall>l \<in> set stalled. isWaiting q l \<Longrightarrow> placesKept now Asked q (letPastEach own ranks t stalled q)"
proof (induction own ranks t stalled q rule: letPastEach.induct)
  case (2 own ranks t label rest q)
  let ?q = "if w_passed (waiterOf q label) \<or> before own (standing label (waiterOf q label) ranks t) then q
      else setWaiter label ((waiterOf q label)\<lparr>w_passed := True\<rparr>) q"
  have "placesKept now Asked q ?q" using 2(2) by (auto intro!: placesKept_setWaiter)
  moreover have "placesKept now Asked ?q (letPastEach own ranks t rest ?q)"
    using 2(2) by (intro 2(1)) auto
  ultimately show ?case using placesKept_trans by (simp only: letPastEach.simps Let_def)
qed simp

lemma headStep_stalled:
  "set (snd (foldl (headStep q tier here inLine ranks now) acc xs)) \<subseteq> set (snd acc) \<union> fst ` set xs"
  by (induction xs arbitrary: acc) (fastforce simp: headStep_def Let_def split: prod.splits if_splits)+

lemma queueHead_stalled: "l \<in> set (snd (snd (queueHead q tier here now))) \<Longrightarrow> isWaiting q l"
  using headStep_stalled [of q tier here "blocks q" "ranksFor q tier here now" now "(noPlace, [])" "q_waiting q"]
  by (auto simp: queueHead_def headAmong_def Let_def isWaiting_def split: prod.splits)

lemma placesKept_refreshBuyer: "tier \<noteq> [] \<Longrightarrow> placesKept now Asked q (refreshBuyer q tier here t)"
proof -
  have "placesKept now Asked q (if isWaiting q tier \<and> ta_vcpu here \<noteq> 0 then setWaiter tier ((waiterOf q tier)\<lparr>w_where := here\<rparr>) q else q)"
    by (auto intro!: placesKept_setWaiter)
  from placesKept_trans [OF this placesKept_planHolds] show "tier \<noteq> [] \<Longrightarrow> ?thesis" by (simp add: refreshBuyer_def)
qed

lemma placesKept_noteRanks: "placesKept now Asked q (noteRanks here q)"
  by (auto simp: placesKept_def)

lemma placesKept_mayBuy:
  assumes "tier \<noteq> []"
  shows "placesKept now Asked q (snd (mayBuy q tier here t))"
proof -
  let ?q = "refreshBuyer (noteRanks here q) tier here t"
  have one: "placesKept now Asked q ?q"
    by (rule placesKept_trans [OF placesKept_noteRanks placesKept_refreshBuyer [OF assms]])
  moreover have "placesKept now Asked ?q (letPast ?q tier here (snd (snd (queueHead ?q tier here t))) t)"
    unfolding letPast_def Let_def using queueHead_stalled by (intro placesKept_letPast) blast
  ultimately show ?thesis using placesKept_trans [of now q ?q] by (simp add: mayBuy_def Let_def case_prod_beta)
qed

lemma placesKept_waits:
  assumes "tier \<noteq> []"
  shows "placesKept now Asked q (waits q tier here now)"
proof -
  let ?q0 = "noteRanks here q"
  let ?q1 = "if isWaiting ?q0 tier then progressed tier ((waiterOf ?q0 tier)\<lparr>w_where := here\<rparr>) now ?q0
      else setWaiter tier (newWaiter here now) ?q0"
  have "placesKept now Asked ?q0 ?q1"
    using assms by (auto simp: progressed_def newWaiter_def intro!: placesKept_setWaiter)
  note one = placesKept_trans [OF placesKept_noteRanks this]
  have "isWaiting ?q1 tier" by (simp add: progressed_def)
  then have "placesKept now Asked ?q1 (setWaiter tier ((waiterOf ?q1 tier)\<lparr>w_head := True\<rparr>) ?q1)"
    using assms by (intro placesKept_setWaiter) simp_all
  from placesKept_trans [OF one this] one show ?thesis
    unfolding waits_def Let_def case_prod_beta by (simp only: split: if_split) simp
qed

lemma placesKept_served: "placesKept now (ServedTier tier) q (served q tier)"
proof -
  have "map_of (filter (\<lambda>(l, _). l \<noteq> tier) xs) l = (if l = tier then None else map_of xs l)" for xs :: "(string \<times> waitingTier) list" and l
    by (induction xs) auto
  then show ?thesis
    by (auto simp: placesKept_def served_def isWaiting_map waiterOf_def queueOK_def distinct_map_filter)
qed

lemma placesKept_bought: "placesKept now (BoughtBy tier) q (bought q tier now)"
proof -
  have "tier \<noteq> []" if "queueOK q" "isWaiting q tier" using that by (force simp: queueOK_def isWaiting_def)
  then show ?thesis by (auto simp: placesKept_def bought_def progressed_def setWaiter_OK)
qed

lemma queueStep_places: "queueStep now e q q' \<Longrightarrow> placesKept now e q q'"
proof (induction rule: queueStep.induct)
  case (askAhead tier q here)
  then show ?case using placesKept_refreshBuyer by (simp add: ahead_def Let_def)
next
  case (refuseOnLaunches tier q here)
  then show ?case by (auto simp: waitsOnLaunches_def newWaiter_def intro!: placesKept_setWaiter)
next
  case (mark q tier)
  then show ?case by (auto simp: launchMark_def progressed_def intro!: placesKept_setWaiter)
next
  case (launched q tier failed)
  then show ?case by (auto simp: launchResult_def placesKept_def queueOK_def isWaiting_def waiterOf_def)
next
  case (poolBuy q tier)
  then show ?case by (auto simp: boughtOne_def intro!: placesKept_setWaiter)
next
  case (read q tier cs behind)
  let ?q = "if isWaiting q tier then setWaiter tier ((waiterOf q tier)\<lparr>w_candidates := cs, w_behindAsLarge := behind\<rparr>) q else q"
  have "placesKept now Asked q ?q" by (auto intro!: placesKept_setWaiter)
  from placesKept_trans [OF this placesKept_planHolds] show ?case by (simp add: readHold_def)
qed (use placesKept_mayBuy placesKept_waits placesKept_served placesKept_bought placesKept_planHolds in
    \<open>auto simp: heldAgainst_def purchaseFor_def ownHold_def waiterHeldBy_def Let_def\<close>)

lemma queueRun_places:
  assumes "queueRun t0 q0 es now q" and "queueOK q0" and "isWaiting q0 l"
    and "BoughtBy l \<notin> set es" and "ServedTier l \<notin> set es"
  shows "queueOK q \<and> q_policy q = q_policy q0 \<and> isWaiting q l \<and> w_since (waiterOf q l) = w_since (waiterOf q0 l)
    \<and> (w_head (waiterOf q0 l) \<longrightarrow> w_head (waiterOf q l))"
  using assms
proof (induction rule: queueRun.induct)
  case (step es t q t' e q')
  then show ?case using queueStep_places [OF step.hyps(3)] unfolding placesKept_def by auto
qed simp

lemma queueRun_later:
  assumes "queueRun t0 q0 es now q" and "isWaiting q0 l \<longrightarrow> t0 \<le> w_since (waiterOf q0 l)"
  shows "t0 \<le> now \<and> (isWaiting q l \<longrightarrow> t0 \<le> w_since (waiterOf q l))"
  using assms
proof (induction rule: queueRun.induct)
  case (step es t q t' e q')
  then have IH: "t0 \<le> t" "isWaiting q l \<longrightarrow> t0 \<le> w_since (waiterOf q l)" by simp_all
  have "isWaiting q' l \<longrightarrow> isWaiting q l \<and> w_since (waiterOf q' l) = w_since (waiterOf q l) \<or> w_since (waiterOf q' l) = t'"
    using queueStep_places [OF step.hyps(3)] unfolding placesKept_def by blast
  then show ?case using IH step.hyps(2) by fastforce
qed simp

text \<open>
  C33. Under the fair policy turns are taken. A tier that buys goes behind every tier that was
  waiting when it bought: whatever the listeners do from then on, until such a waiter has
  bought or has nothing left to wait for, the buyer is refused where the two contend, at every
  time at which the waiter has not stepped aside. Where shares weigh the tiers this holds of a
  waiter that was head, is below its floor or has run out of patience, against a buyer that is
  not below its own floor. The fill and hold policies make no such promise, and a waiter that
  has stepped aside gives up its turn.
\<close>

theorem turns_are_taken:
  assumes "queueOK q" and "q_policy q = AdmissionFair" and "isWaiting q t" and "w_since (waiterOf q t) < t0"
    and "u \<noteq> t" and "u \<noteq> []" and "t0 \<le> notWaiting"
    and "queueRun t0 (bought q u t0) es now q'" and "BoughtBy t \<notin> set es" and "ServedTier t \<notin> set es"
    and "competes there (w_where (waiterOf q' t))"
    and "\<not> steppedAside q' t (waiterOf q' t) (ta_targetRank there) now"
    and "ta_targetRank there = None \<or> \<not> ta_belowFloor there \<and>
      (w_head (waiterOf q t) \<or> ta_belowFloor (w_where (waiterOf q' t)) \<or> WeightPatience \<le> now - w_since (waiterOf q t))"
  shows "\<not> fst (mayBuy q' u there now)"
proof -
  let ?b = "bought q u t0"
  have b: "placesKept t0 (BoughtBy u) q ?b" by (rule placesKept_bought)
  then have b0: "queueOK ?b" "q_policy ?b = AdmissionFair" "isWaiting ?b t"
      "w_since (waiterOf ?b t) = w_since (waiterOf q t)" "w_head (waiterOf q t) \<longrightarrow> w_head (waiterOf ?b t)"
    using assms(1-3,5) by (auto simp: placesKept_def)
  have "isWaiting ?b u \<longrightarrow> t0 \<le> w_since (waiterOf ?b u)" by (simp add: bought_def progressed_def)
  note u = queueRun_later [OF assms(8) this]
  note kept = queueRun_places [OF assms(8) b0(1) b0(3) assms(9,10)]
  have q': "queueOK q'" "q_policy q' = AdmissionFair" "isWaiting q' t" "w_since (waiterOf q' t) = w_since (waiterOf q t)"
    "w_head (waiterOf q t) \<longrightarrow> w_head (waiterOf q' t)"
    using kept b0 by auto
  let ?r = "refreshBuyer (noteRanks there q') u there now"
  have r: "?r = noteRanks there q'" using q'(2) by (simp add: refreshBuyer_fair)
  let ?ranks = "ranksFor ?r u there now"
  have ranks: "?ranks = None \<or> ?ranks = ta_targetRank there" by (simp add: ranksFor_def split: option.splits)
  have "\<not> before (placeOf ?r u there ?ranks now) (standing t (waiterOf ?r t) ?ranks now)"
  proof (cases ?ranks)
    case None
    then show ?thesis using u assms(4,7) q'(4) unfolding r
      by (auto simp: placeOf_def standing_def before_def)
  next
    case (Some x)
    then have "ta_targetRank there \<noteq> None" using ranks by (metis option.distinct(1))
    then have "\<not> ta_belowFloor there" "w_head (waiterOf q' t) \<or> ta_belowFloor (w_where (waiterOf q' t))
        \<or> WeightPatience \<le> now - w_since (waiterOf q' t)"
      using assms(13) q'(4,5) by auto
    then show ?thesis using u assms(4,7) q'(4) Some unfolding r
      by (auto simp: placeOf_def standing_def before_def placeBelowFloor_def placeHead_def placeRanked_def Let_def)
  qed
  moreover have "blocks ?r there (waiterOf ?r t)" unfolding r using q'(2) assms(11) by (simp add: blocks_def Let_def)
  moreover have "\<not> steppedAside ?r t (waiterOf ?r t) ?ranks now"
    using assms(12) ranks unfolding r by (auto simp: steppedAside_def)
  ultimately have "\<not> (fst (queueHead ?r u there now) = [] \<or> fst (queueHead ?r u there now) = u)"
    using q' assms(5,6) by (intro queueHead_blocked) (simp_all add: r)
  then show ?thesis using q'(2) by (simp add: mayBuy_def Let_def case_prod_beta)
qed

theorem turns_are_taken_witness:
  "fst (mayBuy sampleQueue ''big'' sampleGround 30)
   \<and> \<not> fst (mayBuy (waits (bought sampleQueue ''big'' 30) ''big'' sampleGround 40) ''big'' sampleGround 40)"
proof -
  let ?b = "bought sampleQueue ''big'' 30"
  let ?q = "waits ?b ''big'' sampleGround 40"
  have "queueRun 30 ?b [Asked] 40 ?q"
    by (rule queueRun.step [OF queueRun.start]) (simp_all add: queueStep.refuse)
  moreover have "isWaiting sampleQueue ''small''" "w_since (waiterOf sampleQueue ''small'') < 30" "(30::int) \<le> notWaiting"
      "q_policy sampleQueue = AdmissionFair" "competes sampleGround (w_where (waiterOf ?q ''small''))"
      "\<not> steppedAside ?q ''small'' (waiterOf ?q ''small'') (ta_targetRank sampleGround) 40" "ta_targetRank sampleGround = None"
      "fst (mayBuy sampleQueue ''big'' sampleGround 30)"
    by code_simp+
  ultimately show ?thesis
    using turns_are_taken [OF sampleQueue_OK, of "''small''" 30 "''big''" "[Asked]" 40 ?q sampleGround] by simp
qed

end
