(* ===== verification/Hold_Facts.thy ===== *)
theory Hold_Facts
  imports Queue_Facts "HOL-Library.Multiset"
begin

text \<open>
  What the order \<open>hold\<close> promises of the hosts it holds. A plan gives a host to at most one
  waiter and a waiter at most one host; a waiter in line without a host is waiting for one a
  waiter before it has; planning again at the same instant moves nothing; and what a purchase
  has to keep off is exactly what the waiters ahead of it hold.
\<close>

section \<open>The order\<close>

definition standsBefore :: "admissionQueue \<Rightarrow> int \<Rightarrow> string \<Rightarrow> string \<Rightarrow> bool" where
  "standsBefore q now l m \<longleftrightarrow>
     standing l (waiterOf q l) (orderRanks q now) now < standing m (waiterOf q m) (orderRanks q now) now"

lemma standsBefore_total: "l \<noteq> m \<Longrightarrow> standsBefore q now l m \<or> standsBefore q now m l"
  unfolding standsBefore_def by (metis linorder_less_linear standing_label)

lemma set_inOrder [simp]: "set (inOrder q now) = {l. isWaiting q l}"
  by (force simp: inOrder_def isWaiting_def Let_def)

lemma distinct_inOrder: "queueOK q \<Longrightarrow> distinct (inOrder q now)"
proof -
  assume "queueOK q"
  moreover have "mset (inOrder q now) = mset (map fst (q_waiting q))"
    by (simp add: inOrder_def Let_def)
  ultimately show ?thesis unfolding queueOK_def by (metis mset_eq_imp_distinct_iff)
qed

lemma distinct_map_fst_wrt: "distinct (map fst xs) \<longleftrightarrow> sorted_wrt (\<lambda>e f. fst e \<noteq> fst f) xs"
  by (induction xs) (auto simp: image_iff)

lemma sorted_inOrder:
  assumes "queueOK q"
  shows "sorted_wrt (standsBefore q now) (inOrder q now)"
proof -
  let ?key = "\<lambda>(label, w). standing label w (orderRanks q now) now"
  let ?xs = "sort_key ?key (q_waiting q)"
  have mem: "waiterOf q (fst e) = snd e" if "e \<in> set ?xs" for e
    using that waiterOf_member [OF assms, of "fst e" "snd e"] by simp
  have "sorted (map ?key ?xs)" by (rule sorted_sort_key)
  then have le: "sorted_wrt (\<lambda>e f. ?key e \<le> ?key f) ?xs" by (simp add: sorted_map)
  have "distinct (map fst ?xs)" using distinct_inOrder [OF assms] by (simp add: inOrder_def Let_def)
  then have "sorted_wrt (\<lambda>e f. fst e \<noteq> fst f) ?xs" by (simp add: distinct_map_fst_wrt)
  with le have "sorted_wrt (\<lambda>e f. ?key e < ?key f) ?xs"
    by (auto simp: sorted_wrt_iff_nth_less order.strict_iff_order case_prod_beta dest!: arg_cong [where f = pl_label])
  then have "sorted_wrt (\<lambda>e f. standsBefore q now (fst e) (fst f)) ?xs"
    using mem by (auto simp: standsBefore_def case_prod_beta elim!: sorted_wrt_mono_rel [rotated])
  then show ?thesis by (simp add: inOrder_def Let_def sorted_wrt_map)
qed


section \<open>A plan\<close>

definition candidateHosts :: "admissionQueue \<Rightarrow> string \<Rightarrow> string set" where
  "candidateHosts q l = hc_node ` set (w_candidates (waiterOf q l))"

definition inLineAt :: "admissionQueue \<Rightarrow> int \<Rightarrow> string \<Rightarrow> bool" where
  "inLineAt q now l \<longleftrightarrow> isWaiting q l \<and> \<not> steppedAside q l (waiterOf q l) (q_lastRanks q) now"

lemma keepsHost_iff: "keepsHost (waiterOf q l) \<longleftrightarrow> w_held (waiterOf q l) \<in> candidateHosts q l"
  by (force simp: keepsHost_def candidateHosts_def list_ex_iff image_iff)

text \<open>What one turn of the loop gives a waiter, given the hosts taken before it.\<close>

definition given :: "admissionQueue \<Rightarrow> int \<Rightarrow> string list \<Rightarrow> string \<Rightarrow> string option" where
  "given q now taken l =
     (let waiter = waiterOf q l
      in if steppedAside q l waiter (q_lastRanks q) now then None
         else if keepsHost waiter \<and> w_held waiter \<notin> set taken then Some (w_held waiter)
         else map_option hc_node (find (\<lambda>c. hc_node c \<notin> set taken) (w_candidates waiter)))"

lemma planLoop_Cons:
  "planLoop q now (l # rest) taken =
     (case given q now taken l of None \<Rightarrow> planLoop q now rest taken
      | Some h \<Rightarrow> (l, h) # planLoop q now rest (h # taken))"
  by (simp add: given_def Let_def split: option.splits)

lemma given_Some:
  "given q now taken l = Some h \<Longrightarrow> h \<notin> set taken \<and> h \<in> candidateHosts q l
     \<and> \<not> steppedAside q l (waiterOf q l) (q_lastRanks q) now"
  by (auto simp: given_def Let_def keepsHost_iff candidateHosts_def find_Some_iff split: if_splits)

lemma given_None:
  "given q now taken l = None \<Longrightarrow> steppedAside q l (waiterOf q l) (q_lastRanks q) now \<or> candidateHosts q l \<subseteq> set taken"
  by (auto simp: given_def Let_def keepsHost_iff candidateHosts_def find_None_iff split: if_splits)

lemma planLoop_sound:
  "(l, h) \<in> set (planLoop q now order taken) \<Longrightarrow> l \<in> set order \<and> h \<notin> set taken \<and> h \<in> candidateHosts q l
     \<and> \<not> steppedAside q l (waiterOf q l) (q_lastRanks q) now"
proof (induction order arbitrary: taken)
  case (Cons m rest)
  show ?case
  proof (cases "given q now taken m")
    case None
    then show ?thesis using Cons by (simp add: planLoop_Cons del: planLoop.simps(2))
  next
    case (Some g)
    then consider "l = m" "h = g" | "(l, h) \<in> set (planLoop q now rest (g # taken))"
      using Cons.prems by (auto simp: planLoop_Cons simp del: planLoop.simps(2))
    then show ?thesis using given_Some [OF Some] Cons.IH [of "g # taken"] by cases auto
  qed
qed simp

lemma planLoop_exclusive: "distinct (map snd (planLoop q now order taken))"
proof (induction order arbitrary: taken)
  case (Cons m rest)
  then show ?case
    by (cases "given q now taken m") (auto simp: planLoop_Cons dest: planLoop_sound simp del: planLoop.simps(2))
qed simp

lemma planLoop_one_each: "distinct order \<Longrightarrow> distinct (map fst (planLoop q now order taken))"
proof (induction order arbitrary: taken)
  case (Cons m rest)
  then show ?case
    by (cases "given q now taken m") (auto simp: planLoop_Cons dest: planLoop_sound simp del: planLoop.simps(2))
qed simp

text \<open>A waiter in line that the plan gives nothing finds every candidate taken before it.\<close>

lemma planLoop_complete:
  assumes "sorted_wrt R order" and "l \<in> set order" and "distinct order" and "map_of (planLoop q now order taken) l = None"
    and "\<not> steppedAside q l (waiterOf q l) (q_lastRanks q) now" and "h \<in> candidateHosts q l"
  shows "h \<in> set taken \<or> (\<exists>m. R m l \<and> map_of (planLoop q now order taken) m = Some h)"
  using assms(1-4)
proof (induction order arbitrary: taken)
  case (Cons m rest)
  show ?case
  proof (cases "m = l")
    case True
    then have "given q now taken l = None"
      using Cons.prems(4) by (auto simp: planLoop_Cons simp del: planLoop.simps(2) split: option.splits)
    then show ?thesis using given_None assms(5,6) by blast
  next
    case m: False
    then have l: "l \<in> set rest" "R m l" "sorted_wrt R rest" "distinct rest" "m \<notin> set rest" using Cons.prems by auto
    show ?thesis
    proof (cases "given q now taken m")
      case None
      then show ?thesis using Cons.IH [OF l(3,1,4)] Cons.prems(4) by (simp add: planLoop_Cons del: planLoop.simps(2))
    next
      case (Some g)
      then have "map_of (planLoop q now rest (g # taken)) l = None"
        using Cons.prems(4) m by (simp add: planLoop_Cons del: planLoop.simps(2))
      from Cons.IH [OF l(3,1,4) this] consider "h = g" | "h \<in> set taken"
        | k where "R k l" "map_of (planLoop q now rest (g # taken)) k = Some h" by auto
      then show ?thesis
      proof cases
        case 3
        then have "k \<noteq> m" using planLoop_sound l(5) by (metis map_of_SomeD)
        then show ?thesis using 3 Some by (auto simp: planLoop_Cons simp del: planLoop.simps(2))
      qed (use Some l(2) in \<open>auto simp: planLoop_Cons simp del: planLoop.simps(2)\<close>)
    qed
  qed
qed simp


section \<open>The holds of a queue\<close>

definition heldFor :: "admissionQueue \<Rightarrow> string \<Rightarrow> string" where
  "heldFor q l = w_held (waiterOf q l)"

text \<open>Hosts have names.\<close>

definition hostsNamed :: "admissionQueue \<Rightarrow> bool" where
  "hostsNamed q \<longleftrightarrow> (\<forall>(l, w) \<in> set (q_waiting q). \<forall>c \<in> set (w_candidates w). hc_node c \<noteq> [])"

abbreviation "planOf q now \<equiv> planLoop q now (inOrder q now) []"

lemma hostsNamed_candidates: "hostsNamed q \<Longrightarrow> isWaiting q l \<Longrightarrow> h \<in> candidateHosts q l \<Longrightarrow> h \<noteq> []"
  by (drule waiterOf_in) (auto simp: hostsNamed_def candidateHosts_def)

lemma heldFor_planHolds:
  assumes "q_policy q = AdmissionHold" and "isWaiting q l"
  shows "heldFor (planHolds q now) l = (case map_of (planOf q now) l of Some h \<Rightarrow> h | None \<Rightarrow> [])"
  using assms by (simp add: heldFor_def waiterOf_planHolds planned_def Let_def)

lemma planned_kept [simp]:
  "holdsTheLine (planned plan l w) t = holdsTheLine w t" "standing l (planned plan m w) ranks t = standing l w ranks t"
  "steppedAside q l (planned plan m w) ranks t = steppedAside q l w ranks t"
  by (simp_all add: holdsTheLine_def standing_def steppedAside_def split: option.splits)

lemma steppedAside_planHolds [simp]: "steppedAside (planHolds q now) l w ranks t = steppedAside q l w ranks t"
  by (simp add: steppedAside_def)

lemma orderRanks_planHolds [simp]: "orderRanks (planHolds q now) t = orderRanks q t"
proof -
  have "list_ex P (map (\<lambda>(l, w). (l, planned plan l w)) xs) = list_ex P xs"
    if "\<And>l w. P (l, planned plan l w) = P (l, w)" for P plan xs
    using that by (induction xs) auto
  from this [of "\<lambda>(_, w). \<not> knownIn r (ta_target (w_where w)) \<and> holdsTheLine w t" for r]
  show ?thesis unfolding orderRanks_def planHolds_fields by (simp add: planHolds_def Let_def split: option.splits)
qed

lemma sort_key_map: "sort_key f (map g xs) = map g (sort_key (f \<circ> g) xs)"
proof (induction xs)
  case (Cons x xs)
  have "insort_key f (g x) (map g ys) = map g (insort_key (f \<circ> g) x ys)" for ys by (induction ys) auto
  then show ?case using Cons by (simp add: sort_key_def comp_def)
qed simp

lemma inOrder_planHolds [simp]: "inOrder (planHolds q now) t = inOrder q t"
proof -
  have "sort_key f (map (\<lambda>(l, w). (l, planned plan l w)) xs) = map (\<lambda>(l, w). (l, planned plan l w)) (sort_key f xs)"
    if "\<And>l w. f (l, planned plan l w) = f (l, w)" for f :: "string \<times> waitingTier \<Rightarrow> place" and plan xs
    using that by (simp add: sort_key_map comp_def case_prod_beta)
  from this [of "\<lambda>(l, w). standing l w ranks t" for ranks]
  show ?thesis unfolding inOrder_def orderRanks_planHolds Let_def
    by (simp add: planHolds_def Let_def comp_def case_prod_beta)
qed

lemma candidateHosts_planHolds [simp]: "isWaiting q l \<Longrightarrow> candidateHosts (planHolds q now) l = candidateHosts q l"
  by (simp add: candidateHosts_def waiterOf_planHolds)

lemma standsBefore_planHolds:
  "isWaiting q l \<Longrightarrow> isWaiting q m \<Longrightarrow> standsBefore (planHolds q now) t l m = standsBefore q t l m"
  by (simp add: standsBefore_def waiterOf_planHolds)

text \<open>A plan gives every waiter the host it already holds by it.\<close>

lemma planLoop_again:
  assumes "\<forall>l \<in> set order. isWaiting q l" and "hostsNamed q" and "q_policy q = AdmissionHold" and "distinct order"
    and "\<forall>l \<in> set order. heldFor (planHolds q now) l = (case map_of (planLoop q now order taken) l of Some h \<Rightarrow> h | None \<Rightarrow> [])"
  shows "planLoop (planHolds q now) now order taken = planLoop q now order taken"
  using assms(1,4,5)
proof (induction order arbitrary: taken)
  case (Cons m rest)
  let ?q = "planHolds q now"
  have w: "w_candidates (waiterOf ?q m) = w_candidates (waiterOf q m)"
      "steppedAside ?q m (waiterOf ?q m) (q_lastRanks ?q) now = steppedAside q m (waiterOf q m) (q_lastRanks q) now"
    using Cons.prems(1) by (simp_all add: waiterOf_planHolds)
  have rest: "\<forall>l \<in> set rest. isWaiting q l" "distinct rest" "m \<notin> set rest" using Cons.prems(1,2) by auto
  show ?case
  proof (cases "given q now taken m")
    case None
    have "m \<notin> fst ` set (planLoop q now rest taken)" using planLoop_sound rest(3) by force
    then have "map_of (planLoop q now rest taken) m = None" by (simp add: map_of_eq_None_iff)
    then have "heldFor ?q m = []"
      using Cons.prems(3) None by (simp add: planLoop_Cons del: planLoop.simps(2))
    then have "\<not> keepsHost (waiterOf ?q m)"
      using hostsNamed_candidates [OF assms(2), of m] Cons.prems(1) by (auto simp: keepsHost_iff heldFor_def)
    then have "given ?q now taken m = None"
      using None w by (auto simp: given_def Let_def split: if_splits)
    then show ?thesis using None Cons.IH [OF rest(1,2)] Cons.prems(3)
      by (simp add: planLoop_Cons del: planLoop.simps(2))
  next
    case (Some h)
    then have held: "heldFor ?q m = h" using Cons.prems(3) by (simp add: planLoop_Cons del: planLoop.simps(2))
    have "given ?q now taken m = Some h"
      using given_Some [OF Some] held w Cons.prems(1) by (simp add: given_def Let_def keepsHost_iff heldFor_def)
    moreover have "planLoop ?q now rest (h # taken) = planLoop q now rest (h # taken)"
      using Cons.IH [OF rest(1,2), of "h # taken"] Cons.prems(3) Some rest(3)
      by (auto simp: planLoop_Cons simp del: planLoop.simps(2) split: if_splits)
    ultimately show ?thesis using Some by (simp add: planLoop_Cons del: planLoop.simps(2))
  qed
qed simp

lemma planned_again: "planned plan l (planned plan l w) = planned plan l w"
  by (simp add: planned_def Let_def)

lemma planHolds_again:
  assumes "queueOK q" and "hostsNamed q"
  shows "planHolds (planHolds q now) now = planHolds q now"
proof (cases "q_policy q = AdmissionHold")
  case True
  have "planOf (planHolds q now) now = planOf q now"
    unfolding inOrder_planHolds
    using True assms distinct_inOrder [OF assms(1)] by (intro planLoop_again) (simp_all add: heldFor_planHolds)
  moreover have "q_waiting (planHolds q now) = map (\<lambda>(l, w). (l, planned (planOf q now) l w)) (q_waiting q)"
    using True by (simp add: planHolds_def Let_def)
  ultimately show ?thesis
    using True unfolding planHolds_def [of "planHolds q now"] planHolds_fields
    by (simp add: Let_def planned_again case_prod_beta comp_def)
qed (simp add: planHolds_def)


section \<open>What a purchase keeps off\<close>

lemma holdsAhead_split:
  "holdsAhead q tier spent order out =
     foldl (\<lambda>out l. if heldFor q l \<noteq> [] then mapSet (heldFor q l) l out else out) out
       (if spent then filter (\<lambda>l. l \<noteq> tier) order else takeWhile (\<lambda>l. l \<noteq> tier) order)"
  by (induction order arbitrary: out) (auto simp: heldFor_def)

lemma foldl_mapSet:
  assumes "\<forall>l \<in> set ls. \<forall>m \<in> set ls. f l = f m \<longrightarrow> f l \<noteq> [] \<longrightarrow> l = m"
  shows "map_of (foldl (\<lambda>out l. if f l \<noteq> [] then mapSet (f l) l out else out) out ls) h = Some l
    \<longleftrightarrow> (if \<exists>m \<in> set ls. f m = h \<and> h \<noteq> [] then l \<in> set ls \<and> f l = h else map_of out h = Some l)"
  using assms
proof (induction ls arbitrary: out)
  case (Cons k ls)
  then show ?case by (auto simp: map_of_mapSet)
qed simp

lemma takeWhile_before:
  assumes "sorted_wrt R xs" and "distinct xs" and "\<And>x y. R x y \<Longrightarrow> \<not> R y x" and "y \<in> set xs"
  shows "x \<in> set (takeWhile (\<lambda>z. z \<noteq> y) xs) \<longleftrightarrow> x \<in> set xs \<and> R x y"
  using assms(1,2,4)
proof (induction xs)
  case (Cons z xs)
  then show ?case using assms(3) by (cases "z = y") auto
qed simp

lemma standsBefore_asym: "standsBefore q now l m \<Longrightarrow> \<not> standsBefore q now m l"
  by (auto simp: standsBefore_def)

lemma planHolds_exclusive:
  assumes "queueOK q" and "hostsNamed q" and "q_policy q = AdmissionHold" and "isWaiting q l" and "isWaiting q m"
    and "heldFor (planHolds q now) l = heldFor (planHolds q now) m" and "heldFor (planHolds q now) l \<noteq> []"
  shows "l = m"
proof -
  let ?h = "heldFor (planHolds q now) l"
  have "map_of (planOf q now) l = Some ?h" "map_of (planOf q now) m = Some ?h"
    using assms(3-7) by (auto simp: heldFor_planHolds split: option.splits)
  then have "(l, ?h) \<in> set (planOf q now)" "(m, ?h) \<in> set (planOf q now)" by (auto dest: map_of_SomeD)
  moreover have "inj_on snd (set (planOf q now))"
    using planLoop_exclusive [of q now "inOrder q now" "[]"] by (simp add: distinct_map)
  ultimately show ?thesis by (metis fst_conv inj_onD snd_conv)
qed

lemma heldAgainst_iff:
  assumes "queueOK q" and "hostsNamed q" and "q_policy q = AdmissionHold"
  shows "map_of (fst (heldAgainst q tier now)) h = Some l \<longleftrightarrow>
    h \<noteq> [] \<and> heldFor (planHolds q now) l = h \<and> isWaiting q l \<and> l \<noteq> tier
    \<and> (isWaiting q tier \<and> \<not> w_spent (waiterOf q tier) \<longrightarrow> standsBefore q now l tier)"
proof -
  let ?q = "planHolds q now" and ?spent = "w_spent (waiterOf (planHolds q now) tier)"
  let ?ls = "if ?spent then filter (\<lambda>l. l \<noteq> tier) (inOrder q now) else takeWhile (\<lambda>l. l \<noteq> tier) (inOrder q now)"
  have sub: "set ?ls \<subseteq> {l. isWaiting q l \<and> l \<noteq> tier}" by (auto dest: set_takeWhileD)
  have spent: "?spent \<longleftrightarrow> w_spent (waiterOf q tier)" if "isWaiting q tier"
    using that by (simp add: waiterOf_planHolds)
  have ls: "m \<in> set ?ls \<longleftrightarrow> isWaiting q m \<and> m \<noteq> tier \<and> (isWaiting q tier \<and> \<not> w_spent (waiterOf q tier) \<longrightarrow> standsBefore q now m tier)" for m
  proof (cases "isWaiting q tier")
    case True
    then show ?thesis
      using takeWhile_before [OF sorted_inOrder [OF assms(1)] distinct_inOrder [OF assms(1)] standsBefore_asym, of now tier m]
      by (auto simp: spent standsBefore_def)
  next
    case False
    then have all: "takeWhile (\<lambda>l. l \<noteq> tier) (inOrder q now) = inOrder q now" by (auto simp: takeWhile_eq_all_conv)
    have "set ?ls = {l. isWaiting q l \<and> l \<noteq> tier}" unfolding all using False by auto
    then show ?thesis using False by auto
  qed
  have "\<forall>l \<in> set ?ls. \<forall>m \<in> set ?ls. heldFor ?q l = heldFor ?q m \<longrightarrow> heldFor ?q l \<noteq> [] \<longrightarrow> l = m"
    using planHolds_exclusive [OF assms] sub by blast
  from foldl_mapSet [OF this, of "[]" h l]
  have "map_of (fst (heldAgainst q tier now)) h = Some l \<longleftrightarrow> h \<noteq> [] \<and> l \<in> set ?ls \<and> heldFor ?q l = h"
    unfolding heldAgainst_def heldAgainstLocked_def holdsAhead_split inOrder_planHolds
    using assms(3) by (auto simp: holds_def Let_def split: if_splits)
  then show ?thesis using ls by blast
qed

text \<open>
  C34. Under \<open>hold\<close> each host is held for at most one waiter. What a waiter holds is a host it
  named as a candidate, and it is in line; one in line that holds nothing has each of its
  candidates held for a waiter before it. Planning again at the same instant moves no hold.
  And what a purchase keeps off is exactly the hosts held for the tiers ahead of it: for
  every other tier, when it is not waiting itself or has bought in this pass.
\<close>

theorem holds_are_exclusive:
  assumes "queueOK q" and "hostsNamed q" and "q_policy q = AdmissionHold"
  shows "(\<forall>l m. isWaiting q l \<longrightarrow> isWaiting q m \<longrightarrow> heldFor (planHolds q now) l = heldFor (planHolds q now) m
            \<longrightarrow> heldFor (planHolds q now) l \<noteq> [] \<longrightarrow> l = m)
    \<and> (\<forall>l. isWaiting q l \<longrightarrow> heldFor (planHolds q now) l \<noteq> []
            \<longrightarrow> inLineAt q now l \<and> heldFor (planHolds q now) l \<in> candidateHosts q l)
    \<and> (\<forall>l h. inLineAt q now l \<longrightarrow> heldFor (planHolds q now) l = [] \<longrightarrow> h \<in> candidateHosts q l
            \<longrightarrow> (\<exists>m. isWaiting q m \<and> standsBefore q now m l \<and> heldFor (planHolds q now) m = h))
    \<and> planHolds (planHolds q now) now = planHolds q now
    \<and> (\<forall>tier h l. map_of (fst (heldAgainst q tier now)) h = Some l \<longleftrightarrow>
          h \<noteq> [] \<and> heldFor (planHolds q now) l = h \<and> isWaiting q l \<and> l \<noteq> tier
          \<and> (isWaiting q tier \<and> \<not> w_spent (waiterOf q tier) \<longrightarrow> standsBefore q now l tier))"
proof (intro conjI allI impI planHolds_again [OF assms(1,2)] heldAgainst_iff [OF assms])
  fix l m assume "isWaiting q l" "isWaiting q m"
    "heldFor (planHolds q now) l = heldFor (planHolds q now) m" "heldFor (planHolds q now) l \<noteq> []"
  then show "l = m" by (rule planHolds_exclusive [OF assms])
next
  fix l assume l: "isWaiting q l" "heldFor (planHolds q now) l \<noteq> []"
  then have "(l, heldFor (planHolds q now) l) \<in> set (planOf q now)"
    using assms(3) by (auto simp: heldFor_planHolds split: option.splits dest: map_of_SomeD)
  from planLoop_sound [OF this] l(1)
  show "inLineAt q now l" "heldFor (planHolds q now) l \<in> candidateHosts q l" by (auto simp: inLineAt_def)
next
  fix l h assume l: "inLineAt q now l" "heldFor (planHolds q now) l = []" "h \<in> candidateHosts q l"
  have w: "isWaiting q l" "\<not> steppedAside q l (waiterOf q l) (q_lastRanks q) now" using l(1) by (auto simp: inLineAt_def)
  have "map_of (planOf q now) l \<noteq> Some h'" for h'
  proof
    assume some: "map_of (planOf q now) l = Some h'"
    then have "h' \<in> candidateHosts q l" using planLoop_sound by (blast dest: map_of_SomeD)
    moreover have "h' = []" using l(2) some w(1) assms(3) by (simp add: heldFor_planHolds)
    ultimately show False using hostsNamed_candidates [OF assms(2) w(1)] by blast
  qed
  then have none: "map_of (planOf q now) l = None" by (cases "map_of (planOf q now) l") auto
  obtain m where m: "standsBefore q now m l" "map_of (planOf q now) m = Some h"
    using planLoop_complete [OF sorted_inOrder [OF assms(1)] _ distinct_inOrder [OF assms(1)] none w(2) l(3)] w(1) by auto
  then have "isWaiting q m" using planLoop_sound [of m h q now "inOrder q now" "[]"] by (auto dest: map_of_SomeD)
  then show "\<exists>m. isWaiting q m \<and> standsBefore q now m l \<and> heldFor (planHolds q now) m = h"
    using m assms(3) by (auto simp: heldFor_planHolds)
qed

text \<open>Two waiters that could both use one host.\<close>

definition sampleHolds :: admissionQueue where
  "sampleHolds = mayHold (mayHold
     (waits (waits (newAdmissionQueue AdmissionHold) ''big'' sampleGround 10) ''wide'' sampleGround 20)
     ''big'' [\<lparr>hc_node = ''alpha'', hc_readyAt = 100, hc_late = False\<rparr>] 30)
     ''wide'' [\<lparr>hc_node = ''alpha'', hc_readyAt = 90, hc_late = False\<rparr>, \<lparr>hc_node = ''beta'', hc_readyAt = 200, hc_late = False\<rparr>] 30"

theorem holds_are_exclusive_witness:
  "heldFor sampleHolds ''big'' = ''alpha'' \<and> heldFor sampleHolds ''wide'' = ''beta''
   \<and> map_of (fst (heldAgainst sampleHolds ''wide'' 40)) ''alpha'' = Some ''big''
   \<and> planHolds (planHolds sampleHolds 40) 40 = planHolds sampleHolds 40"
proof -
  have "queueOK sampleHolds" "hostsNamed sampleHolds" "q_policy sampleHolds = AdmissionHold" by code_simp+
  note all = holds_are_exclusive [OF this, of 40]
  have "heldFor (planHolds sampleHolds 40) ''big'' = ''alpha''" "isWaiting sampleHolds ''big''"
    "standsBefore sampleHolds 40 ''big'' ''wide''" "heldFor sampleHolds ''big'' = ''alpha''" "heldFor sampleHolds ''wide'' = ''beta''"
    by code_simp+
  then show ?thesis using all by simp
qed

end
