(* ===== verification/Version.thy ===== *)
theory Version
  imports Encoding
begin

text \<open>
  Ordering releases: \<open>parse\<close>, \<open>Compare\<close>, \<open>Same\<close>, \<open>Canonical\<close> and
  \<open>IsRelease\<close> of \<open>internal/version/compare.go\<close>. A string that is not a release
  has no order: could-not-tell is \<open>None\<close>, never an answer.
\<close>

section \<open>The functions\<close>

abbreviation "isDigit c \<equiv> CHR ''0'' \<le> c \<and> c \<le> CHR ''9''"

text \<open>One component; \<open>strconv.Atoi\<close> refuses what 64 bits do not hold.\<close>

definition parsePart :: "string \<Rightarrow> int option" where
  "parsePart part =
     (if part = [] \<or> (1 < length part \<and> hd part = CHR ''0'') then None
      else if \<not> list_all (\<lambda>c. isDigit c) part then None
      else if maxInt64 < castBigint part then None
      else Some (castBigint part))"

text \<open>\<open>strings.CutPrefix(v, "v")\<close>.\<close>

definition cutV :: "string \<Rightarrow> string \<times> bool" where
  "cutV v = (case v of c # r \<Rightarrow> if c = CHR ''v'' then (r, True) else (v, False) | [] \<Rightarrow> (v, False))"

definition parseRelease :: "string \<Rightarrow> bool \<Rightarrow> (int \<times> int \<times> int) option" where
  "parseRelease v requireV =
     (let (rest, found) = cutV v
      in if \<not> found \<and> requireV then None
         else case map parsePart (Split rest (CHR ''.'')) of
                [Some a, Some b, Some c] \<Rightarrow> Some (a, b, c)
              | _ \<Rightarrow> None)"

definition Compare :: "string \<Rightarrow> string \<Rightarrow> int option" where
  "Compare a b =
     (case parseRelease a False of
        None \<Rightarrow> None
      | Some (x1, x2, x3) \<Rightarrow>
          (case parseRelease b False of
             None \<Rightarrow> None
           | Some (y1, y2, y3) \<Rightarrow>
               Some (if x1 < y1 then -1 else if y1 < x1 then 1
                     else if x2 < y2 then -1 else if y2 < x2 then 1
                     else if x3 < y3 then -1 else if y3 < x3 then 1 else 0)))"

definition Same :: "string \<Rightarrow> string \<Rightarrow> bool" where
  "Same a b \<longleftrightarrow> a = b \<or> Compare a b = Some 0"

definition Canonical :: "string \<Rightarrow> string option" where
  "Canonical v =
     (case parseRelease v False of
        None \<Rightarrow> None
      | Some (a, b, c) \<Rightarrow>
          Some (''v'' @ decimal (nat a) @ ''.'' @ decimal (nat b) @ ''.'' @ decimal (nat c)))"

definition IsRelease :: "string \<Rightarrow> bool" where
  "IsRelease v \<longleftrightarrow> parseRelease v True \<noteq> None"

section \<open>Numbers\<close>

lemma decimal_digits: "c \<in> set (decimal n) \<Longrightarrow> isDigit c"
proof (induction n rule: decimal.induct)
  case (1 n)
  have d: "isDigit (digitChar k)" if "k < 10" for k
    using that by (simp add: digitChar_def less_eq_char_def)
  show ?case
  proof (cases "n < 10")
    case True
    then show ?thesis using 1(2) d by (subst (asm) decimal.simps) simp
  next
    case False
    then have "c \<in> set (decimal (n div 10)) \<or> c = digitChar (n mod 10)"
      using 1(2) by (subst (asm) decimal.simps) auto
    then show ?thesis using 1(1) False d [of "n mod 10"] by auto
  qed
qed

lemma decimal_nonempty [simp]: "decimal n \<noteq> []"
  by (subst decimal.simps) simp

lemma decimal_leading: "hd (decimal n) = CHR ''0'' \<Longrightarrow> n = 0"
proof (induction n rule: decimal.induct)
  case (1 n)
  show ?case
  proof (cases "n < 10")
    case True
    then have z: "digitChar n = CHR ''0''" using 1(2) by (subst (asm) decimal.simps) simp
    have "digitVal (digitChar n) = n" by (rule digit_inverse [OF True])
    then show ?thesis unfolding z by (simp add: digitVal_def)
  next
    case False
    then have "hd (decimal (n div 10)) = CHR ''0''" using 1(2) by (subst (asm) decimal.simps) simp
    then show ?thesis using 1(1) False by simp
  qed
qed

lemma decimal_length_one: "1 < length (decimal n) \<Longrightarrow> 10 \<le> n"
  by (subst (asm) decimal.simps) (simp split: if_splits)

lemma parsePart_decimal:
  assumes "0 \<le> n" and "n \<le> maxInt64"
  shows "parsePart (decimal (nat n)) = Some n"
proof -
  have "\<not> (1 < length (decimal (nat n)) \<and> hd (decimal (nat n)) = CHR ''0'')"
    using decimal_leading [of "nat n"] decimal_length_one [of "nat n"] by auto
  moreover have "list_all (\<lambda>c. isDigit c) (decimal (nat n))"
    using decimal_digits by (auto simp: list_all_iff)
  ultimately show ?thesis using assms by (simp add: parsePart_def castBigint_decimal)
qed

lemma parsePart_bounds: "parsePart s = Some n \<Longrightarrow> 0 \<le> n \<and> n \<le> maxInt64"
  by (auto simp: parsePart_def castBigint_def split: if_splits)

lemma parseRelease_bounds:
  assumes "parseRelease v q = Some (a, b, c)"
  shows "0 \<le> a \<and> a \<le> maxInt64 \<and> 0 \<le> b \<and> b \<le> maxInt64 \<and> 0 \<le> c \<and> c \<le> maxInt64"
proof -
  obtain rest where "map parsePart (Split rest (CHR ''.'')) = [Some a, Some b, Some c]"
    using assms that [of "fst (cutV v)"]
    by (auto simp: parseRelease_def Let_def simp del: map_eq_Cons_conv split: list.splits option.splits if_splits prod.splits)
  then obtain x y z where "parsePart x = Some a" "parsePart y = Some b" "parsePart z = Some c"
    by (auto simp: map_eq_Cons_conv)
  then show ?thesis using parsePart_bounds by blast
qed

section \<open>The order\<close>

text \<open>
  What the order is meant to be, stated on numbers alone: the tag of three numbers, and the
  numeric order on them, the first that differs deciding.
\<close>

definition bareTag :: "nat \<times> nat \<times> nat \<Rightarrow> string" where
  "bareTag x = (case x of (major, minor, patch) \<Rightarrow>
     decimal major @ ''.'' @ decimal minor @ ''.'' @ decimal patch)"

definition numbersBelow :: "nat \<times> nat \<times> nat \<Rightarrow> nat \<times> nat \<times> nat \<Rightarrow> bool" where
  "numbersBelow x y = (case (x, y) of ((x1, x2, x3), (y1, y2, y3)) \<Rightarrow>
     x1 < y1 \<or> x1 = y1 \<and> (x2 < y2 \<or> x2 = y2 \<and> x3 < y3))"

definition tagNumbers :: "int \<times> int \<times> int \<Rightarrow> nat \<times> nat \<times> nat" where
  "tagNumbers p = (case p of (a, b, c) \<Rightarrow> (nat a, nat b, nat c))"

abbreviation "releaseTag x \<equiv> ''v'' @ bareTag x"

lemma decimal_inj: "decimal m = decimal n \<Longrightarrow> m = n"
  by (metis castBigint_decimal of_nat_eq_iff)

lemma bareTag_split: "Split (bareTag (a, b, c)) (CHR ''.'') = [decimal a, decimal b, decimal c]"
proof -
  have "CHR ''.'' \<notin> set (decimal n)" for n
    using decimal_digits [of "CHR ''.''" n] by (auto simp: less_eq_char_def)
  then show ?thesis by (simp add: bareTag_def Split_append Split_no_sep)
qed

lemma bareTag_inj: "bareTag x = bareTag y \<Longrightarrow> x = y"
proof -
  assume same: "bareTag x = bareTag y"
  obtain a b c a' b' c' where xy: "x = (a, b, c)" "y = (a', b', c')" by (cases x, cases y)
  have "[decimal a, decimal b, decimal c] = [decimal a', decimal b', decimal c']"
    using same bareTag_split [of a b c] bareTag_split [of a' b' c'] unfolding xy by simp
  then show ?thesis using decimal_inj by (simp add: xy)
qed

lemma parseRelease_bare:
  assumes "int a \<le> maxInt64" and "int b \<le> maxInt64" and "int c \<le> maxInt64"
  shows "parseRelease (bareTag (a, b, c)) False = Some (int a, int b, int c)"
    and "parseRelease (releaseTag (a, b, c)) q = Some (int a, int b, int c)"
proof -
  have "hd (decimal a) \<noteq> CHR ''v''"
    using decimal_digits [of "hd (decimal a)" a] by (auto simp: less_eq_char_def)
  then have "cutV (bareTag (a, b, c)) = (bareTag (a, b, c), False)"
    by (cases "decimal a") (simp_all add: bareTag_def cutV_def)
  moreover have "parsePart (decimal n) = Some (int n)" if "int n \<le> maxInt64" for n
    using parsePart_decimal [of "int n"] that by simp
  ultimately show "parseRelease (bareTag (a, b, c)) False = Some (int a, int b, int c)"
    "parseRelease (releaseTag (a, b, c)) q = Some (int a, int b, int c)"
    using assms by (simp_all add: parseRelease_def cutV_def bareTag_split)
qed

lemma Canonical_Some:
  "Canonical v = Some w \<longleftrightarrow> (\<exists>p. parseRelease v False = Some p \<and> w = releaseTag (tagNumbers p))"
  by (cases "parseRelease v False") (auto simp: Canonical_def bareTag_def tagNumbers_def split: prod.splits)

lemma tagNumbers_Some:
  assumes "parseRelease v q = Some p"
  shows "parseRelease (releaseTag (tagNumbers p)) r = Some p"
proof -
  obtain a b c where p: "p = (a, b, c)" by (cases p)
  show ?thesis
    using parseRelease_bounds [OF assms [unfolded p]] parseRelease_bare(2) [of "nat a" "nat b" "nat c"]
    by (simp add: p tagNumbers_def)
qed

lemma Compare_below:
  assumes "parseRelease a False = Some p" and "parseRelease b False = Some q"
  shows "Compare a b = Some (if numbersBelow (tagNumbers p) (tagNumbers q) then -1
           else if numbersBelow (tagNumbers q) (tagNumbers p) then 1 else 0)"
proof -
  obtain x1 x2 x3 y1 y2 y3 where pq: "p = (x1, x2, x3)" "q = (y1, y2, y3)" by (metis prod_cases3)
  have "0 \<le> x1" "0 \<le> x2" "0 \<le> x3" "0 \<le> y1" "0 \<le> y2" "0 \<le> y3"
    using parseRelease_bounds [OF assms(1) [unfolded pq]] parseRelease_bounds [OF assms(2) [unfolded pq]] by simp_all
  then show ?thesis
    using assms by (auto simp: Compare_def pq numbersBelow_def tagNumbers_def nat_less_iff eq_nat_nat_iff)
qed

lemma Compare_tags:
  assumes "Canonical a = Some (releaseTag x)" and "Canonical b = Some (releaseTag y)"
  shows "Compare a b = Some (if numbersBelow x y then -1 else if numbersBelow y x then 1 else 0)"
proof -
  obtain p q where pq: "parseRelease a False = Some p" "parseRelease b False = Some q"
    "bareTag x = bareTag (tagNumbers p)" "bareTag y = bareTag (tagNumbers q)"
    using assms by (auto simp: Canonical_Some)
  then show ?thesis using Compare_below [OF pq(1,2)] bareTag_inj [OF pq(3)] bareTag_inj [OF pq(4)] by simp
qed

lemma Canonical_tag: "Canonical v = Some w \<Longrightarrow> \<exists>x. w = releaseTag x"
  unfolding Canonical_Some by blast

lemma Compare_Some: "Compare a b = Some z \<Longrightarrow> \<exists>v w. Canonical a = Some v \<and> Canonical b = Some w"
  by (auto simp: Compare_def Canonical_Some split: option.splits)

lemma below_order:
  "numbersBelow x y \<or> x = y \<or> numbersBelow y x" "\<not> numbersBelow x x" "numbersBelow x y \<Longrightarrow> \<not> numbersBelow y x"
  "\<not> numbersBelow y x \<Longrightarrow> \<not> numbersBelow z y \<Longrightarrow> \<not> numbersBelow z x"
  by (cases x; cases y; cases z; auto simp: numbersBelow_def)+

lemma Compare_transitive:
  assumes "Compare a b = Some x" and "Compare b c = Some y" and "x \<le> 0" and "y \<le> 0"
  shows "\<exists>z \<le> 0. Compare a c = Some z"
proof -
  obtain u v w where t: "Canonical a = Some (releaseTag u)" "Canonical b = Some (releaseTag v)"
    "Canonical c = Some (releaseTag w)"
    using Compare_Some [OF assms(1)] Compare_Some [OF assms(2)] Canonical_tag by metis
  then have "\<not> numbersBelow v u" "\<not> numbersBelow w v"
    using assms Compare_tags [OF t(1,2)] Compare_tags [OF t(2,3)] below_order(3) [of u v] below_order(3) [of v w]
    by (simp_all split: if_splits)
  then have "\<not> numbersBelow w u" using below_order(4) by blast
  then show ?thesis using Compare_tags [OF t(1,3)] by simp
qed

lemma Compare_zero: "Compare a b = Some 0 \<longleftrightarrow> Canonical a \<noteq> None \<and> Canonical a = Canonical b"
proof (cases "Canonical a = None \<or> Canonical b = None")
  case True
  then show ?thesis using Compare_Some [of a b] by auto
next
  case False
  then obtain x y where t: "Canonical a = Some (releaseTag x)" "Canonical b = Some (releaseTag y)"
    using Canonical_tag by (metis option.exhaust)
  then show ?thesis using Compare_tags [OF t] below_order(1) [of x y] bareTag_inj [of x y] below_order(2) [of y] by auto
qed

text \<open>
  C40. Releases are ordered by their numbers, whichever way they are spelled. The tag of
  three numbers of at most 64 bits and the same without its v are releases whose canonical
  spelling is the tag; and of two releases, the one whose first differing number is smaller
  is the older, which the comparison answers by -1 for the left and 1 for the right, by 0
  when no number differs. The canonical spelling of a release is itself a release, is its own
  canonical spelling and compares equal to the original; two releases compare equal exactly
  when their canonical spellings are the same, which is also when they are taken for the same
  release, as identical strings are; the comparison is antisymmetric and
  transitive; and a string that is no release is comparable to nothing.
\<close>

theorem version_order:
  "(Same a b \<longleftrightarrow> a = b \<or> Canonical a \<noteq> None \<and> Canonical a = Canonical b)
   \<and> (\<forall>x1 x2 x3. int x1 \<le> maxInt64 \<longrightarrow> int x2 \<le> maxInt64 \<longrightarrow> int x3 \<le> maxInt64 \<longrightarrow>
      Canonical (bareTag (x1, x2, x3)) = Some (''v'' @ bareTag (x1, x2, x3))
      \<and> Canonical (''v'' @ bareTag (x1, x2, x3)) = Some (''v'' @ bareTag (x1, x2, x3)))
   \<and> (\<forall>x y. Canonical a = Some (''v'' @ bareTag x) \<longrightarrow> Canonical b = Some (''v'' @ bareTag y) \<longrightarrow>
        (Compare a b = Some (-1) \<longleftrightarrow> numbersBelow x y) \<and> (Compare a b = Some 1 \<longleftrightarrow> numbersBelow y x)
        \<and> (Compare a b = Some 0 \<longleftrightarrow> x = y))
   \<and> (\<forall>w. Canonical v = Some w \<longrightarrow> IsRelease w \<and> Canonical w = Some w \<and> Compare v w = Some 0)
   \<and> (Compare a b = Some 0 \<longleftrightarrow> Canonical a \<noteq> None \<and> Canonical a = Canonical b)
   \<and> Compare b a = map_option uminus (Compare a b)
   \<and> (\<forall>x y. Compare a b = Some x \<longrightarrow> Compare b c = Some y \<longrightarrow> x \<le> 0 \<longrightarrow> y \<le> 0 \<longrightarrow> (\<exists>z \<le> 0. Compare a c = Some z))
   \<and> (Canonical a = None \<longrightarrow> Compare a b = None \<and> Compare b a = None)"
proof (intro conjI allI impI)
  show "Same a b \<longleftrightarrow> a = b \<or> Canonical a \<noteq> None \<and> Canonical a = Canonical b" by (simp add: Same_def Compare_zero)
next
  fix x1 x2 x3 assume "int x1 \<le> maxInt64" "int x2 \<le> maxInt64" "int x3 \<le> maxInt64"
  note p = parseRelease_bare [OF this]
  show "Canonical (bareTag (x1, x2, x3)) = Some (releaseTag (x1, x2, x3))"
    "Canonical (releaseTag (x1, x2, x3)) = Some (releaseTag (x1, x2, x3))"
    unfolding Canonical_Some p by (simp_all add: tagNumbers_def)
next
  fix x y assume "Canonical a = Some (releaseTag x)" "Canonical b = Some (releaseTag y)"
  note c = Compare_tags [OF this]
  show "Compare a b = Some (-1) \<longleftrightarrow> numbersBelow x y" "Compare a b = Some 1 \<longleftrightarrow> numbersBelow y x" "Compare a b = Some 0 \<longleftrightarrow> x = y"
    unfolding c using below_order(1,3) [of x y] below_order(2) [of y] by auto
next
  fix w assume "Canonical v = Some w"
  then obtain p where p: "parseRelease v False = Some p" "w = releaseTag (tagNumbers p)"
    by (auto simp: Canonical_Some)
  note q = tagNumbers_Some [OF p(1)]
  show "IsRelease w" "Canonical w = Some w" "Compare v w = Some 0"
    using q p Compare_below [OF p(1) q] below_order(2) by (auto simp: IsRelease_def Canonical_Some)
next
  show "Compare a b = Some 0 \<longleftrightarrow> Canonical a \<noteq> None \<and> Canonical a = Canonical b" by (rule Compare_zero)
next
  show "Compare b a = map_option uminus (Compare a b)" by (auto simp: Compare_def split: option.splits)
next
  fix x y assume "Compare a b = Some x" "Compare b c = Some y" "x \<le> 0" "y \<le> 0"
  then show "\<exists>z \<le> 0. Compare a c = Some z" by (rule Compare_transitive)
next
  assume "Canonical a = None"
  then show "Compare a b = None" "Compare b a = None" using Compare_Some by (metis not_None_eq)+
qed

theorem version_order_witness:
  "Canonical ''0.9.1'' = Some ''v0.9.1'' \<and> IsRelease ''v0.9.1''
   \<and> Compare ''0.9.1'' ''v0.10.0'' = Some (-1) \<and> (\<exists>z \<le> 0. Compare ''0.9.1'' ''v1.0.0'' = Some z)"
proof -
  have c: "Canonical ''0.9.1'' = Some (''v'' @ bareTag (0, 9, 1))" "Canonical ''v0.10.0'' = Some (''v'' @ bareTag (0, 10, 0))"
    "''v'' @ bareTag (0, 9, 1) = ''v0.9.1''" "numbersBelow (0, 9, 1) (0, 10, 0)" "Compare ''v0.10.0'' ''v1.0.0'' = Some (-1)"
    by code_simp+
  note v = version_order [of "''0.9.1''" "''v0.10.0''" "''0.9.1''" "''v1.0.0''"]
  have "Compare ''0.9.1'' ''v0.10.0'' = Some (-1)" using v c(1,2,4) by blast
  moreover have "\<exists>z \<le> 0. Compare ''0.9.1'' ''v1.0.0'' = Some z"
    using v c(5) calculation by (metis neg_le_0_iff_le zero_le_one)
  ultimately show ?thesis using v c(1,3) by metis
qed

end
