(* ===== verification/Rollout_Store.thy ===== *)
theory Rollout_Store
  imports Version
begin

text \<open>
  The durable fleet decision: the phases of \<open>internal/rollout/phase.go\<close> and the tables and
  transactions of \<open>internal/rollout/store.go\<close> with the statements of
  \<open>state/queries/rollouts.sql\<close> and the constraints of the migration that made the tables. A
  phase is a string, as in the tables: another build may have written one this build does not
  know. A transaction is one definition, given the instant the clock reads; a refused or
  failed one leaves the tables as they were. A time is the instant it names where the code
  stores its RFC 3339 text, an absent one \<open>None\<close> where it stores the empty string; the
  policy column holds the policy where the code stores its JSON.
\<close>

section \<open>Phases\<close>

type_synonym RolloutPhase = string

abbreviation "PhasePending \<equiv> ''pending''"
abbreviation "PhaseDraining \<equiv> ''draining''"
abbreviation "PhaseReadyToInstall \<equiv> ''ready_to_install''"
abbreviation "PhaseInstalling \<equiv> ''installing''"
abbreviation "PhaseVerifying \<equiv> ''verifying''"
abbreviation "PhaseCommitted \<equiv> ''committed''"
abbreviation "PhaseRollingBack \<equiv> ''rolling_back''"
abbreviation "PhaseRolledBack \<equiv> ''rolled_back''"
abbreviation "PhaseBlocked \<equiv> ''blocked''"
abbreviation "PhaseDecommissioned \<equiv> ''decommissioned''"
abbreviation "PhaseExempt \<equiv> ''exempt''"

definition rolloutTerminal :: "RolloutPhase \<Rightarrow> bool" where
  "rolloutTerminal p \<longleftrightarrow> p = PhaseCommitted \<or> p = PhaseDecommissioned \<or> p = PhaseExempt"

definition Converged :: "RolloutPhase \<Rightarrow> bool" where
  "Converged p \<longleftrightarrow> p = PhaseCommitted"

definition rolloutTransitions :: "(RolloutPhase \<times> RolloutPhase list) list" where
  "rolloutTransitions =
     [(PhasePending, [PhaseDraining, PhaseBlocked, PhaseDecommissioned, PhaseExempt]),
      (PhaseDraining, [PhaseReadyToInstall, PhaseRollingBack, PhaseBlocked, PhaseDecommissioned, PhaseExempt]),
      (PhaseReadyToInstall, [PhaseInstalling, PhaseBlocked, PhaseDecommissioned, PhaseExempt]),
      (PhaseInstalling, [PhaseVerifying, PhaseRollingBack, PhaseBlocked]),
      (PhaseVerifying, [PhaseCommitted, PhaseRollingBack, PhaseBlocked]),
      (PhaseRollingBack, [PhaseRolledBack, PhaseBlocked]),
      (PhaseRolledBack, [PhasePending, PhaseBlocked, PhaseDecommissioned, PhaseExempt]),
      (PhaseBlocked, [PhasePending, PhaseDecommissioned, PhaseExempt]),
      (PhaseCommitted, []), (PhaseDecommissioned, []), (PhaseExempt, [])]"

definition KnownPhase :: "RolloutPhase \<Rightarrow> bool" where
  "KnownPhase p \<longleftrightarrow> map_of rolloutTransitions p \<noteq> None"

definition CanTransition :: "RolloutPhase \<Rightarrow> RolloutPhase \<Rightarrow> bool" where
  "CanTransition p q \<longleftrightarrow> p = q \<or> (case map_of rolloutTransitions p of None \<Rightarrow> False | Some ps \<Rightarrow> q \<in> set ps)"

datatype rolloutError =
    ErrOpenRollout
  | ErrOutstanding
  | ErrNoRollout
  | ErrAbortedTarget
  | ErrBadPhaseChange
  | RolloutInvalid
  | RolloutStoreError

definition rolloutTransition :: "RolloutPhase \<Rightarrow> RolloutPhase \<Rightarrow> rolloutError + unit" where
  "rolloutTransition p q =
     (if \<not> KnownPhase p then Inl ErrBadPhaseChange
      else if \<not> KnownPhase q then Inl ErrBadPhaseChange
      else if \<not> CanTransition p q then Inl ErrBadPhaseChange else Inr ())"

section \<open>What is recorded of a refusal\<close>

text \<open>
  The width of the rune a byte string starts with, 0 when it starts with none: \<open>utf8\<close>'s
  \<open>DecodeRuneInString\<close>.
\<close>

definition inByteRange :: "nat \<Rightarrow> nat \<Rightarrow> char \<Rightarrow> bool" where
  "inByteRange lo hi c \<longleftrightarrow> lo \<le> of_char c \<and> of_char c \<le> hi"

abbreviation "contByte \<equiv> inByteRange 128 191"

fun runeWidth :: "string \<Rightarrow> nat" where
  "runeWidth [] = 0"
| "runeWidth (c # cs) =
     (if inByteRange 0 127 c then 1
      else if inByteRange 194 223 c then (case cs of d # _ \<Rightarrow> if contByte d then 2 else 0 | _ \<Rightarrow> 0)
      else if inByteRange 224 239 c then
        (case cs of d # e # _ \<Rightarrow>
           if contByte d \<and> contByte e \<and> (of_char c = (224::nat) \<longrightarrow> inByteRange 160 191 d)
              \<and> (of_char c = (237::nat) \<longrightarrow> inByteRange 128 159 d) then 3 else 0
         | _ \<Rightarrow> 0)
      else if inByteRange 240 244 c then
        (case cs of d # e # f # _ \<Rightarrow>
           if contByte d \<and> contByte e \<and> contByte f \<and> (of_char c = (240::nat) \<longrightarrow> inByteRange 144 191 d)
              \<and> (of_char c = (244::nat) \<longrightarrow> inByteRange 128 143 d) then 4 else 0
         | _ \<Rightarrow> 0)
      else 0)"

definition replacementRune :: string where
  "replacementRune = [char_of (239::nat), char_of (191::nat), char_of (189::nat)]"

text \<open>\<open>strings.ToValidUTF8\<close>: each run of invalid bytes becomes one replacement rune.\<close>

function toValidUTF8 :: "bool \<Rightarrow> string \<Rightarrow> string" where
  "toValidUTF8 invalid [] = []"
| "toValidUTF8 invalid (c # cs) =
     (let n = runeWidth (c # cs)
      in if n = 0 then (if invalid then [] else replacementRune) @ toValidUTF8 True cs
         else take n (c # cs) @ toValidUTF8 False (drop (n - 1) cs))"
  by pat_completeness auto
termination by (relation "measure (length \<circ> snd)") auto

definition replaceNul :: "string \<Rightarrow> string" where
  "replaceNul s = concat (map (\<lambda>c. if of_char c = (0::nat) then replacementRune else [c]) s)"

definition maxRefusalBytes :: nat where
  "maxRefusalBytes = 4096"

definition refusalCutMarker :: string where
  "refusalCutMarker = '' [cut]''"

definition RuneStart :: "char \<Rightarrow> bool" where
  "RuneStart c \<longleftrightarrow> \<not> contByte c"

fun cutAt :: "string \<Rightarrow> nat \<Rightarrow> nat" where
  "cutAt s 0 = 0"
| "cutAt s (Suc n) = (if RuneStart (s ! Suc n) then Suc n else cutAt s n)"

definition boundRefusal :: "string \<Rightarrow> string" where
  "boundRefusal text =
     (let t = replaceNul (toValidUTF8 False text)
      in if length t \<le> maxRefusalBytes then t
         else take (cutAt t (maxRefusalBytes - length refusalCutMarker)) t @ refusalCutMarker)"

section \<open>The tables\<close>

abbreviation "StateOpen \<equiv> ''open''"
abbreviation "StateCompleted \<equiv> ''completed''"
abbreviation "StateAborted \<equiv> ''aborted''"

record RolloutPolicy =
  po_cohort :: int
  po_failureBudget :: int
  po_allowDowngrade :: bool

record Rollout =
  ro_id :: string
  ro_generation :: int
  ro_channel :: string
  ro_targetVersion :: string
  ro_targetDigest :: string
  ro_priorVersion :: string
  ro_policy :: RolloutPolicy
  ro_controllerPhase :: RolloutPhase
  ro_state :: string
  ro_createdBy :: string
  ro_createdAt :: int
  ro_finishedAt :: "int option"
  ro_terminalReason :: string

record RolloutNode =
  rn_rollout :: string
  rn_node :: string
  rn_phase :: RolloutPhase
  rn_attempts :: int
  rn_nextAttemptAt :: "int option"
  rn_blocker :: string
  rn_priorRelease :: string
  rn_rollbackResult :: string
  rn_exemptReason :: string
  rn_updatedAt :: int
  rn_convergedDigest :: string
  rn_dispatchEpoch :: int
  rn_lastRefusal :: string

record RolloutTables =
  rollouts :: "Rollout list"
  rolloutNodes :: "RolloutNode list"

definition HighestRolloutGeneration :: "RolloutTables \<Rightarrow> int" where
  "HighestRolloutGeneration d = foldl max 0 (map ro_generation (rollouts d))"

text \<open>The \<open>CHECK\<close>s, the primary key and the partial unique index on the open rollout.\<close>

definition sqlBlank :: "string \<Rightarrow> bool" where
  "sqlBlank s \<longleftrightarrow> list_all (\<lambda>c. c = CHR '' '') s"

definition InsertRollout :: "Rollout \<Rightarrow> RolloutTables \<Rightarrow> rolloutError + RolloutTables" where
  "InsertRollout r d =
     (if sqlBlank (ro_id r) \<or> ro_generation r \<le> 0 \<or> sqlBlank (ro_targetVersion r)
         \<or> length (ro_targetDigest r) \<noteq> 64 \<or> ro_state r \<notin> {StateOpen, StateCompleted, StateAborted}
         \<or> ro_id r \<in> set (map ro_id (rollouts d))
         \<or> ro_state r = StateOpen \<and> list_ex (\<lambda>s. ro_state s = StateOpen) (rollouts d)
      then Inl RolloutStoreError else Inr (d\<lparr>rollouts := rollouts d @ [r]\<rparr>))"

definition InsertRolloutNode :: "int \<Rightarrow> string \<Rightarrow> string \<Rightarrow> RolloutTables \<Rightarrow> rolloutError + RolloutTables" where
  "InsertRolloutNode now rollout node d =
     (if list_ex (\<lambda>n. rn_rollout n = rollout \<and> rn_node n = node) (rolloutNodes d) then Inl RolloutStoreError
      else Inr (d\<lparr>rolloutNodes := rolloutNodes d @
        [\<lparr>rn_rollout = rollout, rn_node = node, rn_phase = PhasePending, rn_attempts = 0, rn_nextAttemptAt = None,
          rn_blocker = [], rn_priorRelease = [], rn_rollbackResult = [], rn_exemptReason = [], rn_updatedAt = now,
          rn_convergedDigest = [], rn_dispatchEpoch = 0, rn_lastRefusal = []\<rparr>]\<rparr>))"

definition readOpen :: "RolloutTables \<Rightarrow> rolloutError + Rollout" where
  "readOpen d = (case find (\<lambda>r. ro_state r = StateOpen) (rollouts d) of
     None \<Rightarrow> Inl ErrNoRollout | Some r \<Rightarrow> Inr r)"

definition ReadNewestRolloutForTarget :: "string \<Rightarrow> RolloutTables \<Rightarrow> Rollout option" where
  "ReadNewestRolloutForTarget digest d =
     find (\<lambda>r. ro_targetDigest r = digest) (sort_key (\<lambda>r. - ro_generation r) (rollouts d))"

definition ListRolloutHistory :: "nat \<Rightarrow> RolloutTables \<Rightarrow> Rollout list" where
  "ListRolloutHistory limit d = take limit (sort_key (\<lambda>r. - ro_generation r) (rollouts d))"

definition ReadRolloutControllerPhase :: "string \<Rightarrow> RolloutTables \<Rightarrow> RolloutPhase option" where
  "ReadRolloutControllerPhase i d = map_option ro_controllerPhase (find (\<lambda>r. ro_id r = i) (rollouts d))"

definition AdvanceRolloutController :: "RolloutPhase \<Rightarrow> string \<Rightarrow> RolloutPhase \<Rightarrow> RolloutTables \<Rightarrow> RolloutTables" where
  "AdvanceRolloutController phase i expect d =
     d\<lparr>rollouts := upd_where (\<lambda>r. ro_id r = i \<and> ro_controllerPhase r = expect) (\<lambda>r. r\<lparr>ro_controllerPhase := phase\<rparr>) (rollouts d)\<rparr>"

definition FinishRollout :: "string \<Rightarrow> int \<Rightarrow> string \<Rightarrow> string \<Rightarrow> RolloutTables \<Rightarrow> RolloutTables" where
  "FinishRollout outcome now reason i d =
     d\<lparr>rollouts := upd_where (\<lambda>r. ro_id r = i \<and> ro_state r = StateOpen)
        (\<lambda>r. r\<lparr>ro_state := outcome, ro_finishedAt := Some now, ro_terminalReason := reason\<rparr>) (rollouts d)\<rparr>"

definition ReadRolloutNodeProgress :: "string \<Rightarrow> string \<Rightarrow> RolloutTables \<Rightarrow> RolloutNode option" where
  "ReadRolloutNodeProgress i node d = find (\<lambda>n. rn_rollout n = i \<and> rn_node n = node) (rolloutNodes d)"

definition ListRolloutNodes :: "string \<Rightarrow> RolloutTables \<Rightarrow> RolloutNode list" where
  "ListRolloutNodes i d = sort_key rn_node (filter (\<lambda>n. rn_rollout n = i) (rolloutNodes d))"

section \<open>Starting\<close>

definition DefaultPolicy :: RolloutPolicy where
  "DefaultPolicy = \<lparr>po_cohort = 1, po_failureBudget = 1, po_allowDowngrade = False\<rparr>"

record StartRequest =
  sr_channel :: string
  sr_targetVersion :: string
  sr_targetDigest :: string
  sr_priorVersion :: string
  sr_policy :: RolloutPolicy
  sr_createdBy :: string
  sr_nodes :: "string list"
  sr_refuseAbortedTarget :: bool

fun enrolNodes :: "int \<Rightarrow> string \<Rightarrow> string list \<Rightarrow> RolloutTables \<Rightarrow> rolloutError + RolloutTables" where
  "enrolNodes now i [] d = Inr d"
| "enrolNodes now i (node # rest) d =
     (case InsertRolloutNode now i node d of Inl e \<Rightarrow> Inl e | Inr d' \<Rightarrow> enrolNodes now i rest d')"

definition refusedAbort :: "StartRequest \<Rightarrow> RolloutTables \<Rightarrow> bool" where
  "refusedAbort req d \<longleftrightarrow> sr_refuseAbortedTarget req \<and>
     (case ReadNewestRolloutForTarget (sr_targetDigest req) d of None \<Rightarrow> False | Some newest \<Rightarrow> ro_state newest = StateAborted)"

definition newRollout :: "int \<Rightarrow> string \<Rightarrow> StartRequest \<Rightarrow> RolloutTables \<Rightarrow> Rollout" where
  "newRollout now newID req d =
     \<lparr>ro_id = newID, ro_generation = HighestRolloutGeneration d + 1, ro_channel = sr_channel req,
      ro_targetVersion = sr_targetVersion req, ro_targetDigest = sr_targetDigest req,
      ro_priorVersion = sr_priorVersion req,
      ro_policy = (sr_policy req)\<lparr>po_cohort :=
        (if po_cohort (sr_policy req) \<le> 0 then po_cohort DefaultPolicy else po_cohort (sr_policy req))\<rparr>,
      ro_controllerPhase = PhasePending, ro_state = StateOpen, ro_createdBy = sr_createdBy req, ro_createdAt = now,
      ro_finishedAt = None, ro_terminalReason = []\<rparr>"

definition StartRollout :: "int \<Rightarrow> string \<Rightarrow> StartRequest \<Rightarrow> RolloutTables \<Rightarrow> rolloutError + Rollout \<times> RolloutTables" where
  "StartRollout now newID req d =
     (if sr_targetDigest req = [] \<or> sr_targetVersion req = [] then Inl RolloutInvalid
      else if sr_nodes req = [] then Inl RolloutInvalid
      else case readOpen d of
        Inr existing \<Rightarrow> if ro_targetDigest existing = sr_targetDigest req then Inr (existing, d) else Inl ErrOpenRollout
      | Inl _ \<Rightarrow>
          if refusedAbort req d then Inl ErrAbortedTarget
          else let r = newRollout now newID req d
               in case InsertRollout r d of
                    Inl e \<Rightarrow> Inl e
                  | Inr d1 \<Rightarrow> (case enrolNodes now (ro_id r) (sr_nodes req) d1 of Inl e \<Rightarrow> Inl e | Inr d2 \<Rightarrow> Inr (r, d2)))"

section \<open>Advancing\<close>

record AdvanceRequest =
  ar_rollout :: string
  ar_node :: string
  ar_to :: RolloutPhase
  ar_blocker :: string
  ar_rollbackResult :: string
  ar_exemptReason :: string
  ar_priorRelease :: string
  ar_backoff :: int
  ar_dispatchEpoch :: int
  ar_convergedDigest :: string
  ar_refusal :: string
  ar_clearRefusal :: bool

definition advancedRow :: "int \<Rightarrow> AdvanceRequest \<Rightarrow> RolloutNode \<Rightarrow> RolloutNode \<Rightarrow> RolloutNode" where
  "advancedRow now req row n =
     n\<lparr>rn_phase := ar_to req,
       rn_attempts := (if 0 < ar_backoff req then rn_attempts row + 1 else rn_attempts row),
       rn_nextAttemptAt := (if 0 < ar_backoff req then Some (now + ar_backoff req) else None),
       rn_blocker := ar_blocker req, rn_rollbackResult := ar_rollbackResult req, rn_exemptReason := ar_exemptReason req,
       rn_priorRelease := (if ar_priorRelease req = [] then rn_priorRelease n else ar_priorRelease req),
       rn_dispatchEpoch := (if ar_dispatchEpoch req = 0 then rn_dispatchEpoch n else ar_dispatchEpoch req),
       rn_convergedDigest := (if ar_convergedDigest req = [] then rn_convergedDigest n else ar_convergedDigest req),
       rn_lastRefusal := (if ar_refusal req \<noteq> [] \<or> ar_clearRefusal req then boundRefusal (ar_refusal req) else rn_lastRefusal n),
       rn_updatedAt := now\<rparr>"

definition AdvanceRolloutNode :: "int \<Rightarrow> AdvanceRequest \<Rightarrow> RolloutNode \<Rightarrow> RolloutTables \<Rightarrow> RolloutTables" where
  "AdvanceRolloutNode now req row d =
     d\<lparr>rolloutNodes := upd_where
        (\<lambda>n. rn_rollout n = ar_rollout req \<and> rn_node n = ar_node req \<and> rn_phase n = rn_phase row)
        (advancedRow now req row) (rolloutNodes d)\<rparr>"

definition advanceController :: "AdvanceRequest \<Rightarrow> RolloutTables \<Rightarrow> rolloutError + RolloutTables" where
  "advanceController req d =
     (case ReadRolloutControllerPhase (ar_rollout req) d of
        None \<Rightarrow> Inl ErrNoRollout
      | Some phase \<Rightarrow>
          (case rolloutTransition phase (ar_to req) of
             Inl e \<Rightarrow> Inl e
           | Inr _ \<Rightarrow> Inr (AdvanceRolloutController (ar_to req) (ar_rollout req) phase d)))"

definition advanceNode :: "int \<Rightarrow> AdvanceRequest \<Rightarrow> RolloutTables \<Rightarrow> rolloutError + RolloutTables" where
  "advanceNode now req d =
     (case ReadRolloutNodeProgress (ar_rollout req) (ar_node req) d of
        None \<Rightarrow> Inl RolloutInvalid
      | Some row \<Rightarrow>
          (case rolloutTransition (rn_phase row) (ar_to req) of
             Inl e \<Rightarrow> Inl e
           | Inr _ \<Rightarrow> Inr (AdvanceRolloutNode now req row d)))"

definition AdvanceRollout :: "int \<Rightarrow> AdvanceRequest \<Rightarrow> RolloutTables \<Rightarrow> rolloutError + RolloutTables" where
  "AdvanceRollout now req d =
     (if ar_to req = PhaseBlocked \<and> ar_blocker req = [] then Inl RolloutInvalid
      else if (ar_to req = PhaseExempt \<or> ar_to req = PhaseDecommissioned) \<and> ar_exemptReason req = [] then Inl RolloutInvalid
      else if ar_refusal req \<noteq> [] \<and> ar_clearRefusal req then Inl RolloutInvalid
      else if ar_node req = [] then advanceController req d
      else advanceNode now req d)"

section \<open>Finishing\<close>

definition unresolved :: "string \<Rightarrow> RolloutTables \<Rightarrow> string list" where
  "unresolved i d = map rn_node (filter (\<lambda>n. \<not> rolloutTerminal (rn_phase n)) (ListRolloutNodes i d))"

definition finishable :: "string \<Rightarrow> RolloutTables \<Rightarrow> rolloutError + unit" where
  "finishable i d =
     (case ReadRolloutControllerPhase i d of
        None \<Rightarrow> Inl RolloutStoreError
      | Some controller \<Rightarrow>
          if \<not> Converged controller then Inl ErrOutstanding
          else if unresolved i d \<noteq> [] then Inl ErrOutstanding else Inr ())"

definition FinishOutcome :: "int \<Rightarrow> string \<Rightarrow> string \<Rightarrow> string \<Rightarrow> RolloutTables \<Rightarrow> rolloutError + RolloutTables" where
  "FinishOutcome now i outcome reason d =
     (if outcome \<noteq> StateCompleted \<and> outcome \<noteq> StateAborted then Inl RolloutInvalid
      else case (if outcome = StateCompleted then finishable i d else Inr ()) of
        Inl e \<Rightarrow> Inl e
      | Inr _ \<Rightarrow> Inr (FinishRollout outcome now reason i d))"

end
