(* ===== verification/Rollout_Facts.thy ===== *)
theory Rollout_Facts
  imports Rollout_Store
begin

text \<open>
  What holds of the rollout tables whatever is asked of them. Operators, the starter and the
  coordinator write through the three transactions of the store, in any order and with any
  arguments: there is at most one open rollout, a decision is never rewritten, a component's
  phase only follows the state machine, and a rollout recorded as completed has converged.
\<close>

section \<open>The state machine\<close>

lemmas rollout_table = rolloutTransitions_def KnownPhase_def CanTransition_def

lemma KnownPhase_iff:
  "KnownPhase p \<longleftrightarrow> p \<in> {PhasePending, PhaseDraining, PhaseReadyToInstall, PhaseInstalling, PhaseVerifying, PhaseCommitted,
     PhaseRollingBack, PhaseRolledBack, PhaseBlocked, PhaseDecommissioned, PhaseExempt}"
  by (simp add: rollout_table)

lemma terminal_stays: "rolloutTerminal p \<Longrightarrow> CanTransition p q \<Longrightarrow> q = p"
  by (auto simp: rolloutTerminal_def rollout_table)

lemma rolloutTransition_Inr [simp]:
  "rolloutTransition p q = Inr () \<longleftrightarrow> KnownPhase p \<and> KnownPhase q \<and> CanTransition p q"
  by (simp add: rolloutTransition_def)

text \<open>A component commits only by being installed and then verified.\<close>

lemma into_committed: "CanTransition p PhaseCommitted \<Longrightarrow> p \<noteq> PhaseCommitted \<Longrightarrow> p = PhaseVerifying"
  by (simp add: rollout_table split: if_splits)

lemma into_verifying: "CanTransition p PhaseVerifying \<Longrightarrow> p \<noteq> PhaseVerifying \<Longrightarrow> p = PhaseInstalling"
  by (simp add: rollout_table split: if_splits)

lemma into_installing: "CanTransition p PhaseInstalling \<Longrightarrow> p \<noteq> PhaseInstalling \<Longrightarrow> p = PhaseReadyToInstall"
  by (simp add: rollout_table split: if_splits)

lemma into_ready: "CanTransition p PhaseReadyToInstall \<Longrightarrow> p \<noteq> PhaseReadyToInstall \<Longrightarrow> p = PhaseDraining"
  by (simp add: rollout_table split: if_splits)

abbreviation "phaseWalk \<equiv> CanTransition\<^sup>*\<^sup>*"

lemma phaseWalk_terminal: "phaseWalk p q \<Longrightarrow> rolloutTerminal p \<Longrightarrow> q = p"
  by (induction rule: rtranclp_induct) (auto dest: terminal_stays)

section \<open>The tables\<close>

definition rolloutsOK :: "RolloutTables \<Rightarrow> bool" where
  "rolloutsOK d \<longleftrightarrow>
     sorted_wrt (<) (map ro_generation (rollouts d)) \<and> (\<forall>r \<in> set (rollouts d). 0 < ro_generation r)
     \<and> distinct (map ro_id (rollouts d)) \<and> count_list (map ro_state (rollouts d)) StateOpen \<le> 1
     \<and> distinct (map (\<lambda>n. (rn_rollout n, rn_node n)) (rolloutNodes d))
     \<and> (\<forall>n \<in> set (rolloutNodes d). KnownPhase (rn_phase n) \<and> rn_rollout n \<in> set (map ro_id (rollouts d)))
     \<and> (\<forall>r \<in> set (rollouts d). KnownPhase (ro_controllerPhase r) \<and> ro_state r \<in> {StateOpen, StateCompleted, StateAborted}
          \<and> 0 < po_cohort (ro_policy r)
          \<and> (ro_state r = StateCompleted \<longrightarrow> Converged (ro_controllerPhase r)
               \<and> (\<forall>n \<in> set (rolloutNodes d). rn_rollout n = ro_id r \<longrightarrow> rolloutTerminal (rn_phase n))))"

text \<open>The decision is never rewritten, and an ended rollout stays as it ended.\<close>

definition decisionKept :: "Rollout \<Rightarrow> Rollout \<Rightarrow> bool" where
  "decisionKept r r' \<longleftrightarrow>
     ro_id r' = ro_id r \<and> ro_generation r' = ro_generation r \<and> ro_channel r' = ro_channel r
     \<and> ro_targetVersion r' = ro_targetVersion r \<and> ro_targetDigest r' = ro_targetDigest r
     \<and> ro_priorVersion r' = ro_priorVersion r \<and> ro_policy r' = ro_policy r
     \<and> ro_createdBy r' = ro_createdBy r \<and> ro_createdAt r' = ro_createdAt r
     \<and> phaseWalk (ro_controllerPhase r) (ro_controllerPhase r')
     \<and> (ro_state r = ro_state r' \<and> ro_finishedAt r' = ro_finishedAt r \<and> ro_terminalReason r' = ro_terminalReason r
        \<or> ro_state r = StateOpen \<and> ro_state r' \<in> {StateCompleted, StateAborted})"

definition progressKept :: "RolloutNode \<Rightarrow> RolloutNode \<Rightarrow> bool" where
  "progressKept n n' \<longleftrightarrow> rn_rollout n' = rn_rollout n \<and> rn_node n' = rn_node n \<and> phaseWalk (rn_phase n) (rn_phase n')
     \<and> (rn_priorRelease n \<noteq> [] \<longrightarrow> rn_priorRelease n' \<noteq> []) \<and> rn_attempts n \<le> rn_attempts n'"

lemma decisionKept_refl [simp]: "decisionKept r r"
  by (simp add: decisionKept_def)

lemma decisionKept_trans: "decisionKept r s \<Longrightarrow> decisionKept s u \<Longrightarrow> decisionKept r u"
  unfolding decisionKept_def by (elim conjE, intro conjI) (auto intro: rtranclp_trans)

lemma progressKept_refl [simp]: "progressKept n n"
  by (simp add: progressKept_def)

lemma progressKept_trans: "progressKept n m \<Longrightarrow> progressKept m k \<Longrightarrow> progressKept n k"
  unfolding progressKept_def by (elim conjE, intro conjI) (auto intro: rtranclp_trans)

lemma transp_decisionKept: "transp decisionKept" and transp_progressKept: "transp progressKept"
  by (blast intro: transpI decisionKept_trans progressKept_trans)+

text \<open>What a transaction may do to the tables.\<close>

definition tablesKept :: "RolloutTables \<Rightarrow> RolloutTables \<Rightarrow> bool" where
  "tablesKept d d' \<longleftrightarrow>
     (\<exists>old new. rollouts d' = old @ new \<and> list_all2 decisionKept (rollouts d) old)
     \<and> (\<exists>old new. rolloutNodes d' = old @ new \<and> list_all2 progressKept (rolloutNodes d) old
          \<and> (\<forall>n \<in> set new. rn_rollout n \<notin> set (map ro_id (rollouts d))))"

lemma list_all2_prefix_trans:
  assumes "list_all2 R xs ys" and "list_all2 R (ys @ zs) us" and "transp R"
  obtains vs ws where "us = vs @ ws" "list_all2 R xs vs" "list_all2 R zs ws"
proof -
  obtain vs ws where v: "us = vs @ ws" "list_all2 R ys vs" "list_all2 R zs ws"
    using assms(2) by (auto simp: list_all2_append1)
  moreover have "list_all2 R xs vs" using list_all2_trans [OF _ assms(1) v(2)] transpD [OF assms(3)] by metis
  ultimately show ?thesis using that by blast
qed

lemma decisions_ids: "list_all2 decisionKept rs rs' \<Longrightarrow> map ro_id rs' = map ro_id rs"
  by (induction rule: list_all2_induct) (auto simp: decisionKept_def)

lemma tablesKept_ids: "tablesKept d d' \<Longrightarrow> set (map ro_id (rollouts d)) \<subseteq> set (map ro_id (rollouts d'))"
  unfolding tablesKept_def using decisions_ids by (metis map_append set_append sup_ge1)

lemma tablesKept_refl [simp]: "tablesKept d d"
  unfolding tablesKept_def
  by (intro conjI exI [of _ "rollouts d"] exI [of _ "rolloutNodes d"] exI [of _ "[]"]) (simp_all add: list.rel_refl_strong)

lemma tablesKept_trans:
  assumes "tablesKept d e" and "tablesKept e f"
  shows "tablesKept d f"
proof -
  obtain r1 n1 r2 n2 where e: "rollouts e = r1 @ r2" "list_all2 decisionKept (rollouts d) r1"
    "rolloutNodes e = n1 @ n2" "list_all2 progressKept (rolloutNodes d) n1"
    "\<forall>n \<in> set n2. rn_rollout n \<notin> set (map ro_id (rollouts d))"
    using assms(1) unfolding tablesKept_def by blast
  obtain r3 n3 r4 n4 where f: "rollouts f = r3 @ r4" "list_all2 decisionKept (r1 @ r2) r3"
    "rolloutNodes f = n3 @ n4" "list_all2 progressKept (n1 @ n2) n3"
    "\<forall>n \<in> set n4. rn_rollout n \<notin> set (map ro_id (rollouts e))"
    using assms(2) unfolding tablesKept_def e(1,3) by blast
  obtain r5 r6 where r: "r3 = r5 @ r6" "list_all2 decisionKept (rollouts d) r5"
    using list_all2_prefix_trans [OF e(2) f(2) transp_decisionKept] by metis
  obtain n5 n6 where n: "n3 = n5 @ n6" "list_all2 progressKept (rolloutNodes d) n5" "list_all2 progressKept n2 n6"
    using list_all2_prefix_trans [OF e(4) f(4) transp_progressKept] by metis
  have "rn_rollout k \<notin> set (map ro_id (rollouts d))" if k: "k \<in> set n6" for k
  proof -
    obtain m where "m \<in> set n2" "progressKept m k" using list_all2_source [OF n(3) k] by blast
    then show ?thesis using e(5) by (simp add: progressKept_def)
  qed
  moreover have "rn_rollout k \<notin> set (map ro_id (rollouts d))" if "k \<in> set n4" for k
    using f(5) that tablesKept_ids [OF assms(1)] by blast
  ultimately have "\<forall>k \<in> set (n6 @ n4). rn_rollout k \<notin> set (map ro_id (rollouts d))" by auto
  then show ?thesis unfolding tablesKept_def f(1,3) r(1) n(1) using r(2) n(2) by fastforce
qed


section \<open>What each transaction does\<close>

lemma advancedRow_sel [simp]:
  "rn_rollout (advancedRow now req row n) = rn_rollout n" "rn_node (advancedRow now req row n) = rn_node n"
  "rn_phase (advancedRow now req row n) = ar_to req"
  "rn_attempts (advancedRow now req row n) = (if 0 < ar_backoff req then rn_attempts row + 1 else rn_attempts row)"
  "rn_priorRelease (advancedRow now req row n) = (if ar_priorRelease req = [] then rn_priorRelease n else ar_priorRelease req)"
  "rn_dispatchEpoch (advancedRow now req row n) = (if ar_dispatchEpoch req = 0 then rn_dispatchEpoch n else ar_dispatchEpoch req)"
  "rn_convergedDigest (advancedRow now req row n) = (if ar_convergedDigest req = [] then rn_convergedDigest n else ar_convergedDigest req)"
  by (simp_all add: advancedRow_def)

lemma find_keyed: "distinct (map key xs) \<Longrightarrow> find (\<lambda>x. key x = k) xs = Some x \<longleftrightarrow> x \<in> set xs \<and> key x = k"
  by (induction xs) (auto simp: image_iff)

lemma rowsKept:
  assumes "list_all2 decisionKept (rollouts d) (rollouts d')" and "list_all2 progressKept (rolloutNodes d) (rolloutNodes d')"
  shows "tablesKept d d'"
  unfolding tablesKept_def using assms
  by (intro conjI exI [of _ "rollouts d'"] exI [of _ "rolloutNodes d'"] exI [of _ "[]"]) simp_all

lemma rowsKept_OK:
  assumes ok: "rolloutsOK d"
    and rs: "list_all2 decisionKept (rollouts d) (rollouts d')" and ns: "list_all2 progressKept (rolloutNodes d) (rolloutNodes d')"
    and "\<forall>r \<in> set (rollouts d'). KnownPhase (ro_controllerPhase r)" and "\<forall>n \<in> set (rolloutNodes d'). KnownPhase (rn_phase n)"
    and new: "\<forall>r' \<in> set (rollouts d'). ro_state r' = StateCompleted \<longrightarrow>
      (\<exists>r \<in> set (rollouts d). ro_id r = ro_id r' \<and> ro_state r = StateCompleted)
      \<or> Converged (ro_controllerPhase r') \<and> (\<forall>n \<in> set (rolloutNodes d'). rn_rollout n = ro_id r' \<longrightarrow> rolloutTerminal (rn_phase n))"
  shows "rolloutsOK d'"
proof -
  have ids: "map ro_id (rollouts d') = map ro_id (rollouts d)" by (rule decisions_ids [OF rs])
  have gens: "map ro_generation (rollouts d') = map ro_generation (rollouts d)"
    using rs by (induction rule: list_all2_induct) (auto simp: decisionKept_def)
  have keys: "map (\<lambda>n. (rn_rollout n, rn_node n)) (rolloutNodes d') = map (\<lambda>n. (rn_rollout n, rn_node n)) (rolloutNodes d)"
    using ns by (induction rule: list_all2_induct) (auto simp: progressKept_def)
  have "count_list (map ro_state (rollouts d')) StateOpen \<le> count_list (map ro_state (rollouts d)) StateOpen"
    using rs by (induction rule: list_all2_induct) (auto simp: decisionKept_def)
  then have one: "count_list (map ro_state (rollouts d')) StateOpen \<le> 1" using ok by (simp add: rolloutsOK_def)
  have row: "0 < ro_generation r' \<and> ro_state r' \<in> {StateOpen, StateCompleted, StateAborted} \<and> 0 < po_cohort (ro_policy r')
      \<and> (ro_state r' = StateCompleted \<longrightarrow> Converged (ro_controllerPhase r')
         \<and> (\<forall>n \<in> set (rolloutNodes d'). rn_rollout n = ro_id r' \<longrightarrow> rolloutTerminal (rn_phase n)))"
    if r': "r' \<in> set (rollouts d')" for r'
  proof -
    obtain r where r: "r \<in> set (rollouts d)" "decisionKept r r'" using list_all2_source [OF rs r'] by blast
    have state: "0 < ro_generation r'" "ro_state r' \<in> {StateOpen, StateCompleted, StateAborted}" "0 < po_cohort (ro_policy r')"
      using r ok unfolding rolloutsOK_def decisionKept_def by auto
    have "Converged (ro_controllerPhase r') \<and> (\<forall>n \<in> set (rolloutNodes d'). rn_rollout n = ro_id r' \<longrightarrow> rolloutTerminal (rn_phase n))"
      if "s \<in> set (rollouts d)" "ro_id s = ro_id r'" "ro_state s = StateCompleted" for s
    proof -
      have "inj_on ro_id (set (rollouts d))" using ok by (simp add: rolloutsOK_def distinct_map)
      then have "s = r" by (rule inj_onD) (use that(1,2) r in \<open>auto simp: decisionKept_def\<close>)
      then have c: "Converged (ro_controllerPhase r)" "\<forall>n \<in> set (rolloutNodes d). rn_rollout n = ro_id r \<longrightarrow> rolloutTerminal (rn_phase n)"
        using that(3) r(1) ok unfolding rolloutsOK_def by blast+
      have "ro_controllerPhase r' = ro_controllerPhase r"
        using phaseWalk_terminal r(2) c(1) by (auto simp: decisionKept_def Converged_def rolloutTerminal_def)
      moreover have "rolloutTerminal (rn_phase n')" if n': "n' \<in> set (rolloutNodes d')" "rn_rollout n' = ro_id r'" for n'
      proof -
        obtain n where n: "n \<in> set (rolloutNodes d)" "progressKept n n'" using list_all2_source [OF ns n'(1)] by blast
        then have "rolloutTerminal (rn_phase n)" using c(2) n'(2) r(2) by (simp add: progressKept_def decisionKept_def)
        moreover have "phaseWalk (rn_phase n) (rn_phase n')" using n(2) by (simp add: progressKept_def)
        ultimately show ?thesis using phaseWalk_terminal by metis
      qed
      ultimately show ?thesis using c(1) by simp
    qed
    then show ?thesis using state new r' by blast
  qed
  have "rn_rollout n' \<in> set (map ro_id (rollouts d'))" if "n' \<in> set (rolloutNodes d')" for n'
    using list_all2_source [OF ns that] ok unfolding ids rolloutsOK_def progressKept_def by metis
  then show ?thesis using ok one assms(4,5) row unfolding rolloutsOK_def ids gens keys by blast
qed

lemma advanceController_kept:
  assumes "rolloutsOK d" and "advanceController req d = Inr d'"
  shows "tablesKept d d' \<and> rolloutsOK d'"
proof -
  obtain phase where r: "KnownPhase (ar_to req)" "CanTransition phase (ar_to req)"
    and d': "d' = AdvanceRolloutController (ar_to req) (ar_rollout req) phase d"
    using assms(2) by (auto simp: advanceController_def ReadRolloutControllerPhase_def rolloutTransition_def
        split: option.splits sum.splits if_splits)
  have ns: "rolloutNodes d' = rolloutNodes d" by (simp add: d' AdvanceRolloutController_def)
  have kept: "list_all2 decisionKept (rollouts d) (rollouts d')"
    using r(2) by (auto simp: d' AdvanceRolloutController_def upd_where_def list_all2_map2 decisionKept_def intro!: list.rel_refl_strong)
  moreover have "list_all2 progressKept (rolloutNodes d) (rolloutNodes d')" unfolding ns by (simp add: list.rel_refl_strong)
  moreover have "\<forall>r \<in> set (rollouts d'). KnownPhase (ro_controllerPhase r)"
    using assms(1) r(1) by (auto simp: d' AdvanceRolloutController_def set_upd_where rolloutsOK_def)
  moreover have "\<forall>n \<in> set (rolloutNodes d'). KnownPhase (rn_phase n)" using assms(1) by (simp add: ns rolloutsOK_def)
  moreover have "\<forall>r' \<in> set (rollouts d'). \<exists>r \<in> set (rollouts d). ro_id r = ro_id r' \<and> ro_state r = ro_state r'"
    by (auto simp: d' AdvanceRolloutController_def set_upd_where)
  ultimately show ?thesis using rowsKept rowsKept_OK [OF assms(1)] by metis
qed

lemma advanceNode_kept:
  assumes "rolloutsOK d" and "advanceNode now req d = Inr d'"
  shows "tablesKept d d' \<and> rolloutsOK d'"
proof -
  obtain row where row: "find (\<lambda>n. rn_rollout n = ar_rollout req \<and> rn_node n = ar_node req) (rolloutNodes d) = Some row"
    "KnownPhase (ar_to req)" "CanTransition (rn_phase row) (ar_to req)"
    and d': "d' = AdvanceRolloutNode now req row d"
    using assms(2) by (auto simp: advanceNode_def ReadRolloutNodeProgress_def rolloutTransition_def
        split: option.splits sum.splits if_splits)
  have rs: "rollouts d' = rollouts d" by (simp add: d' AdvanceRolloutNode_def)
  have member: "row \<in> set (rolloutNodes d)" "rn_rollout row = ar_rollout req" "rn_node row = ar_node req"
    using row(1) by (auto simp: find_Some_iff)
  have inj: "inj_on (\<lambda>n. (rn_rollout n, rn_node n)) (set (rolloutNodes d))"
    using assms(1) by (simp add: rolloutsOK_def distinct_map)
  have only: "n = row" if "n \<in> set (rolloutNodes d)" "rn_rollout n = ar_rollout req" "rn_node n = ar_node req" for n
    using that member by (intro inj_onD [OF inj]) simp_all
  let ?P = "\<lambda>n. rn_rollout n = ar_rollout req \<and> rn_node n = ar_node req \<and> rn_phase n = rn_phase row"
  have self: "progressKept row (advancedRow now req row row)" using row(3) by (simp add: progressKept_def r_into_rtranclp)
  have each: "progressKept n (if ?P n then advancedRow now req row n else n)" if n: "n \<in> set (rolloutNodes d)" for n
  proof (cases "?P n")
    case True
    then have "n = row" using only [OF n] by blast
    then show ?thesis using self by simp
  next
    case False
    then show ?thesis by (simp only: if_False progressKept_refl)
  qed
  have "rolloutNodes d' = map (\<lambda>n. if ?P n then advancedRow now req row n else n) (rolloutNodes d)"
    by (simp add: d' AdvanceRolloutNode_def upd_where_def)
  then have kept: "list_all2 progressKept (rolloutNodes d) (rolloutNodes d')"
    using each by (simp only: list_all2_map2 list.rel_refl_strong)
  have dec: "list_all2 decisionKept (rollouts d) (rollouts d')" unfolding rs by (simp add: list.rel_refl_strong)
  have phases: "\<forall>r \<in> set (rollouts d'). KnownPhase (ro_controllerPhase r)" "\<forall>n \<in> set (rolloutNodes d'). KnownPhase (rn_phase n)"
    using assms(1) row(2) by (auto simp: d' AdvanceRolloutNode_def set_upd_where rolloutsOK_def)
  have "rolloutsOK d'" by (rule rowsKept_OK [OF assms(1) dec kept phases]) (auto simp: rs)
  then show ?thesis using rowsKept [OF dec kept] by simp
qed

lemma FinishOutcome_kept:
  assumes "rolloutsOK d" and "FinishOutcome now i outcome reason d = Inr d'"
  shows "tablesKept d d' \<and> rolloutsOK d'"
proof -
  have d': "d' = FinishRollout outcome now reason i d" and o: "outcome \<in> {StateCompleted, StateAborted}"
    and f: "outcome = StateCompleted \<Longrightarrow> finishable i d = Inr ()"
    using assms(2) by (auto simp: FinishOutcome_def split: if_splits sum.splits)
  have ns: "rolloutNodes d' = rolloutNodes d" by (simp add: d' FinishRollout_def)
  have ended: "Converged (ro_controllerPhase r) \<and> (\<forall>n \<in> set (rolloutNodes d). rn_rollout n = i \<longrightarrow> rolloutTerminal (rn_phase n))"
    if r: "outcome = StateCompleted" "r \<in> set (rollouts d)" "ro_id r = i" for r
  proof -
    have "find (\<lambda>r. ro_id r = i) (rollouts d) = Some r" using r(2,3) assms(1) by (simp add: find_keyed rolloutsOK_def)
    then show ?thesis
      using f [OF r(1)] by (auto simp: finishable_def ReadRolloutControllerPhase_def unresolved_def ListRolloutNodes_def
          filter_empty_conv split: if_splits)
  qed
  have kept: "list_all2 decisionKept (rollouts d) (rollouts d')"
    using o by (auto simp: d' FinishRollout_def upd_where_def list_all2_map2 decisionKept_def intro!: list.rel_refl_strong)
  moreover have "list_all2 progressKept (rolloutNodes d) (rolloutNodes d')" unfolding ns by (simp add: list.rel_refl_strong)
  moreover have "\<forall>r \<in> set (rollouts d'). KnownPhase (ro_controllerPhase r)"
    using assms(1) by (auto simp: d' FinishRollout_def set_upd_where rolloutsOK_def)
  moreover have "\<forall>n \<in> set (rolloutNodes d'). KnownPhase (rn_phase n)" using assms(1) by (simp add: ns rolloutsOK_def)
  moreover have "(\<exists>r \<in> set (rollouts d). ro_id r = ro_id r' \<and> ro_state r = StateCompleted)
      \<or> Converged (ro_controllerPhase r') \<and> (\<forall>n \<in> set (rolloutNodes d'). rn_rollout n = ro_id r' \<longrightarrow> rolloutTerminal (rn_phase n))"
    if "r' \<in> set (rollouts d')" "ro_state r' = StateCompleted" for r'
    using that ended unfolding ns by (auto simp: d' FinishRollout_def set_upd_where split: if_splits)
  ultimately show ?thesis using rowsKept rowsKept_OK [OF assms(1)] by blast
qed


lemma HighestRolloutGeneration_bound: "r \<in> set (rollouts d) \<Longrightarrow> ro_generation r \<le> HighestRolloutGeneration d"
  and HighestRolloutGeneration_nonneg: "0 \<le> HighestRolloutGeneration d"
proof -
  have "k \<le> foldl max k xs \<and> (\<forall>x \<in> set xs. x \<le> foldl max k xs)" for k and xs :: "int list"
    by (induction xs arbitrary: k) (auto simp: max.coboundedI1 intro: order_trans [OF max.cobounded2] order_trans [OF max.cobounded1])
  from this [of 0 "map ro_generation (rollouts d)"]
  show "r \<in> set (rollouts d) \<Longrightarrow> ro_generation r \<le> HighestRolloutGeneration d" "0 \<le> HighestRolloutGeneration d"
    by (auto simp: HighestRolloutGeneration_def)
qed

lemma enrolNodes_new:
  assumes "enrolNodes now i nodes d = Inr d'" and "distinct (map (\<lambda>n. (rn_rollout n, rn_node n)) (rolloutNodes d))"
  shows "\<exists>new. rolloutNodes d' = rolloutNodes d @ new \<and> rollouts d' = rollouts d
    \<and> map rn_node new = nodes \<and> (\<forall>n \<in> set new. rn_rollout n = i \<and> rn_phase n = PhasePending)
    \<and> distinct (map (\<lambda>n. (rn_rollout n, rn_node n)) (rolloutNodes d'))"
  using assms
proof (induction now i nodes d rule: enrolNodes.induct)
  case (2 now i node rest d)
  obtain d1 where d1: "InsertRolloutNode now i node d = Inr d1" "enrolNodes now i rest d1 = Inr d'"
    using 2(2) by (auto split: sum.splits)
  then obtain n where n: "rolloutNodes d1 = rolloutNodes d @ [n]" "rollouts d1 = rollouts d" "rn_rollout n = i"
    "rn_node n = node" "rn_phase n = PhasePending" "\<not> list_ex (\<lambda>m. rn_rollout m = i \<and> rn_node m = node) (rolloutNodes d)"
    by (auto simp: InsertRolloutNode_def split: if_splits)
  have "distinct (map (\<lambda>n. (rn_rollout n, rn_node n)) (rolloutNodes d1))"
    using 2(3) n by (auto simp: list_ex_iff)
  from 2(1) [OF d1(1) d1(2) this] obtain new where
    "rolloutNodes d' = rolloutNodes d1 @ new" "rollouts d' = rollouts d1" "map rn_node new = rest"
    "\<forall>n \<in> set new. rn_rollout n = i \<and> rn_phase n = PhasePending"
    "distinct (map (\<lambda>n. (rn_rollout n, rn_node n)) (rolloutNodes d'))" by blast
  then show ?case using n by (intro exI [of _ "n # new"]) auto
qed simp

lemma StartRollout_kept:
  assumes ok: "rolloutsOK d" and start: "StartRollout now newID req d = Inr (r, d')"
  shows "tablesKept d d' \<and> rolloutsOK d'"
proof (cases "d' = d")
  case False
  have none: "readOpen d = Inl ErrNoRollout"
    using start False by (auto simp: StartRollout_def readOpen_def split: if_splits option.splits)
  let ?r = "newRollout now newID req d"
  obtain d1 where d1: "InsertRollout ?r d = Inr d1" "enrolNodes now newID (sr_nodes req) d1 = Inr d'"
    using start none by (auto simp: StartRollout_def newRollout_def Let_def split: if_splits sum.splits)
  have ins: "d1 = d\<lparr>rollouts := rollouts d @ [?r]\<rparr>" "newID \<notin> set (map ro_id (rollouts d))"
    using d1(1) by (auto simp: InsertRollout_def newRollout_def split: if_splits)
  have dist: "distinct (map (\<lambda>n. (rn_rollout n, rn_node n)) (rolloutNodes d1))" using ok by (simp add: ins(1) rolloutsOK_def)
  obtain new where new: "rolloutNodes d' = rolloutNodes d @ new" "rollouts d' = rollouts d @ [?r]"
    "\<forall>n \<in> set new. rn_rollout n = newID \<and> rn_phase n = PhasePending"
    "distinct (map (\<lambda>n. (rn_rollout n, rn_node n)) (rolloutNodes d'))"
    using enrolNodes_new [OF d1(2) dist] by (auto simp: ins(1))
  have kept: "tablesKept d d'"
    unfolding tablesKept_def new(1,2) using new(3) ins(2)
    by (intro conjI exI [of _ "rollouts d"] exI [of _ "rolloutNodes d"] exI [of _ new] exI [of _ "[?r]"])
       (simp_all add: list.rel_refl_strong)
  have r: "ro_id ?r = newID" "ro_state ?r = StateOpen" "ro_controllerPhase ?r = PhasePending"
      "ro_generation ?r = HighestRolloutGeneration d + 1" "0 < po_cohort (ro_policy ?r)"
    by (auto simp: newRollout_def DefaultPolicy_def)
  have "\<forall>s \<in> set (rollouts d). ro_state s \<noteq> StateOpen"
    using none by (auto simp: readOpen_def find_None_iff split: option.splits)
  then have "count_list (map ro_state (rollouts d)) StateOpen = 0" by (auto simp: count_list_0_iff)
  then have one: "count_list (map ro_state (rollouts d')) StateOpen \<le> 1" by (simp add: new(2) r)
  have gens: "sorted_wrt (<) (map ro_generation (rollouts d'))"
    using ok HighestRolloutGeneration_bound [of _ d] by (force simp: new(2) r rolloutsOK_def sorted_wrt_append)
  have rows: "0 < ro_generation s \<and> KnownPhase (ro_controllerPhase s) \<and> ro_state s \<in> {StateOpen, StateCompleted, StateAborted}
      \<and> 0 < po_cohort (ro_policy s)
      \<and> (ro_state s = StateCompleted \<longrightarrow> Converged (ro_controllerPhase s)
           \<and> (\<forall>n \<in> set (rolloutNodes d'). rn_rollout n = ro_id s \<longrightarrow> rolloutTerminal (rn_phase n)))"
    if s: "s \<in> set (rollouts d')" for s
  proof (cases "s = ?r")
    case True
    then show ?thesis using r HighestRolloutGeneration_nonneg [of d] by (simp add: KnownPhase_iff)
  next
    case False
    then have old: "s \<in> set (rollouts d)" using s by (simp add: new(2))
    then have "ro_id s \<noteq> newID" using ins(2) by auto
    then show ?thesis using old ok new(1,3) unfolding rolloutsOK_def by auto
  qed
  have "\<forall>n \<in> set (rolloutNodes d'). KnownPhase (rn_phase n) \<and> rn_rollout n \<in> set (map ro_id (rollouts d'))"
    using ok new(3) r(1) unfolding rolloutsOK_def new(1,2) by (auto simp: KnownPhase_iff)
  moreover have "distinct (map ro_id (rollouts d'))" using ok ins(2) r(1) by (simp add: new(2) rolloutsOK_def)
  ultimately have "rolloutsOK d'" using rows one gens new(4) unfolding rolloutsOK_def by blast
  with kept show ?thesis by simp
qed (use ok in simp)


section \<open>Every run\<close>

inductive rolloutStep :: "RolloutTables \<Rightarrow> RolloutTables \<Rightarrow> bool" where
  start: "StartRollout now newID req d = Inr (r, d') \<Longrightarrow> rolloutStep d d'"
| advance: "AdvanceRollout now change d = Inr d' \<Longrightarrow> rolloutStep d d'"
| finish: "FinishOutcome now i outcome reason d = Inr d' \<Longrightarrow> rolloutStep d d'"

abbreviation "rolloutRun \<equiv> rolloutStep\<^sup>*\<^sup>*"

lemma AdvanceRollout_kept:
  assumes "rolloutsOK d" and "AdvanceRollout now req d = Inr d'"
  shows "tablesKept d d' \<and> rolloutsOK d'"
proof (cases "ar_node req = []")
  case True
  then have "advanceController req d = Inr d'" using assms(2) by (simp add: AdvanceRollout_def split: if_splits)
  then show ?thesis by (rule advanceController_kept [OF assms(1)])
next
  case False
  then have "advanceNode now req d = Inr d'" using assms(2) by (simp add: AdvanceRollout_def split: if_splits)
  then show ?thesis by (rule advanceNode_kept [OF assms(1)])
qed

lemma rolloutRun_kept:
  assumes "rolloutRun d d'" and "rolloutsOK d"
  shows "tablesKept d d' \<and> rolloutsOK d'"
  using assms
proof (induction rule: rtranclp_induct)
  case (step e f)
  then have e: "tablesKept d e" "rolloutsOK e" by simp_all
  from step.hyps(2) have "tablesKept e f \<and> rolloutsOK f"
  proof cases
    case start
    then show ?thesis by (rule StartRollout_kept [OF e(2)])
  next
    case advance
    then show ?thesis by (rule AdvanceRollout_kept [OF e(2)])
  next
    case finish
    then show ?thesis by (rule FinishOutcome_kept [OF e(2)])
  qed
  then show ?case using tablesKept_trans [OF e(1)] by blast
qed simp

lemma one_open:
  assumes "rolloutsOK d" and "r \<in> set (rollouts d)" "s \<in> set (rollouts d)" and "ro_state r = StateOpen" "ro_state s = StateOpen"
  shows "r = s"
proof -
  have "count_list (map ro_state (rollouts d)) StateOpen \<le> 1" using assms(1) by (simp add: rolloutsOK_def)
  then have "length (filter (\<lambda>r. ro_state r = StateOpen) (rollouts d)) \<le> 1"
    by (simp add: count_list_eq_length_filter filter_map comp_def eq_commute)
  moreover have "r \<in> set (filter (\<lambda>r. ro_state r = StateOpen) (rollouts d))" "s \<in> set (filter (\<lambda>r. ro_state r = StateOpen) (rollouts d))"
    using assms(2-5) by simp_all
  ultimately show ?thesis by (cases "filter (\<lambda>r. ro_state r = StateOpen) (rollouts d)") auto
qed

end
