(* ===== verification/Rollout_Coordinator.thy ===== *)
theory Rollout_Coordinator
  imports Rollout_Store
begin

text \<open>
  The driver of a rollout, \<open>internal/rollout/coordinator.go\<close>, and the starter of automatic
  ones, \<open>internal/rollout/autostart.go\<close>. A pass is one definition over the tables: it reads
  the clock once, is given what the fleet's registrations say, and runs alone, each of its
  writes being one of the store's transactions. Outside the repository's reach are the node
  that is told to upgrade (\<open>upgrade\<close>: what the dispatch to a node answered, \<open>None\<close>
  when it was accepted) and the release resolver. A pass answers the errors it met, the nodes
  it told to upgrade and the tables it left; log lines, the rate limits of repeated messages
  and the wording of the reasons recorded for an operator are left out, a reason being named
  by a short constant.
\<close>

record Host =
  ho_name :: string
  ho_release :: string
  ho_digest :: string
  ho_wire :: int
  ho_live :: bool
  ho_epoch :: int

record Coordinator =
  co_minWire :: int
  co_ourVersion :: string

definition retryAfter :: int where
  "retryAfter = 300000000000"

section \<open>One write\<close>

definition advanceTo :: "string \<Rightarrow> string \<Rightarrow> RolloutPhase \<Rightarrow> AdvanceRequest" where
  "advanceTo i node phase = \<lparr>ar_rollout = i, ar_node = node, ar_to = phase, ar_blocker = [], ar_rollbackResult = [],
     ar_exemptReason = [], ar_priorRelease = [], ar_backoff = 0, ar_dispatchEpoch = 0, ar_convergedDigest = [],
     ar_refusal = [], ar_clearRefusal = False\<rparr>"

text \<open>A write and its error, and a second write after one that succeeded.\<close>

definition wrote :: "int \<Rightarrow> AdvanceRequest \<Rightarrow> RolloutTables \<Rightarrow> rolloutError option \<times> RolloutTables" where
  "wrote now req d = (case AdvanceRollout now req d of Inl e \<Rightarrow> (Some e, d) | Inr d' \<Rightarrow> (None, d'))"

definition andThen ::
  "rolloutError option \<times> RolloutTables \<Rightarrow> (RolloutTables \<Rightarrow> rolloutError option \<times> RolloutTables) \<Rightarrow> rolloutError option \<times> RolloutTables" where
  "andThen r f = (case r of (Some e, d) \<Rightarrow> (Some e, d) | (None, d) \<Rightarrow> f d)"

section \<open>The walk to committed\<close>

definition convergenceWalk :: "RolloutPhase list" where
  "convergenceWalk = [PhaseDraining, PhaseReadyToInstall, PhaseInstalling, PhaseVerifying, PhaseCommitted]"

fun positionOf :: "RolloutPhase \<Rightarrow> RolloutPhase list \<Rightarrow> nat \<Rightarrow> nat option" where
  "positionOf p [] i = None"
| "positionOf p (q # qs) i = (if q = p then Some (i + 1) else positionOf p qs (i + 1))"

definition resumePoint :: "RolloutPhase \<Rightarrow> nat option" where
  "resumePoint p = (if p = PhasePending then Some 0 else positionOf p convergenceWalk 0)"

fun walkPhases ::
  "int \<Rightarrow> string \<Rightarrow> string \<Rightarrow> RolloutPhase \<Rightarrow> string \<Rightarrow> RolloutPhase list \<Rightarrow> RolloutTables \<Rightarrow> rolloutError option \<times> RolloutTables" where
  "walkPhases now i node goal provedBy [] d = (None, d)"
| "walkPhases now i node goal provedBy (phase # rest) d =
     (let req = advanceTo i node phase;
          req = (if phase = goal then req\<lparr>ar_convergedDigest := provedBy, ar_clearRefusal := (node \<noteq> [])\<rparr> else req)
      in andThen (wrote now req d) (\<lambda>d'. if phase = goal then (None, d') else walkPhases now i node goal provedBy rest d'))"

definition walkTo ::
  "int \<Rightarrow> string \<Rightarrow> string \<Rightarrow> RolloutPhase \<Rightarrow> RolloutPhase \<Rightarrow> string \<Rightarrow> RolloutTables \<Rightarrow> rolloutError option \<times> RolloutTables" where
  "walkTo now i node start goal provedBy d =
     (case resumePoint start of
        None \<Rightarrow> (None, d)
      | Some begin_at \<Rightarrow> walkPhases now i node goal provedBy (drop begin_at convergenceWalk) d)"

definition observeController :: "Coordinator \<Rightarrow> int \<Rightarrow> Rollout \<Rightarrow> RolloutTables \<Rightarrow> rolloutError option \<times> RolloutTables" where
  "observeController c now current d =
     (if \<not> Same (co_ourVersion c) (ro_targetVersion current) then (None, d)
      else walkTo now (ro_id current) [] (ro_controllerPhase current) PhaseCommitted [] d)"

section \<open>Settling what was seen\<close>

definition rollbackResult :: "Host \<Rightarrow> Rollout \<Rightarrow> string" where
  "rollbackResult host current =
     ''re-registered on '' @ ho_release host @ '' after being told to install '' @ ro_targetVersion current"

definition recordRolledBack :: "int \<Rightarrow> Rollout \<Rightarrow> RolloutNode \<Rightarrow> Host \<Rightarrow> RolloutTables \<Rightarrow> rolloutError option \<times> RolloutTables" where
  "recordRolledBack now current n host d =
     wrote now ((advanceTo (ro_id current) (rn_node n) PhaseRolledBack)\<lparr>ar_rollbackResult := rollbackResult host current\<rparr>) d"

definition settleDrainingHost :: "int \<Rightarrow> Rollout \<Rightarrow> RolloutNode \<Rightarrow> Host \<Rightarrow> RolloutTables \<Rightarrow> rolloutError option \<times> RolloutTables" where
  "settleDrainingHost now current n host d =
     (if rn_dispatchEpoch n = 0 \<or> ho_epoch host \<le> rn_dispatchEpoch n then (None, d)
      else andThen (wrote now ((advanceTo (ro_id current) (rn_node n) PhaseRollingBack)\<lparr>ar_rollbackResult := rollbackResult host current\<rparr>) d)
             (recordRolledBack now current n host))"

definition convergeHost :: "int \<Rightarrow> Rollout \<Rightarrow> RolloutNode \<Rightarrow> string \<Rightarrow> RolloutTables \<Rightarrow> rolloutError option \<times> RolloutTables" where
  "convergeHost now current n digest d =
     (if rn_phase n = PhaseRolledBack
      then andThen (wrote now (advanceTo (ro_id current) (rn_node n) PhasePending) d)
             (walkTo now (ro_id current) (rn_node n) PhasePending PhaseCommitted digest)
      else walkTo now (ro_id current) (rn_node n) (rn_phase n) PhaseCommitted digest d)"

definition otherBytes :: string where
  "otherBytes = ''reports the target version from another manifest''"

definition settleAtTarget :: "int \<Rightarrow> Rollout \<Rightarrow> RolloutNode \<Rightarrow> Host \<Rightarrow> RolloutTables \<Rightarrow> rolloutError option \<times> RolloutTables" where
  "settleAtTarget now current n host d =
     (if ho_digest host \<noteq> [] \<and> ho_digest host \<noteq> ro_targetDigest current
      then wrote now ((advanceTo (ro_id current) (rn_node n) PhaseBlocked)\<lparr>ar_blocker := otherBytes\<rparr>) d
      else convergeHost now current n (ho_digest host) d)"

definition settleNode ::
  "int \<Rightarrow> Rollout \<Rightarrow> RolloutNode \<Rightarrow> Host option \<Rightarrow> RolloutTables \<Rightarrow> rolloutError option \<times> RolloutTables" where
  "settleNode now current n known d =
     (if rolloutTerminal (rn_phase n) then (None, d)
      else case known of
        None \<Rightarrow> (None, d)
      | Some host \<Rightarrow>
          if \<not> ho_live host then (None, d)
          else if rn_phase n = PhaseRollingBack then recordRolledBack now current n host d
          else if Same (ho_release host) (ro_targetVersion current) then settleAtTarget now current n host d
          else if rn_phase n = PhaseDraining then settleDrainingHost now current n host d
          else (None, d))"

fun settleAll ::
  "int \<Rightarrow> Rollout \<Rightarrow> (string \<rightharpoonup> Host) \<Rightarrow> RolloutNode list \<Rightarrow> RolloutTables \<Rightarrow> rolloutError list \<times> RolloutTables" where
  "settleAll now current fleet [] d = ([], d)"
| "settleAll now current fleet (n # rest) d =
     (case settleNode now current n (fleet (rn_node n)) d of
        (e, d') \<Rightarrow> (case settleAll now current fleet rest d' of
           (es, d'') \<Rightarrow> ((case e of None \<Rightarrow> es | Some x \<Rightarrow> x # es), d'')))"

section \<open>Telling hosts to upgrade\<close>

fun tally :: "RolloutNode list \<Rightarrow> int \<times> int" where
  "tally [] = (0, 0)"
| "tally (n # rest) =
     (case tally rest of (inFlight, failed) \<Rightarrow>
        if rolloutTerminal (rn_phase n) \<or> rn_phase n = PhasePending then (inFlight, failed)
        else if rn_phase n = PhaseBlocked \<or> rn_phase n = PhaseRolledBack then (inFlight, failed + 1)
        else (inFlight + 1, failed))"

definition budgetSpent :: "int \<Rightarrow> int \<Rightarrow> bool" where
  "budgetSpent limit failed \<longleftrightarrow> \<not> (limit \<le> 0 \<or> failed < limit)"

definition tooOldWire :: string where
  "tooOldWire = ''negotiated a wire without the upgrade command''"

text \<open>What a pass carries from host to host.\<close>

record dispatching =
  dp_inFlight :: int
  dp_failed :: int
  dp_told :: "string list"
  dp_problems :: "rolloutError list"
  dp_tables :: RolloutTables

definition dispatchUpgrade ::
  "Coordinator \<Rightarrow> (string \<Rightarrow> string option) \<Rightarrow> int \<Rightarrow> Rollout \<Rightarrow> RolloutNode \<Rightarrow> Host \<Rightarrow> dispatching \<Rightarrow> dispatching" where
  "dispatchUpgrade c upgrade now current n host s =
     (let to_phase = advanceTo (ro_id current) (rn_node n)
      in if 0 < ho_wire host \<and> ho_wire host < co_minWire c
      then (case AdvanceRollout now ((to_phase PhaseBlocked)\<lparr>ar_blocker := tooOldWire\<rparr>) (dp_tables s) of
              Inl e \<Rightarrow> s\<lparr>dp_problems := dp_problems s @ [e]\<rparr>
            | Inr d \<Rightarrow> s\<lparr>dp_tables := d, dp_failed := dp_failed s + 1\<rparr>)
      else case AdvanceRollout now ((to_phase PhasePending)\<lparr>ar_priorRelease := ho_release host\<rparr>) (dp_tables s) of
        Inl e \<Rightarrow> s\<lparr>dp_problems := dp_problems s @ [e]\<rparr>
      | Inr d1 \<Rightarrow>
          (case upgrade (rn_node n) of
             Some why \<Rightarrow>
               (case wrote now ((to_phase PhasePending)\<lparr>ar_backoff := retryAfter, ar_refusal := why\<rparr>) d1 of
                  (e, d2) \<Rightarrow> s\<lparr>dp_tables := d2, dp_problems := dp_problems s @ [RolloutInvalid]\<rparr>)
           | None \<Rightarrow>
               (case wrote now ((to_phase PhaseDraining)\<lparr>ar_dispatchEpoch := ho_epoch host, ar_clearRefusal := True\<rparr>) d1 of
                  (e, d2) \<Rightarrow> s\<lparr>dp_tables := d2, dp_inFlight := dp_inFlight s + 1, dp_told := dp_told s @ [rn_node n],
                     dp_problems := dp_problems s @ (case e of None \<Rightarrow> [] | Some x \<Rightarrow> [x])\<rparr>)))"

fun dispatchEach ::
  "Coordinator \<Rightarrow> (string \<Rightarrow> string option) \<Rightarrow> int \<Rightarrow> Rollout \<Rightarrow> (string \<rightharpoonup> Host) \<Rightarrow> RolloutNode list \<Rightarrow> dispatching \<Rightarrow> dispatching" where
  "dispatchEach c upgrade now current fleet [] s = s"
| "dispatchEach c upgrade now current fleet (n # rest) s =
     (if rn_phase n \<noteq> PhasePending then dispatchEach c upgrade now current fleet rest s
      else if po_cohort (ro_policy current) \<le> dp_inFlight s \<or> budgetSpent (po_failureBudget (ro_policy current)) (dp_failed s) then s
      else case fleet (rn_node n) of
        None \<Rightarrow> dispatchEach c upgrade now current fleet rest s
      | Some host \<Rightarrow>
          if \<not> ho_live host then dispatchEach c upgrade now current fleet rest s
          else if (case rn_nextAttemptAt n of None \<Rightarrow> False | Some due \<Rightarrow> now < due) then dispatchEach c upgrade now current fleet rest s
          else dispatchEach c upgrade now current fleet rest (dispatchUpgrade c upgrade now current n host s))"

definition dispatchPending ::
  "Coordinator \<Rightarrow> (string \<Rightarrow> string option) \<Rightarrow> int \<Rightarrow> Rollout \<Rightarrow> RolloutNode list \<Rightarrow> (string \<rightharpoonup> Host) \<Rightarrow> RolloutTables \<Rightarrow> dispatching" where
  "dispatchPending c upgrade now current nodes fleet d =
     (case tally nodes of (inFlight, failed) \<Rightarrow>
        dispatchEach c upgrade now current fleet nodes
          \<lparr>dp_inFlight = inFlight, dp_failed = failed, dp_told = [], dp_problems = [], dp_tables = d\<rparr>)"

section \<open>A pass\<close>

definition everyReports :: string where
  "everyReports = ''every required component reports the target''"

definition completeIfConverged :: "int \<Rightarrow> Rollout \<Rightarrow> RolloutTables \<Rightarrow> rolloutError option \<times> RolloutTables" where
  "completeIfConverged now current d =
     (case FinishOutcome now (ro_id current) StateCompleted everyReports d of
        Inr d' \<Rightarrow> (None, d')
      | Inl e \<Rightarrow> (if e = ErrOutstanding then None else Some e, d))"

definition advanceNodes ::
  "Coordinator \<Rightarrow> (string \<Rightarrow> string option) \<Rightarrow> int \<Rightarrow> Rollout \<Rightarrow> RolloutNode list \<Rightarrow> (string \<rightharpoonup> Host) \<Rightarrow> RolloutTables \<Rightarrow>
   rolloutError list \<times> string list \<times> RolloutTables" where
  "advanceNodes c upgrade now current nodes fleet d =
     (let (problems, d1) = settleAll now current fleet nodes d;
          s = (if problems = [] then dispatchPending c upgrade now current (ListRolloutNodes (ro_id current) d1) fleet d1
               else \<lparr>dp_inFlight = 0, dp_failed = 0, dp_told = [], dp_problems = problems, dp_tables = d1\<rparr>);
          (e, d2) = completeIfConverged now current (dp_tables s)
      in (dp_problems s @ (case e of None \<Rightarrow> [] | Some x \<Rightarrow> [x]), dp_told s, d2))"

definition coordinatorTick ::
  "Coordinator \<Rightarrow> (string \<Rightarrow> string option) \<Rightarrow> int \<Rightarrow> rolloutError + Host list \<Rightarrow> RolloutTables \<Rightarrow>
   rolloutError list \<times> string list \<times> RolloutTables" where
  "coordinatorTick c upgrade now hosts d =
     (case readOpen d of
        Inl e \<Rightarrow> (if e = ErrNoRollout then [] else [e], [], d)
      | Inr current \<Rightarrow>
          (case hosts of
             Inl e \<Rightarrow> ([e], [], d)
           | Inr hs \<Rightarrow>
               if \<not> Converged (ro_controllerPhase current)
               then (case observeController c now current d of
                       (e, d') \<Rightarrow> (case e of None \<Rightarrow> [] | Some x \<Rightarrow> [x], [], d'))
               else if \<not> Same (co_ourVersion c) (ro_targetVersion current) then ([], [], d)
               else advanceNodes c upgrade now current (ListRolloutNodes (ro_id current) d)
                      (map_of (rev (map (\<lambda>h. (ho_name h, h)) hs))) d))"

section \<open>Starting by itself\<close>

record Target =
  tg_version :: string
  tg_digest :: string

record StartPolicy =
  sp_enabled :: bool
  sp_openAt :: "(int \<Rightarrow> bool) option"
  sp_channel :: string
  sp_pin :: string
  sp_rollout :: RolloutPolicy

record Starter =
  st_policy :: StartPolicy
  st_ourVersion :: string

definition startSource :: "StartPolicy \<Rightarrow> string" where
  "startSource p = (if sp_pin p \<noteq> [] then ''pin '' @ sp_pin p else sp_channel p @ '' channel'')"

definition fleetOn :: "string \<Rightarrow> string \<Rightarrow> Host list \<Rightarrow> bool" where
  "fleetOn target ourVersion hosts \<longleftrightarrow> Same ourVersion target \<and> list_all (\<lambda>h. Same (ho_release h) target) hosts"

definition windowClosed :: "StartPolicy \<Rightarrow> int \<Rightarrow> bool" where
  "windowClosed p now = (case sp_openAt p of None \<Rightarrow> False | Some open_at \<Rightarrow> \<not> open_at now)"

definition older :: "string \<Rightarrow> string \<Rightarrow> bool" where
  "older a b \<longleftrightarrow> (case Compare a b of None \<Rightarrow> False | Some order \<Rightarrow> order < 0)"

definition superseded :: string where
  "superseded = ''superseded: the control plane runs a newer release''"

definition autoStart :: "Starter \<Rightarrow> Target \<Rightarrow> Host list \<Rightarrow> StartRequest" where
  "autoStart st target hosts =
     \<lparr>sr_channel = sp_channel (st_policy st), sr_targetVersion = tg_version target, sr_targetDigest = tg_digest target,
      sr_priorVersion = st_ourVersion st, sr_policy = (sp_rollout (st_policy st))\<lparr>po_allowDowngrade := False\<rparr>,
      sr_createdBy = ''automatic ('' @ startSource (st_policy st) @ '')'', sr_nodes = map ho_name hosts,
      sr_refuseAbortedTarget = True\<rparr>"

text \<open>
  The clock is read when a pass begins and again when it would start a rollout, which resolving
  a channel can put far apart: \<open>now\<close> and \<open>later\<close>.
\<close>

definition starterTick ::
  "Starter \<Rightarrow> int \<Rightarrow> int \<Rightarrow> string \<Rightarrow> Target option \<Rightarrow> rolloutError + Host list \<Rightarrow> RolloutTables \<Rightarrow> rolloutError option \<times> RolloutTables" where
  "starterTick st now later newID resolved hosts d =
     (if \<not> sp_enabled (st_policy st) then (None, d)
      else if windowClosed (st_policy st) now then (None, d)
      else case readOpen d of
        Inr current \<Rightarrow>
          if older (ro_targetVersion current) (st_ourVersion st) \<and> \<not> po_allowDowngrade (ro_policy current)
          then (case FinishOutcome now (ro_id current) StateAborted superseded d of Inl e \<Rightarrow> (Some e, d) | Inr d' \<Rightarrow> (None, d'))
          else (None, d)
      | Inl e \<Rightarrow>
          if e \<noteq> ErrNoRollout then (Some e, d)
          else case resolved of
            None \<Rightarrow> (None, d)
          | Some target \<Rightarrow>
              if tg_version target = [] \<or> tg_digest target = [] then (None, d)
              else case hosts of
                Inl e \<Rightarrow> (Some e, d)
              | Inr hs \<Rightarrow>
                  if hs = [] \<or> fleetOn (tg_version target) (st_ourVersion st) hs then (None, d)
                  else if older (tg_version target) (st_ourVersion st) then (None, d)
                  else if (case ReadNewestRolloutForTarget (tg_digest target) d of
                             None \<Rightarrow> False | Some newest \<Rightarrow> ro_state newest = StateAborted) then (None, d)
                  else if windowClosed (st_policy st) later then (None, d)
                  else case StartRollout later newID (autoStart st target hs) d of
                    Inr (_, d') \<Rightarrow> (None, d')
                  | Inl e \<Rightarrow> (if e = ErrAbortedTarget \<or> e = ErrOpenRollout then None else Some e, d))"

end
