(* ===== verification/Coordinator_Facts.thy ===== *)
theory Coordinator_Facts
  imports Rollout_Facts Rollout_Coordinator
begin

text \<open>
  What a pass of the coordinator does to the tables. The rows of one rollout are read as a map
  from host to row, and a write of the store is an update of that map; settling and dispatching
  are then statements about single rows.
\<close>

section \<open>Rows of a rollout\<close>

definition rowsOf :: "RolloutTables \<Rightarrow> string \<Rightarrow> string \<rightharpoonup> RolloutNode" where
  "rowsOf d i node = ReadRolloutNodeProgress i node d"

definition hostsEnrolled :: "RolloutTables \<Rightarrow> bool" where
  "hostsEnrolled d \<longleftrightarrow> [] \<notin> set (map rn_node (rolloutNodes d))"

lemma rowsOf_Some: "rowsOf d i node = Some n \<Longrightarrow> n \<in> set (rolloutNodes d) \<and> rn_rollout n = i \<and> rn_node n = node"
  by (auto simp: rowsOf_def ReadRolloutNodeProgress_def find_Some_iff)

lemma rowsOf_row:
  assumes "rolloutsOK d" and "n \<in> set (rolloutNodes d)"
  shows "rowsOf d (rn_rollout n) (rn_node n) = Some n"
proof -
  have "distinct (map (\<lambda>n. (rn_rollout n, rn_node n)) (rolloutNodes d))" using assms(1) by (simp add: rolloutsOK_def)
  from find_keyed [OF this, of "(rn_rollout n, rn_node n)" n] assms(2) show ?thesis
    by (simp add: rowsOf_def ReadRolloutNodeProgress_def)
qed

lemma ListRolloutNodes_set: "set (ListRolloutNodes i d) = {n \<in> set (rolloutNodes d). rn_rollout n = i}"
  by (auto simp: ListRolloutNodes_def)

lemma rowsOf_AdvanceRolloutNode:
  assumes "rolloutsOK d" and "rowsOf d (ar_rollout req) (ar_node req) = Some row"
  shows "rowsOf (AdvanceRolloutNode now req row d) (ar_rollout req) =
    (rowsOf d (ar_rollout req))(ar_node req \<mapsto> advancedRow now req row row)"
proof
  fix node
  let ?f = "\<lambda>n. if rn_rollout n = ar_rollout req \<and> rn_node n = ar_node req \<and> rn_phase n = rn_phase row
      then advancedRow now req row n else n"
  have "rowsOf (AdvanceRolloutNode now req row d) (ar_rollout req) node = map_option ?f (rowsOf d (ar_rollout req) node)"
    unfolding rowsOf_def ReadRolloutNodeProgress_def AdvanceRolloutNode_def upd_where_def
    by (simp, rule find_map_same) simp
  moreover have "?f n = n" if "rowsOf d (ar_rollout req) node = Some n" "node \<noteq> ar_node req" for n
    using rowsOf_Some [OF that(1)] that(2) by auto
  moreover have "?f row = advancedRow now req row row" using rowsOf_Some [OF assms(2)] by simp
  ultimately show "rowsOf (AdvanceRolloutNode now req row d) (ar_rollout req) node =
      ((rowsOf d (ar_rollout req))(ar_node req \<mapsto> advancedRow now req row row)) node"
    using assms(2) by (cases "rowsOf d (ar_rollout req) node") auto
qed

text \<open>A write about a host, and when it succeeds.\<close>

definition plainRequest :: "AdvanceRequest \<Rightarrow> bool" where
  "plainRequest req \<longleftrightarrow> ar_node req \<noteq> [] \<and> (ar_to req = PhaseBlocked \<longrightarrow> ar_blocker req \<noteq> [])
     \<and> ar_to req \<notin> {PhaseExempt, PhaseDecommissioned} \<and> (ar_refusal req = [] \<or> \<not> ar_clearRefusal req)"

lemma AdvanceRollout_row:
  assumes "rolloutsOK d" and "plainRequest req" and "rowsOf d (ar_rollout req) (ar_node req) = Some row"
    and "KnownPhase (ar_to req)" and "CanTransition (rn_phase row) (ar_to req)"
  obtains d' where "AdvanceRollout now req d = Inr d'" "rolloutsOK d'" "rollouts d' = rollouts d"
    "rowsOf d' (ar_rollout req) = (rowsOf d (ar_rollout req))(ar_node req \<mapsto> advancedRow now req row row)"
    "hostsEnrolled d' = hostsEnrolled d"
proof -
  let ?d = "AdvanceRolloutNode now req row d"
  have "KnownPhase (rn_phase row)" using rowsOf_Some [OF assms(3)] assms(1) by (simp add: rolloutsOK_def)
  then have "AdvanceRollout now req d = Inr ?d"
    using assms(2-5) by (auto simp: AdvanceRollout_def advanceNode_def plainRequest_def rolloutTransition_def rowsOf_def)
  moreover from this have "rolloutsOK ?d" using AdvanceRollout_kept [OF assms(1)] by blast
  moreover have "hostsEnrolled ?d = hostsEnrolled d"
    unfolding hostsEnrolled_def AdvanceRolloutNode_def by (simp add: map_upd_where_same del: set_map)
  ultimately show ?thesis using that rowsOf_AdvanceRolloutNode [OF assms(1,3)] by (simp add: AdvanceRolloutNode_def)
qed

section \<open>Counting\<close>

definition disturbed :: "RolloutPhase \<Rightarrow> bool" where
  "disturbed p \<longleftrightarrow> \<not> rolloutTerminal p \<and> p \<notin> {PhasePending, PhaseBlocked, PhaseRolledBack}"

definition inPhase :: "(RolloutPhase \<Rightarrow> bool) \<Rightarrow> (string \<rightharpoonup> RolloutNode) \<Rightarrow> string set" where
  "inPhase P m = {node. \<exists>row. m node = Some row \<and> P (rn_phase row)}"

abbreviation "failedPhase p \<equiv> p = PhaseBlocked \<or> p = PhaseRolledBack"

lemma tally_lengths:
  "tally ns = (int (length (filter (\<lambda>n. disturbed (rn_phase n)) ns)), int (length (filter (\<lambda>n. failedPhase (rn_phase n)) ns)))"
  by (induction ns) (auto simp: disturbed_def rolloutTerminal_def)

lemma inPhase_rows:
  assumes "rolloutsOK d"
  shows "inPhase P (rowsOf d i) = rn_node ` set (filter (\<lambda>n. P (rn_phase n)) (ListRolloutNodes i d))"
    and "card (inPhase P (rowsOf d i)) = length (filter (\<lambda>n. P (rn_phase n)) (ListRolloutNodes i d))"
    and "finite (inPhase P (rowsOf d i))"
proof -
  show eq: "inPhase P (rowsOf d i) = rn_node ` set (filter (\<lambda>n. P (rn_phase n)) (ListRolloutNodes i d))"
    using rowsOf_Some rowsOf_row [OF assms] by (fastforce simp: inPhase_def ListRolloutNodes_set)
  have "distinct (map (\<lambda>n. (rn_rollout n, rn_node n)) (rolloutNodes d))" using assms by (simp add: rolloutsOK_def)
  then have dist: "distinct (rolloutNodes d)" and inj: "inj_on (\<lambda>n. (rn_rollout n, rn_node n)) (set (rolloutNodes d))"
    by (simp_all add: distinct_map)
  have "distinct (ListRolloutNodes i d)" using dist by (simp add: ListRolloutNodes_def)
  moreover have "inj_on rn_node (set (ListRolloutNodes i d))"
    using inj by (auto simp: ListRolloutNodes_set inj_on_def)
  ultimately have "distinct (map rn_node (filter (\<lambda>n. P (rn_phase n)) (ListRolloutNodes i d)))"
    by (auto simp: distinct_map intro: inj_on_subset)
  then show "card (inPhase P (rowsOf d i)) = length (filter (\<lambda>n. P (rn_phase n)) (ListRolloutNodes i d))"
    unfolding eq by (metis distinct_card length_map list.set_map)
  show "finite (inPhase P (rowsOf d i))" unfolding eq by simp
qed

lemma tally_rows:
  assumes "rolloutsOK d"
  shows "tally (ListRolloutNodes i d) = (int (card (inPhase disturbed (rowsOf d i))), int (card (inPhase failedPhase (rowsOf d i))))"
  by (simp add: tally_lengths inPhase_rows(2) [OF assms])

lemma inPhase_upd:
  "inPhase P (m(node \<mapsto> row)) = (if P (rn_phase row) then insert node (inPhase P m) else inPhase P m - {node})"
  by (auto simp: inPhase_def)


section \<open>The walk\<close>

text \<open>A list of phases a component can be taken through, one after the other, up to committed.\<close>

fun phaseChain :: "RolloutPhase \<Rightarrow> RolloutPhase list \<Rightarrow> bool" where
  "phaseChain p [] \<longleftrightarrow> False"
| "phaseChain p (q # qs) \<longleftrightarrow> CanTransition p q \<and> KnownPhase q \<and> q \<notin> {PhaseBlocked, PhaseExempt, PhaseDecommissioned}
     \<and> (q = PhaseCommitted \<or> phaseChain q qs)"

lemma advanceTo_sel [simp]:
  "ar_rollout (advanceTo i node p) = i" "ar_node (advanceTo i node p) = node" "ar_to (advanceTo i node p) = p"
  "ar_blocker (advanceTo i node p) = []" "ar_refusal (advanceTo i node p) = []" "\<not> ar_clearRefusal (advanceTo i node p)"
  "ar_convergedDigest (advanceTo i node p) = []" "ar_dispatchEpoch (advanceTo i node p) = 0"
  by (simp_all add: advanceTo_def)

definition committedOn :: "string \<Rightarrow> RolloutNode \<Rightarrow> bool" where
  "committedOn digest row \<longleftrightarrow> rn_phase row = PhaseCommitted \<and> (digest \<noteq> [] \<longrightarrow> rn_convergedDigest row = digest)"

lemma walkPhases_commits:
  assumes "phaseChain (rn_phase row) ps" and "rolloutsOK d" and "rowsOf d i node = Some row" and "node \<noteq> []"
  shows "\<exists>d' row'. walkPhases now i node PhaseCommitted digest ps d = (None, d') \<and> rolloutsOK d' \<and> rollouts d' = rollouts d
    \<and> rowsOf d' i = (rowsOf d i)(node \<mapsto> row') \<and> committedOn digest row' \<and> hostsEnrolled d' = hostsEnrolled d"
  using assms
proof (induction ps arbitrary: d row)
  case (Cons q qs)
  let ?req = "if q = PhaseCommitted then (advanceTo i node q)\<lparr>ar_convergedDigest := digest, ar_clearRefusal := (node \<noteq> [])\<rparr>
      else advanceTo i node q"
  have req: "ar_rollout ?req = i" "ar_node ?req = node" "ar_to ?req = q" "plainRequest ?req"
    using Cons.prems by (auto simp: plainRequest_def)
  have trans: "KnownPhase q" "CanTransition (rn_phase row) q" using Cons.prems(1) by simp_all
  obtain d1 where d1: "AdvanceRollout now ?req d = Inr d1" "rolloutsOK d1" "rollouts d1 = rollouts d"
    "rowsOf d1 i = (rowsOf d i)(node \<mapsto> advancedRow now ?req row row)" "hostsEnrolled d1 = hostsEnrolled d"
    using AdvanceRollout_row [OF Cons.prems(2) req(4), of row now] Cons.prems(3) trans unfolding req(1-3) by metis
  have w: "walkPhases now i node PhaseCommitted digest (q # qs) d =
      (if q = PhaseCommitted then (None, d1) else walkPhases now i node PhaseCommitted digest qs d1)"
    using d1(1) by (simp add: wrote_def andThen_def Let_def)
  show ?case
  proof (cases "q = PhaseCommitted")
    case True
    then have "committedOn digest (advancedRow now ?req row row)" by (simp add: committedOn_def)
    then show ?thesis unfolding w using d1 True by (intro exI [of _ d1] exI [of _ "advancedRow now ?req row row"]) simp
  next
    case False
    have "phaseChain (rn_phase (advancedRow now ?req row row)) qs" using Cons.prems(1) False by simp
    moreover have "rowsOf d1 i node = Some (advancedRow now ?req row row)" by (simp add: d1(4))
    ultimately obtain d' row' where "walkPhases now i node PhaseCommitted digest qs d1 = (None, d')" "rolloutsOK d'" "rollouts d' = rollouts d1"
      "rowsOf d' i = (rowsOf d1 i)(node \<mapsto> row')" "committedOn digest row'" "hostsEnrolled d' = hostsEnrolled d1"
      using Cons.IH d1(2) Cons.prems(4) by blast
    then show ?thesis unfolding w using d1 False by (intro exI [of _ d'] exI [of _ row']) simp
  qed
qed simp

definition resumable :: "RolloutPhase \<Rightarrow> bool" where
  "resumable p \<longleftrightarrow> p \<in> {PhasePending, PhaseDraining, PhaseReadyToInstall, PhaseInstalling, PhaseVerifying}"

lemma resumable_chain:
  assumes "resumable p"
  shows "\<exists>k. resumePoint p = Some k \<and> phaseChain p (drop k convergenceWalk)"
  using assms unfolding resumable_def
  by (elim insertE emptyE) (simp_all add: resumePoint_def convergenceWalk_def rollout_table)

lemma not_resumable: "KnownPhase p \<Longrightarrow> \<not> resumable p \<Longrightarrow> \<not> rolloutTerminal p \<Longrightarrow> resumePoint p = None"
  unfolding KnownPhase_iff
  by (elim insertE emptyE) (simp_all add: resumable_def rolloutTerminal_def resumePoint_def convergenceWalk_def)

lemma walkTo_commits:
  assumes "resumable (rn_phase row)" and "rolloutsOK d" and "rowsOf d i node = Some row" and "node \<noteq> []"
  obtains d' row' where "walkTo now i node (rn_phase row) PhaseCommitted digest d = (None, d')" "rolloutsOK d'"
    "rollouts d' = rollouts d" "rowsOf d' i = (rowsOf d i)(node \<mapsto> row')" "committedOn digest row'" "hostsEnrolled d' = hostsEnrolled d"
proof -
  obtain k where k: "resumePoint (rn_phase row) = Some k" "phaseChain (rn_phase row) (drop k convergenceWalk)"
    using resumable_chain [OF assms(1)] by blast
  then show ?thesis using walkPhases_commits [OF k(2) assms(2-4), of now digest] that by (auto simp: walkTo_def)
qed


section \<open>Settling one host\<close>

text \<open>What a host has to report to be taken as converged.\<close>

definition reportsTarget :: "Rollout \<Rightarrow> Host option \<Rightarrow> bool" where
  "reportsTarget current known \<longleftrightarrow> (\<exists>h. known = Some h \<and> ho_live h \<and> Same (ho_release h) (ro_targetVersion current)
     \<and> (ho_digest h = [] \<or> ho_digest h = ro_targetDigest current))"

text \<open>How settling may change a row.\<close>

definition settledRow :: "Rollout \<Rightarrow> Host option \<Rightarrow> RolloutNode \<Rightarrow> RolloutNode \<Rightarrow> bool" where
  "settledRow current known n row \<longleftrightarrow>
     (disturbed (rn_phase row) \<longrightarrow> disturbed (rn_phase n))
     \<and> (rn_phase row = PhasePending \<longrightarrow> row = n)
     \<and> (rn_phase row = PhaseCommitted \<longrightarrow> row = n
          \<or> reportsTarget current known \<and> committedOn (ho_digest (the known)) row)
     \<and> (reportsTarget current known \<longrightarrow> resumable (rn_phase n) \<or> rn_phase n = PhaseRolledBack \<longrightarrow> rn_phase row = PhaseCommitted)
     \<and> (rolloutTerminal (rn_phase n) \<longrightarrow> row = n)
     \<and> ((\<forall>h. known = Some h \<longrightarrow> \<not> ho_live h) \<longrightarrow> row = n)"

lemma settledRow_same:
  "\<not> (reportsTarget current known \<and> (resumable (rn_phase n) \<or> rn_phase n = PhaseRolledBack)) \<Longrightarrow> settledRow current known n n"
  by (auto simp: settledRow_def)

definition settlesTo :: "RolloutTables \<Rightarrow> string \<Rightarrow> string \<Rightarrow> RolloutNode \<Rightarrow> RolloutTables \<Rightarrow> bool" where
  "settlesTo d i node row d' \<longleftrightarrow> rolloutsOK d' \<and> rollouts d' = rollouts d \<and> rowsOf d' i = (rowsOf d i)(node \<mapsto> row)
     \<and> hostsEnrolled d' = hostsEnrolled d"

lemma wrote_row:
  assumes "rolloutsOK d" and "plainRequest req" and "rowsOf d (ar_rollout req) (ar_node req) = Some row"
    and "KnownPhase (ar_to req)" and "CanTransition (rn_phase row) (ar_to req)"
  obtains d' where "wrote now req d = (None, d')" "settlesTo d (ar_rollout req) (ar_node req) (advancedRow now req row row) d'"
proof -
  obtain d' where d': "AdvanceRollout now req d = Inr d'" "rolloutsOK d'" "rollouts d' = rollouts d"
    "rowsOf d' (ar_rollout req) = (rowsOf d (ar_rollout req))(ar_node req \<mapsto> advancedRow now req row row)"
    "hostsEnrolled d' = hostsEnrolled d" by (rule AdvanceRollout_row [OF assms])
  then show ?thesis by (intro that [of d']) (simp_all add: wrote_def settlesTo_def)
qed

lemma settlesTo_trans: "settlesTo d i node r d' \<Longrightarrow> settlesTo d' i node s d'' \<Longrightarrow> settlesTo d i node s d''"
  by (simp add: settlesTo_def)

lemma settlesTo_row: "settlesTo d i node r d' \<Longrightarrow> rowsOf d' i node = Some r \<and> rolloutsOK d'"
  by (simp add: settlesTo_def)

lemma settlesTo_refl: "rolloutsOK d \<Longrightarrow> rowsOf d i node = Some row \<Longrightarrow> settlesTo d i node row d"
  by (simp add: settlesTo_def fun_upd_idem)

lemma walkTo_settles:
  assumes "resumable (rn_phase row)" and "rolloutsOK d" and "rowsOf d i node = Some row" and "node \<noteq> []"
  obtains d' row' where "walkTo now i node (rn_phase row) PhaseCommitted digest d = (None, d')" "settlesTo d i node row' d'"
    "committedOn digest row'"
  using walkTo_commits [OF assms] that unfolding settlesTo_def by metis

lemma into_blocked: "KnownPhase p \<Longrightarrow> \<not> rolloutTerminal p \<Longrightarrow> CanTransition p PhaseBlocked"
  unfolding KnownPhase_iff by (elim insertE emptyE) (simp_all add: rolloutTerminal_def rollout_table)

lemma settles_blocked:
  assumes "rolloutsOK d" and "rowsOf d i node = Some n" and "node \<noteq> []" and "\<not> rolloutTerminal (rn_phase n)" and "why \<noteq> []"
  obtains d' row where "AdvanceRollout now ((advanceTo i node PhaseBlocked)\<lparr>ar_blocker := why\<rparr>) d = Inr d'"
    "settlesTo d i node row d'" "rn_phase row = PhaseBlocked"
proof -
  let ?req = "(advanceTo i node PhaseBlocked)\<lparr>ar_blocker := why\<rparr>"
  have req: "ar_rollout ?req = i" "ar_node ?req = node" "ar_to ?req = PhaseBlocked" "plainRequest ?req"
    using assms(3,5) by (simp_all add: plainRequest_def)
  have k: "KnownPhase (rn_phase n)" using assms(1) rowsOf_Some [OF assms(2)] by (simp add: rolloutsOK_def)
  have t: "KnownPhase PhaseBlocked" "CanTransition (rn_phase n) PhaseBlocked" using into_blocked [OF k assms(4)] by (simp_all add: KnownPhase_iff)
  obtain d' where "AdvanceRollout now ?req d = Inr d'" "settlesTo d i node (advancedRow now ?req n n) d'"
    using AdvanceRollout_row [OF assms(1) req(4), of n now] assms(2) t unfolding req(1-3) settlesTo_def by metis
  then show ?thesis using that by (metis advancedRow_sel(3) req(3))
qed


lemma settles_rolledBack:
  assumes "rolloutsOK d" and "rowsOf d (ro_id current) (rn_node n) = Some row" and "rn_node n \<noteq> []" and "rn_phase row = PhaseRollingBack"
  obtains d' row' where "recordRolledBack now current n host d = (None, d')" "settlesTo d (ro_id current) (rn_node n) row' d'"
    "rn_phase row' = PhaseRolledBack"
proof -
  let ?req = "(advanceTo (ro_id current) (rn_node n) PhaseRolledBack)\<lparr>ar_rollbackResult := rollbackResult host current\<rparr>"
  have req: "ar_rollout ?req = ro_id current" "ar_node ?req = rn_node n" "ar_to ?req = PhaseRolledBack" "plainRequest ?req"
    using assms(3) by (simp_all add: plainRequest_def)
  have t: "KnownPhase PhaseRolledBack" "CanTransition (rn_phase row) PhaseRolledBack"
    using assms(4) by (simp_all add: KnownPhase_iff rollout_table)
  obtain d' where "wrote now ?req d = (None, d')" "settlesTo d (ro_id current) (rn_node n) (advancedRow now ?req row row) d'"
    using wrote_row [OF assms(1) req(4), of row now] assms(2) t unfolding req(1-3) by metis
  then show ?thesis using that unfolding recordRolledBack_def by (metis advancedRow_sel(3) req(3))
qed

lemma settles_draining:
  assumes "rolloutsOK d" and "rowsOf d (ro_id current) (rn_node n) = Some n" and "rn_node n \<noteq> []" and "rn_phase n = PhaseDraining"
  obtains d' row' where "settleDrainingHost now current n host d = (None, d')" "settlesTo d (ro_id current) (rn_node n) row' d'"
    "row' = n \<or> rn_phase row' = PhaseRolledBack"
proof (cases "rn_dispatchEpoch n = 0 \<or> ho_epoch host \<le> rn_dispatchEpoch n")
  case True
  then show ?thesis using that [of d n] settlesTo_refl [OF assms(1,2)] by (simp add: settleDrainingHost_def)
next
  case False
  let ?req = "(advanceTo (ro_id current) (rn_node n) PhaseRollingBack)\<lparr>ar_rollbackResult := rollbackResult host current\<rparr>"
  have req: "ar_rollout ?req = ro_id current" "ar_node ?req = rn_node n" "ar_to ?req = PhaseRollingBack" "plainRequest ?req"
    using assms(3) by (simp_all add: plainRequest_def)
  have t: "KnownPhase PhaseRollingBack" "CanTransition (rn_phase n) PhaseRollingBack"
    using assms(4) by (simp_all add: KnownPhase_iff rollout_table)
  obtain d1 where d1: "wrote now ?req d = (None, d1)" "settlesTo d (ro_id current) (rn_node n) (advancedRow now ?req n n) d1"
    using wrote_row [OF assms(1) req(4), of n now] assms(2) t unfolding req(1-3) by metis
  obtain d' row' where d': "recordRolledBack now current n host d1 = (None, d')" "settlesTo d1 (ro_id current) (rn_node n) row' d'"
    "rn_phase row' = PhaseRolledBack"
    by (rule settles_rolledBack [where now = now and host = host, OF conjunct2 conjunct1 assms(3),
          OF settlesTo_row settlesTo_row, OF d1(2) d1(2)]) simp_all
  have "settleDrainingHost now current n host d = (None, d')"
    using False d1(1) d'(1) by (simp add: settleDrainingHost_def andThen_def)
  then show ?thesis using that settlesTo_trans [OF d1(2) d'(2)] d'(3) by blast
qed

lemma settles_converge:
  assumes "rolloutsOK d" and "rowsOf d (ro_id current) (rn_node n) = Some n" and "rn_node n \<noteq> []" and "\<not> rolloutTerminal (rn_phase n)"
  obtains d' row' where "convergeHost now current n digest d = (None, d')" "settlesTo d (ro_id current) (rn_node n) row' d'"
    "if resumable (rn_phase n) \<or> rn_phase n = PhaseRolledBack then committedOn digest row' else row' = n"
proof -
  have k: "KnownPhase (rn_phase n)" using assms(1) rowsOf_Some [OF assms(2)] by (simp add: rolloutsOK_def)
  consider (rolled) "rn_phase n = PhaseRolledBack" | (resume) "rn_phase n \<noteq> PhaseRolledBack" "resumable (rn_phase n)"
    | (stuck) "rn_phase n \<noteq> PhaseRolledBack" "\<not> resumable (rn_phase n)" by blast
  then show ?thesis
  proof cases
    case rolled
    let ?req = "advanceTo (ro_id current) (rn_node n) PhasePending"
    have req: "plainRequest ?req" using assms(3) by (simp add: plainRequest_def)
    have t: "KnownPhase PhasePending" "CanTransition (rn_phase n) PhasePending"
      using rolled by (simp_all add: KnownPhase_iff rollout_table)
    obtain d1 where d1: "wrote now ?req d = (None, d1)" "settlesTo d (ro_id current) (rn_node n) (advancedRow now ?req n n) d1"
      using wrote_row [OF assms(1) req, of n now] assms(2) t by auto
    have p: "rn_phase (advancedRow now ?req n n) = PhasePending" "resumable (rn_phase (advancedRow now ?req n n))"
      by (simp_all add: resumable_def)
    have r1: "rolloutsOK d1" "rowsOf d1 (ro_id current) (rn_node n) = Some (advancedRow now ?req n n)"
      using settlesTo_row [OF d1(2)] by simp_all
    obtain d' row' where "walkTo now (ro_id current) (rn_node n) PhasePending PhaseCommitted digest d1 = (None, d')"
      "settlesTo d1 (ro_id current) (rn_node n) row' d'" "committedOn digest row'"
      by (rule walkTo_settles [OF p(2) r1 assms(3), unfolded p(1)])
    then show ?thesis using that [of d' row'] rolled d1 settlesTo_trans [OF d1(2)] by (simp add: convergeHost_def andThen_def)
  next
    case resume
    then show ?thesis using walkTo_settles [OF resume(2) assms(1-3), of now digest] that by (auto simp: convergeHost_def)
  next
    case stuck
    then have "walkTo now (ro_id current) (rn_node n) (rn_phase n) PhaseCommitted digest d = (None, d)"
      using not_resumable [OF k] assms(4) by (simp add: walkTo_def)
    then show ?thesis using that [of d n] stuck settlesTo_refl [OF assms(1,2)] by (simp add: convergeHost_def)
  qed
qed

lemma settles_node:
  assumes "rolloutsOK d" and "rowsOf d (ro_id current) (rn_node n) = Some n" and "rn_node n \<noteq> []"
  obtains d' row' where "settleNode now current n known d = (None, d')" "settlesTo d (ro_id current) (rn_node n) row' d'"
    "settledRow current known n row'"
proof -
  note refl = settlesTo_refl [OF assms(1,2)]
  note dis = disturbed_def rolloutTerminal_def resumable_def
  show ?thesis
  proof (cases "rolloutTerminal (rn_phase n) \<or> (case known of None \<Rightarrow> True | Some h \<Rightarrow> \<not> ho_live h)")
    case True
    then have "settleNode now current n known d = (None, d)" by (auto simp: settleNode_def split: option.splits)
    moreover have "settledRow current known n n"
      using True by (intro settledRow_same) (auto simp: reportsTarget_def dis split: option.splits)
    ultimately show ?thesis using that refl by blast
  next
    case False
    then obtain h where h: "known = Some h" "ho_live h" "\<not> rolloutTerminal (rn_phase n)" by (auto split: option.splits)
    consider (half) "rn_phase n = PhaseRollingBack" | (at) "rn_phase n \<noteq> PhaseRollingBack" "Same (ho_release h) (ro_targetVersion current)"
      | (drains) "\<not> Same (ho_release h) (ro_targetVersion current)" "rn_phase n = PhaseDraining"
      | (else) "\<not> Same (ho_release h) (ro_targetVersion current)" "rn_phase n \<notin> {PhaseDraining, PhaseRollingBack}" by auto
    then show ?thesis
    proof cases
      case half
      obtain d' row' where r: "recordRolledBack now current n h d = (None, d')" "settlesTo d (ro_id current) (rn_node n) row' d'"
        "rn_phase row' = PhaseRolledBack"
        by (rule settles_rolledBack [OF assms half])
      have "settledRow current known n row'" using r(3) half h(1,2) by (simp add: settledRow_def dis)
      then show ?thesis using that r(1,2) h half by (simp add: settleNode_def)
    next
      case drains
      obtain d' row' where r: "settleDrainingHost now current n h d = (None, d')" "settlesTo d (ro_id current) (rn_node n) row' d'"
        "row' = n \<or> rn_phase row' = PhaseRolledBack"
        by (rule settles_draining [OF assms drains(2)])
      have "\<not> reportsTarget current known" using drains(1) h(1) by (simp add: reportsTarget_def)
      then have "settledRow current known n row'" using r(3) drains(2) settledRow_same h(1,2) by (auto simp: settledRow_def dis)
      then show ?thesis using that r(1,2) h drains by (simp add: settleNode_def)
    next
      case else
      then have "\<not> reportsTarget current known" using h(1) by (simp add: reportsTarget_def)
      then have "settledRow current known n n" by (intro settledRow_same) simp
      then show ?thesis using that refl h else by (simp add: settleNode_def)
    next
      case at
      show ?thesis
      proof (cases "ho_digest h \<noteq> [] \<and> ho_digest h \<noteq> ro_targetDigest current")
        case True
        obtain d' row' where r: "AdvanceRollout now ((advanceTo (ro_id current) (rn_node n) PhaseBlocked)\<lparr>ar_blocker := otherBytes\<rparr>) d = Inr d'"
          "settlesTo d (ro_id current) (rn_node n) row' d'" "rn_phase row' = PhaseBlocked"
          by (rule settles_blocked [OF assms h(3), of otherBytes]) (simp add: otherBytes_def)
        have "\<not> reportsTarget current known" using True h(1) by (simp add: reportsTarget_def)
        then have "settledRow current known n row'" using r(3) h by (simp add: settledRow_def dis)
        then show ?thesis using that r(1,2) h at True by (simp add: settleNode_def settleAtTarget_def wrote_def)
      next
        case False
        obtain d' row' where r: "convergeHost now current n (ho_digest h) d = (None, d')" "settlesTo d (ro_id current) (rn_node n) row' d'"
          "if resumable (rn_phase n) \<or> rn_phase n = PhaseRolledBack then committedOn (ho_digest h) row' else row' = n"
          by (rule settles_converge [OF assms h(3)])
        have rep: "reportsTarget current known" using False at(2) h by (simp add: reportsTarget_def)
        have "settledRow current known n row'"
        proof (cases "resumable (rn_phase n) \<or> rn_phase n = PhaseRolledBack")
          case True
          then show ?thesis using r(3) rep h by (simp add: settledRow_def committedOn_def dis)
        next
          case False
          then show ?thesis using r(3) settledRow_same by auto
        qed
        then show ?thesis using that r(1,2) h at False by (simp add: settleNode_def settleAtTarget_def)
      qed
    qed
  qed
qed


section \<open>Settling the fleet\<close>

lemma settleAll_rows:
  assumes "rolloutsOK d" and "hostsEnrolled d" and "distinct (map rn_node ns)"
    and "\<forall>n \<in> set ns. rowsOf d (ro_id current) (rn_node n) = Some n"
  shows "\<exists>d'. settleAll now current fleet ns d = ([], d') \<and> rolloutsOK d' \<and> hostsEnrolled d' \<and> rollouts d' = rollouts d
    \<and> (\<forall>node. node \<notin> rn_node ` set ns \<longrightarrow> rowsOf d' (ro_id current) node = rowsOf d (ro_id current) node)
    \<and> (\<forall>n \<in> set ns. \<exists>row. rowsOf d' (ro_id current) (rn_node n) = Some row \<and> settledRow current (fleet (rn_node n)) n row)"
  using assms
proof (induction ns arbitrary: d)
  case (Cons n ns)
  have n: "rowsOf d (ro_id current) (rn_node n) = Some n" using Cons.prems(4) by simp
  have "rn_node n \<noteq> []" using Cons.prems(2) rowsOf_Some [OF n] by (force simp: hostsEnrolled_def)
  obtain d1 row where r: "settleNode now current n (fleet (rn_node n)) d = (None, d1)"
    "settlesTo d (ro_id current) (rn_node n) row d1" "settledRow current (fleet (rn_node n)) n row"
    by (rule settles_node [OF Cons.prems(1) n \<open>rn_node n \<noteq> []\<close>])
  have rows1: "rowsOf d1 (ro_id current) = (rowsOf d (ro_id current))(rn_node n \<mapsto> row)" using r(2) by (simp add: settlesTo_def)
  have rest: "\<forall>m \<in> set ns. rowsOf d1 (ro_id current) (rn_node m) = Some m"
  proof
    fix m assume m: "m \<in> set ns"
    then have "rn_node m \<noteq> rn_node n" using Cons.prems(3) by (simp add: image_iff) (metis m)
    then show "rowsOf d1 (ro_id current) (rn_node m) = Some m" using Cons.prems(4) m unfolding rows1 by (metis fun_upd_other list.set_intros(2))
  qed
  have one: "rolloutsOK d1" "hostsEnrolled d1" "distinct (map rn_node ns)"
    using r(2) Cons.prems(2,3) by (simp_all add: settlesTo_def)
  obtain d' where d': "settleAll now current fleet ns d1 = ([], d')" "rolloutsOK d'" "hostsEnrolled d'" "rollouts d' = rollouts d1"
    "\<forall>node. node \<notin> rn_node ` set ns \<longrightarrow> rowsOf d' (ro_id current) node = rowsOf d1 (ro_id current) node"
    "\<forall>n \<in> set ns. \<exists>row. rowsOf d' (ro_id current) (rn_node n) = Some row \<and> settledRow current (fleet (rn_node n)) n row"
    using Cons.IH [OF one rest] by blast
  have "rowsOf d' (ro_id current) (rn_node n) = Some row" using d'(5) Cons.prems(3) by (simp add: rows1)
  moreover have "rollouts d1 = rollouts d" using r(2) by (simp add: settlesTo_def)
  ultimately show ?case using d' r(1,3) by (intro exI [of _ d']) (simp add: rows1)
qed simp

lemma ListRolloutNodes_distinct:
  assumes "rolloutsOK d"
  shows "distinct (map rn_node (ListRolloutNodes i d))" and "n \<in> set (ListRolloutNodes i d) \<Longrightarrow> rowsOf d i (rn_node n) = Some n"
    and "rowsOf d i node = Some n \<Longrightarrow> n \<in> set (ListRolloutNodes i d) \<and> rn_node n = node"
proof -
  have "inPhase (\<lambda>_. True) (rowsOf d i) = rn_node ` set (ListRolloutNodes i d)" using inPhase_rows(1) [OF assms, of "\<lambda>_. True"] by simp
  moreover have "card (inPhase (\<lambda>_. True) (rowsOf d i)) = length (ListRolloutNodes i d)" using inPhase_rows(2) [OF assms, of "\<lambda>_. True"] by simp
  ultimately show "distinct (map rn_node (ListRolloutNodes i d))" by (simp add: card_distinct)
  show "n \<in> set (ListRolloutNodes i d) \<Longrightarrow> rowsOf d i (rn_node n) = Some n"
    using rowsOf_row [OF assms] by (auto simp: ListRolloutNodes_set)
  show "rowsOf d i node = Some n \<Longrightarrow> n \<in> set (ListRolloutNodes i d) \<and> rn_node n = node"
    using rowsOf_Some by (auto simp: ListRolloutNodes_set)
qed

lemma settle_rows:
  assumes "rolloutsOK d" and "hostsEnrolled d"
  obtains d' where "settleAll now current fleet (ListRolloutNodes (ro_id current) d) d = ([], d')" "rolloutsOK d'" "hostsEnrolled d'"
    "rollouts d' = rollouts d"
    "\<forall>node. case rowsOf d (ro_id current) node of None \<Rightarrow> rowsOf d' (ro_id current) node = None
       | Some n \<Rightarrow> \<exists>row. rowsOf d' (ro_id current) node = Some row \<and> settledRow current (fleet node) n row"
proof -
  let ?ns = "ListRolloutNodes (ro_id current) d"
  note L = ListRolloutNodes_distinct [OF assms(1), where i = "ro_id current"]
  obtain d' where d': "settleAll now current fleet ?ns d = ([], d')" "rolloutsOK d'" "hostsEnrolled d'" "rollouts d' = rollouts d"
    "\<forall>node. node \<notin> rn_node ` set ?ns \<longrightarrow> rowsOf d' (ro_id current) node = rowsOf d (ro_id current) node"
    "\<forall>n \<in> set ?ns. \<exists>row. rowsOf d' (ro_id current) (rn_node n) = Some row \<and> settledRow current (fleet (rn_node n)) n row"
    using settleAll_rows [OF assms L(1), of current now fleet] L(2) by blast
  have "case rowsOf d (ro_id current) node of None \<Rightarrow> rowsOf d' (ro_id current) node = None
       | Some n \<Rightarrow> \<exists>row. rowsOf d' (ro_id current) node = Some row \<and> settledRow current (fleet node) n row" for node
  proof (cases "rowsOf d (ro_id current) node")
    case None
    then have "node \<notin> rn_node ` set ?ns" using L(2) by force
    then show ?thesis using d'(5) None by simp
  next
    case (Some n)
    then show ?thesis using d'(6) L(3) [OF Some] by auto
  qed
  then show ?thesis using that d'(1-4) by blast
qed

lemma settled_inFlight:
  assumes "rolloutsOK d"
    and "\<forall>node. case rowsOf d i node of None \<Rightarrow> rowsOf d' i node = None
       | Some n \<Rightarrow> \<exists>row. rowsOf d' i node = Some row \<and> settledRow current (fleet node) n row"
  shows "card (inPhase disturbed (rowsOf d' i)) \<le> card (inPhase disturbed (rowsOf d i))"
proof (rule card_mono [OF inPhase_rows(3) [OF assms(1)]])
  show "inPhase disturbed (rowsOf d' i) \<subseteq> inPhase disturbed (rowsOf d i)"
  proof
    fix node assume "node \<in> inPhase disturbed (rowsOf d' i)"
    then obtain row where "rowsOf d' i node = Some row" "disturbed (rn_phase row)" by (auto simp: inPhase_def)
    then show "node \<in> inPhase disturbed (rowsOf d i)"
      using assms(2) [rule_format, of node] by (auto simp: inPhase_def settledRow_def split: option.splits)
  qed
qed

section \<open>Dispatching\<close>

definition countsKept :: "string \<Rightarrow> dispatching \<Rightarrow> bool" where
  "countsKept i s \<longleftrightarrow> rolloutsOK (dp_tables s) \<and> hostsEnrolled (dp_tables s)
     \<and> dp_inFlight s = int (card (inPhase disturbed (rowsOf (dp_tables s) i)))
     \<and> dp_failed s = int (card (inPhase failedPhase (rowsOf (dp_tables s) i)))"

definition toldTo :: "Coordinator \<Rightarrow> (string \<Rightarrow> string option) \<Rightarrow> (string \<rightharpoonup> Host) \<Rightarrow> string \<Rightarrow> RolloutTables \<Rightarrow> string \<Rightarrow> bool" where
  "toldTo c upgrade fleet i d node \<longleftrightarrow> upgrade node = None
     \<and> (\<exists>h. fleet node = Some h \<and> ho_live h \<and> \<not> (0 < ho_wire h \<and> ho_wire h < co_minWire c)
         \<and> (\<exists>row. rowsOf d i node = Some row \<and> rn_phase row = PhaseDraining \<and> (ho_epoch h \<noteq> 0 \<longrightarrow> rn_dispatchEpoch row = ho_epoch h)))"

lemma countsKept_upd:
  assumes "countsKept i s" and "rowsOf (dp_tables s) i node = Some n" and "rn_phase n = PhasePending"
    and "settlesTo (dp_tables s) i node row d"
  shows "int (card (inPhase disturbed (rowsOf d i))) = dp_inFlight s + (if disturbed (rn_phase row) then 1 else 0)"
    and "int (card (inPhase failedPhase (rowsOf d i))) = dp_failed s + (if failedPhase (rn_phase row) then 1 else 0)"
proof -
  have "node \<notin> inPhase disturbed (rowsOf (dp_tables s) i)" "node \<notin> inPhase failedPhase (rowsOf (dp_tables s) i)"
    using assms(2,3) by (auto simp: inPhase_def disturbed_def)
  moreover have "finite (inPhase P (rowsOf (dp_tables s) i))" for P using assms(1) inPhase_rows(3) by (simp add: countsKept_def)
  moreover have "rowsOf d i = (rowsOf (dp_tables s) i)(node \<mapsto> row)" using assms(4) by (simp add: settlesTo_def)
  ultimately show "int (card (inPhase disturbed (rowsOf d i))) = dp_inFlight s + (if disturbed (rn_phase row) then 1 else 0)"
    "int (card (inPhase failedPhase (rowsOf d i))) = dp_failed s + (if failedPhase (rn_phase row) then 1 else 0)"
    using assms(1) by (simp_all add: countsKept_def inPhase_upd)
qed

lemma pending_writes:
  assumes "rolloutsOK d" and "rowsOf d i node = Some n" and "node \<noteq> []" and "rn_phase n = PhasePending"
  shows "\<exists>d'. AdvanceRollout now ((advanceTo i node PhasePending)\<lparr>ar_priorRelease := rel\<rparr>) d = Inr d'
      \<and> (\<exists>row. settlesTo d i node row d' \<and> rn_phase row = PhasePending)"
    and "\<exists>d'. wrote now ((advanceTo i node PhasePending)\<lparr>ar_backoff := b, ar_refusal := why\<rparr>) d = (None, d')
      \<and> (\<exists>row. settlesTo d i node row d' \<and> rn_phase row = PhasePending)"
    and "\<exists>d'. wrote now ((advanceTo i node PhaseDraining)\<lparr>ar_dispatchEpoch := e, ar_clearRefusal := True\<rparr>) d = (None, d')
      \<and> (\<exists>row. settlesTo d i node row d' \<and> rn_phase row = PhaseDraining \<and> (e \<noteq> 0 \<longrightarrow> rn_dispatchEpoch row = e))"
proof -
  let ?a = "(advanceTo i node PhasePending)\<lparr>ar_priorRelease := rel\<rparr>"
  let ?b = "(advanceTo i node PhasePending)\<lparr>ar_backoff := b, ar_refusal := why\<rparr>"
  let ?c = "(advanceTo i node PhaseDraining)\<lparr>ar_dispatchEpoch := e, ar_clearRefusal := True\<rparr>"
  have plain: "plainRequest ?a" "plainRequest ?b" "plainRequest ?c" using assms(3) by (simp_all add: plainRequest_def)
  have t: "KnownPhase PhasePending" "KnownPhase PhaseDraining" "CanTransition (rn_phase n) PhasePending" "CanTransition (rn_phase n) PhaseDraining"
    using assms(4) by (simp_all add: KnownPhase_iff rollout_table)
  have "\<exists>d'. wrote now req d = (None, d') \<and> settlesTo d i node (advancedRow now req n n) d'"
    if "plainRequest req" "ar_rollout req = i" "ar_node req = node" "ar_to req = PhasePending \<or> ar_to req = PhaseDraining" for req
    by (rule wrote_row [OF assms(1) that(1), of n now]) (use that assms(2) t in auto)
  note w = this [OF plain(1)] this [OF plain(2)] this [OF plain(3)]
  show "\<exists>d'. AdvanceRollout now ?a d = Inr d' \<and> (\<exists>row. settlesTo d i node row d' \<and> rn_phase row = PhasePending)"
    using w(1) by (force simp: wrote_def split: sum.splits)
  show "\<exists>d'. wrote now ?b d = (None, d') \<and> (\<exists>row. settlesTo d i node row d' \<and> rn_phase row = PhasePending)"
    using w(2) by force
  show "\<exists>d'. wrote now ?c d = (None, d') \<and> (\<exists>row. settlesTo d i node row d' \<and> rn_phase row = PhaseDraining \<and> (e \<noteq> 0 \<longrightarrow> rn_dispatchEpoch row = e))"
    using w(3) by force
qed


text \<open>One dispatch moves one pending host, and the counts with it.\<close>

lemma dispatchUpgrade_row:
  assumes "countsKept i s" and "ro_id current = i" and "rowsOf (dp_tables s) i (rn_node n) = Some n" and "rn_phase n = PhasePending"
    and "fleet (rn_node n) = Some host" and "ho_live host"
  obtains row new where "countsKept i (dispatchUpgrade c upgrade now current n host s)"
    "settlesTo (dp_tables s) i (rn_node n) row (dp_tables (dispatchUpgrade c upgrade now current n host s))"
    "rn_phase row \<in> {PhasePending, PhaseDraining, PhaseBlocked}"
    "dp_told (dispatchUpgrade c upgrade now current n host s) = dp_told s @ new"
    "new = [] \<or> new = [rn_node n] \<and> toldTo c upgrade fleet i (dp_tables (dispatchUpgrade c upgrade now current n host s)) (rn_node n)"
    "dp_inFlight (dispatchUpgrade c upgrade now current n host s) \<le> dp_inFlight s + 1"
    "dp_failed (dispatchUpgrade c upgrade now current n host s) \<le> dp_failed s + 1"
proof -
  let ?s = "dispatchUpgrade c upgrade now current n host s" and ?d = "dp_tables s" and ?node = "rn_node n"
  have ok: "rolloutsOK ?d" using assms(1) by (simp add: countsKept_def)
  have "hostsEnrolled ?d" using assms(1) by (simp add: countsKept_def)
  then have node: "?node \<noteq> []" using rowsOf_Some [OF assms(3)] by (force simp: hostsEnrolled_def)
  note counts = countsKept_upd [OF assms(1,3,4)]
  have kept: "countsKept i (s\<lparr>dp_tables := d, dp_inFlight := dp_inFlight s + (if disturbed (rn_phase row) then 1 else 0),
      dp_failed := dp_failed s + (if failedPhase (rn_phase row) then 1 else 0), dp_told := t, dp_problems := p\<rparr>)"
    if "settlesTo ?d i ?node row d" for row d t p
    using that counts [OF that] assms(1) by (simp add: countsKept_def settlesTo_def)
  consider (old) "0 < ho_wire host \<and> ho_wire host < co_minWire c"
    | (refuses) why where "\<not> (0 < ho_wire host \<and> ho_wire host < co_minWire c)" "upgrade ?node = Some why"
    | (accepts) "\<not> (0 < ho_wire host \<and> ho_wire host < co_minWire c)" "upgrade ?node = None" by fastforce
  then show ?thesis
  proof cases
    case old
    have live: "\<not> rolloutTerminal (rn_phase n)" using assms(4) by (simp add: rolloutTerminal_def)
    obtain d row where r: "AdvanceRollout now ((advanceTo i ?node PhaseBlocked)\<lparr>ar_blocker := tooOldWire\<rparr>) ?d = Inr d"
      "settlesTo ?d i ?node row d" "rn_phase row = PhaseBlocked"
      by (rule settles_blocked [OF ok assms(3) node live, of tooOldWire]) (simp add: tooOldWire_def)
    have s: "?s = s\<lparr>dp_tables := d, dp_failed := dp_failed s + 1\<rparr>"
      using old r(1) assms(2) by (simp add: dispatchUpgrade_def Let_def)
    show ?thesis using that [of row "[]"] kept [OF r(2), where t = "dp_told s" and p = "dp_problems s"] r(2,3) unfolding s
      by (simp add: disturbed_def)
  next
    case refuses
    obtain d1 row1 where r1: "AdvanceRollout now ((advanceTo i ?node PhasePending)\<lparr>ar_priorRelease := ho_release host\<rparr>) ?d = Inr d1"
      "settlesTo ?d i ?node row1 d1" "rn_phase row1 = PhasePending"
      using pending_writes(1) [OF ok assms(3) node assms(4)] by blast
    obtain d2 row where r: "wrote now ((advanceTo i ?node PhasePending)\<lparr>ar_backoff := retryAfter, ar_refusal := why\<rparr>) d1 = (None, d2)"
      "settlesTo d1 i ?node row d2" "rn_phase row = PhasePending"
      using pending_writes(2) [of d1 i ?node row1] settlesTo_row [OF r1(2)] node r1(3) by blast
    have s: "?s = s\<lparr>dp_tables := d2, dp_problems := dp_problems s @ [RolloutInvalid]\<rparr>"
      using refuses r1(1) r(1) assms(2) by (auto simp: dispatchUpgrade_def Let_def)
    show ?thesis
      using that [of row "[]"] kept [OF settlesTo_trans [OF r1(2) r(2)], where t = "dp_told s" and p = "dp_problems s @ [RolloutInvalid]"]
        settlesTo_trans [OF r1(2) r(2)] r(3) unfolding s
      by (simp add: disturbed_def)
  next
    case accepts
    obtain d1 row1 where r1: "AdvanceRollout now ((advanceTo i ?node PhasePending)\<lparr>ar_priorRelease := ho_release host\<rparr>) ?d = Inr d1"
      "settlesTo ?d i ?node row1 d1" "rn_phase row1 = PhasePending"
      using pending_writes(1) [OF ok assms(3) node assms(4)] by blast
    obtain d2 row where r: "wrote now ((advanceTo i ?node PhaseDraining)\<lparr>ar_dispatchEpoch := ho_epoch host, ar_clearRefusal := True\<rparr>) d1 = (None, d2)"
      "settlesTo d1 i ?node row d2" "rn_phase row = PhaseDraining" "ho_epoch host \<noteq> 0 \<longrightarrow> rn_dispatchEpoch row = ho_epoch host"
      using pending_writes(3) [of d1 i ?node row1] settlesTo_row [OF r1(2)] node r1(3) by blast
    have s: "?s = s\<lparr>dp_tables := d2, dp_inFlight := dp_inFlight s + 1, dp_told := dp_told s @ [?node]\<rparr>"
      using accepts r1(1) r(1) assms(2) by (auto simp: dispatchUpgrade_def Let_def)
    have "toldTo c upgrade fleet i d2 ?node"
      using accepts assms(5,6) settlesTo_row [OF r(2)] r(3,4) by (simp add: toldTo_def)
    then show ?thesis
      using that [of row "[?node]"] kept [OF settlesTo_trans [OF r1(2) r(2)], where t = "dp_told s @ [?node]" and p = "dp_problems s"]
        settlesTo_trans [OF r1(2) r(2)] r(3) unfolding s
      by (simp add: disturbed_def rolloutTerminal_def)
  qed
qed


text \<open>What the whole second pass may have done, seen from where it began.\<close>

definition dispatchedFrom ::
  "Coordinator \<Rightarrow> (string \<Rightarrow> string option) \<Rightarrow> Rollout \<Rightarrow> (string \<rightharpoonup> Host) \<Rightarrow> dispatching \<Rightarrow> dispatching \<Rightarrow> bool" where
  "dispatchedFrom c upgrade current fleet s s' \<longleftrightarrow>
     rollouts (dp_tables s') = rollouts (dp_tables s) \<and> countsKept (ro_id current) s'
     \<and> dp_inFlight s' \<le> max (dp_inFlight s) (po_cohort (ro_policy current))
     \<and> (0 < po_failureBudget (ro_policy current) \<longrightarrow> dp_failed s' \<le> max (dp_failed s) (po_failureBudget (ro_policy current)))
     \<and> (\<exists>new. dp_told s' = dp_told s @ new
          \<and> (new \<noteq> [] \<longrightarrow> dp_inFlight s < po_cohort (ro_policy current) \<and> \<not> budgetSpent (po_failureBudget (ro_policy current)) (dp_failed s))
          \<and> (\<forall>node \<in> set new. toldTo c upgrade fleet (ro_id current) (dp_tables s') node
               \<and> (\<exists>n. rowsOf (dp_tables s) (ro_id current) node = Some n \<and> rn_phase n = PhasePending)))
     \<and> (\<forall>node. rowsOf (dp_tables s') (ro_id current) node = rowsOf (dp_tables s) (ro_id current) node
          \<or> (\<exists>n row. rowsOf (dp_tables s) (ro_id current) node = Some n \<and> rn_phase n = PhasePending
               \<and> rowsOf (dp_tables s') (ro_id current) node = Some row \<and> rn_phase row \<in> {PhasePending, PhaseDraining, PhaseBlocked}
               \<and> (\<exists>h. fleet node = Some h \<and> ho_live h)))"

lemma dispatchedFrom_refl: "countsKept (ro_id current) s \<Longrightarrow> dispatchedFrom c upgrade current fleet s s"
  by (simp add: dispatchedFrom_def)

lemma dispatchedFrom_row:
  "dispatchedFrom c upgrade current fleet s s' \<Longrightarrow>
     rowsOf (dp_tables s') (ro_id current) node = rowsOf (dp_tables s) (ro_id current) node
     \<or> (\<exists>n row. rowsOf (dp_tables s) (ro_id current) node = Some n \<and> rn_phase n = PhasePending
          \<and> rowsOf (dp_tables s') (ro_id current) node = Some row \<and> rn_phase row \<in> {PhasePending, PhaseDraining, PhaseBlocked}
          \<and> (\<exists>h. fleet node = Some h \<and> ho_live h))"
  unfolding dispatchedFrom_def by blast

lemma dispatchEach_Cons:
  "dispatchEach c upgrade now current fleet (n # ns) s = dispatchEach c upgrade now current fleet ns s
   \<or> dispatchEach c upgrade now current fleet (n # ns) s = s
   \<or> (\<exists>h. fleet (rn_node n) = Some h \<and> ho_live h
        \<and> (rn_phase n = PhasePending \<and> \<not> (po_cohort (ro_policy current) \<le> dp_inFlight s \<or> budgetSpent (po_failureBudget (ro_policy current)) (dp_failed s)))
        \<and> dispatchEach c upgrade now current fleet (n # ns) s = dispatchEach c upgrade now current fleet ns (dispatchUpgrade c upgrade now current n h s))"
  by (cases "fleet (rn_node n)") simp_all

lemma dispatchEach_rows:
  assumes "countsKept (ro_id current) s" and "distinct (map rn_node ns)"
    and "\<forall>n \<in> set ns. rowsOf (dp_tables s) (ro_id current) (rn_node n) = Some n"
  shows "dispatchedFrom c upgrade current fleet s (dispatchEach c upgrade now current fleet ns s)
    \<and> (\<forall>node. node \<notin> rn_node ` set ns \<longrightarrow>
         rowsOf (dp_tables (dispatchEach c upgrade now current fleet ns s)) (ro_id current) node = rowsOf (dp_tables s) (ro_id current) node)"
  using assms
proof (induction ns arbitrary: s)
  case (Cons n ns)
  let ?i = "ro_id current"
  let ?go = "rn_phase n = PhasePending \<and> \<not> (po_cohort (ro_policy current) \<le> dp_inFlight s \<or> budgetSpent (po_failureBudget (ro_policy current)) (dp_failed s))"
  have n: "rowsOf (dp_tables s) ?i (rn_node n) = Some n" using Cons.prems(3) by simp
  have tl: "distinct (map rn_node ns)" "\<forall>n \<in> set ns. rowsOf (dp_tables s) ?i (rn_node n) = Some n" using Cons.prems(2,3) by simp_all
  consider (skip) "dispatchEach c upgrade now current fleet (n # ns) s = dispatchEach c upgrade now current fleet ns s"
    | (stop) "dispatchEach c upgrade now current fleet (n # ns) s = s"
    | (go) h where "fleet (rn_node n) = Some h" "ho_live h" ?go
        "dispatchEach c upgrade now current fleet (n # ns) s = dispatchEach c upgrade now current fleet ns (dispatchUpgrade c upgrade now current n h s)"
    using dispatchEach_Cons [of c upgrade now current fleet n ns s] by blast
  then show ?case
  proof cases
    case skip
    show ?thesis unfolding skip using Cons.IH [OF Cons.prems(1) tl] by simp
  next
    case stop
    show ?thesis unfolding stop using dispatchedFrom_refl [OF Cons.prems(1)] by simp
  next
    case go
    let ?s = "dispatchUpgrade c upgrade now current n h s"
    obtain row new where r: "countsKept ?i ?s" "settlesTo (dp_tables s) ?i (rn_node n) row (dp_tables ?s)"
      "rn_phase row \<in> {PhasePending, PhaseDraining, PhaseBlocked}" "dp_told ?s = dp_told s @ new"
      "new = [] \<or> new = [rn_node n] \<and> toldTo c upgrade fleet ?i (dp_tables ?s) (rn_node n)"
      "dp_inFlight ?s \<le> dp_inFlight s + 1" "dp_failed ?s \<le> dp_failed s + 1"
      by (rule dispatchUpgrade_row [where fleet = fleet, OF Cons.prems(1) refl n conjunct1 [OF go(3)] go(1,2)])
    have rows: "rowsOf (dp_tables ?s) ?i = (rowsOf (dp_tables s) ?i)(rn_node n \<mapsto> row)" "rollouts (dp_tables ?s) = rollouts (dp_tables s)"
      using r(2) by (simp_all add: settlesTo_def)
    have fresh: "rn_node n \<notin> rn_node ` set ns" using Cons.prems(2) by simp
    have "\<forall>m \<in> set ns. rowsOf (dp_tables ?s) ?i (rn_node m) = Some m"
      using tl(2) fresh unfolding rows(1) by (metis fun_upd_other image_eqI)
    note ih = Cons.IH [OF r(1) tl(1) this]
    let ?e = "dispatchEach c upgrade now current fleet ns ?s"
    have d: "dispatchedFrom c upgrade current fleet ?s ?e" using ih by blast
    have own: "rowsOf (dp_tables ?e) ?i (rn_node n) = Some row" using ih fresh by (simp add: rows(1))
    obtain more where more: "dp_told ?e = dp_told ?s @ more"
      "\<forall>node \<in> set more. toldTo c upgrade fleet ?i (dp_tables ?e) node
         \<and> (\<exists>n. rowsOf (dp_tables ?s) ?i node = Some n \<and> rn_phase n = PhasePending)"
      using d unfolding dispatchedFrom_def by blast
    have "toldTo c upgrade fleet ?i (dp_tables ?e) (rn_node n)" if "new \<noteq> []"
      using r(5) that own rows(1) by (simp add: toldTo_def)
    then have each: "\<forall>node \<in> set (new @ more). toldTo c upgrade fleet ?i (dp_tables ?e) node
         \<and> (\<exists>n. rowsOf (dp_tables s) ?i node = Some n \<and> rn_phase n = PhasePending)"
      using r(5) more(2) n go(3) unfolding rows(1) by (auto split: if_splits)
    have others: "rowsOf (dp_tables ?e) ?i node = rowsOf (dp_tables s) ?i node
          \<or> (\<exists>n row. rowsOf (dp_tables s) ?i node = Some n \<and> rn_phase n = PhasePending
               \<and> rowsOf (dp_tables ?e) ?i node = Some row \<and> rn_phase row \<in> {PhasePending, PhaseDraining, PhaseBlocked}
               \<and> (\<exists>h. fleet node = Some h \<and> ho_live h))" for node
    proof (cases "node = rn_node n")
      case True
      then show ?thesis using own n go(1-3) r(3) by blast
    next
      case False
      then have "rowsOf (dp_tables ?s) ?i node = rowsOf (dp_tables s) ?i node" by (simp add: rows(1))
      then show ?thesis using d unfolding dispatchedFrom_def by metis
    qed
    have counts: "countsKept ?i ?e" "rollouts (dp_tables ?e) = rollouts (dp_tables s)"
      "dp_inFlight ?e \<le> max (dp_inFlight ?s) (po_cohort (ro_policy current))"
      "0 < po_failureBudget (ro_policy current) \<longrightarrow> dp_failed ?e \<le> max (dp_failed ?s) (po_failureBudget (ro_policy current))"
      using d rows(2) unfolding dispatchedFrom_def by simp_all
    have "dispatchedFrom c upgrade current fleet s ?e"
      unfolding dispatchedFrom_def
    proof (intro conjI allI)
      show "dp_inFlight ?e \<le> max (dp_inFlight s) (po_cohort (ro_policy current))" using counts(3) r(6) go(3) by linarith
      show "0 < po_failureBudget (ro_policy current) \<longrightarrow> dp_failed ?e \<le> max (dp_failed s) (po_failureBudget (ro_policy current))"
        using counts(4) r(7) go(3) unfolding budgetSpent_def by linarith
      show "\<exists>new. dp_told ?e = dp_told s @ new
          \<and> (new \<noteq> [] \<longrightarrow> dp_inFlight s < po_cohort (ro_policy current) \<and> \<not> budgetSpent (po_failureBudget (ro_policy current)) (dp_failed s))
          \<and> (\<forall>node \<in> set new. toldTo c upgrade fleet ?i (dp_tables ?e) node
               \<and> (\<exists>n. rowsOf (dp_tables s) ?i node = Some n \<and> rn_phase n = PhasePending))"
        using each more(1) r(4) go(3) by (intro exI [of _ "new @ more"]) simp
    qed (use counts(1,2) others in blast)+
    then show ?thesis unfolding go(4) using ih fresh by (simp add: rows(1))
  qed
qed (simp add: dispatchedFrom_refl)


section \<open>A pass\<close>

definition hostMap :: "Host list \<Rightarrow> string \<rightharpoonup> Host" where
  "hostMap hs = map_of (rev (map (\<lambda>h. (ho_name h, h)) hs))"

lemma hostMap_Some: "hostMap hs node = Some h \<Longrightarrow> h \<in> set hs \<and> ho_name h = node"
  by (auto simp: hostMap_def dest!: map_of_SomeD)

lemma rowsOf_rollouts [simp]: "rowsOf (d\<lparr>rollouts := rs\<rparr>) i = rowsOf d i"
  by (simp add: fun_eq_iff rowsOf_def ReadRolloutNodeProgress_def)

lemma completeIfConverged_rows: "rowsOf (snd (completeIfConverged now current d)) i = rowsOf d i"
  by (auto simp: completeIfConverged_def FinishOutcome_def FinishRollout_def split: sum.splits if_splits)

text \<open>What settling makes of every row, and the counts the dispatching starts from.\<close>

definition settledTables :: "Rollout \<Rightarrow> (string \<rightharpoonup> Host) \<Rightarrow> RolloutTables \<Rightarrow> RolloutTables \<Rightarrow> bool" where
  "settledTables current fleet d d1 \<longleftrightarrow>
     (\<forall>node. case rowsOf d (ro_id current) node of None \<Rightarrow> rowsOf d1 (ro_id current) node = None
       | Some n \<Rightarrow> \<exists>row. rowsOf d1 (ro_id current) node = Some row \<and> settledRow current (fleet node) n row)"

lemma settledTables_row:
  assumes "settledTables current fleet d d1" and "rowsOf d1 (ro_id current) node = Some row"
  shows "\<exists>n. rowsOf d (ro_id current) node = Some n \<and> settledRow current (fleet node) n row"
  using assms(1) [unfolded settledTables_def, rule_format, of node] assms(2) by (auto split: option.splits)

lemma settledTables_away:
  assumes "settledTables current fleet d d1" and "\<forall>h. fleet node = Some h \<longrightarrow> \<not> ho_live h"
  shows "rowsOf d1 (ro_id current) node = rowsOf d (ro_id current) node"
  using assms(1) [unfolded settledTables_def, rule_format, of node] assms(2) by (auto simp: settledRow_def split: option.splits)

definition dispatchStart :: "string \<Rightarrow> RolloutTables \<Rightarrow> dispatching" where
  "dispatchStart i d1 =
     \<lparr>dp_inFlight = int (card (inPhase disturbed (rowsOf d1 i))), dp_failed = int (card (inPhase failedPhase (rowsOf d1 i))),
      dp_told = [], dp_problems = [], dp_tables = d1\<rparr>"

lemma dispatchStart_simps [simp]:
  "dp_inFlight (dispatchStart i d1) = int (card (inPhase disturbed (rowsOf d1 i)))"
  "dp_failed (dispatchStart i d1) = int (card (inPhase failedPhase (rowsOf d1 i)))"
  "dp_told (dispatchStart i d1) = []" "dp_tables (dispatchStart i d1) = d1"
  by (simp_all add: dispatchStart_def)

text \<open>A pass over the nodes is settling, then dispatching, then trying to finish.\<close>

lemma advanceNodes_stages:
  assumes "rolloutsOK d" and "hostsEnrolled d" and "advanceNodes c upgrade now current (ListRolloutNodes (ro_id current) d) fleet d = (problems, told, d')"
  obtains d1 s where "rolloutsOK d1" "hostsEnrolled d1" "rollouts d1 = rollouts d"
    "settledTables current fleet d d1" "dispatchedFrom c upgrade current fleet (dispatchStart (ro_id current) d1) s"
    "told = dp_told s" "d' = snd (completeIfConverged now current (dp_tables s))"
proof -
  obtain d1 where d1: "settleAll now current fleet (ListRolloutNodes (ro_id current) d) d = ([], d1)" "rolloutsOK d1" "hostsEnrolled d1"
    "rollouts d1 = rollouts d"
    "\<forall>node. case rowsOf d (ro_id current) node of None \<Rightarrow> rowsOf d1 (ro_id current) node = None
       | Some n \<Rightarrow> \<exists>row. rowsOf d1 (ro_id current) node = Some row \<and> settledRow current (fleet node) n row"
    by (rule settle_rows [OF assms(1,2)])
  let ?start = "dispatchStart (ro_id current) d1"
  let ?s = "dispatchEach c upgrade now current fleet (ListRolloutNodes (ro_id current) d1) ?start"
  have s: "dispatchPending c upgrade now current (ListRolloutNodes (ro_id current) d1) fleet d1 = ?s"
    by (simp add: dispatchPending_def tally_rows [OF d1(2)] dispatchStart_def)
  note L = ListRolloutNodes_distinct [OF d1(2), where i = "ro_id current"]
  have "countsKept (ro_id current) ?start" using d1(2,3) by (simp add: countsKept_def dispatchStart_def)
  then have "dispatchedFrom c upgrade current fleet ?start ?s"
    using dispatchEach_rows [OF _ L(1), of current ?start c upgrade fleet now] L(2) by (simp add: dispatchStart_def)
  moreover have "told = dp_told ?s" "d' = snd (completeIfConverged now current (dp_tables ?s))"
    using assms(3) by (simp_all add: advanceNodes_def d1(1) s Let_def case_prod_beta)
  moreover have "settledTables current fleet d d1" using d1(5) unfolding settledTables_def .
  ultimately show ?thesis using that [OF d1(2-4)] by blast
qed

lemma coordinatorTick_nodes:
  assumes "coordinatorTick c upgrade now hosts d = (problems, told, d')" and "readOpen d = Inr current"
  obtains (nodes) hs where "hosts = Inr hs" "Converged (ro_controllerPhase current)" "Same (co_ourVersion c) (ro_targetVersion current)"
      "advanceNodes c upgrade now current (ListRolloutNodes (ro_id current) d) (hostMap hs) d = (problems, told, d')"
  | (controller) "told = []" "\<not> Converged (ro_controllerPhase current)" "d' = snd (observeController c now current d)"
  | (idle) "told = []" "d' = d" "(\<exists>e. hosts = Inl e) \<or> \<not> Same (co_ourVersion c) (ro_targetVersion current)"
  using assms by (auto simp: coordinatorTick_def hostMap_def split: sum.splits if_splits prod.splits)

lemma wrote_controller: "ar_node req = [] \<Longrightarrow> rolloutNodes (snd (wrote now req d)) = rolloutNodes d"
  by (auto simp: wrote_def AdvanceRollout_def advanceController_def AdvanceRolloutController_def split: sum.splits option.splits if_splits)

lemma walkPhases_controller: "rolloutNodes (snd (walkPhases now i [] goal digest ps d)) = rolloutNodes d"
proof (induction ps arbitrary: d)
  case (Cons p ps)
  let ?req = "if p = goal then (advanceTo i [] p)\<lparr>ar_convergedDigest := digest, ar_clearRefusal := False\<rparr> else advanceTo i [] p"
  have "rolloutNodes (snd (wrote now ?req d)) = rolloutNodes d" by (rule wrote_controller) simp
  then show ?case using Cons.IH by (cases "wrote now ?req d") (auto simp: andThen_def Let_def split: option.splits)
qed simp

lemma observeController_rows: "rowsOf (snd (observeController c now current d)) i = rowsOf d i"
proof -
  have "rolloutNodes (snd (observeController c now current d)) = rolloutNodes d"
    by (auto simp: observeController_def walkTo_def walkPhases_controller split: option.splits)
  then show ?thesis by (simp add: fun_eq_iff rowsOf_def ReadRolloutNodeProgress_def)
qed

end
