(* ===== verification/Rollout_Progress.thy ===== *)
theory Rollout_Progress
  imports Coordinator_Facts
begin

text \<open>
  The properties of rollouts. Operators, the starter and the coordinator share the tables:
  whatever they write, in any order, the decision is kept; a pass disturbs no more hosts than
  the policy allows and none before the control plane is on the target; a host is committed
  only on what it reported itself; and a fleet that reports the target completes the rollout.
\<close>

section \<open>Passes are transactions of the store\<close>

lemma wrote_run: "rolloutRun d (snd (wrote now req d))"
  by (cases "AdvanceRollout now req d") (auto simp: wrote_def intro: rolloutStep.advance)

lemma andThen_run:
  assumes "rolloutRun d (snd r)" and "\<And>d'. rolloutRun d' (snd (f d'))"
  shows "rolloutRun d (snd (andThen r f))"
  using assms by (cases r) (auto simp: andThen_def split: option.splits intro: rtranclp_trans)

lemma walkTo_run: "rolloutRun d (snd (walkTo now i node p goal digest d))"
proof -
  have "rolloutRun d (snd (walkPhases now i node goal digest ps d))" for ps d
    by (induction ps arbitrary: d) (auto simp: Let_def intro!: andThen_run wrote_run)
  then show ?thesis by (simp add: walkTo_def split: option.splits)
qed

lemma settleNode_run: "rolloutRun d (snd (settleNode now current n known d))"
  by (auto simp: settleNode_def recordRolledBack_def settleAtTarget_def convergeHost_def settleDrainingHost_def
      intro!: wrote_run andThen_run walkTo_run split: option.splits)

lemma settleAll_run: "rolloutRun d (snd (settleAll now current fleet ns d))"
proof (induction ns arbitrary: d)
  case (Cons n ns)
  obtain e d1 where d1: "settleNode now current n (fleet (rn_node n)) d = (e, d1)" by (rule prod.exhaust)
  have "rolloutRun d d1" using settleNode_run [of d now current n "fleet (rn_node n)"] by (simp add: d1)
  from rtranclp_trans [OF this Cons.IH] show ?case by (simp add: d1 case_prod_beta)
qed simp

lemma dispatchUpgrade_run: "rolloutRun (dp_tables s) (dp_tables (dispatchUpgrade c upgrade now current n h s))"
proof -
  have "rolloutRun (dp_tables s) (snd (wrote now req d1))" if "AdvanceRollout now req' (dp_tables s) = Inr d1" for req req' d1
    using wrote_run [of d1 now req] rolloutStep.advance [OF that] by (simp add: converse_rtranclp_into_rtranclp)
  then show ?thesis
    by (auto simp: dispatchUpgrade_def Let_def case_prod_beta intro: rolloutStep.advance split: sum.splits option.splits)
qed

lemma dispatchEach_run: "rolloutRun (dp_tables s) (dp_tables (dispatchEach c upgrade now current fleet ns s))"
proof (induction ns arbitrary: s)
  case (Cons n ns)
  show ?case
    using dispatchEach_Cons [of c upgrade now current fleet n ns s] Cons.IH rtranclp_trans [OF dispatchUpgrade_run Cons.IH]
    by (metis rtranclp.rtrancl_refl)
qed simp

lemma completeIfConverged_run: "rolloutRun d (snd (completeIfConverged now current d))"
  by (auto simp: completeIfConverged_def intro: rolloutStep.finish split: sum.splits)

lemma coordinatorTick_run: "rolloutRun d (snd (snd (coordinatorTick c upgrade now hosts d)))"
proof -
  have "rolloutRun d (snd (snd (advanceNodes c upgrade now current ns fleet d)))" for current ns fleet
  proof -
    obtain problems d1 where d1: "settleAll now current fleet ns d = (problems, d1)" by (rule prod.exhaust)
    have settled: "rolloutRun d d1" using settleAll_run [of d now current fleet ns] by (simp add: d1)
    have "rolloutRun d1 (dp_tables (dispatchPending c upgrade now current ms fleet d1))" for ms
      using dispatchEach_run [of "\<lparr>dp_inFlight = i, dp_failed = f, dp_told = [], dp_problems = [], dp_tables = d1\<rparr>" for i f]
      by (simp add: dispatchPending_def case_prod_beta)
    from rtranclp_trans [OF rtranclp_trans [OF settled this] completeIfConverged_run]
    show ?thesis using rtranclp_trans [OF settled completeIfConverged_run]
      by (simp add: advanceNodes_def d1 case_prod_beta Let_def)
  qed
  moreover have "rolloutRun d (snd (observeController c now current d))" for current
    by (auto simp: observeController_def intro: walkTo_run)
  ultimately show ?thesis by (auto simp: coordinatorTick_def case_prod_beta split: sum.splits)
qed

lemma starterTick_run: "rolloutRun d (snd (starterTick st now later newID resolved hosts d))"
  by (auto simp: starterTick_def intro: rolloutStep.start rolloutStep.finish split: sum.splits option.splits prod.splits)

section \<open>Every run\<close>

text \<open>Operators write through the store; the coordinator and the starter make their passes.\<close>

inductive fleetStep :: "RolloutTables \<Rightarrow> RolloutTables \<Rightarrow> bool" where
  operator: "rolloutStep d d' \<Longrightarrow> fleetStep d d'"
| coordinates: "coordinatorTick c upgrade now hosts d = (problems, told, d') \<Longrightarrow> fleetStep d d'"
| starts: "starterTick st now later newID resolved hosts d = (e, d') \<Longrightarrow> fleetStep d d'"

lemma fleetStep_run: "fleetStep d d' \<Longrightarrow> rolloutRun d d'"
proof (induction rule: fleetStep.induct)
  case (coordinates c upgrade now hosts d problems told d')
  then show ?case using coordinatorTick_run [of d c upgrade now hosts] by simp
next
  case (starts st now later newID resolved hosts d e d')
  then show ?case using starterTick_run [of d st now later newID resolved hosts] by simp
qed simp

lemma fleetRun_run: "fleetStep\<^sup>*\<^sup>* d d' \<Longrightarrow> rolloutRun d d'"
  by (induction rule: rtranclp_induct) (auto dest: fleetStep_run intro: rtranclp_trans)

text \<open>
  C35. A fleet decision is made once and finished honestly. Whatever operators write and the
  starter and the coordinator do, in any order and with any arguments: at most one rollout is open; each rollout keeps its
  target, generation and policy for good, and one that has ended stays as it ended; every
  component moves only along the state machine, and no host joins a decision taken before it;
  and a rollout recorded as completed has its controller and every one of its hosts committed,
  or exempted or decommissioned by a recorded decision.
\<close>

theorem rollout_decision_kept:
  assumes "rolloutsOK d" and "fleetStep\<^sup>*\<^sup>* d d'"
  shows "rolloutsOK d'
    \<and> (\<forall>r \<in> set (rollouts d'). \<forall>s \<in> set (rollouts d'). ro_state r = StateOpen \<longrightarrow> ro_state s = StateOpen \<longrightarrow> r = s)
    \<and> (\<forall>r \<in> set (rollouts d). \<exists>r' \<in> set (rollouts d'). decisionKept r r')
    \<and> (\<forall>n \<in> set (rolloutNodes d). \<exists>n' \<in> set (rolloutNodes d'). progressKept n n')
    \<and> (\<forall>n' \<in> set (rolloutNodes d'). rn_rollout n' \<in> set (map ro_id (rollouts d)) \<longrightarrow> (\<exists>n \<in> set (rolloutNodes d). progressKept n n'))
    \<and> (\<forall>r \<in> set (rollouts d'). ro_state r = StateCompleted \<longrightarrow> ro_controllerPhase r = PhaseCommitted
         \<and> (\<forall>n \<in> set (rolloutNodes d'). rn_rollout n = ro_id r \<longrightarrow> rn_phase n \<in> {PhaseCommitted, PhaseDecommissioned, PhaseExempt}))"
proof -
  have k: "tablesKept d d'" "rolloutsOK d'" using rolloutRun_kept [OF fleetRun_run [OF assms(2)] assms(1)] by simp_all
  obtain rs rs' ns ns' where t: "rollouts d' = rs @ rs'" "list_all2 decisionKept (rollouts d) rs"
    "rolloutNodes d' = ns @ ns'" "list_all2 progressKept (rolloutNodes d) ns"
    "\<forall>n \<in> set ns'. rn_rollout n \<notin> set (map ro_id (rollouts d))"
    using k(1) unfolding tablesKept_def by blast
  have completed: "\<forall>r \<in> set (rollouts d'). ro_state r = StateCompleted \<longrightarrow> ro_controllerPhase r = PhaseCommitted
         \<and> (\<forall>n \<in> set (rolloutNodes d'). rn_rollout n = ro_id r \<longrightarrow> rn_phase n \<in> {PhaseCommitted, PhaseDecommissioned, PhaseExempt})"
    using k(2) unfolding rolloutsOK_def Converged_def rolloutTerminal_def by blast
  have "\<forall>r \<in> set (rollouts d). \<exists>r' \<in> set (rollouts d'). decisionKept r r'" using list_all2_target [OF t(2)] unfolding t(1) by auto
  moreover have "\<forall>n \<in> set (rolloutNodes d). \<exists>n' \<in> set (rolloutNodes d'). progressKept n n'" using list_all2_target [OF t(4)] unfolding t(3) by auto
  moreover have "\<forall>n' \<in> set (rolloutNodes d'). rn_rollout n' \<in> set (map ro_id (rollouts d)) \<longrightarrow> (\<exists>n \<in> set (rolloutNodes d). progressKept n n')"
    using list_all2_source [OF t(4)] t(5) unfolding t(3) by (metis Un_iff set_append)
  ultimately show ?thesis using k(2) completed one_open [OF k(2)] by blast
qed

text \<open>A rollout to two hosts.\<close>

definition noTables :: RolloutTables where
  "noTables = \<lparr>rollouts = [], rolloutNodes = []\<rparr>"

definition sampleStart :: StartRequest where
  "sampleStart = \<lparr>sr_channel = ''stable'', sr_targetVersion = ''v1.2.0'', sr_targetDigest = replicate 64 (CHR ''a''),
     sr_priorVersion = ''v1.1.0'', sr_policy = DefaultPolicy, sr_createdBy = ''op'', sr_nodes = [''alpha'', ''beta''],
     sr_refuseAbortedTarget = False\<rparr>"

definition sampleRollout :: RolloutTables where
  "sampleRollout = (case StartRollout 10 ''r1'' sampleStart noTables of Inr (_, d) \<Rightarrow> d | Inl _ \<Rightarrow> noTables)"

lemma sampleRollout_run: "fleetStep\<^sup>*\<^sup>* noTables sampleRollout"
proof -
  have "StartRollout 10 ''r1'' sampleStart noTables = Inr (hd (rollouts sampleRollout), sampleRollout)" by code_simp
  then show ?thesis using rolloutStep.start fleetStep.operator by blast
qed

section \<open>One pass\<close>

text \<open>
  C36. A rollout moves within its policy, and behind its control plane. In one pass no host is
  told to upgrade unless the control plane runs the target now and has been recorded as
  converged; every host told is one the rollout had not touched, is live, speaks a wire that
  has the command, and is recorded as draining under the epoch the instruction was sent against.
  The pass leaves no more hosts in flight than the cohort, or than were in flight before; and it
  tells nobody once the failures it has settled spend the budget, nor lets the hosts it blocks
  take the count past it.
\<close>

theorem rollout_moves_within_policy:
  assumes "rolloutsOK d" and "hostsEnrolled d" and "readOpen d = Inr current"
    and "coordinatorTick c upgrade now hosts d = (problems, told, d')"
  shows "int (card (inPhase disturbed (rowsOf d' (ro_id current))))
       \<le> max (int (card (inPhase disturbed (rowsOf d (ro_id current))))) (po_cohort (ro_policy current))
    \<and> (told \<noteq> [] \<longrightarrow> Converged (ro_controllerPhase current) \<and> Same (co_ourVersion c) (ro_targetVersion current)
         \<and> (0 < po_failureBudget (ro_policy current) \<longrightarrow>
              int (card (inPhase failedPhase (rowsOf d' (ro_id current)))) \<le> po_failureBudget (ro_policy current)))
    \<and> (\<forall>node \<in> set told. \<exists>hs n. hosts = Inr hs \<and> toldTo c upgrade (hostMap hs) (ro_id current) d' node
         \<and> rowsOf d (ro_id current) node = Some n \<and> rn_phase n = PhasePending)"
  using assms(4,3)
proof (cases rule: coordinatorTick_nodes)
  case (nodes hs)
  let ?i = "ro_id current"
  obtain d1 s where st: "rolloutsOK d1" "hostsEnrolled d1" "rollouts d1 = rollouts d"
    "settledTables current (hostMap hs) d d1" "dispatchedFrom c upgrade current (hostMap hs) (dispatchStart ?i d1) s"
    "told = dp_told s" "d' = snd (completeIfConverged now current (dp_tables s))"
    by (rule advanceNodes_stages [OF assms(1,2) nodes(4)])
  have rows: "rowsOf d' ?i = rowsOf (dp_tables s) ?i" by (simp add: st(7) completeIfConverged_rows)
  have less: "int (card (inPhase disturbed (rowsOf d1 ?i))) \<le> int (card (inPhase disturbed (rowsOf d ?i)))"
    using settled_inFlight [OF assms(1) st(4) [unfolded settledTables_def]] by simp
  have k: "countsKept ?i s" "dp_inFlight s \<le> max (int (card (inPhase disturbed (rowsOf d1 ?i)))) (po_cohort (ro_policy current))"
    "0 < po_failureBudget (ro_policy current) \<longrightarrow>
       dp_failed s \<le> max (int (card (inPhase failedPhase (rowsOf d1 ?i)))) (po_failureBudget (ro_policy current))"
    "told \<noteq> [] \<longrightarrow> \<not> budgetSpent (po_failureBudget (ro_policy current)) (int (card (inPhase failedPhase (rowsOf d1 ?i))))"
    "\<forall>node \<in> set told. toldTo c upgrade (hostMap hs) ?i (dp_tables s) node
       \<and> (\<exists>n. rowsOf d1 ?i node = Some n \<and> rn_phase n = PhasePending)"
    using st(5,6) unfolding dispatchedFrom_def by auto
  have "\<exists>n. rowsOf d ?i node = Some n \<and> rn_phase n = PhasePending" if n1: "rowsOf d1 ?i node = Some n1" "rn_phase n1 = PhasePending" for node n1
    using settledTables_row [OF st(4) n1(1)] n1(2) by (auto simp: settledRow_def)
  then have "\<forall>node \<in> set told. toldTo c upgrade (hostMap hs) ?i d' node \<and> (\<exists>n. rowsOf d ?i node = Some n \<and> rn_phase n = PhasePending)"
    using k(5) by (simp only: toldTo_def rows) blast
  then have "\<forall>node \<in> set told. \<exists>hs' n. hosts = Inr hs' \<and> toldTo c upgrade (hostMap hs') ?i d' node \<and> rowsOf d ?i node = Some n \<and> rn_phase n = PhasePending"
    using nodes(1) by simp
  moreover have "int (card (inPhase disturbed (rowsOf d' ?i))) = dp_inFlight s" "int (card (inPhase failedPhase (rowsOf d' ?i))) = dp_failed s"
    using k(1) by (simp_all add: rows countsKept_def)
  ultimately show ?thesis using k(2-4) less nodes(2,3) unfolding budgetSpent_def by auto
next
  case controller
  then show ?thesis by (simp add: observeController_rows)
qed simp

text \<open>Two hosts behind a control plane that runs the target.\<close>

definition sampleHost :: "string \<Rightarrow> string \<Rightarrow> Host" where
  "sampleHost name release = \<lparr>ho_name = name, ho_release = release, ho_digest = [], ho_wire = 30, ho_live = True, ho_epoch = 7\<rparr>"

definition sampleCoordinator :: Coordinator where
  "sampleCoordinator = \<lparr>co_minWire = 20, co_ourVersion = ''v1.2.0''\<rparr>"

definition sampleReady :: RolloutTables where
  "sampleReady = snd (snd (coordinatorTick sampleCoordinator (\<lambda>_. None) 20 (Inr []) sampleRollout))"

text \<open>The whole of it: decided by an operator, the controller converged in one pass, and both hosts in the next.\<close>

definition sampleDone :: RolloutTables where
  "sampleDone = snd (snd (coordinatorTick sampleCoordinator (\<lambda>_. None) 30
     (Inr [sampleHost ''alpha'' ''v1.2.0'', sampleHost ''beta'' ''v1.2.0'']) sampleReady))"

theorem rollout_decision_kept_witness:
  "rolloutsOK sampleDone \<and> map ro_state (rollouts sampleDone) = [StateCompleted]
   \<and> list_all (\<lambda>n. rn_phase n \<in> {PhaseCommitted, PhaseDecommissioned, PhaseExempt}) (rolloutNodes sampleDone)
   \<and> length (rolloutNodes sampleDone) = 2"
proof -
  have ok: "rolloutsOK noTables" by (simp add: noTables_def rolloutsOK_def)
  have tick: "fleetStep d (snd (snd (coordinatorTick c up now hosts d)))" for c up now hosts d
  proof -
    obtain problems told d' where t: "coordinatorTick c up now hosts d = (problems, told, d')" by (rule prod_cases3)
    show ?thesis using fleetStep.coordinates [OF t] unfolding t by simp
  qed
  have run: "fleetStep\<^sup>*\<^sup>* noTables sampleDone"
    using sampleRollout_run tick unfolding sampleDone_def sampleReady_def by (meson rtranclp.rtrancl_into_rtrancl)
  have ended: "map ro_state (rollouts sampleDone) = [StateCompleted]" "length (rolloutNodes sampleDone) = 2"
    "map ro_id (rollouts sampleDone) = [''r1'']" "list_all (\<lambda>n. rn_rollout n = ''r1'') (rolloutNodes sampleDone)" by code_simp+
  then obtain r where "rollouts sampleDone = [r]" "ro_state r = StateCompleted" "ro_id r = ''r1''"
    by (auto simp: map_eq_Cons_conv)
  then show ?thesis using rollout_decision_kept [OF ok run] ended by (simp add: list_all_iff)
qed

lemma sampleReady_OK: "rolloutsOK sampleReady" "hostsEnrolled sampleReady"
  by code_simp+

theorem rollout_moves_within_policy_witness:
  "\<exists>problems d'. coordinatorTick sampleCoordinator (\<lambda>_. None) 30 (Inr [sampleHost ''alpha'' ''v1.1.0'', sampleHost ''beta'' ''v1.1.0'']) sampleReady
      = (problems, [''alpha''], d') \<and> int (card (inPhase disturbed (rowsOf d' ''r1''))) \<le> 1"
proof -
  let ?hosts = "[sampleHost ''alpha'' ''v1.1.0'', sampleHost ''beta'' ''v1.1.0'']"
  obtain problems told d' where t: "coordinatorTick sampleCoordinator (\<lambda>_. None) 30 (Inr ?hosts) sampleReady = (problems, told, d')"
    by (rule prod_cases3)
  have told: "told = [''alpha'']"
  proof -
    have "fst (snd (coordinatorTick sampleCoordinator (\<lambda>_. None) 30 (Inr ?hosts) sampleReady)) = [''alpha'']" by code_simp
    then show ?thesis by (simp add: t)
  qed
  have o: "readOpen sampleReady = Inr (hd (rollouts sampleReady))" by code_simp
  have r: "ro_id (hd (rollouts sampleReady)) = ''r1''" "po_cohort (ro_policy (hd (rollouts sampleReady))) = 1"
    "inPhase disturbed (rowsOf sampleReady ''r1'') = {}"
  proof -
    show "ro_id (hd (rollouts sampleReady)) = ''r1''" "po_cohort (ro_policy (hd (rollouts sampleReady))) = 1" by code_simp+
    have "filter (\<lambda>n. disturbed (rn_phase n)) (ListRolloutNodes ''r1'' sampleReady) = []" by code_simp
    then show "inPhase disturbed (rowsOf sampleReady ''r1'') = {}" by (simp add: inPhase_rows(1) [OF sampleReady_OK(1)])
  qed
  show ?thesis using rollout_moves_within_policy [OF sampleReady_OK o t] t told r by simp
qed


section \<open>Evidence\<close>

lemma readOpen_member: "readOpen d = Inr r \<Longrightarrow> r \<in> set (rollouts d) \<and> ro_state r = StateOpen"
  by (auto simp: readOpen_def find_Some_iff split: option.splits)

lemma ids_unique: "rolloutsOK d \<Longrightarrow> r \<in> set (rollouts d) \<Longrightarrow> s \<in> set (rollouts d) \<Longrightarrow> ro_id r = ro_id s \<Longrightarrow> r = s"
  by (auto simp: rolloutsOK_def distinct_map dest: inj_onD)

lemma observeController_evidence:
  assumes "rolloutsOK d" and "readOpen d = Inr current"
    and "r \<in> set (rollouts (snd (observeController c now current d)))" "ro_id r = ro_id current" "Converged (ro_controllerPhase r)"
  shows "Converged (ro_controllerPhase current) \<or> Same (co_ourVersion c) (ro_targetVersion current)"
proof (cases "Same (co_ourVersion c) (ro_targetVersion current)")
  case False
  then have "snd (observeController c now current d) = d" by (simp add: observeController_def)
  then show ?thesis using assms(3-5) readOpen_member [OF assms(2)] ids_unique [OF assms(1)] by metis
qed simp

text \<open>
  C37. A component is committed on evidence, never on a guess. A host the pass records as
  committed was committed already, or the deployment is in contact with it, it reports the
  target release itself, and the manifest it was installed from is the one the rollout decided
  on or is not known; when it is known it is recorded with the commit. The control plane is
  recorded as committed only by a control plane that runs the target. And a host out of contact
  stays exactly as it was.
\<close>

theorem commit_needs_evidence:
  assumes "rolloutsOK d" and "hostsEnrolled d" and "readOpen d = Inr current"
    and "coordinatorTick c upgrade now hosts d = (problems, told, d')"
  shows "(\<forall>node row. rowsOf d' (ro_id current) node = Some row \<longrightarrow> rn_phase row = PhaseCommitted \<longrightarrow>
        rowsOf d (ro_id current) node = Some row
        \<or> (\<exists>hs h. hosts = Inr hs \<and> h \<in> set hs \<and> ho_name h = node \<and> ho_live h \<and> Same (ho_release h) (ro_targetVersion current)
            \<and> (ho_digest h = [] \<or> ho_digest h = ro_targetDigest current) \<and> (ho_digest h \<noteq> [] \<longrightarrow> rn_convergedDigest row = ho_digest h)))
    \<and> (\<forall>r \<in> set (rollouts d'). ro_id r = ro_id current \<longrightarrow> Converged (ro_controllerPhase r) \<longrightarrow>
        Converged (ro_controllerPhase current) \<or> Same (co_ourVersion c) (ro_targetVersion current))
    \<and> (\<forall>node hs. hosts = Inr hs \<longrightarrow> (\<forall>h. hostMap hs node = Some h \<longrightarrow> \<not> ho_live h) \<longrightarrow>
        rowsOf d' (ro_id current) node = rowsOf d (ro_id current) node)"
  using assms(4,3)
proof (cases rule: coordinatorTick_nodes)
  case (nodes hs)
  let ?i = "ro_id current"
  obtain d1 s where st: "rolloutsOK d1" "hostsEnrolled d1" "rollouts d1 = rollouts d"
    "settledTables current (hostMap hs) d d1" "dispatchedFrom c upgrade current (hostMap hs) (dispatchStart ?i d1) s"
    "told = dp_told s" "d' = snd (completeIfConverged now current (dp_tables s))"
    by (rule advanceNodes_stages [OF assms(1,2) nodes(4)])
  have rows: "rowsOf d' ?i = rowsOf (dp_tables s) ?i" by (simp add: st(7) completeIfConverged_rows)
  have "rowsOf d ?i node = Some row \<or> reportsTarget current (hostMap hs node) \<and> committedOn (ho_digest (the (hostMap hs node))) row"
    if row: "rowsOf d' ?i node = Some row" "rn_phase row = PhaseCommitted" for node row
  proof -
    have "rowsOf d1 ?i node = Some row" using dispatchedFrom_row [OF st(5), of node] row unfolding rows by auto
    then show ?thesis using settledTables_row [OF st(4)] row(2) unfolding settledRow_def by blast
  qed
  then have "\<forall>node row. rowsOf d' ?i node = Some row \<longrightarrow> rn_phase row = PhaseCommitted \<longrightarrow> rowsOf d ?i node = Some row
        \<or> (\<exists>hs h. hosts = Inr hs \<and> h \<in> set hs \<and> ho_name h = node \<and> ho_live h \<and> Same (ho_release h) (ro_targetVersion current)
            \<and> (ho_digest h = [] \<or> ho_digest h = ro_targetDigest current) \<and> (ho_digest h \<noteq> [] \<longrightarrow> rn_convergedDigest row = ho_digest h))"
    using nodes(1) hostMap_Some unfolding reportsTarget_def committedOn_def by fastforce
  moreover have "rowsOf d' ?i node = rowsOf d ?i node" if gone: "\<forall>h. hostMap hs node = Some h \<longrightarrow> \<not> ho_live h" for node
    using dispatchedFrom_row [OF st(5), of node] settledTables_away [OF st(4) gone] gone unfolding rows by auto
  ultimately show ?thesis using nodes(1-3) by auto
next
  case controller
  have "Converged (ro_controllerPhase current) \<or> Same (co_ourVersion c) (ro_targetVersion current)"
    if "r \<in> set (rollouts d')" "ro_id r = ro_id current" "Converged (ro_controllerPhase r)" for r
    using observeController_evidence [OF assms(1,3)] that unfolding controller(3) by blast
  then show ?thesis using controller(3) observeController_rows by simp
next
  case idle
  then show ?thesis using readOpen_member [OF assms(3)] ids_unique [OF assms(1)] by blast
qed


theorem commit_needs_evidence_witness:
  "\<exists>problems told d'. coordinatorTick sampleCoordinator (\<lambda>_. None) 30 (Inr [sampleHost ''alpha'' ''v1.2.0'']) sampleReady = (problems, told, d')
     \<and> map_option rn_phase (rowsOf d' ''r1'' ''alpha'') = Some PhaseCommitted \<and> rowsOf d' ''r1'' ''beta'' = rowsOf sampleReady ''r1'' ''beta''"
proof -
  let ?hosts = "[sampleHost ''alpha'' ''v1.2.0'']"
  obtain problems told d' where t: "coordinatorTick sampleCoordinator (\<lambda>_. None) 30 (Inr ?hosts) sampleReady = (problems, told, d')"
    by (rule prod_cases3)
  have o: "readOpen sampleReady = Inr (hd (rollouts sampleReady))" "ro_id (hd (rollouts sampleReady)) = ''r1''" by code_simp+
  have "map_option rn_phase (rowsOf (snd (snd (coordinatorTick sampleCoordinator (\<lambda>_. None) 30 (Inr ?hosts) sampleReady))) ''r1'' ''alpha'') = Some PhaseCommitted"
    by code_simp
  then have a: "map_option rn_phase (rowsOf d' ''r1'' ''alpha'') = Some PhaseCommitted" by (simp add: t)
  have "hostMap ?hosts ''beta'' = None" by code_simp
  then have "rowsOf d' ''r1'' ''beta'' = rowsOf sampleReady ''r1'' ''beta''"
    using commit_needs_evidence [OF sampleReady_OK o(1) t] o(2) by simp
  then show ?thesis using t a by blast
qed

section \<open>Completion\<close>

text \<open>A host that reports the target, and waits for nobody, is settled as finished.\<close>

lemma settled_ends:
  assumes "rolloutsOK d" and "\<exists>n. rowsOf d i node = Some n \<and> settledRow current known n row"
    and "\<And>n. rowsOf d i node = Some n \<Longrightarrow>
      rolloutTerminal (rn_phase n) \<or> reportsTarget current known \<and> rn_phase n \<notin> {PhaseBlocked, PhaseRollingBack}"
  shows "rolloutTerminal (rn_phase row)"
proof -
  obtain n where n: "rowsOf d i node = Some n" "settledRow current known n row" using assms(2) by blast
  have k: "KnownPhase (rn_phase n)" using assms(1) rowsOf_Some [OF n(1)] by (simp add: rolloutsOK_def)
  show ?thesis
  proof (cases "rolloutTerminal (rn_phase n)")
    case True
    then show ?thesis using n(2) by (simp add: settledRow_def)
  next
    case False
    then have "reportsTarget current known" "rn_phase n \<notin> {PhaseBlocked, PhaseRollingBack}" using assms(3) n(1) by blast+
    moreover from this have "resumable (rn_phase n) \<or> rn_phase n = PhaseRolledBack"
      using k False unfolding KnownPhase_iff resumable_def rolloutTerminal_def by blast
    ultimately have "rn_phase row = PhaseCommitted" using n(2) unfolding settledRow_def by blast
    then show ?thesis by (simp add: rolloutTerminal_def)
  qed
qed

text \<open>Finishing the open rollout leaves none open.\<close>

lemma FinishRollout_closes:
  assumes "rolloutsOK d" and "readOpen d = Inr current" and "outcome \<noteq> StateOpen"
  shows "readOpen (FinishRollout outcome now why (ro_id current) d) = Inl ErrNoRollout
    \<and> (\<exists>r \<in> set (rollouts (FinishRollout outcome now why (ro_id current) d)). ro_id r = ro_id current \<and> ro_state r = outcome)"
proof
  let ?f = "\<lambda>r. r\<lparr>ro_state := outcome, ro_finishedAt := Some now, ro_terminalReason := why\<rparr>"
  let ?d = "FinishRollout outcome now why (ro_id current) d"
  note cur = readOpen_member [OF assms(2)]
  have rs: "rollouts ?d = map (\<lambda>r. if ro_id r = ro_id current \<and> ro_state r = StateOpen then ?f r else r) (rollouts d)"
    by (simp add: FinishRollout_def upd_where_def)
  have "ro_state r \<noteq> StateOpen" if "r \<in> set (rollouts ?d)" for r
    using that assms(3) one_open [OF assms(1)] cur unfolding rs by (auto split: if_splits)
  then show "readOpen ?d = Inl ErrNoRollout" by (auto simp: readOpen_def find_Some_iff split: option.splits)
  have "?f current \<in> set (rollouts ?d)" using cur unfolding rs by (auto simp: image_iff intro!: bexI [of _ current])
  then show "\<exists>r \<in> set (rollouts ?d). ro_id r = ro_id current \<and> ro_state r = outcome" by (rule rev_bexI) simp
qed

lemma completes_resolved:
  assumes "rolloutsOK d" and "readOpen d = Inr current" and "Converged (ro_controllerPhase current)" and "unresolved (ro_id current) d = []"
  shows "readOpen (snd (completeIfConverged now current d)) = Inl ErrNoRollout
    \<and> (\<exists>r \<in> set (rollouts (snd (completeIfConverged now current d))). ro_id r = ro_id current \<and> ro_state r = StateCompleted)"
proof -
  have "find (\<lambda>r. ro_id r = ro_id current) (rollouts d) = Some current"
    using assms(1) readOpen_member [OF assms(2)] by (simp add: find_keyed rolloutsOK_def)
  then have "finishable (ro_id current) d = Inr ()" using assms(3,4) by (simp add: finishable_def ReadRolloutControllerPhase_def)
  then have d': "snd (completeIfConverged now current d) = FinishRollout StateCompleted now everyReports (ro_id current) d"
    by (simp add: completeIfConverged_def FinishOutcome_def)
  show ?thesis unfolding d' by (rule FinishRollout_closes [OF assms(1,2)]) simp
qed

text \<open>
  C38. A fleet that reports the target completes the rollout, in one pass. Behind a converged
  control plane that runs the target, when every host is finished with, or is in contact,
  reports the target from the decided or an unknown manifest and is neither blocked nor rolling back, the
  pass records the rollout as completed, tells nobody to upgrade, and leaves no rollout open:
  a host left in any other phase is walked from it to its end. Whatever it reports, a blocked
  host is left to a person, and one rolling back is first recorded as rolled back.
\<close>

theorem reported_fleet_completes:
  assumes "rolloutsOK d" and "hostsEnrolled d" and "readOpen d = Inr current"
    and "Converged (ro_controllerPhase current)" and "Same (co_ourVersion c) (ro_targetVersion current)"
    and "\<forall>node n. rowsOf d (ro_id current) node = Some n \<longrightarrow> rolloutTerminal (rn_phase n)
      \<or> reportsTarget current (hostMap hs node) \<and> rn_phase n \<notin> {PhaseBlocked, PhaseRollingBack}"
    and "coordinatorTick c upgrade now (Inr hs) d = (problems, told, d')"
  shows "told = [] \<and> readOpen d' = Inl ErrNoRollout
    \<and> (\<exists>r \<in> set (rollouts d'). ro_id r = ro_id current \<and> ro_state r = StateCompleted)"
  using assms(7,3)
proof (cases rule: coordinatorTick_nodes)
  case (nodes hs')
  let ?i = "ro_id current"
  have hs: "hs' = hs" using nodes(1) by simp
  obtain d1 s where st: "rolloutsOK d1" "hostsEnrolled d1" "rollouts d1 = rollouts d"
    "settledTables current (hostMap hs) d d1" "dispatchedFrom c upgrade current (hostMap hs) (dispatchStart ?i d1) s"
    "told = dp_told s" "d' = snd (completeIfConverged now current (dp_tables s))"
    using nodes(4) unfolding hs by (rule advanceNodes_stages [OF assms(1,2)])
  have ended: "rolloutTerminal (rn_phase row)" if "rowsOf d1 ?i node = Some row" for node row
    using settled_ends [OF assms(1) settledTables_row [OF st(4) that]] assms(6) by blast
  have pending: "rowsOf d1 ?i node = Some n \<Longrightarrow> rn_phase n \<noteq> PhasePending" for node n
    using ended [of node n] by (auto simp: rolloutTerminal_def)
  have rows: "rowsOf (dp_tables s) ?i node = rowsOf d1 ?i node" for node
    using dispatchedFrom_row [OF st(5), of node] pending by auto
  have ok: "rolloutsOK (dp_tables s)" and same: "rollouts (dp_tables s) = rollouts d"
    using st(3,5) unfolding dispatchedFrom_def countsKept_def by simp_all
  have "\<exists>n. rowsOf d1 ?i node = Some n \<and> rn_phase n = PhasePending" if "node \<in> set told" for node
    using st(5,6) that unfolding dispatchedFrom_def by auto
  then have "\<forall>node. node \<notin> set told" using pending by metis
  then have told: "told = []" by (metis list.set_sel(1))
  have "unresolved ?i (dp_tables s) = []"
    using ListRolloutNodes_distinct(2) [OF ok] rows ended by (fastforce simp: unresolved_def filter_empty_conv)
  moreover have "readOpen (dp_tables s) = Inr current" using assms(3) by (simp add: readOpen_def same)
  ultimately show ?thesis using told completes_resolved [OF ok _ assms(4)] unfolding st(7) by blast
next
  case controller
  then show ?thesis using assms(4) by simp
next
  case idle
  then show ?thesis using assms(5) by simp
qed

theorem reported_fleet_completes_witness:
  "\<exists>problems told d'. coordinatorTick sampleCoordinator (\<lambda>_. None) 30
       (Inr [sampleHost ''alpha'' ''v1.2.0'', sampleHost ''beta'' ''1.2.0'']) sampleReady = (problems, told, d')
     \<and> readOpen d' = Inl ErrNoRollout"
proof -
  let ?hosts = "[sampleHost ''alpha'' ''v1.2.0'', sampleHost ''beta'' ''1.2.0'']"
  let ?r = "hd (rollouts sampleReady)"
  obtain problems told d' where t: "coordinatorTick sampleCoordinator (\<lambda>_. None) 30 (Inr ?hosts) sampleReady = (problems, told, d')"
    by (rule prod_cases3)
  have o: "readOpen sampleReady = Inr ?r" "ro_id ?r = ''r1''" by code_simp+
  have c: "Converged (ro_controllerPhase ?r)" "Same (co_ourVersion sampleCoordinator) (ro_targetVersion ?r)" by code_simp+
  have hosts: "hostMap ?hosts ''alpha'' = Some (sampleHost ''alpha'' ''v1.2.0'')" "hostMap ?hosts ''beta'' = Some (sampleHost ''beta'' ''1.2.0'')"
    by (simp_all add: hostMap_def sampleHost_def)
  have same: "Same ''v1.2.0'' (ro_targetVersion ?r)" "Same ''1.2.0'' (ro_targetVersion ?r)" by code_simp+
  have nodes: "map (\<lambda>n. (rn_node n, rn_phase n)) (ListRolloutNodes ''r1'' sampleReady) = [(''alpha'', PhasePending), (''beta'', PhasePending)]"
    by code_simp
  have each: "reportsTarget ?r (hostMap ?hosts node) \<and> rn_phase n \<notin> {PhaseBlocked, PhaseRollingBack}"
    if n: "rowsOf sampleReady ''r1'' node = Some n" for node n
  proof -
    have "n \<in> set (ListRolloutNodes ''r1'' sampleReady)" "rn_node n = node"
      using ListRolloutNodes_distinct(3) [OF sampleReady_OK(1) n] by auto
    then have "(node, rn_phase n) \<in> set (map (\<lambda>n. (rn_node n, rn_phase n)) (ListRolloutNodes ''r1'' sampleReady))" by force
    then show ?thesis unfolding nodes using hosts same by (auto simp: reportsTarget_def sampleHost_def)
  qed
  show ?thesis using reported_fleet_completes [OF sampleReady_OK o(1) c _ t] each t unfolding o(2) by blast
qed

end
