(* ===== verification/History.thy ===== *)
theory History
  imports Ledger
begin

text \<open>
  The job history and the disruptions: the statements on \<open>job_history\<close> a lease's life
  writes (\<open>recordAssignment\<close>, \<open>recordJobPhaseTx\<close>, \<open>recordJobStartTx\<close>,
  \<open>archive\<close>) and \<open>internal/alloc/disruption.go\<close>. A history row is keyed by its
  lease. The random usage mark of an archived row and the notice of a completed queue wait
  are left out: neither is read by an operation modelled here. An empty timestamp column is
  \<open>None\<close>.
\<close>

section \<open>Rows\<close>

text \<open>The fields of a Go \<open>Lease\<close> that a \<open>NULL\<close> column reads as the zero value.\<close>

definition leaseNode :: "LeaseRow \<Rightarrow> string" where
  "leaseNode r = (case r_node r of Some n \<Rightarrow> n | None \<Rightarrow> [])"

definition leaseTarget :: "LeaseRow \<Rightarrow> string" where
  "leaseTarget r = (case r_target r of Some n \<Rightarrow> n | None \<Rightarrow> [])"

definition orZero :: "int option \<Rightarrow> int" where
  "orZero v = (case v of Some n \<Rightarrow> n | None \<Rightarrow> 0)"

definition nullableID :: "int \<Rightarrow> int option" where
  "nullableID v = (if v = 0 then None else Some v)"

definition attribution :: "LeaseRow \<Rightarrow> string option" where
  "attribution l =
     (if leaseNode l \<noteq> [] then Some (leaseNode l)
      else if leaseTarget l \<noteq> [] then Some (leaseTarget l)
      else None)"

definition emptyHistory :: "string \<Rightarrow> string \<Rightarrow> int \<Rightarrow> HistoryRow" where
  "emptyHistory i tier queued =
     \<lparr>h_leaseID = i, h_tier = tier, h_node = None, h_runID = None, h_requestID = None,
      h_conclusion = None, h_result = [], h_failureReason = [], h_disruption = [],
      h_disruptedAt = None, h_chosenProvider = [], h_instanceType = [], h_vcpu = 0,
      h_memory = 0, h_site = [], h_price = 0, h_holder = [], h_queuedAt = queued,
      h_assignedAt = None, h_startedAt = None, h_finishedAt = None, h_boughtAt = None,
      h_launchedAt = None, h_launchIncarnation = [], h_custodyAt = None, h_teardownAt = None,
      h_quarantinedAt = None, h_usageSeq = 0\<rparr>"

text \<open>\<open>INSERT \<dots> ON CONFLICT (lease_id) DO UPDATE\<close>.\<close>

definition upsertHistory :: "HistoryRow \<Rightarrow> (HistoryRow \<Rightarrow> HistoryRow) \<Rightarrow> Ledger \<Rightarrow> Ledger" where
  "upsertHistory new f d =
     (if h_leaseID new \<in> set (map h_leaseID (history d))
      then d\<lparr>history := upd_where (\<lambda>h. h_leaseID h = h_leaseID new) f (history d)\<rparr>
      else d\<lparr>history := history d @ [new]\<rparr>)"

definition updHistory :: "string \<Rightarrow> (HistoryRow \<Rightarrow> HistoryRow) \<Rightarrow> Ledger \<Rightarrow> Ledger" where
  "updHistory i f d = d\<lparr>history := upd_where (\<lambda>h. h_leaseID h = i) f (history d)\<rparr>"

definition keepFirst :: "int option \<Rightarrow> int option \<Rightarrow> int option" where
  "keepFirst old v = (case old of None \<Rightarrow> v | Some _ \<Rightarrow> old)"

definition boughtAt :: "Ledger \<Rightarrow> string \<Rightarrow> int option" where
  "boughtAt d i = map_option r_createdAt (findLease d i)"

section \<open>What a lease's life records\<close>

definition recordAssignment :: "LeaseRow \<Rightarrow> int \<Rightarrow> int \<Rightarrow> int \<Rightarrow> Ledger \<Rightarrow> Ledger" where
  "recordAssignment l run request now d =
     upsertHistory
       ((emptyHistory (r_id l) (r_tier l) now)\<lparr>h_node := attribution l, h_runID := Some run,
          h_requestID := Some request, h_assignedAt := Some now, h_vcpu := r_vcpu l,
          h_memory := r_memory l, h_boughtAt := boughtAt d (r_id l)\<rparr>)
       (\<lambda>h. h\<lparr>h_runID := Some run, h_requestID := Some request, h_assignedAt := Some now,
          h_vcpu := r_vcpu l, h_memory := r_memory l,
          h_boughtAt := keepFirst (h_boughtAt h) (boughtAt d (r_id l))\<rparr>) d"

definition RecordJobPhase :: "Phase \<Rightarrow> int \<Rightarrow> string \<Rightarrow> HistoryRow \<Rightarrow> HistoryRow" where
  "RecordJobPhase p stamp incarnation h =
     h\<lparr>h_launchedAt := (if p = PhaseLaunching then keepFirst (h_launchedAt h) (Some stamp) else h_launchedAt h),
       h_launchIncarnation := (if p = PhaseLaunching \<and> h_launchedAt h = None then incarnation
                               else h_launchIncarnation h),
       h_custodyAt := (if p = PhaseCustody then keepFirst (h_custodyAt h) (Some stamp) else h_custodyAt h),
       h_teardownAt := (if p = PhaseTeardown then keepFirst (h_teardownAt h) (Some stamp) else h_teardownAt h),
       h_quarantinedAt := (if p = PhaseQuarantine then keepFirst (h_quarantinedAt h) (Some stamp)
                           else h_quarantinedAt h)\<rparr>"

definition recordJobPhaseTx :: "string \<Rightarrow> Phase \<Rightarrow> int \<Rightarrow> string \<Rightarrow> Ledger \<Rightarrow> Ledger" where
  "recordJobPhaseTx i p now incarnation d =
     (if p \<in> {PhaseLaunching, PhaseCustody, PhaseTeardown, PhaseQuarantine}
      then updHistory i (RecordJobPhase p now incarnation) d else d)"

definition archivedRow :: "LeaseRow \<Rightarrow> Phase \<Rightarrow> int \<Rightarrow> int \<Rightarrow> int option \<Rightarrow> HistoryRow \<Rightarrow> HistoryRow" where
  "archivedRow l outcome now sequence bought h =
     h\<lparr>h_usageSeq := (if h_usageSeq h = 0 then sequence else h_usageSeq h),
       h_boughtAt := keepFirst (h_boughtAt h) bought,
       h_conclusion := Some outcome, h_failureReason := r_failureReason l,
       h_finishedAt := Some now,
       h_node := (case attribution l of Some n \<Rightarrow> Some n | None \<Rightarrow> h_node h),
       h_runID := (case nullableID (orZero (r_runID l)) of Some n \<Rightarrow> Some n | None \<Rightarrow> h_runID h),
       h_requestID := (case nullableID (orZero (r_requestID l)) of Some n \<Rightarrow> Some n | None \<Rightarrow> h_requestID h),
       h_disruption := (if r_disruption l \<noteq> [] then r_disruption l else h_disruption h),
       h_disruptedAt := (if r_disruption l \<noteq> [] then r_disruptedAt l else h_disruptedAt h),
       h_chosenProvider := r_chosenProvider l, h_instanceType := r_instanceType l,
       h_vcpu := r_vcpu l, h_memory := r_memory l, h_site := r_site l, h_price := r_price l,
       h_holder := (if r_holder l \<noteq> [] then r_holder l else h_holder h)\<rparr>"

fun bumpTier :: "string \<Rightarrow> (string \<times> int) list \<Rightarrow> (string \<times> int) list" where
  "bumpTier tier [] = [(tier, 1)]"
| "bumpTier tier ((t, n) # rest) = (if t = tier then (t, n + 1) # rest else (t, n) # bumpTier tier rest)"

definition archive :: "LeaseRow \<Rightarrow> Phase \<Rightarrow> int \<Rightarrow> Ledger \<Rightarrow> Ledger" where
  "archive l outcome now d =
     (let sequence = usageSeq d + 1; bought = boughtAt d (r_id l);
          row = archivedRow l outcome now sequence bought;
          d = upsertHistory (row (emptyHistory (r_id l) (r_tier l) now)) row (d\<lparr>usageSeq := sequence\<rparr>)
      in d\<lparr>tierReleases := bumpTier (r_tier l) (tierReleases d)\<rparr>)"

section \<open>Disruptions\<close>

abbreviation "DisruptionNodeForgotten \<equiv> ''node-forgotten''"
abbreviation "DisruptionGuestAbsent \<equiv> ''guest-absent''"
abbreviation "DisruptionReclaimed \<equiv> ''reclaimed''"
abbreviation "DisruptionHeldPastLimit \<equiv> ''held-past-limit''"

abbreviation "LaunchFailedReason \<equiv> ''billet:launch-failed''"
abbreviation "HeldPastLimitReason \<equiv> ''billet:held-past-limit''"
abbreviation "RunnerRetiredReason \<equiv> ''billet:runner-retired''"
abbreviation "ForceReleasedReason \<equiv> ''billet:force-released''"
abbreviation "inventoryAbsenceFailureReason \<equiv> ''billet:provisional:inventory-absence''"

definition DisruptionValid :: "string \<Rightarrow> bool" where
  "DisruptionValid t \<longleftrightarrow> t \<in> set [DisruptionNodeForgotten, DisruptionGuestAbsent,
     DisruptionReclaimed, DisruptionHeldPastLimit]"

definition disruptionFor :: "string \<Rightarrow> bool \<Rightarrow> string option" where
  "disruptionFor reason started =
     (if reason = LaunchFailedReason \<or> reason = RunnerRetiredReason
      then (if started then Some DisruptionReclaimed else None)
      else if reason = ForceReleasedReason then None
      else if reason = HeldPastLimitReason then Some DisruptionHeldPastLimit
      else Some DisruptionReclaimed)"

text \<open>
  The guard of \<open>disruption.sql\<close>: no token yet, compute that may still exist, and no
  result GitHub has already reported for the job.
\<close>

definition disruptable :: "Ledger \<Rightarrow> LeaseRow \<Rightarrow> bool" where
  "disruptable d r \<longleftrightarrow>
     r_disruption r = [] \<and> (hadCompute (r_phase r) \<or> r_phase r = PhaseQuarantine)
     \<and> \<not> list_ex (\<lambda>h. h_leaseID h = r_id r \<and> h_result h \<noteq> []) (history d)
     \<and> \<not> list_ex (\<lambda>(i, result). i = r_id r \<and> result \<noteq> []) (pending d)"

definition DisruptableLease :: "Ledger \<Rightarrow> string \<Rightarrow> string list" where
  "DisruptableLease d i = map r_id (filter (\<lambda>r. r_id r = i \<and> disruptable d r) (leases d))"

definition DisruptableLeasesOnNode :: "Ledger \<Rightarrow> string \<Rightarrow> string list" where
  "DisruptableLeasesOnNode d node =
     map r_id (filter (\<lambda>r. coalesceNode r = Some node \<and> disruptable d r) (leases d))"

fun applyDisruptionTx :: "string list \<Rightarrow> string \<Rightarrow> int \<Rightarrow> Ledger \<Rightarrow> Ledger" where
  "applyDisruptionTx [] token now d = d"
| "applyDisruptionTx (i # ids) token now d =
     applyDisruptionTx ids token now
       (updHistory i (\<lambda>h. h\<lparr>h_disruption := token, h_disruptedAt := Some now\<rparr>)
         (updLease (\<lambda>r. r_id r = i) (\<lambda>r. r\<lparr>r_disruption := token, r_disruptedAt := Some now\<rparr>) d))"

definition disruptableTx :: "string \<Rightarrow> string list \<Rightarrow> string list result" where
  "disruptableTx token ids = (if \<not> DisruptionValid token then Inl ErrInvalid else Inr ids)"

definition markLeaseDisruptedTx :: "string \<Rightarrow> string \<Rightarrow> int \<Rightarrow> Ledger \<Rightarrow> (bool \<times> Ledger) result" where
  "markLeaseDisruptedTx i token now d =
     (case disruptableTx token (DisruptableLease d i) of
        Inl e \<Rightarrow> Inl e
      | Inr ids \<Rightarrow> Inr (ids \<noteq> [], applyDisruptionTx ids token now d))"

definition markNodeDisruptedTx :: "string \<Rightarrow> string \<Rightarrow> int \<Rightarrow> Ledger \<Rightarrow> (int \<times> Ledger) result" where
  "markNodeDisruptedTx node token now d =
     (case disruptableTx token (DisruptableLeasesOnNode d node) of
        Inl e \<Rightarrow> Inl e
      | Inr ids \<Rightarrow> Inr (int (length ids), applyDisruptionTx ids token now d))"

definition ReadJobStarted :: "Ledger \<Rightarrow> string \<Rightarrow> bool" where
  "ReadJobStarted d i = list_ex (\<lambda>h. h_leaseID h = i \<and> h_startedAt h \<noteq> None) (history d)"

definition recordJobStartTx :: "string \<Rightarrow> int \<Rightarrow> Ledger \<Rightarrow> Ledger result" where
  "recordJobStartTx i now d =
     (let d1 = updHistory i (\<lambda>h. h\<lparr>h_startedAt := keepFirst (h_startedAt h) (Some now)\<rparr>) d
      in case findLease d1 i of
           None \<Rightarrow> Inr d1
         | Some settlement \<Rightarrow>
             (case disruptionFor (r_failureReason settlement) True of
                None \<Rightarrow> Inr d1
              | Some token \<Rightarrow>
                  if r_failureReason settlement = LaunchFailedReason
                     \<or> r_failureReason settlement = RunnerRetiredReason
                  then (case markLeaseDisruptedTx i token now d1 of
                          Inl e \<Rightarrow> Inl e | Inr (_, d2) \<Rightarrow> Inr d2)
                  else Inr d1))"

end
