(* ===== verification/Lease_Ops.thy ===== *)
theory Lease_Ops
  imports History
begin

text \<open>
  The operations of a lease's holder and of the reaper: \<open>Assign\<close>, \<open>Advance\<close>
  (\<open>transition\<close>), \<open>Bind\<close>, \<open>Heartbeat\<close>, \<open>HeartbeatMany\<close>,
  \<open>MarkFailure\<close>, \<open>Release\<close>, \<open>ReleaseFailed\<close>, \<open>Reap\<close>,
  \<open>MarkDeregistered\<close> and the reads of active runners, of
  \<open>internal/alloc/alloc.go\<close>. Each is one transaction: an error leaves the ledger as it
  was. The clock's reading and the allocator are arguments.
\<close>

section \<open>Loading a lease at an epoch\<close>

definition loadAny :: "Ledger \<Rightarrow> string \<Rightarrow> int \<Rightarrow> LeaseRow result" where
  "loadAny d i e =
     (case findLease d i of
        None \<Rightarrow> Inl ErrLeaseNotFound
      | Some row \<Rightarrow> if r_epoch row \<noteq> e then Inl ErrFenced else Inr row)"

definition load :: "Ledger \<Rightarrow> string \<Rightarrow> int \<Rightarrow> LeaseRow result" where
  "load d i e =
     (case loadAny d i e of
        Inl x \<Rightarrow> Inl x
      | Inr l \<Rightarrow> if Terminal (r_phase l) then Inl ErrLeaseNotFound else Inr l)"

section \<open>Assigning, binding and advancing\<close>

definition Assign :: "Allocator \<Rightarrow> int \<Rightarrow> int \<Rightarrow> int \<Rightarrow> string \<Rightarrow> int \<Rightarrow> Ledger \<Rightarrow> Ledger result" where
  "Assign a now run request i e d =
     (case load d i e of
        Inl x \<Rightarrow> Inl x
      | Inr l \<Rightarrow>
          if r_phase l = PhaseAssigned
          then (if orZero (r_runID l) \<noteq> run \<or> orZero (r_requestID l) \<noteq> request
                then Inl ErrConflict else Inr d)
          else if \<not> canMoveTo (r_phase l) PhaseAssigned then Inl ErrBadTransition
          else Inr (recordAssignment l run request now
                     (AssignLease run request now (now + a_leaseTTL a) i e d)))"

definition checkPlacement :: "Allocator \<Rightarrow> Ledger \<Rightarrow> LeaseRow \<Rightarrow> string \<Rightarrow> unit result" where
  "checkPlacement a d l node =
     (if \<not> allowsGuestOS a node (r_guestOS l) then Inl ErrGuestOSNotAllowed
      else if decodeProviders (r_providers l) = [] then Inl ErrNotPlaceable
      else case findNode d node of
             None \<Rightarrow> Inl ErrWrongNode
           | Some n \<Rightarrow>
               if n_provider n \<notin> set (decodeProviders (r_providers l)) then Inl ErrWrongProvider
               else Inr ())"

definition Bind :: "Allocator \<Rightarrow> string \<Rightarrow> string \<Rightarrow> int \<Rightarrow> Ledger \<Rightarrow> Ledger result" where
  "Bind a node i e d =
     (if node = [] then Inl ErrInvalid
      else case load d i e of
        Inl x \<Rightarrow> Inl x
      | Inr l \<Rightarrow>
          if leaseTarget l \<noteq> [] \<and> leaseTarget l \<noteq> node then Inl ErrWrongNode
          else if leaseNode l = node then Inr d
          else if leaseNode l \<noteq> [] then Inl ErrWrongNode
          else if requiresPlacement (r_phase l) then Inl ErrWrongNode
          else (case checkPlacement a d l node of
                  Inl x \<Rightarrow> Inl x
                | Inr _ \<Rightarrow>
                    (case findNode d node of
                       None \<Rightarrow> Inl ErrStore
                     | Some n \<Rightarrow> Inr (BindLease node (n_provider n) (n_incarnation n) i e d))))"

definition refreshHolder :: "LeaseRow \<Rightarrow> Ledger \<Rightarrow> Ledger" where
  "refreshHolder l d =
     (if leaseNode l = [] then d
      else case findNode d (leaseNode l) of
             None \<Rightarrow> d
           | Some n \<Rightarrow>
               if n_incarnation n = [] \<or> n_incarnation n = r_holder l then d
               else RefreshLeaseHolder (n_incarnation n) (r_id l) (r_epoch l) d)"

text \<open>The lease's placement, checked before a repeated move is answered.\<close>

definition placementAllows :: "Allocator \<Rightarrow> Ledger \<Rightarrow> LeaseRow \<Rightarrow> Phase \<Rightarrow> unit result" where
  "placementAllows a d l to_phase =
     (if \<not> requiresPlacement to_phase then Inr ()
      else if leaseNode l = [] then Inl ErrNotPlaced
      else checkPlacement a d l (leaseNode l))"

text \<open>A repeat of the phase the lease is in.\<close>

definition repeatPhase :: "int \<Rightarrow> LeaseRow \<Rightarrow> Phase \<Rightarrow> Ledger \<Rightarrow> Ledger result" where
  "repeatPhase now l to_phase d =
     (if to_phase = PhaseCustody \<or> to_phase = PhaseTeardown then Inr (refreshHolder l d)
      else if to_phase = PhaseBusy then recordJobStartTx (r_id l) now d
      else Inr d)"

definition movePhase :: "Allocator \<Rightarrow> int \<Rightarrow> LeaseRow \<Rightarrow> Phase \<Rightarrow> Ledger \<Rightarrow> Ledger result" where
  "movePhase a now l to_phase d =
     (let held = (to_phase = PhaseCustody \<or> to_phase = PhaseTeardown);
          heldAt = (if held then keepFirst (r_heldAt l) (Some now) else r_heldAt l);
          holder = (if held then (case findNode d (leaseNode l) of
                                    None \<Rightarrow> r_holder l | Some n \<Rightarrow> n_incarnation n)
                    else r_holder l);
          d1 = HoldLease to_phase heldAt now (now + a_leaseTTL a) holder (r_id l) (r_epoch l) d;
          d2 = recordJobPhaseTx (r_id l) to_phase now holder d1
      in case (if to_phase = PhaseBusy then recordJobStartTx (r_id l) now d2 else Inr d2) of
           Inl x \<Rightarrow> Inl x
         | Inr d3 \<Rightarrow> Inr (if Terminal to_phase then archive l to_phase now d3 else d3))"

definition transition :: "Allocator \<Rightarrow> int \<Rightarrow> Phase \<Rightarrow> string \<Rightarrow> int \<Rightarrow> Ledger \<Rightarrow> Ledger result" where
  "transition a now to_phase i e d =
     (case load d i e of
        Inl x \<Rightarrow> Inl x
      | Inr l \<Rightarrow>
          if r_phase l \<noteq> to_phase \<and> \<not> canMoveTo (r_phase l) to_phase then Inl ErrBadTransition
          else (case placementAllows a d l to_phase of
                  Inl x \<Rightarrow> Inl x
                | Inr _ \<Rightarrow>
                    if r_phase l = to_phase then repeatPhase now l to_phase d
                    else movePhase a now l to_phase d))"

definition Advance :: "Allocator \<Rightarrow> int \<Rightarrow> Phase \<Rightarrow> string \<Rightarrow> int \<Rightarrow> Ledger \<Rightarrow> Ledger result" where
  "Advance a now to_phase i e d = transition a now to_phase i e d"

section \<open>Renewing\<close>

text \<open>\<open>utf8.ValidString\<close>, on the bytes of the string.\<close>

abbreviation "cont b \<equiv> (0x80 :: nat) \<le> b \<and> b \<le> 0xBF"

fun validBytes :: "nat list \<Rightarrow> bool" where
  "validBytes [] = True"
| "validBytes (b # bs) =
     (if b < 0x80 then validBytes bs
      else if 0xC2 \<le> b \<and> b \<le> 0xDF
      then (case bs of c # r \<Rightarrow> cont c \<and> validBytes r | _ \<Rightarrow> False)
      else if 0xE0 \<le> b \<and> b \<le> 0xEF
      then (case bs of c1 # c2 # r \<Rightarrow> cont c1 \<and> cont c2 \<and> (b = 0xE0 \<longrightarrow> 0xA0 \<le> c1)
              \<and> (b = 0xED \<longrightarrow> c1 \<le> 0x9F) \<and> validBytes r | _ \<Rightarrow> False)
      else if 0xF0 \<le> b \<and> b \<le> 0xF4
      then (case bs of c1 # c2 # c3 # r \<Rightarrow> cont c1 \<and> cont c2 \<and> cont c3
              \<and> (b = 0xF0 \<longrightarrow> 0x90 \<le> c1) \<and> (b = 0xF4 \<longrightarrow> c1 \<le> 0x8F) \<and> validBytes r | _ \<Rightarrow> False)
      else False)"

definition ValidString :: "string \<Rightarrow> bool" where
  "ValidString s = validBytes (map of_char s)"

definition heartbeatTx :: "Allocator \<Rightarrow> int \<Rightarrow> string \<Rightarrow> int \<Rightarrow> Ledger \<Rightarrow> Ledger result" where
  "heartbeatTx a now i e d =
     (if CHR 0x00 \<in> set i \<or> \<not> ValidString i then Inl ErrLeaseNotFound
      else case load d i e of
        Inl x \<Rightarrow> Inl x
      | Inr l \<Rightarrow>
          if r_forceRelease l then Inl ErrForceRelease
          else Inr (HeartbeatLease now (now + a_leaseTTL a) i e d))"

definition Heartbeat :: "Allocator \<Rightarrow> int \<Rightarrow> string \<Rightarrow> int \<Rightarrow> Ledger \<Rightarrow> Ledger result" where
  "Heartbeat a now i e d = heartbeatTx a now i e d"

definition renewable :: "Ledger \<Rightarrow> LeaseRef list \<Rightarrow> LeaseRow \<Rightarrow> bool" where
  "renewable d refs r \<longleftrightarrow> isOpen r \<and> \<not> r_forceRelease r
     \<and> \<lparr>lr_id = r_id r, lr_epoch = r_epoch r\<rparr> \<in> set refs"

text \<open>\<open>HeartbeatLeases\<close> renews the leases the packed string names and returns them.\<close>

definition HeartbeatLeases :: "int \<Rightarrow> int \<Rightarrow> string \<Rightarrow> Ledger \<Rightarrow> LeaseRef list \<times> Ledger" where
  "HeartbeatLeases now expires packed d =
     (let refs = map unpackRef (parts packed)
      in (map (\<lambda>r. \<lparr>lr_id = r_id r, lr_epoch = r_epoch r\<rparr>) (filter (renewable d refs) (leases d)),
          updLease (renewable d refs) (\<lambda>r. r\<lparr>r_heartbeatAt := now, r_expiresAt := expires\<rparr>) d))"

text \<open>
  The answers of one transaction, in the order of the references: \<open>None\<close> for a lease
  renewed. A failed write ends the transaction with its error.
\<close>

fun askEach ::
  "Allocator \<Rightarrow> int \<Rightarrow> LeaseRef list \<Rightarrow> LeaseRef list \<Rightarrow> Ledger \<Rightarrow> (err option list \<times> Ledger) result" where
  "askEach a now renewed [] d = Inr ([], d)"
| "askEach a now renewed (ref # refs) d =
     (if packable ref \<and> ref \<in> set renewed
      then (case askEach a now renewed refs d of
              Inl x \<Rightarrow> Inl x | Inr (as, d') \<Rightarrow> Inr (None # as, d'))
      else case heartbeatTx a now (lr_id ref) (lr_epoch ref) d of
             Inl x \<Rightarrow>
               if x \<notin> {ErrLeaseNotFound, ErrFenced, ErrForceRelease} then Inl x
               else (case askEach a now renewed refs d of
                       Inl y \<Rightarrow> Inl y | Inr (as, d') \<Rightarrow> Inr (Some x # as, d'))
           | Inr d1 \<Rightarrow>
               (case askEach a now renewed refs d1 of
                  Inl y \<Rightarrow> Inl y | Inr (as, d') \<Rightarrow> Inr (None # as, d')))"

definition heartbeatManyTx ::
  "Allocator \<Rightarrow> int \<Rightarrow> LeaseRef list \<Rightarrow> Ledger \<Rightarrow> (err option list \<times> Ledger) result" where
  "heartbeatManyTx a now refs d =
     (let (packed, count, _) = packLeaseRefs refs;
          (renewed, d1) = (if 0 < count then HeartbeatLeases now (now + a_leaseTTL a) packed d
                           else ([], d))
      in askEach a now renewed refs d1)"

definition heartbeatBatch :: nat where
  "heartbeatBatch = 256"

function HeartbeatMany :: "Allocator \<Rightarrow> int \<Rightarrow> LeaseRef list \<Rightarrow> Ledger \<Rightarrow> err option list \<times> Ledger" where
  "HeartbeatMany a now refs d =
     (if refs = [] then ([], d)
      else let part = take heartbeatBatch refs;
               (answers, d1) = (case heartbeatManyTx a now part d of
                                  Inl x \<Rightarrow> (replicate (length part) (Some x), d)
                                | Inr r \<Rightarrow> r);
               (rest, d2) = HeartbeatMany a now (drop heartbeatBatch refs) d1
           in (answers @ rest, d2))"
  by pat_completeness auto
termination
  by (relation "measure (\<lambda>(_, _, refs, _). length refs)") (auto simp: heartbeatBatch_def)

declare HeartbeatMany.simps [simp del]

section \<open>Failing, releasing and reaping\<close>

text \<open>The lease is handed back with what was written onto it.\<close>

definition markFailureTx :: "int \<Rightarrow> LeaseRow \<Rightarrow> string \<Rightarrow> Ledger \<Rightarrow> (LeaseRow \<times> Ledger) result" where
  "markFailureTx now l reason d =
     (if r_failureReason l \<noteq> [] \<and> r_failureReason l \<noteq> reason then Inl ErrConflict
      else let d1 = MarkLeaseFailure reason (r_id l) (r_epoch l) d;
               l1 = l\<lparr>r_failureReason := reason\<rparr>
           in case disruptionFor reason (ReadJobStarted d1 (r_id l)) of
                None \<Rightarrow> Inr (l1, d1)
              | Some token \<Rightarrow>
                  (case markLeaseDisruptedTx (r_id l) token now d1 of
                     Inl x \<Rightarrow> Inl x
                   | Inr (marked, d2) \<Rightarrow>
                       Inr (if marked then l1\<lparr>r_disruption := token, r_disruptedAt := Some now\<rparr> else l1, d2)))"

definition MarkFailure :: "int \<Rightarrow> string \<Rightarrow> string \<Rightarrow> int \<Rightarrow> Ledger \<Rightarrow> Ledger result" where
  "MarkFailure now text i e d =
     (let reason = TrimSpace text
      in if reason = [] \<or> reason = inventoryAbsenceFailureReason \<or> reason = ForceReleasedReason
         then Inl ErrInvalid
         else case load d i e of
                Inl x \<Rightarrow> Inl x
              | Inr l \<Rightarrow> (case markFailureTx now l reason d of Inl x \<Rightarrow> Inl x | Inr (_, d') \<Rightarrow> Inr d'))"

definition Release :: "int \<Rightarrow> Phase \<Rightarrow> string \<Rightarrow> int \<Rightarrow> Ledger \<Rightarrow> Ledger result" where
  "Release now outcome i e d =
     (if \<not> Terminal outcome then Inl ErrBadTransition
      else case loadAny d i e of
             Inl x \<Rightarrow> Inl x
           | Inr l \<Rightarrow>
               if Terminal (r_phase l) then (if r_phase l \<noteq> outcome then Inl ErrConflict else Inr d)
               else Inr (archive l outcome now (SetLeasePhase outcome i e d)))"

definition BackfillFailureReason :: "string \<Rightarrow> string \<Rightarrow> Ledger \<Rightarrow> Ledger" where
  "BackfillFailureReason reason i d =
     (if list_ex (\<lambda>r. r_id r = i \<and> r_phase r = PhaseFailed \<and> r_failureReason r = []) (leases d)
      then d\<lparr>history := upd_where (\<lambda>h. h_leaseID h = i \<and> h_failureReason h = [])
               (\<lambda>h. h\<lparr>h_failureReason := reason\<rparr>) (history d)\<rparr>
      else d)"

definition ReleaseFailed :: "int \<Rightarrow> string \<Rightarrow> string \<Rightarrow> int \<Rightarrow> Ledger \<Rightarrow> Ledger result" where
  "ReleaseFailed now text i e d =
     (let reason = TrimSpace text
      in if reason = [] \<or> reason = inventoryAbsenceFailureReason \<or> reason = ForceReleasedReason
         then Inl ErrInvalid
         else case loadAny d i e of
                Inl x \<Rightarrow> Inl x
              | Inr l \<Rightarrow>
                  if Terminal (r_phase l)
                  then (if r_phase l \<noteq> PhaseFailed then Inl ErrConflict
                        else if r_failureReason l = []
                        then Inr (BackfillLeaseFailureReason reason i (BackfillFailureReason reason i d))
                        else Inr d)
                  else (case (if r_failureReason l = [] then markFailureTx now l reason d else Inr (l, d)) of
                          Inl x \<Rightarrow> Inl x
                        | Inr (l1, d1) \<Rightarrow>
                            Inr (archive l1 PhaseFailed now (SetLeasePhase PhaseFailed i e d1))))"

definition reapBatchSize :: nat where
  "reapBatchSize = 256"

definition reapOne :: "int \<Rightarrow> LeaseRow \<Rightarrow> Ledger \<Rightarrow> Ledger" where
  "reapOne now l d =
     (let to_phase = (if hadCompute (r_phase l) then PhaseQuarantine else PhaseFailed);
          d1 = ReclaimLease to_phase now (r_id l) (r_epoch l) d
      in if to_phase = PhaseQuarantine then recordJobPhaseTx (r_id l) to_phase now [] d1
         else archive l PhaseFailed now d1)"

fun reapAll :: "int \<Rightarrow> LeaseRow list \<Rightarrow> Ledger \<Rightarrow> int \<times> Ledger" where
  "reapAll now [] d = (0, d)"
| "reapAll now (l # ls) d =
     (let (n, d') = reapAll now ls (reapOne now l d)
      in (if hadCompute (r_phase l) then n else n + 1, d'))"

definition Reap :: "int \<Rightarrow> Ledger \<Rightarrow> int \<times> Ledger" where
  "Reap now d = reapAll now (ListExpiredLeases d now reapBatchSize) d"

definition MarkDeregistered :: "string \<Rightarrow> Ledger \<Rightarrow> Ledger" where
  "MarkDeregistered i d = MarkLeaseDeregistered i d"

section \<open>Runners GitHub may still route to\<close>

definition activeRunner :: "string \<Rightarrow> LeaseRow \<Rightarrow> bool" where
  "activeRunner tier r \<longleftrightarrow> r_tier r = tier \<and> r_phase r \<notin> {PhaseCapacity, PhaseDone, PhaseFailed}
     \<and> \<not> r_deregistered r"

definition ActiveRunnerLeases :: "Ledger \<Rightarrow> string \<Rightarrow> int" where
  "ActiveRunnerLeases d tier = count_where (activeRunner tier) (leases d)"

definition ActiveRunnersAt :: "Ledger \<Rightarrow> string \<Rightarrow> int \<times> int" where
  "ActiveRunnersAt d tier =
     (count_where (activeRunner tier) (leases d),
      (case map_of (tierReleases d) tier of Some n \<Rightarrow> n | None \<Rightarrow> 0))"

end
