(* ===== verification/Lease_Facts.thy ===== *)
theory Lease_Facts
  imports Lease_Ops
begin

text \<open>
  How the operations of a lease's holder move the ledger. Every one of them is a
  \<open>ledgerStep\<close>: it keeps each row's identity and charge, moves its phase only along the
  state machine and its epoch only up, and touches no node, no credential and no pool order. What a step cannot do (free a
  terminal lease again, raise a usage) follows once for all operations.
\<close>

section \<open>The history's statements leave the other tables alone\<close>

lemma updHistory_other [simp]:
  "leases (updHistory i f d) = leases d" "nodes (updHistory i f d) = nodes d"
  "pending (updHistory i f d) = pending d" "poolOrders (updHistory i f d) = poolOrders d"
  "admission (updHistory i f d) = admission d" "tierReleases (updHistory i f d) = tierReleases d"
  "usageSeq (updHistory i f d) = usageSeq d" "inventories (updHistory i f d) = inventories d"
  "seal (updHistory i f d) = seal d" "barrier (updHistory i f d) = barrier d" "barrierRuns (updHistory i f d) = barrierRuns d"
  "credentials (updHistory i f d) = credentials d"
  "history (updHistory i f d) = upd_where (\<lambda>h. h_leaseID h = i) f (history d)"
  by (simp_all add: updHistory_def)

lemma upsertHistory_other [simp]:
  "leases (upsertHistory h f d) = leases d" "nodes (upsertHistory h f d) = nodes d"
  "pending (upsertHistory h f d) = pending d" "poolOrders (upsertHistory h f d) = poolOrders d"
  "admission (upsertHistory h f d) = admission d" "tierReleases (upsertHistory h f d) = tierReleases d"
  "usageSeq (upsertHistory h f d) = usageSeq d" "inventories (upsertHistory h f d) = inventories d"
  "seal (upsertHistory h f d) = seal d" "barrier (upsertHistory h f d) = barrier d" "barrierRuns (upsertHistory h f d) = barrierRuns d"
  "credentials (upsertHistory h f d) = credentials d"
  by (simp_all add: upsertHistory_def)

lemma recordJobPhaseTx_other [simp]:
  "leases (recordJobPhaseTx i p now inc d) = leases d" "nodes (recordJobPhaseTx i p now inc d) = nodes d"
  "admission (recordJobPhaseTx i p now inc d) = admission d"
  "credentials (recordJobPhaseTx i p now inc d) = credentials d" "poolOrders (recordJobPhaseTx i p now inc d) = poolOrders d"
  by (simp_all add: recordJobPhaseTx_def)

lemma recordAssignment_other [simp]:
  "leases (recordAssignment l run req now d) = leases d" "nodes (recordAssignment l run req now d) = nodes d"
  "admission (recordAssignment l run req now d) = admission d"
  "credentials (recordAssignment l run req now d) = credentials d" "poolOrders (recordAssignment l run req now d) = poolOrders d"
  by (simp_all add: recordAssignment_def)

lemma archive_other [simp]:
  "leases (archive l p now d) = leases d" "nodes (archive l p now d) = nodes d"
  "admission (archive l p now d) = admission d" "pending (archive l p now d) = pending d"
  "usageSeq (archive l p now d) = usageSeq d + 1"
  "credentials (archive l p now d) = credentials d" "poolOrders (archive l p now d) = poolOrders d"
  by (simp_all add: archive_def Let_def)

lemma BackfillFailureReason_other [simp]:
  "leases (BackfillFailureReason reason i d) = leases d" "nodes (BackfillFailureReason reason i d) = nodes d"
  "admission (BackfillFailureReason reason i d) = admission d"
  "credentials (BackfillFailureReason reason i d) = credentials d" "poolOrders (BackfillFailureReason reason i d) = poolOrders d"
  by (simp_all add: BackfillFailureReason_def)

section \<open>Steps\<close>

definition rowStep :: "LeaseRow \<Rightarrow> LeaseRow \<Rightarrow> bool" where
  "rowStep r r' \<longleftrightarrow>
     r_id r' = r_id r \<and> r_tier r' = r_tier r \<and> r_target r' = r_target r
     \<and> r_macosSlot r' = r_macosSlot r \<and> r_vcpu r' = r_vcpu r \<and> r_memory r' = r_memory r
     \<and> r_epoch r \<le> r_epoch r' \<and> (r_phase r' = r_phase r \<or> walk (r_phase r) (r_phase r'))
     \<and> (r_node r' = r_node r \<or> leaseNode r = [] \<and> (leaseTarget r = [] \<or> r_node r' = r_target r))"

definition ledgerStep :: "Ledger \<Rightarrow> Ledger \<Rightarrow> bool" where
  "ledgerStep d d' \<longleftrightarrow> list_all2 rowStep (leases d) (leases d') \<and> nodes d' = nodes d
     \<and> admission d' = admission d \<and> credentials d' = credentials d \<and> poolOrders d' = poolOrders d"

lemma rowStep_refl [simp]: "rowStep r r"
  by (simp add: rowStep_def)

lemma walk_trans: "walk q r \<Longrightarrow> walk p q \<Longrightarrow> walk p r"
  by (induction rule: walk.induct) (auto intro: walk.intros)

lemma rowStep_trans: "rowStep r s \<Longrightarrow> rowStep s u \<Longrightarrow> rowStep r u"
  unfolding rowStep_def leaseNode_def leaseTarget_def
  by (elim conjE, intro conjI) (auto intro: walk_trans split: option.splits)

lemma ledgerStep_refl [simp]: "ledgerStep d d"
  by (simp add: ledgerStep_def list_all2_refl)

lemma ledgerStep_trans: "ledgerStep d e \<Longrightarrow> ledgerStep e f \<Longrightarrow> ledgerStep d f"
  unfolding ledgerStep_def by (auto intro: list_all2_trans [OF rowStep_trans])

lemma ledgerStep_same:
  "leases d' = leases d \<Longrightarrow> nodes d' = nodes d \<Longrightarrow> admission d' = admission d \<Longrightarrow>
     credentials d' = credentials d \<Longrightarrow> poolOrders d' = poolOrders d \<Longrightarrow> ledgerStep d d'"
  by (simp add: ledgerStep_def list_all2_refl)

lemma ledgerStep_updLease:
  assumes "\<And>r. r \<in> set (leases d) \<Longrightarrow> P r \<Longrightarrow> rowStep r (f r)"
  shows "ledgerStep d (updLease P f d)"
  using assms by (simp add: ledgerStep_def upd_where_def list_all2_map2 list.rel_refl_strong)

text \<open>At most one row has an id.\<close>

lemma row_at:
  assumes "ledgerOK d" and "findLease d i = Some l" and "r \<in> set (leases d)" and "r_id r = i"
  shows "r = l"
  using assms findLease_distinct [of d r] by (auto simp: ledgerOK_def)

lemma ledgerStep_one:
  assumes "ledgerOK d" and "findLease d i = Some l" and "\<And>r. P r \<Longrightarrow> r_id r = i" and "rowStep l (f l)"
  shows "ledgerStep d (updLease P f d)"
  using assms row_at by (intro ledgerStep_updLease) blast

lemma ledgerStep_ids: "ledgerStep d d' \<Longrightarrow> map r_id (leases d') = map r_id (leases d)"
proof -
  have "list_all2 rowStep xs ys \<Longrightarrow> map r_id ys = map r_id xs" for xs ys
    by (induction rule: list_all2_induct) (simp_all add: rowStep_def)
  then show "ledgerStep d d' \<Longrightarrow> ?thesis" by (simp add: ledgerStep_def)
qed

lemma ledgerStep_row:
  assumes "ledgerStep d d'" and "findLease d i = Some r"
  obtains r' where "findLease d' i = Some r'" "rowStep r r'"
proof -
  have "list_all2 rowStep xs ys \<Longrightarrow> find (\<lambda>r. r_id r = i) xs = Some r \<Longrightarrow>
      \<exists>r'. find (\<lambda>r. r_id r = i) ys = Some r' \<and> rowStep r r'" for xs ys
    by (induction rule: list_all2_induct) (auto simp: rowStep_def split: if_splits)
  then show ?thesis using assms that by (auto simp: ledgerStep_def findLease_def)
qed

lemma ledgerStep_OK:
  assumes "ledgerStep d d'" and "ledgerOK d"
  shows "ledgerOK d'"
proof -
  have "list_all2 rowStep xs ys \<Longrightarrow> \<forall>r \<in> set xs. 0 \<le> r_vcpu r \<and> 0 \<le> r_memory r \<Longrightarrow>
      \<forall>r \<in> set ys. 0 \<le> r_vcpu r \<and> 0 \<le> r_memory r" for xs ys
    by (induction rule: list_all2_induct) (auto simp: rowStep_def)
  then show ?thesis
    using assms ledgerStep_ids [OF assms(1)] by (auto simp: ledgerOK_def ledgerStep_def)
qed

section \<open>What no step can do\<close>

lemma rowStep_open: "rowStep r r' \<Longrightarrow> isOpen r' \<Longrightarrow> isOpen r"
  using walk_from_open by (auto simp: rowStep_def isOpen_def)

lemma list_all2_sum_le:
  assumes "list_all2 R xs ys" and "\<And>r r'. R r r' \<Longrightarrow> P r' \<Longrightarrow> P r \<and> w r' = w r"
    and "\<forall>r \<in> set xs. 0 \<le> w r"
  shows "sum_where P w ys \<le> sum_where P w xs"
  using assms(1,3)
proof (induction rule: list_all2_induct)
  case (Cons r xs r' ys)
  then show ?case using assms(2) [of r r'] by (auto simp: add_mono)
qed simp

lemma ledgerStep_usage:
  assumes "ledgerStep d d'" and "ledgerOK d"
    and "\<And>r r'. rowStep r r' \<Longrightarrow> Q r' \<Longrightarrow> Q r"
  shows "sum_where (\<lambda>r. isOpen r \<and> Q r) r_vcpu (leases d') \<le> sum_where (\<lambda>r. isOpen r \<and> Q r) r_vcpu (leases d)"
    and "sum_where (\<lambda>r. isOpen r \<and> Q r) r_memory (leases d') \<le> sum_where (\<lambda>r. isOpen r \<and> Q r) r_memory (leases d)"
    and "sum_where (\<lambda>r. isOpen r \<and> Q r) (\<lambda>_. 1) (leases d') \<le> sum_where (\<lambda>r. isOpen r \<and> Q r) (\<lambda>_. 1) (leases d)"
  using assms rowStep_open
  by (auto simp: ledgerStep_def ledgerOK_def intro!: list_all2_sum_le) (simp_all add: rowStep_def)

section \<open>Each operation is a step\<close>

lemma loadAny_Inr:
  "loadAny d i e = Inr l \<longleftrightarrow> findLease d i = Some l \<and> r_epoch l = e"
  by (auto simp: loadAny_def split: option.splits if_splits)

lemma load_Inr:
  "load d i e = Inr l \<longleftrightarrow> findLease d i = Some l \<and> r_epoch l = e \<and> \<not> Terminal (r_phase l)"
  by (auto simp: load_def loadAny_Inr split: sum.splits if_splits) (simp_all add: loadAny_def)

lemma rowStep_phase:
  assumes "canMoveTo (r_phase r) p \<or> p = r_phase r" and "r_id r' = r_id r" and "r_tier r' = r_tier r"
    and "r_target r' = r_target r" and "r_macosSlot r' = r_macosSlot r" and "r_vcpu r' = r_vcpu r"
    and "r_memory r' = r_memory r" and "r_epoch r \<le> r_epoch r'" and "r_phase r' = p" and "r_node r' = r_node r"
  shows "rowStep r r'"
  using assms by (auto simp: rowStep_def intro: walk_one)

lemma findLease_id: "findLease d i = Some l \<Longrightarrow> r_id l = i"
  using findLease_Some by blast

lemma history_step:
  "ledgerStep d (archive l p now d)" "ledgerStep d (recordAssignment l run request now d)"
  "ledgerStep d (recordJobPhaseTx i p now inc d)" "ledgerStep d (updHistory i f d)"
  "ledgerStep d (BackfillFailureReason reason i d)"
  by (rule ledgerStep_same; simp)+

lemma applyDisruptionTx_step: "ledgerStep d (applyDisruptionTx ids token now d)"
proof (induction ids arbitrary: d)
  case (Cons i ids)
  let ?d1 = "updLease (\<lambda>r. r_id r = i) (\<lambda>r. r\<lparr>r_disruption := token, r_disruptedAt := Some now\<rparr>) d"
  let ?d2 = "updHistory i (\<lambda>h. h\<lparr>h_disruption := token, h_disruptedAt := Some now\<rparr>) ?d1"
  have "ledgerStep d ?d1" by (rule ledgerStep_updLease) (simp add: rowStep_def)
  then have "ledgerStep d ?d2" using history_step(4) by (rule ledgerStep_trans)
  then have "ledgerStep d (applyDisruptionTx ids token now ?d2)" using Cons by (rule ledgerStep_trans)
  then show ?case by (simp only: applyDisruptionTx.simps)
qed simp

lemma markLeaseDisruptedTx_step:
  "markLeaseDisruptedTx i token now d = Inr (marked, d') \<Longrightarrow> ledgerStep d d'"
  using applyDisruptionTx_step by (auto simp: markLeaseDisruptedTx_def split: sum.splits)

lemma recordJobStartTx_step:
  assumes "recordJobStartTx i now d = Inr d'"
  shows "ledgerStep d d'"
proof -
  let ?d1 = "updHistory i (\<lambda>h. h\<lparr>h_startedAt := keepFirst (h_startedAt h) (Some now)\<rparr>) d"
  have one: "ledgerStep d ?d1" by (rule ledgerStep_same) simp_all
  have "d' = ?d1 \<or> (\<exists>token m. markLeaseDisruptedTx i token now ?d1 = Inr (m, d'))"
    using assms unfolding recordJobStartTx_def Let_def
    by (auto split: option.splits if_splits sum.splits)
  then show ?thesis using one markLeaseDisruptedTx_step ledgerStep_trans by blast
qed

lemma AssignLease_step:
  assumes "ledgerOK d" and "findLease d i = Some l" and "canMoveTo (r_phase l) PhaseAssigned"
  shows "ledgerStep d (AssignLease run request now expires i e d)"
  unfolding AssignLease_def
  by (rule ledgerStep_one [OF assms(1,2)])
     (use assms(3) in \<open>auto simp: atEpoch_def intro!: rowStep_phase\<close>)

lemma HoldLease_step:
  assumes "ledgerOK d" and "findLease d i = Some l" and "canMoveTo (r_phase l) p"
  shows "ledgerStep d (HoldLease p heldAt now expires holder i e d)"
  unfolding HoldLease_def
  by (rule ledgerStep_one [OF assms(1,2)])
     (use assms(3) in \<open>auto simp: atEpoch_def intro!: rowStep_phase\<close>)

lemma SetLeasePhase_step:
  assumes "ledgerOK d" and "findLease d i = Some l" and "canMoveTo (r_phase l) p"
  shows "ledgerStep d (SetLeasePhase p i e d)"
  unfolding SetLeasePhase_def
  by (rule ledgerStep_one [OF assms(1,2)])
     (use assms(3) in \<open>auto simp: atEpoch_def intro!: rowStep_phase\<close>)

lemma ReclaimLease_step:
  assumes "ledgerOK d" and "findLease d i = Some l" and "canMoveTo (r_phase l) p"
  shows "ledgerStep d (ReclaimLease p now i e d)"
  unfolding ReclaimLease_def
  by (rule ledgerStep_one [OF assms(1,2)])
     (use assms(3) in \<open>auto simp: atEpoch_def intro!: rowStep_phase\<close>)

lemma BindLease_step:
  assumes "ledgerOK d" and "findLease d i = Some l" and "leaseNode l = []"
    and "leaseTarget l = [] \<or> leaseTarget l = node" and "node \<noteq> []"
  shows "ledgerStep d (BindLease node provider holder i e d)"
  unfolding BindLease_def
  by (rule ledgerStep_one [OF assms(1,2)])
     (use assms(3-5) in \<open>auto simp: atEpoch_def rowStep_def leaseTarget_def split: option.splits\<close>)

lemma touch_step:
  "ledgerStep d (HeartbeatLease now expires i e d)" "ledgerStep d (MarkLeaseFailure reason i e d)"
  "ledgerStep d (MarkLeaseDeregistered i d)" "ledgerStep d (BackfillLeaseFailureReason reason i d)"
  "ledgerStep d (RefreshLeaseHolder holder i e d)"
  "ledgerStep d (updLease (renewable d refs) (\<lambda>r. r\<lparr>r_heartbeatAt := now, r_expiresAt := expires\<rparr>) d)"
  unfolding lease_writes by (rule ledgerStep_updLease; simp add: rowStep_def)+

lemma Assign_step:
  assumes "ledgerOK d" and "Assign a now run request i e d = Inr d'"
  shows "ledgerStep d d'"
proof -
  obtain l where l: "findLease d i = Some l"
    using assms(2) by (cases "load d i e") (auto simp: Assign_def load_Inr)
  show ?thesis
  proof (cases "d' = d")
    case False
    have "load d i e = Inr l" using assms(2) l by (cases "load d i e") (auto simp: Assign_def load_Inr)
    then have m: "canMoveTo (r_phase l) PhaseAssigned" and d': "d' = recordAssignment l run request now
        (AssignLease run request now (now + a_leaseTTL a) i e d)"
      using assms(2) False by (auto simp: Assign_def split: if_splits)
    show ?thesis
      unfolding d' by (rule ledgerStep_trans [OF AssignLease_step [OF assms(1) l m] history_step(2)])
  qed simp
qed

lemma Bind_step:
  assumes "ledgerOK d" and "Bind a node i e d = Inr d'"
  shows "ledgerStep d d'"
proof -
  obtain l where l: "load d i e = Inr l" and n: "node \<noteq> []"
    using assms(2) by (cases "load d i e") (auto simp: Bind_def split: if_splits)
  have f: "findLease d i = Some l" using l by (simp add: load_Inr)
  show ?thesis
  proof (cases "d' = d")
    case False
    have "leaseTarget l = [] \<or> leaseTarget l = node" "leaseNode l = []"
      using assms(2) l n False by (auto simp: Bind_def split: if_splits)
    moreover obtain p h where "d' = BindLease node p h i e d"
      using assms(2) l n False by (auto simp: Bind_def split: if_splits sum.splits option.splits)
    ultimately show ?thesis using BindLease_step [OF assms(1) f] n by simp
  qed simp
qed

lemma refreshHolder_step: "ledgerStep d (refreshHolder l d)"
  unfolding refreshHolder_def by (simp add: touch_step split: option.split)

lemma movePhase_step:
  assumes "ledgerOK d" and "findLease d (r_id l) = Some l" and "canMoveTo (r_phase l) p"
    and "movePhase a now l p d = Inr d'"
  shows "ledgerStep d d'"
proof -
  obtain heldAt holder inc d3 where
    s: "(if p = PhaseBusy then recordJobStartTx (r_id l) now
          (recordJobPhaseTx (r_id l) p now inc (HoldLease p heldAt now (now + a_leaseTTL a) holder (r_id l) (r_epoch l) d))
        else Inr (recordJobPhaseTx (r_id l) p now inc (HoldLease p heldAt now (now + a_leaseTTL a) holder (r_id l) (r_epoch l) d)))
        = Inr d3"
    and d': "d' = (if Terminal p then archive l p now d3 else d3)"
    using assms(4) unfolding movePhase_def Let_def by (auto split: sum.splits)
  let ?d1 = "HoldLease p heldAt now (now + a_leaseTTL a) holder (r_id l) (r_epoch l) d"
  let ?d2 = "recordJobPhaseTx (r_id l) p now inc ?d1"
  have "ledgerStep d ?d1" by (rule HoldLease_step [OF assms(1-3)])
  moreover have "ledgerStep ?d1 ?d2" by (rule ledgerStep_same) simp_all
  moreover have "ledgerStep ?d2 d3" using s recordJobStartTx_step by (auto split: if_splits)
  moreover have "ledgerStep d3 d'" unfolding d' by (rule ledgerStep_same) simp_all
  ultimately show ?thesis using ledgerStep_trans by blast
qed

lemma transition_step:
  assumes "ledgerOK d" and "transition a now p i e d = Inr d'"
  shows "ledgerStep d d'"
proof -
  obtain l where l: "load d i e = Inr l"
    using assms(2) by (cases "load d i e") (auto simp: transition_def)
  have f: "findLease d i = Some l" and i: "r_id l = i"
    using l findLease_id by (auto simp: load_Inr)
  consider "repeatPhase now l p d = Inr d'" | "canMoveTo (r_phase l) p" "movePhase a now l p d = Inr d'"
    using assms(2) l by (auto simp: transition_def split: if_splits sum.splits)
  then show ?thesis
  proof cases
    case 1
    then show ?thesis
      using refreshHolder_step recordJobStartTx_step by (auto simp: repeatPhase_def split: if_splits)
  next
    case 2
    then show ?thesis using movePhase_step [OF assms(1), of l] f i by simp
  qed
qed

lemma heartbeatTx_step: "heartbeatTx a now i e d = Inr d' \<Longrightarrow> ledgerStep d d'"
  by (auto simp: heartbeatTx_def touch_step split: if_splits sum.splits)

lemma markFailureTx_step:
  assumes "markFailureTx now l reason d = Inr (l', d')"
  shows "ledgerStep d d'"
proof -
  have "d' = MarkLeaseFailure reason (r_id l) (r_epoch l) d \<or>
      (\<exists>token m. markLeaseDisruptedTx (r_id l) token now (MarkLeaseFailure reason (r_id l) (r_epoch l) d) = Inr (m, d'))"
    using assms unfolding markFailureTx_def Let_def
    by (auto split: option.splits if_splits sum.splits)
  then show ?thesis using touch_step(2) markLeaseDisruptedTx_step ledgerStep_trans by blast
qed

lemma MarkFailure_step: "MarkFailure now text i e d = Inr d' \<Longrightarrow> ledgerStep d d'"
  using markFailureTx_step by (auto simp: MarkFailure_def Let_def split: if_splits sum.splits)

lemma Release_step:
  assumes "ledgerOK d" and "Release now outcome i e d = Inr d'"
  shows "ledgerStep d d'"
proof -
  obtain l where l: "findLease d i = Some l" and t: "Terminal outcome"
    using assms(2) by (cases "loadAny d i e") (auto simp: Release_def loadAny_Inr split: if_splits)
  show ?thesis
  proof (cases "d' = d")
    case False
    have "\<not> Terminal (r_phase l)" and d': "d' = archive l outcome now (SetLeasePhase outcome i e d)"
      using assms(2) l False by (auto simp: Release_def loadAny_def split: if_splits)
    then have "canMoveTo (r_phase l) outcome" using t open_to_terminal by blast
    then show ?thesis
      unfolding d' by (rule ledgerStep_trans [OF SetLeasePhase_step [OF assms(1) l] history_step(1)])
  qed simp
qed

end
