(* ===== verification/Lease_Safety.thy ===== *)
theory Lease_Safety
  imports Lease_Facts Sample
begin

text \<open>
  Fencing, release and reaping. A \<open>fenced\<close> operation names a lease at an epoch and is
  refused at any other; every operation a holder calls is one, so a holder whose lease was
  reclaimed can do nothing more to it. \<open>Reap\<close> is characterised row by row.
\<close>

section \<open>The interface: a fenced operation\<close>

locale fenced =
  fixes ready :: "string \<Rightarrow> bool" and op :: "string \<Rightarrow> int \<Rightarrow> Ledger \<Rightarrow> Ledger result"
  assumes stale: "ready i \<Longrightarrow> findLease d i = Some r \<Longrightarrow> r_epoch r \<noteq> e \<Longrightarrow> op i e d = Inl ErrFenced"
    and missing: "ready i \<Longrightarrow> findLease d i = None \<Longrightarrow> op i e d = Inl ErrLeaseNotFound"
begin

lemma holder_refused:
  assumes "ready i" and "findLease d i = Some r" and "e < r_epoch r"
  shows "op i e d = Inl ErrFenced"
  using assms stale by simp

lemma succeeds_only_at_epoch:
  assumes "ready i" and "op i e d = Inr d'"
  shows "\<exists>r. findLease d i = Some r \<and> r_epoch r = e"
  using assms stale [of i d] missing [of i d e] by (cases "findLease d i") fastforce+

end

lemma loadAny_stale: "findLease d i = Some r \<Longrightarrow> r_epoch r \<noteq> e \<Longrightarrow> loadAny d i e = Inl ErrFenced"
  by (simp add: loadAny_def)

lemma loadAny_missing: "findLease d i = None \<Longrightarrow> loadAny d i e = Inl ErrLeaseNotFound"
  by (simp add: loadAny_def)

lemma load_stale: "findLease d i = Some r \<Longrightarrow> r_epoch r \<noteq> e \<Longrightarrow> load d i e = Inl ErrFenced"
  by (simp add: load_def loadAny_stale)

lemma load_missing: "findLease d i = None \<Longrightarrow> load d i e = Inl ErrLeaseNotFound"
  by (simp add: load_def loadAny_missing)

lemmas fence_rules = loadAny_stale loadAny_missing load_stale load_missing

interpretation assign: fenced "\<lambda>_. True" "Assign a now run request" for a now run request
  by unfold_locales (simp_all add: Assign_def fence_rules)

interpretation advance: fenced "\<lambda>_. True" "Advance a now to_phase" for a now to_phase
  by unfold_locales (simp_all add: Advance_def transition_def fence_rules)

interpretation bind: fenced "\<lambda>_. node \<noteq> []" "Bind a node" for a node
  by unfold_locales (simp_all add: Bind_def fence_rules)

definition reasonAllowed :: "string \<Rightarrow> bool" where
  "reasonAllowed why \<longleftrightarrow> TrimSpace why \<notin> {[], inventoryAbsenceFailureReason, ForceReleasedReason}"

interpretation markFailure: fenced "\<lambda>_. reasonAllowed why" "MarkFailure now why" for now why
  by unfold_locales (simp_all add: MarkFailure_def Let_def fence_rules reasonAllowed_def)

interpretation release: fenced "\<lambda>_. Terminal outcome" "Release now outcome" for now outcome
  by unfold_locales (simp_all add: Release_def fence_rules)

interpretation releaseFailed: fenced "\<lambda>_. reasonAllowed why" "ReleaseFailed now why" for now why
  by unfold_locales (simp_all add: ReleaseFailed_def Let_def fence_rules reasonAllowed_def)

text \<open>A renewal first refuses an id the ledger cannot hold.\<close>

definition nameable :: "string \<Rightarrow> bool" where
  "nameable i \<longleftrightarrow> CHR 0x00 \<notin> set i \<and> ValidString i"

interpretation heartbeat: fenced nameable "Heartbeat a now" for a now
  by unfold_locales (simp_all add: Heartbeat_def heartbeatTx_def fence_rules nameable_def)

section \<open>Release\<close>

definition keyOf :: "LeaseRow \<Rightarrow> string \<times> Phase \<times> int" where
  "keyOf r = (r_id r, r_phase r, r_epoch r)"

lemma findLease_key:
  assumes "map keyOf (leases d') = map keyOf (leases d)" and "findLease d i = Some l"
  shows "\<exists>l'. findLease d' i = Some l' \<and> r_phase l' = r_phase l \<and> r_epoch l' = r_epoch l"
proof -
  have "map keyOf ys = map keyOf xs \<Longrightarrow> find (\<lambda>r. r_id r = i) xs = Some l \<Longrightarrow>
      \<exists>l'. find (\<lambda>r. r_id r = i) ys = Some l' \<and> r_phase l' = r_phase l \<and> r_epoch l' = r_epoch l" for xs ys
    by (induction xs arbitrary: ys) (auto simp: keyOf_def split: if_splits)
  then show ?thesis using assms by (simp add: findLease_def)
qed

lemma applyDisruptionTx_key:
  "map keyOf (leases (applyDisruptionTx ids token now d)) = map keyOf (leases d)"
  by (induction ids arbitrary: d) (simp_all add: map_upd_where_same keyOf_def)

lemma markLeaseDisruptedTx_key:
  "markLeaseDisruptedTx i token now d = Inr (m, d') \<Longrightarrow> map keyOf (leases d') = map keyOf (leases d)"
  by (auto simp: markLeaseDisruptedTx_def applyDisruptionTx_key split: sum.splits)

lemma markFailureTx_key:
  assumes "markFailureTx now l reason d = Inr (l', d')"
  shows "map keyOf (leases d') = map keyOf (leases d)"
proof -
  let ?d1 = "MarkLeaseFailure reason (r_id l) (r_epoch l) d"
  have one: "map keyOf (leases ?d1) = map keyOf (leases d)"
    by (simp add: MarkLeaseFailure_def map_upd_where_same keyOf_def)
  have "d' = ?d1 \<or> (\<exists>token m. markLeaseDisruptedTx (r_id l) token now ?d1 = Inr (m, d'))"
    using assms unfolding markFailureTx_def Let_def
    by (auto split: option.splits if_splits sum.splits)
  then show ?thesis using one markLeaseDisruptedTx_key by metis
qed

lemma ReleaseFailed_step:
  assumes "ledgerOK d" and "ReleaseFailed now why i e d = Inr d'"
  shows "ledgerStep d d'"
proof -
  let ?reason = "TrimSpace why"
  obtain l where l: "loadAny d i e = Inr l" and ok: "reasonAllowed why"
    using assms(2) by (cases "loadAny d i e") (auto simp: ReleaseFailed_def Let_def reasonAllowed_def split: if_splits)
  have f: "findLease d i = Some l" using l by (simp add: loadAny_Inr)
  show ?thesis
  proof (cases "Terminal (r_phase l)")
    case True
    then have "d' = d \<or> d' = BackfillLeaseFailureReason ?reason i (BackfillFailureReason ?reason i d)"
      using assms(2) l ok by (auto simp: ReleaseFailed_def Let_def reasonAllowed_def split: if_splits)
    then show ?thesis using ledgerStep_trans [OF history_step(5) touch_step(4)] by auto
  next
    case False
    obtain l1 d1 where m: "(if r_failureReason l = [] then markFailureTx now l ?reason d else Inr (l, d)) = Inr (l1, d1)"
      and d': "d' = archive l1 PhaseFailed now (SetLeasePhase PhaseFailed i e d1)"
      using assms(2) l ok False
      by (auto simp: ReleaseFailed_def Let_def reasonAllowed_def split: if_splits sum.splits)
    have s: "ledgerStep d d1" and k: "map keyOf (leases d1) = map keyOf (leases d)"
      using m markFailureTx_step markFailureTx_key by (auto split: if_splits)
    obtain r where r: "findLease d1 i = Some r" "r_phase r = r_phase l" using findLease_key [OF k f] by blast
    then have "canMoveTo (r_phase r) PhaseFailed" using False open_to_terminal by (simp add: Terminal_def)
    then have "ledgerStep d1 (SetLeasePhase PhaseFailed i e d1)"
      using SetLeasePhase_step [OF ledgerStep_OK [OF s assms(1)] r(1)] by blast
    then show ?thesis unfolding d' using s history_step(1) ledgerStep_trans by blast
  qed
qed

end
