(* ===== verification/Inventory.thy ===== *)
theory Inventory
  imports Lease_Safety
begin

text \<open>
  What hosts report running: \<open>recordInventoryTx\<close>, \<open>computeListedTx\<close>,
  \<open>computeListedNowTx\<close> and \<open>NodeInventories\<close> of
  \<open>internal/alloc/quarantine.go\<close>, with the statements on \<open>node_inventory\<close>,
  \<open>pool_orders\<close> and \<open>compute_barrier_nodes\<close> they run. A report that lists compute
  contradicts the release of a pool host: its clearance run ends, a retirement its seal
  recorded is undone, and its barrier run is discarded.
\<close>

section \<open>Statements\<close>

definition upsertBy :: "('a \<Rightarrow> 'k) \<Rightarrow> 'a \<Rightarrow> ('a \<Rightarrow> 'a) \<Rightarrow> 'a list \<Rightarrow> 'a list" where
  "upsertBy key new f rows =
     (if key new \<in> set (map key rows) then upd_where (\<lambda>r. key r = key new) f rows else rows @ [new])"

definition UpsertNodeInventory :: "string \<Rightarrow> int \<Rightarrow> int \<Rightarrow> int \<Rightarrow> Ledger \<Rightarrow> Ledger" where
  "UpsertNodeInventory node epoch received running d =
     (let new = \<lparr>iv_node = node, iv_epoch = epoch, iv_receivedAt = received, iv_running = running\<rparr>
      in d\<lparr>inventories := upsertBy iv_node new (\<lambda>_. new) (inventories d)\<rparr>)"

definition DeleteBarrierRun :: "string \<Rightarrow> Ledger \<Rightarrow> Ledger" where
  "DeleteBarrierRun node d = d\<lparr>barrierRuns := filter (\<lambda>r. br_node r \<noteq> node) (barrierRuns d)\<rparr>"

text \<open>The pool orders a node is the node of, in one of some states.\<close>

definition poolNodeIn :: "string \<Rightarrow> string list \<Rightarrow> PoolOrder \<Rightarrow> bool" where
  "poolNodeIn node states p \<longleftrightarrow> po_nodeName p = node \<and> po_nodeName p \<noteq> [] \<and> po_state p \<in> set states"

definition contradicted :: "PoolOrder \<Rightarrow> PoolOrder" where
  "contradicted p = p\<lparr>po_contradicted := True, po_clearSince := None, po_clearObservedAt := None,
     po_clearGeneration := po_clearGeneration p + 1\<rparr>"

definition ContradictPoolRelease :: "string \<Rightarrow> Ledger \<Rightarrow> int \<times> Ledger" where
  "ContradictPoolRelease node d =
     (count_where (poolNodeIn node [''placed'', ''sealed'']) (poolOrders d),
      d\<lparr>poolOrders := upd_where (poolNodeIn node [''placed'', ''sealed'']) contradicted (poolOrders d)\<rparr>)"

abbreviation "poolReleaseActor \<equiv> ''billet pool release''"

definition UndoPoolRetirement :: "string \<Rightarrow> string \<Rightarrow> Ledger \<Rightarrow> int \<times> Ledger" where
  "UndoPoolRetirement node actor d =
     (count_where (\<lambda>n. n_name n = node \<and> n_decommissionActor n = actor) (nodes d),
      updNode (\<lambda>n. n_name n = node \<and> n_decommissionActor n = actor)
        (\<lambda>n. n\<lparr>n_decommissionedAt := None, n_decommissionProven := False, n_decommissionActor := []\<rparr>) d)"

section \<open>Recording a report\<close>

definition computeListedTx :: "string \<Rightarrow> Ledger \<Rightarrow> Ledger" where
  "computeListedTx node d =
     (let (pool, d1) = ContradictPoolRelease node d;
          (undone, d2) = UndoPoolRetirement node poolReleaseActor d1
      in if 0 < pool \<or> 0 < undone then DeleteBarrierRun node d2 else d2)"

definition recordInventoryTx :: "string \<Rightarrow> int \<Rightarrow> int \<Rightarrow> int \<Rightarrow> Ledger \<Rightarrow> Ledger" where
  "recordInventoryTx node epoch running now d =
     (let d1 = UpsertNodeInventory node epoch now running d
      in if 0 < running then computeListedTx node d1 else d1)"

definition computeListedNowTx :: "string \<Rightarrow> int \<Rightarrow> Ledger \<Rightarrow> Ledger" where
  "computeListedNowTx node epoch d =
     (case findNode d node of
        None \<Rightarrow> d
      | Some fence \<Rightarrow> if n_epoch fence \<noteq> epoch then d else computeListedTx node d)"

text \<open>
  What every host last said, under the registration in force: \<open>None\<close> where it has said
  nothing under it, never a zero.
\<close>

record InventoryReport =
  ir_reportedRunning :: int
  ir_receivedAt :: int

record NodeInventory =
  ni_node :: string
  ni_live :: bool
  ni_report :: "InventoryReport option"

definition NodeInventories :: "Ledger \<Rightarrow> NodeInventory list" where
  "NodeInventories d =
     map (\<lambda>n. \<lparr>ni_node = n_name n, ni_live = n_live n,
            ni_report = (case find (\<lambda>i. iv_node i = n_name n) (inventories d) of
               None \<Rightarrow> None
             | Some i \<Rightarrow> if iv_epoch i = n_epoch n
                 then Some \<lparr>ir_reportedRunning = iv_running i, ir_receivedAt = iv_receivedAt i\<rparr>
                 else None)\<rparr>)
       (sort_key n_name (nodes d))"

section \<open>What recording leaves alone\<close>

lemma DeleteBarrierRun_other [simp]:
  "leases (DeleteBarrierRun node d) = leases d" "nodes (DeleteBarrierRun node d) = nodes d"
  "history (DeleteBarrierRun node d) = history d" "pending (DeleteBarrierRun node d) = pending d"
  "admission (DeleteBarrierRun node d) = admission d" "seal (DeleteBarrierRun node d) = seal d"
  "inventories (DeleteBarrierRun node d) = inventories d" "barrier (DeleteBarrierRun node d) = barrier d"
  "poolOrders (DeleteBarrierRun node d) = poolOrders d" "usageSeq (DeleteBarrierRun node d) = usageSeq d"
  "credentials (DeleteBarrierRun node d) = credentials d"
  by (simp_all add: DeleteBarrierRun_def)

lemma recordInventoryTx_other [simp]:
  "leases (recordInventoryTx node e n now d) = leases d" "history (recordInventoryTx node e n now d) = history d"
  "pending (recordInventoryTx node e n now d) = pending d"
  "admission (recordInventoryTx node e n now d) = admission d" "seal (recordInventoryTx node e n now d) = seal d"
  "barrier (recordInventoryTx node e n now d) = barrier d" "credentials (recordInventoryTx node e n now d) = credentials d"
  by (simp_all add: recordInventoryTx_def computeListedTx_def ContradictPoolRelease_def
      UndoPoolRetirement_def UpsertNodeInventory_def Let_def)

lemma computeListedTx_other [simp]:
  "leases (computeListedTx node d) = leases d" "history (computeListedTx node d) = history d"
  "pending (computeListedTx node d) = pending d"
  "admission (computeListedTx node d) = admission d" "seal (computeListedTx node d) = seal d"
  "barrier (computeListedTx node d) = barrier d" "inventories (computeListedTx node d) = inventories d"
  "credentials (computeListedTx node d) = credentials d"
  by (simp_all add: computeListedTx_def ContradictPoolRelease_def UndoPoolRetirement_def Let_def)

text \<open>A node's identity and its fences are not an inventory's to move.\<close>

definition sameFences :: "NodeRow list \<Rightarrow> NodeRow list \<Rightarrow> bool" where
  "sameFences = list_all2 (\<lambda>n n'. n_name n' = n_name n \<and> n_epoch n' = n_epoch n \<and> n_dispatch n' = n_dispatch n
     \<and> n_vcpu n' = n_vcpu n \<and> n_memory n' = n_memory n \<and> n_live n' = n_live n \<and> n_drained n' = n_drained n)"

lemma sameFences_refl [simp]: "sameFences ns ns"
  by (simp add: sameFences_def list.rel_refl_strong)

lemma sameFences_names: "sameFences ns ns' \<Longrightarrow> map n_name ns' = map n_name ns"
  unfolding sameFences_def by (induction rule: list_all2_induct) auto

text \<open>
  What leaves the proof of idleness as it is, or takes evidence from it: the fences of the
  nodes, the barrier and the seal are kept, and no run is added.
\<close>

definition fences :: "Ledger \<Rightarrow> (string \<times> int \<times> int) list" where
  "fences d = map (\<lambda>n. (n_name n, n_epoch n, n_dispatch n)) (nodes d)"

definition evidenceKept :: "Ledger \<Rightarrow> Ledger \<Rightarrow> bool" where
  "evidenceKept d d' \<longleftrightarrow> fences d' = fences d \<and> barrier d' = barrier d \<and> seal d' = seal d
     \<and> set (barrierRuns d') \<subseteq> set (barrierRuns d)"

lemma evidenceKept_refl [simp]: "evidenceKept d d"
  by (simp add: evidenceKept_def)

lemma evidenceKept_trans: "evidenceKept d e \<Longrightarrow> evidenceKept e f \<Longrightarrow> evidenceKept d f"
  by (auto simp: evidenceKept_def)

lemma evidenceKept_same:
  "nodes d' = nodes d \<Longrightarrow> barrier d' = barrier d \<Longrightarrow> seal d' = seal d \<Longrightarrow> barrierRuns d' = barrierRuns d \<Longrightarrow> evidenceKept d d'"
  by (simp add: evidenceKept_def fences_def)

lemma fences_updNode:
  "(\<And>n. P n \<Longrightarrow> n_name (f n) = n_name n \<and> n_epoch (f n) = n_epoch n \<and> n_dispatch (f n) = n_dispatch n) \<Longrightarrow> fences (updNode P f d) = fences d"
  by (auto simp: fences_def updNode_def upd_where_def)

lemma computeListedTx_fences: "sameFences (nodes d) (nodes (computeListedTx node d))"
  by (simp add: computeListedTx_def ContradictPoolRelease_def UndoPoolRetirement_def Let_def
      sameFences_def upd_where_def list_all2_map2 list.rel_refl_strong)

lemma recordInventoryTx_fences: "sameFences (nodes d) (nodes (recordInventoryTx node e n now d))"
  using computeListedTx_fences [of "UpsertNodeInventory node e now n d" node]
  by (simp add: recordInventoryTx_def UpsertNodeInventory_def Let_def)

end
