(* ===== verification/Node_Registry.thy ===== *)
theory Node_Registry
  imports Inventory Version
begin

text \<open>
  The fleet's membership: \<open>RegisterNode\<close> with its checks, \<open>NodeGone\<close> and
  \<open>ForgetEveryNode\<close> of \<open>internal/alloc/alloc.go\<close>, \<open>NodeWithdrawn\<close> and
  \<open>NodeDraining\<close> of \<open>internal/alloc/nodes.go\<close>, and the checks on a CodeBuild
  node's registration path and region of \<open>internal/config\<close>. The regular expressions of
  those checks are written out as the splits they describe.
\<close>

section \<open>What a node reports\<close>

record NodeRegistration =
  g_name :: string
  g_provider :: ProviderKind
  g_site :: string
  g_vcpu :: int
  g_memory :: int
  g_shapes :: "RemoteShape list"
  g_architectures :: "Arch list"
  g_incarnation :: string
  g_fleet :: string
  g_jitPath :: string
  g_region :: string
  g_release :: string
  g_digest :: string
  g_wireMin :: int
  g_wireMax :: int
  g_wireVersion :: int

definition droppedArchitectures :: "string \<Rightarrow> Arch list \<Rightarrow> string list" where
  "droppedArchitectures recorded reported =
     (if reported = [] \<or> recorded = [] then []
      else filter (\<lambda>part. part \<notin> set reported) (Split recorded (CHR '','')))"

definition checkWireTuple :: "NodeRegistration \<Rightarrow> bool" where
  "checkWireTuple reg =
     (if g_wireMin reg = 0 \<and> g_wireMax reg = 0 \<and> g_wireVersion reg = 0 then True
      else \<not> (g_wireMin reg \<le> 0 \<or> g_wireVersion reg < g_wireMin reg \<or> g_wireMax reg < g_wireVersion reg))"

abbreviation "isLower c \<equiv> CHR ''a'' \<le> c \<and> c \<le> CHR ''z''"
abbreviation "isUpper c \<equiv> CHR ''A'' \<le> c \<and> c \<le> CHR ''Z''"

text \<open>\<open>^(/[A-Za-z0-9_.-]+)+$\<close>\<close>

definition ssmParameterPath :: "string \<Rightarrow> bool" where
  "ssmParameterPath path =
     (case path of
        [] \<Rightarrow> False
      | c # rest \<Rightarrow> c = CHR ''/'' \<and> list_all (\<lambda>seg. seg \<noteq> [] \<and>
          list_all (\<lambda>x. isLower x \<or> isUpper x \<or> isDigit x \<or> x \<in> {CHR ''_'', CHR ''.'', CHR ''-''}) seg)
          (Split rest (CHR ''/'')))"

definition toLower :: "char \<Rightarrow> char" where
  "toLower c = (if isUpper c then char_of (of_char c + 32 :: nat) else c)"

definition reservedSSMNamespace :: "string \<Rightarrow> bool" where
  "reservedSSMNamespace path =
     (let lower = map toLower path in take 4 lower = ''/aws'' \<or> take 4 lower = ''/ssm'')"

definition CheckSSMParameterPath :: "string \<Rightarrow> bool" where
  "CheckSSMParameterPath path = (path \<noteq> [] \<and> ssmParameterPath path \<and> \<not> reservedSSMNamespace path)"

text \<open>\<open>^[a-z]{2,}(-[a-z]+)+-\d+$\<close>\<close>

definition awsRegion :: "string \<Rightarrow> bool" where
  "awsRegion s =
     (let ps = Split s (CHR ''-'')
      in 3 \<le> length ps \<and> 2 \<le> length (hd ps) \<and> list_all (\<lambda>c. isLower c) (hd ps)
         \<and> list_all (\<lambda>p. p \<noteq> [] \<and> list_all (\<lambda>c. isLower c) p) (butlast (tl ps))
         \<and> last ps \<noteq> [] \<and> list_all (\<lambda>c. isDigit c) (last ps))"

definition CheckCodeBuildRegion :: "string \<Rightarrow> bool" where
  "CheckCodeBuildRegion region = (TrimSpace region \<noteq> [] \<and> awsRegion (TrimSpace region))"

section \<open>Registering\<close>

text \<open>What is checked before the transaction; the shapes' names are trimmed.\<close>

definition trimShapes :: "RemoteShape list \<Rightarrow> RemoteShape list" where
  "trimShapes shapes = map (\<lambda>s. s\<lparr>s_type := TrimSpace (s_type s)\<rparr>) shapes"

definition registrationOK :: "NodeRegistration \<Rightarrow> bool" where
  "registrationOK reg \<longleftrightarrow>
     (let kind = g_provider reg; shapes = trimShapes (g_shapes reg); fleet = TrimSpace (g_fleet reg);
          jitPath = TrimSpace (g_jitPath reg); region = TrimSpace (g_region reg)
      in g_name reg \<noteq> [] \<and> kind \<noteq> [] \<and> ProviderValid kind \<and> 0 < g_vcpu reg \<and> 0 < g_memory reg
         \<and> checkWireTuple reg
         \<and> (if \<not> RunsOnHost kind then CheckRemoteShapes kind shapes else shapes = [])
         \<and> (fleet = [] \<or> kind = ProviderCodeBuild)
         \<and> (jitPath = [] \<and> region = [] \<or> kind = ProviderCodeBuild \<and> jitPath \<noteq> [] \<and> region \<noteq> []
              \<and> CheckSSMParameterPath jitPath \<and> CheckCodeBuildRegion region)
         \<and> CheckNodeArchitectures kind (g_architectures reg) shapes)"

definition liveWork :: "Ledger \<Rightarrow> string \<Rightarrow> int \<Rightarrow> bool" where
  "liveWork d name now \<longleftrightarrow> 0 < CountLiveWorkOnNode d name now"

text \<open>What a host with outstanding work may not change about itself.\<close>

definition mayReplace :: "int \<Rightarrow> NodeRegistration \<Rightarrow> NodeRow \<Rightarrow> Ledger \<Rightarrow> unit result" where
  "mayReplace now reg ex d =
     (let work = liveWork d (g_name reg) now; kind = g_provider reg; shapes = trimShapes (g_shapes reg)
      in if n_site ex \<noteq> g_site reg \<and> work then Inl ErrWrongSite
         else if n_site ex = g_site reg \<and> n_provider ex \<noteq> kind \<and> work then Inl ErrWrongProvider
         else if n_fleet ex \<noteq> TrimSpace (g_fleet reg) \<and> work then Inl ErrFleetHeld
         else if droppedArchitectures (n_architectures ex) (g_architectures reg) \<noteq> [] \<and> work
         then Inl ErrWrongProvider
         else if n_shapes ex = [] then Inr ()
         else case sameEC2PlacementShapes kind (n_shapes ex) shapes of
                Inl x \<Rightarrow> Inl x
              | Inr same \<Rightarrow> if \<not> same \<and> work then Inl ErrInvalid else Inr ())"

definition FleetClaimHolder :: "Ledger \<Rightarrow> string \<Rightarrow> string \<Rightarrow> bool" where
  "FleetClaimHolder d fleet name =
     list_ex (\<lambda>n. n_fleet n = fleet \<and> n_name n \<noteq> name
       \<and> (n_decommissionedAt n = None \<or> \<not> n_decommissionProven n)) (nodes d)"

definition poolOrderOf :: "string \<Rightarrow> PoolOrder \<Rightarrow> bool" where
  "poolOrderOf name p \<longleftrightarrow> po_nodeName p = name \<or> ''pool-'' @ po_orderID p = name"

abbreviation "releasedStates \<equiv> [''sealed'', ''released'', ''gone'']"

definition PoolHostReleased :: "Ledger \<Rightarrow> string \<Rightarrow> bool" where
  "PoolHostReleased d name = list_ex (\<lambda>p. poolOrderOf name p \<and> po_state p \<in> set releasedStates) (poolOrders d)"

definition highestRelease :: "Ledger \<Rightarrow> string \<Rightarrow> string \<Rightarrow> string" where
  "highestRelease d name release =
     (let recorded = (case findNode d name of None \<Rightarrow> [] | Some n \<Rightarrow> n_highestRelease n)
      in case Canonical (TrimSpace release) of
           None \<Rightarrow> recorded
         | Some canonical \<Rightarrow>
             if recorded = [] then canonical
             else case Compare canonical recorded of
                    Some order \<Rightarrow> if 0 < order then canonical else recorded
                  | None \<Rightarrow> recorded)"

definition registeredRow :: "int \<Rightarrow> NodeRegistration \<Rightarrow> Ledger \<Rightarrow> NodeRow \<Rightarrow> NodeRow" where
  "registeredRow now reg d ex =
     ex\<lparr>n_name := g_name reg, n_provider := g_provider reg, n_site := g_site reg, n_vcpu := g_vcpu reg,
       n_memory := g_memory reg, n_shapes := trimShapes (g_shapes reg),
       n_architectures := JoinArchs (g_architectures reg), n_live := True,
       n_drained := list_ex (\<lambda>p. poolOrderOf (g_name reg) p
         \<and> (po_releaseRequestedAt p \<noteq> None \<or> po_state p \<in> set releasedStates)) (poolOrders d),
       n_lastSeenAt := now, n_incarnation := TrimSpace (g_incarnation reg),
       n_release := TrimSpace (g_release reg),
       n_highestRelease := highestRelease d (g_name reg) (g_release reg),
       n_digest := TrimSpace (g_digest reg), n_wireMin := max (g_wireMin reg) 0,
       n_wireMax := max (g_wireMax reg) 0, n_wireVersion := max (g_wireVersion reg) 0,
       n_fleet := TrimSpace (g_fleet reg), n_jitPath := TrimSpace (g_jitPath reg),
       n_region := TrimSpace (g_region reg), n_decommissionedAt := None,
       n_decommissionProven := False, n_decommissionActor := []\<rparr>"

text \<open>A new row starts at epoch 1; a row that exists moves to its next.\<close>

definition freshNode :: NodeRow where
  "freshNode = \<lparr>n_name = [], n_provider = [], n_site = [], n_vcpu = 0, n_memory = 0, n_shapes = [],
     n_architectures = [], n_live = False, n_drained = False, n_epoch = 0, n_dispatch = 0,
     n_lastSeenAt = 0, n_incarnation = [], n_release = [], n_highestRelease = [], n_digest = [],
     n_wireMin = 0, n_wireMax = 0, n_wireVersion = 0, n_fleet = [], n_jitPath = [], n_region = [],
     n_decommissionedAt = None, n_decommissionProven = False, n_decommissionActor = []\<rparr>"

definition UpsertNodeRegistration :: "int \<Rightarrow> NodeRegistration \<Rightarrow> Ledger \<Rightarrow> int \<times> Ledger" where
  "UpsertNodeRegistration now reg d =
     (case findNode d (g_name reg) of
        None \<Rightarrow>
          (1, d\<lparr>nodes := nodes d @ [(registeredRow now reg d freshNode)\<lparr>n_epoch := 1\<rparr>]\<rparr>)
      | Some ex \<Rightarrow>
          (n_epoch ex + 1,
           updNode (\<lambda>n. n_name n = g_name reg)
             (\<lambda>n. (registeredRow now reg d n)\<lparr>n_epoch := n_epoch n + 1\<rparr>) d))"

definition RegisterNode :: "int \<Rightarrow> NodeRegistration \<Rightarrow> Ledger \<Rightarrow> (int \<times> Ledger) result" where
  "RegisterNode now reg d =
     (if \<not> registrationOK reg then Inl ErrInvalid
      else case (case findNode d (g_name reg) of None \<Rightarrow> Inr () | Some ex \<Rightarrow> mayReplace now reg ex d) of
             Inl x \<Rightarrow> Inl x
           | Inr _ \<Rightarrow>
               if TrimSpace (g_fleet reg) \<noteq> [] \<and> FleetClaimHolder d (TrimSpace (g_fleet reg)) (g_name reg)
               then Inl ErrFleetHeld
               else if PoolHostReleased d (g_name reg) then Inl ErrPoolHostReleased
               else Inr (UpsertNodeRegistration now reg d))"

section \<open>Leaving\<close>

definition NodeGone :: "int \<Rightarrow> string \<Rightarrow> int \<Rightarrow> Ledger \<Rightarrow> Ledger result" where
  "NodeGone now name epoch d =
     (case findNode d name of
        None \<Rightarrow> Inr d
      | Some n \<Rightarrow>
          if n_epoch n \<noteq> epoch then Inr d
          else (case markNodeDisruptedTx name DisruptionNodeForgotten now
                       (updNode (\<lambda>m. n_name m = name \<and> n_epoch m = epoch) (\<lambda>m. m\<lparr>n_live := False\<rparr>) d) of
                  Inl x \<Rightarrow> Inl x
                | Inr (_, d') \<Rightarrow> Inr d'))"

definition ForgetEveryNode :: "Ledger \<Rightarrow> Ledger" where
  "ForgetEveryNode d = (updNode (\<lambda>_. True) (\<lambda>n. n\<lparr>n_live := False\<rparr>) d)\<lparr>inventories := []\<rparr>"

definition atRegistration :: "string \<Rightarrow> int \<Rightarrow> string \<Rightarrow> NodeRow \<Rightarrow> bool" where
  "atRegistration name epoch incarnation n \<longleftrightarrow>
     n_name n = name \<and> n_epoch n = epoch \<and> n_incarnation n = TrimSpace incarnation"

definition NodeWithdrawn :: "string \<Rightarrow> int \<Rightarrow> string \<Rightarrow> Ledger \<Rightarrow> Ledger result" where
  "NodeWithdrawn name epoch incarnation d =
     (if name = [] then Inl ErrInvalid
      else if \<not> list_ex (atRegistration name epoch incarnation) (nodes d) then Inl ErrWithdrawalStale
      else Inr (updNode (atRegistration name epoch incarnation) (\<lambda>n. n\<lparr>n_live := False\<rparr>) d))"

definition NodeDraining :: "string \<Rightarrow> int \<Rightarrow> string \<Rightarrow> Ledger \<Rightarrow> Ledger result" where
  "NodeDraining name epoch incarnation d =
     (if name = [] then Inl ErrInvalid
      else if \<not> list_ex (atRegistration name epoch incarnation) (nodes d) then Inl ErrWithdrawalStale
      else Inr (updNode (atRegistration name epoch incarnation) (\<lambda>n. n\<lparr>n_drained := True\<rparr>) d))"

end
