(* ===== verification/Quarantine.thy ===== *)
theory Quarantine
  imports Inventory
begin

text \<open>
  How a held lease leaves: \<open>ResolveQuarantine\<close>, \<open>ResolveQuarantineFailed\<close>,
  \<open>ResolveQuarantineFor\<close>, \<open>Reconcile\<close>, \<open>ForceRelease\<close>,
  \<open>SettleCompletionOnTerminalLease\<close> and the reports of
  \<open>internal/alloc/quarantine.go\<close>, and \<open>ForceTerminate\<close> of
  \<open>internal/alloc/force.go\<close>. One operation reads the clock once.
\<close>

section \<open>Statements\<close>

definition TerminalizeQuarantinedLease :: "Phase \<Rightarrow> string \<Rightarrow> Ledger \<Rightarrow> Ledger" where
  "TerminalizeQuarantinedLease p i =
     updLease (\<lambda>r. r_id r = i) (\<lambda>r. r\<lparr>r_phase := p, r_epoch := r_epoch r + 1\<rparr>)"

definition TerminalizeQuarantinedLeaseWithReason :: "string \<Rightarrow> string \<Rightarrow> Ledger \<Rightarrow> Ledger" where
  "TerminalizeQuarantinedLeaseWithReason reason i =
     updLease (\<lambda>r. r_id r = i) (\<lambda>r. r\<lparr>r_phase := PhaseFailed, r_epoch := r_epoch r + 1,
       r_failureReason := reason\<rparr>)"

definition FenceQuarantinedLease :: "Phase \<Rightarrow> string \<Rightarrow> int \<Rightarrow> Ledger \<Rightarrow> Ledger" where
  "FenceQuarantinedLease p i e =
     updLease (atEpoch i e) (\<lambda>r. r\<lparr>r_phase := p, r_epoch := r_epoch r + 1\<rparr>)"

definition RequestForceRelease :: "string \<Rightarrow> string \<Rightarrow> int \<Rightarrow> Ledger \<Rightarrow> Ledger" where
  "RequestForceRelease reason i e =
     updLease (atEpoch i e) (\<lambda>r. r\<lparr>r_forceRelease := True,
       r_failureReason := (if r_failureReason r = [] then reason else r_failureReason r)\<rparr>)"

definition TerminateForcedLease :: "Phase \<Rightarrow> string \<Rightarrow> string \<Rightarrow> int \<Rightarrow> Ledger \<Rightarrow> Ledger" where
  "TerminateForcedLease p reason i e =
     updLease (atEpoch i e) (\<lambda>r. r\<lparr>r_phase := p, r_epoch := r_epoch r + 1, r_failureReason := reason\<rparr>)"

definition CorrectProvisionalLease :: "Phase \<Rightarrow> string \<Rightarrow> Ledger \<Rightarrow> Ledger" where
  "CorrectProvisionalLease p i =
     updLease (\<lambda>r. r_id r = i) (\<lambda>r. r\<lparr>r_phase := p, r_failureReason := []\<rparr>)"

definition CorrectProvisionalHistory :: "Phase \<Rightarrow> string \<Rightarrow> Ledger \<Rightarrow> Ledger" where
  "CorrectProvisionalHistory p i =
     updHistory i (\<lambda>h. h\<lparr>h_conclusion := Some p, h_failureReason := []\<rparr>)"

definition ReadJobResult :: "Ledger \<Rightarrow> string \<Rightarrow> string" where
  "ReadJobResult d i =
     (case find (\<lambda>h. h_leaseID h = i) (history d) of None \<Rightarrow> [] | Some h \<Rightarrow> h_result h)"

text \<open>All of a host's quarantined leases, or those that expired before an instant.\<close>

definition quarantinedIDsOn :: "Ledger \<Rightarrow> string \<Rightarrow> int option \<Rightarrow> string list" where
  "quarantinedIDsOn d node settled =
     map r_id (filter (\<lambda>r. r_phase r = PhaseQuarantine \<and> coalesceNode r = Some node
       \<and> (case settled of None \<Rightarrow> True | Some t \<Rightarrow> r_expiresAt r < t)) (leases d))"

definition QuarantinedLeaseIDs :: "Ledger \<Rightarrow> string \<Rightarrow> string set" where
  "QuarantinedLeaseIDs d node = set (quarantinedIDsOn d node None)"

section \<open>Resolving one lease\<close>

definition quarantinedLeaseTx :: "Ledger \<Rightarrow> string \<Rightarrow> LeaseRow result" where
  "quarantinedLeaseTx d i =
     (case findLease d i of
        None \<Rightarrow> Inl ErrLeaseNotFound
      | Some row \<Rightarrow>
          (case loadAny d i (r_epoch row) of
             Inl x \<Rightarrow> Inl x
           | Inr l \<Rightarrow> if r_phase l \<noteq> PhaseQuarantine then Inl ErrLeaseNotFound else Inr l))"

definition ResolveQuarantine :: "int \<Rightarrow> Phase \<Rightarrow> string \<Rightarrow> Ledger \<Rightarrow> Ledger result" where
  "ResolveQuarantine now outcome i d =
     (if \<not> Terminal outcome then Inl ErrBadTransition
      else case quarantinedLeaseTx d i of
             Inl x \<Rightarrow> Inl x
           | Inr l \<Rightarrow> Inr (archive l outcome now (TerminalizeQuarantinedLease outcome i d)))"

definition ResolveQuarantineFailed :: "int \<Rightarrow> string \<Rightarrow> string \<Rightarrow> Ledger \<Rightarrow> Ledger result" where
  "ResolveQuarantineFailed now why i d =
     (let reason = TrimSpace why
      in if reason = [] \<or> reason = inventoryAbsenceFailureReason \<or> reason = ForceReleasedReason
         then Inl ErrInvalid
         else case findLease d i of
           None \<Rightarrow> Inl ErrLeaseNotFound
         | Some row \<Rightarrow>
             (case loadAny d i (r_epoch row) of
                Inl x \<Rightarrow> Inl x
              | Inr l \<Rightarrow>
                  if r_phase l = PhaseFailed
                  then (if r_failureReason l \<noteq> [] then Inr d
                        else Inr (BackfillLeaseFailureReason reason i (BackfillFailureReason reason i d)))
                  else if r_phase l \<noteq> PhaseQuarantine then Inl ErrLeaseNotFound
                  else (case (if r_failureReason l = [] then markFailureTx now l reason d else Inr (l, d)) of
                          Inl x \<Rightarrow> Inl x
                        | Inr (l1, d1) \<Rightarrow>
                            Inr (archive l1 PhaseFailed now (TerminalizeQuarantinedLease PhaseFailed i d1)))))"

section \<open>Resolving by a host's own inventory\<close>

definition quarantineGrace :: int where
  "quarantineGrace = 300000000000"

text \<open>GitHub's own word, if it arrived, decides the outcome; a recorded reason stands.\<close>

definition absentOutcome :: "Ledger \<Rightarrow> LeaseRow \<Rightarrow> LeaseRow \<times> Phase" where
  "absentOutcome d l =
     (if r_failureReason l \<noteq> [] then (l, PhaseFailed)
      else if ReadJobResult d (r_id l) \<noteq> [] then (l, PhaseDone)
      else (l\<lparr>r_failureReason := inventoryAbsenceFailureReason\<rparr>, PhaseFailed))"

definition resolveAbsent :: "int \<Rightarrow> string \<Rightarrow> Ledger \<Rightarrow> Ledger result" where
  "resolveAbsent now i d =
     (case quarantinedLeaseTx d i of
        Inl x \<Rightarrow> Inl x
      | Inr l \<Rightarrow>
          (let (l1, outcome) = absentOutcome d l
           in case markLeaseDisruptedTx i DisruptionGuestAbsent now d of
                Inl x \<Rightarrow> Inl x
              | Inr (marked, d1) \<Rightarrow>
                  (let l2 = (if marked
                       then l1\<lparr>r_disruption := DisruptionGuestAbsent, r_disruptedAt := Some now\<rparr> else l1);
                       d2 = (if outcome = PhaseDone then TerminalizeQuarantinedLease PhaseDone i d1
                             else TerminalizeQuarantinedLeaseWithReason (r_failureReason l2) i d1)
                   in Inr (archive l2 outcome now d2))))"

fun resolveEach :: "int \<Rightarrow> string list \<Rightarrow> string list \<Rightarrow> Ledger \<Rightarrow> (int \<times> Ledger) result" where
  "resolveEach now running [] d = Inr (0, d)"
| "resolveEach now running (i # ids) d =
     (if i \<in> set running then resolveEach now running ids d
      else case resolveAbsent now i d of
             Inl x \<Rightarrow> Inl x
           | Inr d' \<Rightarrow>
               (case resolveEach now running ids d' of
                  Inl x \<Rightarrow> Inl x
                | Inr (n, d'') \<Rightarrow> Inr (n + 1, d'')))"

definition ResolveQuarantineFor ::
  "int \<Rightarrow> string \<Rightarrow> string list \<Rightarrow> int \<Rightarrow> Ledger \<Rightarrow> (int \<times> Ledger) result" where
  "ResolveQuarantineFor now node running epoch d =
     (case findNode d node of
        None \<Rightarrow> Inr (0, d)
      | Some n \<Rightarrow>
          if n_epoch n \<noteq> epoch then Inr (0, d)
          else let d1 = recordInventoryTx node epoch (int (length running)) now d
               in resolveEach now running (quarantinedIDsOn d1 node (Some (now - quarantineGrace))) d1)"

definition Reconcile :: "int \<Rightarrow> string \<Rightarrow> string list \<Rightarrow> Ledger \<Rightarrow> (int \<times> Ledger) result" where
  "Reconcile now node running d =
     (case findNode d node of
        None \<Rightarrow> Inr (0, d)
      | Some n \<Rightarrow> ResolveQuarantineFor now node running (n_epoch n) d)"

section \<open>Completions and operators\<close>

definition SettleCompletionOnTerminalLease ::
  "Phase \<Rightarrow> string \<Rightarrow> int \<Rightarrow> Ledger \<Rightarrow> (bool \<times> Ledger) result" where
  "SettleCompletionOnTerminalLease outcome i e d =
     (if \<not> Terminal outcome then Inl ErrBadTransition
      else case findLease d i of
        None \<Rightarrow> Inr (True, d)
      | Some settlement \<Rightarrow>
          if r_epoch settlement < e then Inr (False, d)
          else if \<not> Terminal (r_phase settlement) then Inr (False, d)
          else if r_failureReason settlement = inventoryAbsenceFailureReason
          then Inr (True, CorrectProvisionalHistory outcome i (CorrectProvisionalLease outcome i d))
          else Inr (True, d))"

text \<open>The host, and whether the request was handed to a live holder.\<close>

definition ForceRelease :: "int \<Rightarrow> string \<Rightarrow> Ledger \<Rightarrow> (string \<times> bool \<times> Ledger) result" where
  "ForceRelease now i d =
     (case findLease d i of
        None \<Rightarrow> Inl ErrLeaseNotFound
      | Some row \<Rightarrow>
          (case loadAny d i (r_epoch row) of
             Inl x \<Rightarrow> Inl x
           | Inr l \<Rightarrow>
               (let e = r_epoch row
                in if r_phase l = PhaseQuarantine
                   then (let explained = r_failureReason l \<noteq> [];
                             d1 = (if explained then d else MarkLeaseFailure ForceReleasedReason i e d);
                             l1 = (if explained then l else l\<lparr>r_failureReason := ForceReleasedReason\<rparr>)
                         in Inr (leaseNode l, False,
                              archive l1 PhaseFailed now (FenceQuarantinedLease PhaseFailed i e d1)))
                   else if r_phase l = PhaseCustody \<or> r_phase l = PhaseTeardown
                   then Inr (leaseNode l, True, RequestForceRelease ForceReleasedReason i e d)
                   else Inl ErrBadTransition)))"

definition forceDestroyPhases :: "Phase list" where
  "forceDestroyPhases = [PhaseAssigned, PhaseLaunching, PhaseOnline, PhaseBusy]"

abbreviation "forceDestroyFailureReason \<equiv> ''billet:force-destroy''"

definition ForceTerminate :: "int \<Rightarrow> string \<Rightarrow> Ledger \<Rightarrow> Ledger result" where
  "ForceTerminate now i d =
     (case findLease d i of
        None \<Rightarrow> Inr d
      | Some row \<Rightarrow>
          (case loadAny d i (r_epoch row) of
             Inl x \<Rightarrow> Inl x
           | Inr l \<Rightarrow>
               if Terminal (r_phase l) then Inr d
               else if r_phase l \<notin> set forceDestroyPhases then Inl ErrForceHeld
               else (let l1 = (if r_failureReason l = []
                         then l\<lparr>r_failureReason := forceDestroyFailureReason\<rparr> else l)
                     in Inr (archive l1 PhaseFailed now
                          (TerminateForcedLease PhaseFailed (r_failureReason l1) i (r_epoch row) d)))))"

end
