(* ===== verification/Quarantine_Facts.thy ===== *)
theory Quarantine_Facts
  imports Quarantine
begin

text \<open>
  What the operations on held leases do to the ledger. Each settles exactly the leases it
  has evidence for: a host's inventory frees a quarantined lease only where the report
  comes from the registration in force, does not mention it, and the lease has been expired
  for longer than the grace.
\<close>

section \<open>One lease settled by its absence\<close>

definition settledRow :: "int \<Rightarrow> Ledger \<Rightarrow> LeaseRow \<Rightarrow> LeaseRow" where
  "settledRow now d r =
     (let (l, outcome) = absentOutcome d r
      in l\<lparr>r_phase := outcome, r_epoch := r_epoch r + 1,
           r_disruption := (if disruptable d r then DisruptionGuestAbsent else r_disruption r),
           r_disruptedAt := (if disruptable d r then Some now else r_disruptedAt r)\<rparr>)"

lemma quarantinedLeaseTx_Inr:
  "quarantinedLeaseTx d i = Inr l \<longleftrightarrow> findLease d i = Some l \<and> r_phase l = PhaseQuarantine"
  by (auto simp: quarantinedLeaseTx_def loadAny_def split: option.splits if_splits)

lemma DisruptableLease_one:
  assumes "ledgerOK d" and "findLease d i = Some l"
  shows "DisruptableLease d i = (if disruptable d l then [i] else [])"
proof -
  have l: "l \<in> set (leases d)" "r_id l = i" using findLease_Some [OF assms(2)] by auto
  have "filter (\<lambda>r. r_id r = i) xs = [l]" if "distinct (map r_id xs)" "l \<in> set xs" for xs
    using that
  proof (induction xs)
    case (Cons x xs)
    show ?case
    proof (cases "x = l")
      case True
      then have "\<forall>r \<in> set xs. r_id r \<noteq> i" using Cons.prems(1) l(2) by (auto simp: image_iff)
      then have "filter (\<lambda>r. r_id r = i) xs = []" by (simp add: filter_empty_conv)
      then show ?thesis using True l(2) by simp
    next
      case False
      then show ?thesis using Cons l(2) by (auto simp: image_iff)
    qed
  qed simp
  then have "filter (\<lambda>r. r_id r = i) (leases d) = [l]" using assms(1) l(1) by (simp add: ledgerOK_def)
  then have "filter (disruptable d) (filter (\<lambda>r. r_id r = i) (leases d)) = (if disruptable d l then [l] else [])"
    by simp
  then have "filter (\<lambda>r. r_id r = i \<and> disruptable d r) (leases d) = (if disruptable d l then [l] else [])"
    unfolding filter_filter by (simp only: conj_commute)
  then show ?thesis using l(2) by (simp add: DisruptableLease_def)
qed

lemma upd_where_fuse:
  assumes "\<And>r. P r \<Longrightarrow> P (f r)"
  shows "upd_where P g (upd_where P f xs) = upd_where P (g \<circ> f) xs"
  using assms by (simp add: upd_where_def)

lemma upd_where_agree:
  "(\<And>r. r \<in> set xs \<Longrightarrow> P r \<Longrightarrow> f r = g r) \<Longrightarrow> upd_where P f xs = upd_where P g xs"
  by (simp add: upd_where_def)

lemma markGuestAbsent:
  assumes "ledgerOK d" and "findLease d i = Some l"
  obtains d1 where "markLeaseDisruptedTx i DisruptionGuestAbsent now d = Inr (disruptable d l, d1)"
    "leases d1 = upd_where (\<lambda>r. r_id r = i)
       (\<lambda>r. if disruptable d l then r\<lparr>r_disruption := DisruptionGuestAbsent, r_disruptedAt := Some now\<rparr> else r) (leases d)"
    "pending d1 = pending d" "nodes d1 = nodes d" "admission d1 = admission d"
proof (cases "disruptable d l")
  case True
  show ?thesis
    by (rule that [of "applyDisruptionTx [i] DisruptionGuestAbsent now d"])
       (simp_all add: markLeaseDisruptedTx_def disruptableTx_def DisruptionValid_def DisruptableLease_one [OF assms] True)
next
  case False
  show ?thesis
    by (rule that [of d])
       (simp_all add: markLeaseDisruptedTx_def disruptableTx_def DisruptionValid_def DisruptableLease_one [OF assms] False
          upd_where_def)
qed

lemma resolveAbsent_leases:
  assumes "ledgerOK d" and "findLease d i = Some l" and "r_phase l = PhaseQuarantine"
  shows "\<exists>d'. resolveAbsent now i d = Inr d'
    \<and> leases d' = upd_where (\<lambda>r. r_id r = i) (settledRow now d) (leases d)"
proof -
  obtain l1 p where o: "absentOutcome d l = (l1, p)" by fastforce
  define reason where "reason = r_failureReason l1"
  have l1: "l1 = l\<lparr>r_failureReason := reason\<rparr>" "p = PhaseDone \<and> reason = r_failureReason l \<or> p = PhaseFailed"
    using o by (auto simp: absentOutcome_def reason_def split: if_splits)
  obtain d1 where d1: "markLeaseDisruptedTx i DisruptionGuestAbsent now d = Inr (disruptable d l, d1)"
    "leases d1 = upd_where (\<lambda>r. r_id r = i)
       (\<lambda>r. if disruptable d l then r\<lparr>r_disruption := DisruptionGuestAbsent, r_disruptedAt := Some now\<rparr> else r) (leases d)"
    by (rule markGuestAbsent [OF assms(1,2)])
  have q: "quarantinedLeaseTx d i = Inr l" using assms by (simp add: quarantinedLeaseTx_Inr)
  have row: "r = l" if "r \<in> set (leases d)" "r_id r = i" for r using row_at assms(1,2) that by blast
  let ?d' = "archive (if disruptable d l then l1\<lparr>r_disruption := DisruptionGuestAbsent, r_disruptedAt := Some now\<rparr> else l1) p now
      (if p = PhaseDone then TerminalizeQuarantinedLease PhaseDone i d1
       else TerminalizeQuarantinedLeaseWithReason (r_failureReason l1) i d1)"
  have "resolveAbsent now i d = Inr ?d'"
    unfolding resolveAbsent_def q d1(1) o Let_def sum.case prod.case by simp
  moreover have "leases ?d' = upd_where (\<lambda>r. r_id r = i) (\<lambda>_. settledRow now d l) (leases d)"
  proof -
    let ?dis = "\<lambda>r. if disruptable d l then r\<lparr>r_disruption := DisruptionGuestAbsent, r_disruptedAt := Some now\<rparr> else r"
    have "leases ?d' = upd_where (\<lambda>r. r_id r = i)
        (if p = PhaseDone then (\<lambda>r. (?dis r)\<lparr>r_phase := PhaseDone, r_epoch := r_epoch (?dis r) + 1\<rparr>)
         else (\<lambda>r. (?dis r)\<lparr>r_phase := PhaseFailed, r_epoch := r_epoch (?dis r) + 1, r_failureReason := reason\<rparr>)) (leases d)"
      by (simp add: d1(2) TerminalizeQuarantinedLease_def TerminalizeQuarantinedLeaseWithReason_def
          upd_where_fuse l1(1) comp_def)
    also have "\<dots> = upd_where (\<lambda>r. r_id r = i) (\<lambda>_. settledRow now d l) (leases d)"
    proof (rule upd_where_agree)
      fix r assume "r \<in> set (leases d)" "r_id r = i"
      then have r: "r = l" by (rule row)
      show "(if p = PhaseDone then (\<lambda>r. (?dis r)\<lparr>r_phase := PhaseDone, r_epoch := r_epoch (?dis r) + 1\<rparr>)
         else (\<lambda>r. (?dis r)\<lparr>r_phase := PhaseFailed, r_epoch := r_epoch (?dis r) + 1, r_failureReason := reason\<rparr>)) r
         = settledRow now d l"
        using l1(2) unfolding r settledRow_def o by (cases l) (auto simp: l1(1))
    qed
    finally show ?thesis .
  qed
  moreover have "upd_where (\<lambda>r. r_id r = i) (\<lambda>_. settledRow now d l) (leases d) =
      upd_where (\<lambda>r. r_id r = i) (settledRow now d) (leases d)"
    using row by (auto intro!: upd_where_agree)
  ultimately show ?thesis by metis
qed

section \<open>What settling one lease leaves of the others\<close>

definition historyOf :: "Ledger \<Rightarrow> string \<Rightarrow> HistoryRow list" where
  "historyOf d i = filter (\<lambda>h. h_leaseID h = i) (history d)"

lemma filter_upd_where_other:
  assumes "\<And>h. P h \<Longrightarrow> \<not> Q h \<and> \<not> Q (f h)"
  shows "filter Q (upd_where P f xs) = filter Q xs"
  using assms by (induction xs) auto

lemma historyOf_updHistory:
  assumes "i \<noteq> j" and "\<And>h. h_leaseID (f h) = h_leaseID h"
  shows "historyOf (updHistory i f d) j = historyOf d j"
  unfolding historyOf_def updHistory_other by (rule filter_upd_where_other) (use assms in auto)

lemma historyOf_archive:
  assumes "r_id l \<noteq> j"
  shows "historyOf (archive l p now d) j = historyOf d j"
proof -
  have id: "h_leaseID (archivedRow l p now q b h) = h_leaseID h" for q b h by (simp add: archivedRow_def)
  have e: "h_leaseID (emptyHistory i t q) = i" for i t q by (simp add: emptyHistory_def)
  show ?thesis
    using assms unfolding historyOf_def archive_def Let_def upsertHistory_def
    by (auto simp: id e filter_upd_where_other)
qed

lemma historyOf_updLease [simp]: "historyOf (updLease P f d) j = historyOf d j"
  by (simp add: historyOf_def)

lemma resolveAbsent_form:
  assumes "resolveAbsent now i d = Inr d'"
  obtains l l2 d1 where "findLease d i = Some l" "r_phase l = PhaseQuarantine" "r_id l2 = i"
    "d1 = applyDisruptionTx (DisruptableLease d i) DisruptionGuestAbsent now d"
    "d' = archive l2 PhaseDone now (TerminalizeQuarantinedLease PhaseDone i d1)
      \<or> (\<exists>reason. d' = archive l2 PhaseFailed now (TerminalizeQuarantinedLeaseWithReason reason i d1))"
proof -
  obtain l where q: "quarantinedLeaseTx d i = Inr l"
    using assms by (cases "quarantinedLeaseTx d i") (auto simp: resolveAbsent_def)
  have l: "findLease d i = Some l" "r_phase l = PhaseQuarantine" using q by (simp_all add: quarantinedLeaseTx_Inr)
  obtain l1 p where o: "absentOutcome d l = (l1, p)" by fastforce
  have p: "r_id l1 = i" "p = PhaseDone \<or> p = PhaseFailed"
    using o findLease_id [OF l(1)] by (auto simp: absentOutcome_def split: if_splits)
  define l2 where "l2 = (if DisruptableLease d i \<noteq> []
      then l1\<lparr>r_disruption := DisruptionGuestAbsent, r_disruptedAt := Some now\<rparr> else l1)"
  have m: "markLeaseDisruptedTx i DisruptionGuestAbsent now d =
      Inr (DisruptableLease d i \<noteq> [], applyDisruptionTx (DisruptableLease d i) DisruptionGuestAbsent now d)"
    by (simp add: markLeaseDisruptedTx_def disruptableTx_def DisruptionValid_def)
  have "d' = archive l2 p now (if p = PhaseDone
      then TerminalizeQuarantinedLease PhaseDone i (applyDisruptionTx (DisruptableLease d i) DisruptionGuestAbsent now d)
      else TerminalizeQuarantinedLeaseWithReason (r_failureReason l2) i
        (applyDisruptionTx (DisruptableLease d i) DisruptionGuestAbsent now d))"
    using assms unfolding resolveAbsent_def q o m l2_def Let_def sum.case prod.case by simp
  moreover have "r_id l2 = i" using p(1) by (simp add: l2_def)
  ultimately show ?thesis using that [OF l _ refl, of l2] p(2) by (elim disjE) (simp_all, blast)
qed

lemma resolveAbsent_others:
  assumes "resolveAbsent now i d = Inr d'" and "i \<noteq> j"
  shows "historyOf d' j = historyOf d j" and "pending d' = pending d" and "nodes d' = nodes d"
proof -
  obtain l2 d1 p f where d1: "d1 = applyDisruptionTx (DisruptableLease d i) DisruptionGuestAbsent now d"
    and d': "d' = archive l2 p now (updLease (\<lambda>r. r_id r = i) f d1)" and l2: "r_id l2 = i"
    by (rule resolveAbsent_form [OF assms(1)])
       (auto simp: TerminalizeQuarantinedLease_def TerminalizeQuarantinedLeaseWithReason_def)
  have "set ids \<subseteq> {i} \<Longrightarrow> historyOf (applyDisruptionTx ids tok now d) j = historyOf d j
      \<and> pending (applyDisruptionTx ids tok now d) = pending d \<and> nodes (applyDisruptionTx ids tok now d) = nodes d"
    for ids tok d using assms(2) by (induction ids arbitrary: d) (auto simp: historyOf_updHistory)
  from this [of "DisruptableLease d i"]
  have "historyOf d1 j = historyOf d j" "pending d1 = pending d" "nodes d1 = nodes d"
    unfolding d1 by (auto simp: DisruptableLease_def)
  then show "historyOf d' j = historyOf d j" "pending d' = pending d" "nodes d' = nodes d"
    unfolding d' using assms(2) l2 by (simp_all add: historyOf_archive)
qed

lemma settledRow_cong:
  assumes "historyOf d' (r_id r) = historyOf d (r_id r)" and "pending d' = pending d"
  shows "settledRow now d' r = settledRow now d r"
proof -
  have "find (\<lambda>h. h_leaseID h = i) xs = find (\<lambda>h. True) (filter (\<lambda>h. h_leaseID h = i) xs)" for i xs
    by (induction xs) auto
  then have "ReadJobResult d' (r_id r) = ReadJobResult d (r_id r)"
    using assms(1) unfolding ReadJobResult_def historyOf_def by metis
  moreover have ex: "list_ex (\<lambda>h. h_leaseID h = i \<and> h_result h \<noteq> []) xs =
      list_ex (\<lambda>h. h_result h \<noteq> []) (filter (\<lambda>h. h_leaseID h = i) xs)" for i xs
    by (induction xs) auto
  have "disruptable d' r = disruptable d r"
    unfolding disruptable_def ex assms(1) [unfolded historyOf_def] assms(2) ..
  ultimately show ?thesis by (simp add: settledRow_def absentOutcome_def)
qed

lemma settledRow_key [simp]: "r_id (settledRow now d r) = r_id r"
  "r_vcpu (settledRow now d r) = r_vcpu r" "r_memory (settledRow now d r) = r_memory r"
  "r_epoch (settledRow now d r) = r_epoch r + 1" "Terminal (r_phase (settledRow now d r))"
  by (simp_all add: settledRow_def absentOutcome_def Terminal_def)

lemma resolveEach_leases:
  assumes "ledgerOK d" and "distinct ids"
    and "\<forall>i \<in> set ids. \<exists>l. findLease d i = Some l \<and> r_phase l = PhaseQuarantine"
  shows "\<exists>d'. resolveEach now running ids d = Inr (int (length (filter (\<lambda>i. i \<notin> set running) ids)), d')
    \<and> leases d' = map (\<lambda>r. if r_id r \<in> set ids \<and> r_id r \<notin> set running then settledRow now d r else r) (leases d)
    \<and> nodes d' = nodes d"
  using assms
proof (induction ids arbitrary: d)
  case Nil
  then show ?case by (simp add: map_idI)
next
  case (Cons i ids)
  show ?case
  proof (cases "i \<in> set running")
    case True
    have "(if (r_id r = i \<or> r_id r \<in> set ids) \<and> r_id r \<notin> set running then settledRow now d r else r) =
        (if r_id r \<in> set ids \<and> r_id r \<notin> set running then settledRow now d r else r)" for r using True by auto
    then show ?thesis using Cons.IH [OF Cons.prems(1)] Cons.prems True by simp
  next
    case False
    obtain l where l: "findLease d i = Some l" "r_phase l = PhaseQuarantine" using Cons.prems(3) by auto
    obtain d1 where d1: "resolveAbsent now i d = Inr d1"
      "leases d1 = upd_where (\<lambda>r. r_id r = i) (settledRow now d) (leases d)"
      using resolveAbsent_leases [OF Cons.prems(1) l] by blast
    note others = resolveAbsent_others [OF d1(1)]
    have nodes: "nodes d1 = nodes d" using others(3) [of "i @ ''x''"] by simp
    have ok: "ledgerOK d1"
      using Cons.prems(1) by (auto simp: ledgerOK_def nodes d1(2) map_upd_where_same set_upd_where)
    have find: "findLease d1 j = findLease d j" if "j \<noteq> i" for j
    proof -
      have "findLease d1 j = map_option (\<lambda>r. if r_id r = i then settledRow now d r else r) (findLease d j)"
        by (simp add: findLease_def d1(2) find_upd_where)
      then show ?thesis using that findLease_id by (cases "findLease d j") auto
    qed
    have "\<forall>j \<in> set ids. \<exists>l. findLease d1 j = Some l \<and> r_phase l = PhaseQuarantine"
      using Cons.prems(2,3) find by (metis distinct.simps(2) list.set_intros(2))
    from Cons.IH [OF ok _ this] obtain d' where d':
      "resolveEach now running ids d1 = Inr (int (length (filter (\<lambda>i. i \<notin> set running) ids)), d')"
      "leases d' = map (\<lambda>r. if r_id r \<in> set ids \<and> r_id r \<notin> set running then settledRow now d1 r else r) (leases d1)"
      "nodes d' = nodes d1" using Cons.prems(2) by auto
    have cong: "settledRow now d1 r = settledRow now d r" if "r_id r \<noteq> i" for r
      using others(1,2) [of "r_id r"] that by (intro settledRow_cong) auto
    have "leases d' = map (\<lambda>r. if r_id r \<in> set (i # ids) \<and> r_id r \<notin> set running then settledRow now d r else r) (leases d)"
      using False Cons.prems(2) cong unfolding d'(2) d1(2) upd_where_def by (auto intro!: map_cong)
    then show ?thesis using d1(1) d'(1,3) False nodes by simp
  qed
qed

section \<open>Properties\<close>

definition freedBy :: "int \<Rightarrow> string \<Rightarrow> string list \<Rightarrow> int \<Rightarrow> Ledger \<Rightarrow> LeaseRow \<Rightarrow> bool" where
  "freedBy now node running epoch d r \<longleftrightarrow>
     (\<exists>n. findNode d node = Some n \<and> n_epoch n = epoch) \<and> r_phase r = PhaseQuarantine
     \<and> coalesceNode r = Some node \<and> r_expiresAt r < now - quarantineGrace \<and> r_id r \<notin> set running"

text \<open>
  C31. A host's inventory frees exactly the leases it is evidence about. The report counts
  only under the node's registration in force; then every quarantined lease attributed to
  the node, expired for longer than the grace and missing from the report is settled: as
  done if GitHub's result had arrived and nothing else explained a failure, as failed
  otherwise, at the next epoch. Every other lease is untouched, the young quarantines and
  the ones the report mentions with them, and the count returned is the number settled.
\<close>

theorem inventory_frees_the_absent:
  assumes "ledgerOK d"
  shows "\<exists>d'. ResolveQuarantineFor now node running epoch d =
        Inr (count_where (freedBy now node running epoch d) (leases d), d')
    \<and> leases d' = map (\<lambda>r. if freedBy now node running epoch d r then settledRow now d r else r) (leases d)"
proof (cases "\<exists>n. findNode d node = Some n \<and> n_epoch n = epoch")
  case False
  then have none: "\<not> freedBy now node running epoch d r" for r by (auto simp: freedBy_def)
  have "ResolveQuarantineFor now node running epoch d = Inr (0, d)"
    using False by (auto simp: ResolveQuarantineFor_def split: option.split)
  then show ?thesis by (simp add: none count_where_def map_idI)
next
  case True
  then obtain n where n: "findNode d node = Some n" "n_epoch n = epoch" by blast
  let ?d1 = "recordInventoryTx node epoch (int (length running)) now d"
  let ?P = "\<lambda>r. r_phase r = PhaseQuarantine \<and> coalesceNode r = Some node \<and> r_expiresAt r < now - quarantineGrace"
  let ?ids = "quarantinedIDsOn ?d1 node (Some (now - quarantineGrace))"
  have ids: "?ids = map r_id (filter ?P (leases d))" by (simp add: quarantinedIDsOn_def)
  have freed: "freedBy now node running epoch d r \<longleftrightarrow> ?P r \<and> r_id r \<notin> set running" for r
    using n by (auto simp: freedBy_def)
  have names: "map n_name (nodes ?d1) = map n_name (nodes d)" by (rule sameFences_names [OF recordInventoryTx_fences])
  then have ok: "ledgerOK ?d1"
    using assms by (simp add: ledgerOK_def) (metis (mono_tags, lifting) image_iff list.set_map)
  have dist: "distinct (map r_id (leases d))" using assms by (simp add: ledgerOK_def)
  have q: "\<exists>l. findLease ?d1 i = Some l \<and> r_phase l = PhaseQuarantine" if "i \<in> set ?ids" for i
    using that findLease_distinct [OF dist] by (auto simp: ids findLease_def)
  obtain d' where d': "resolveEach now running ?ids ?d1 = Inr (int (length (filter (\<lambda>i. i \<notin> set running) ?ids)), d')"
    "leases d' = map (\<lambda>r. if r_id r \<in> set ?ids \<and> r_id r \<notin> set running then settledRow now ?d1 r else r) (leases ?d1)"
  proof -
    have "distinct ?ids" using dist by (simp add: ids distinct_map_filter)
    from resolveEach_leases [OF ok this ballI [OF q]] that show thesis by blast
  qed
  have "r_id r \<in> set ?ids \<longleftrightarrow> ?P r" if "r \<in> set (leases d)" for r
    using that dist by (auto simp: ids distinct_map inj_on_def)
  moreover have "settledRow now ?d1 r = settledRow now d r" for r by (rule settledRow_cong) (simp_all add: historyOf_def)
  ultimately have "leases d' = map (\<lambda>r. if freedBy now node running epoch d r then settledRow now d r else r) (leases d)"
    unfolding d'(2) by (auto simp: freed)
  moreover have "length (filter (\<lambda>i. i \<notin> set running) ?ids) = length (filter (freedBy now node running epoch d) (leases d))"
    by (simp add: ids filter_map comp_def freed [abs_def] conj_assoc)
  ultimately show ?thesis using d'(1) n by (simp add: ResolveQuarantineFor_def count_where_def)
qed

text \<open>A quarantined lease on a host that reports it gone, and one it still lists.\<close>

definition heldLedger :: Ledger where
  "heldLedger = sampleLedger\<lparr>leases := leases sampleLedger
     @ [sampleLease ''l4'' ''big'' ''alpha'' PhaseQuarantine, sampleLease ''l5'' ''big'' ''alpha'' PhaseQuarantine]\<rparr>"

lemma heldLedger_OK: "ledgerOK heldLedger"
  by (simp add: heldLedger_def sample_defs ledgerOK_def)

theorem inventory_frees_the_absent_witness:
  "\<exists>d'. ResolveQuarantineFor 400000000000 ''alpha'' [''l1'', ''l5''] 1 heldLedger = Inr (1, d')
    \<and> map r_phase (leases d') = [PhaseBusy, PhaseCapacity, PhaseFailed, PhaseQuarantine]"
proof -
  have freed: "map (freedBy 400000000000 ''alpha'' [''l1'', ''l5''] 1 heldLedger) (leases heldLedger)
      = [False, False, True, False]"
    by (simp add: heldLedger_def sample_defs freedBy_def findNode_def quarantineGrace_def coalesceNode_def
        requiresPlacement_def)
  have "absentOutcome heldLedger r = (r\<lparr>r_failureReason := inventoryAbsenceFailureReason\<rparr>, PhaseFailed)"
    if "r_failureReason r = []" for r
    using that by (simp add: absentOutcome_def ReadJobResult_def heldLedger_def sample_defs)
  then have "map r_phase (map (\<lambda>r. if freedBy 400000000000 ''alpha'' [''l1'', ''l5''] 1 heldLedger r
        then settledRow 400000000000 heldLedger r else r) (leases heldLedger))
      = [PhaseBusy, PhaseCapacity, PhaseFailed, PhaseQuarantine]"
    using freed by (simp add: heldLedger_def sample_defs settledRow_def)
  moreover have "count_where (freedBy 400000000000 ''alpha'' [''l1'', ''l5''] 1 heldLedger) (leases heldLedger) = 1"
    using freed by (simp add: count_where_def heldLedger_def sample_defs)
  moreover obtain d' where "ResolveQuarantineFor 400000000000 ''alpha'' [''l1'', ''l5''] 1 heldLedger =
      Inr (count_where (freedBy 400000000000 ''alpha'' [''l1'', ''l5''] 1 heldLedger) (leases heldLedger), d')"
    "leases d' = map (\<lambda>r. if freedBy 400000000000 ''alpha'' [''l1'', ''l5''] 1 heldLedger r
        then settledRow 400000000000 heldLedger r else r) (leases heldLedger)"
    using inventory_frees_the_absent [OF heldLedger_OK] by blast
  ultimately show ?thesis by (intro exI [of _ d'] conjI) (simp_all only:)
qed

end
