(* ===== verification/Held_Leases.thy ===== *)
theory Held_Leases
  imports Quarantine_Facts
begin

text \<open>
  The remaining ways a held lease is settled: an operator's forced release, a forced
  destroy, and a completion that finds its lease already settled. Each operation is a step
  of the lease state machine; the correction of a provisional verdict moves between
  terminal phases only.
\<close>

section \<open>Steps\<close>

lemma quarantine_writes_step:
  assumes "ledgerOK d" and "findLease d i = Some l" and "canMoveTo (r_phase l) p"
  shows "ledgerStep d (TerminalizeQuarantinedLease p i d)"
    and "ledgerStep d (FenceQuarantinedLease p i e d)"
    and "ledgerStep d (TerminateForcedLease p reason i e d)"
    and "p = PhaseFailed \<Longrightarrow> ledgerStep d (TerminalizeQuarantinedLeaseWithReason reason i d)"
  unfolding TerminalizeQuarantinedLease_def FenceQuarantinedLease_def TerminateForcedLease_def
    TerminalizeQuarantinedLeaseWithReason_def
  by (rule ledgerStep_one [OF assms(1,2)];
      use assms(3) in \<open>auto simp: atEpoch_def intro!: rowStep_phase\<close>)+

lemma RequestForceRelease_step: "ledgerStep d (RequestForceRelease reason i e d)"
  unfolding RequestForceRelease_def by (rule ledgerStep_updLease) (simp add: rowStep_def)

lemma terminal_move: "\<not> Terminal (r_phase l) \<Longrightarrow> Terminal p \<Longrightarrow> canMoveTo (r_phase l) p"
  using open_to_terminal by blast

lemma quarantine_open: "\<not> Terminal PhaseQuarantine"
  by (simp add: Terminal_def)

lemma ResolveQuarantine_step:
  assumes "ledgerOK d" and "ResolveQuarantine now outcome i d = Inr d'"
  shows "ledgerStep d d'"
proof -
  obtain l where q: "quarantinedLeaseTx d i = Inr l" and t: "Terminal outcome"
    using assms(2) by (cases "quarantinedLeaseTx d i") (auto simp: ResolveQuarantine_def split: if_splits)
  have l: "findLease d i = Some l" "r_phase l = PhaseQuarantine" using q by (simp_all add: quarantinedLeaseTx_Inr)
  have d': "d' = archive l outcome now (TerminalizeQuarantinedLease outcome i d)"
    using assms(2) q t by (simp add: ResolveQuarantine_def)
  have "canMoveTo (r_phase l) outcome" using terminal_move t l(2) quarantine_open by metis
  then show ?thesis
    unfolding d' using quarantine_writes_step(1) [OF assms(1) l(1)] history_step(1) ledgerStep_trans by blast
qed

lemma ResolveQuarantineFailed_step:
  assumes "ledgerOK d" and "ResolveQuarantineFailed now why i d = Inr d'"
  shows "ledgerStep d d'"
proof -
  let ?reason = "TrimSpace why"
  obtain l where l: "findLease d i = Some l" and ok: "reasonAllowed why"
    using assms(2) by (cases "findLease d i") (auto simp: ResolveQuarantineFailed_def Let_def reasonAllowed_def split: if_splits)
  show ?thesis
  proof (cases "r_phase l = PhaseQuarantine")
    case False
    then have "d' = d \<or> d' = BackfillLeaseFailureReason ?reason i (BackfillFailureReason ?reason i d)"
      using assms(2) l ok
      by (auto simp: ResolveQuarantineFailed_def loadAny_def Let_def reasonAllowed_def split: if_splits)
    then show ?thesis using ledgerStep_trans [OF history_step(5) touch_step(4)] by auto
  next
    case True
    obtain l1 d1 where m: "(if r_failureReason l = [] then markFailureTx now l ?reason d else Inr (l, d)) = Inr (l1, d1)"
      and d': "d' = archive l1 PhaseFailed now (TerminalizeQuarantinedLease PhaseFailed i d1)"
      using assms(2) l ok True
      by (auto simp: ResolveQuarantineFailed_def loadAny_def Let_def reasonAllowed_def split: if_splits sum.splits)
    have s: "ledgerStep d d1" and k: "map keyOf (leases d1) = map keyOf (leases d)"
      using m markFailureTx_step markFailureTx_key by (auto split: if_splits)
    obtain r where r: "findLease d1 i = Some r" "r_phase r = r_phase l" using findLease_key [OF k l] by blast
    then have "canMoveTo (r_phase r) PhaseFailed" using True open_to_terminal by (simp add: Terminal_def)
    then have "ledgerStep d1 (TerminalizeQuarantinedLease PhaseFailed i d1)"
      using quarantine_writes_step(1) [OF ledgerStep_OK [OF s assms(1)] r(1)] by blast
    then show ?thesis unfolding d' using s history_step(1) ledgerStep_trans by blast
  qed
qed

lemma ForceRelease_step:
  assumes "ledgerOK d" and "ForceRelease now i d = Inr (node, later, d')"
  shows "ledgerStep d d'"
proof -
  obtain l where l: "findLease d i = Some l"
    using assms(2) by (cases "findLease d i") (simp_all add: ForceRelease_def)
  consider "d' = RequestForceRelease ForceReleasedReason i (r_epoch l) d"
    | l1 d1 where "r_phase l = PhaseQuarantine" "d1 = d \<or> d1 = MarkLeaseFailure ForceReleasedReason i (r_epoch l) d"
      "d' = archive l1 PhaseFailed now (FenceQuarantinedLease PhaseFailed i (r_epoch l) d1)"
    using assms(2) l by (auto simp: ForceRelease_def loadAny_def Let_def split: if_splits)
  then show ?thesis
  proof cases
    case 1
    then show ?thesis using RequestForceRelease_step by simp
  next
    case (2 l1 d1)
    have s: "ledgerStep d d1" using 2(2) touch_step(2) by auto
    have "map keyOf (leases d1) = map keyOf (leases d)"
      using 2(2) by (auto simp: MarkLeaseFailure_def map_upd_where_same keyOf_def)
    then obtain r where r: "findLease d1 i = Some r" "r_phase r = PhaseQuarantine"
      using findLease_key [of d1 d i l] l 2(1) by metis
    then have "canMoveTo (r_phase r) PhaseFailed" using open_to_terminal by (simp add: Terminal_def)
    then have "ledgerStep d1 (FenceQuarantinedLease PhaseFailed i (r_epoch l) d1)"
      using quarantine_writes_step(2) [OF ledgerStep_OK [OF s assms(1)] r(1)] by blast
    then show ?thesis unfolding 2(3) using s history_step(1) ledgerStep_trans by blast
  qed
qed

lemma ForceTerminate_step:
  assumes "ledgerOK d" and "ForceTerminate now i d = Inr d'"
  shows "ledgerStep d d'"
proof -
  consider "d' = d" | l l1 reason where "findLease d i = Some l" "\<not> Terminal (r_phase l)"
      "d' = archive l1 PhaseFailed now (TerminateForcedLease PhaseFailed reason i (r_epoch l) d)"
    using assms(2)
    by (auto simp: ForceTerminate_def loadAny_def Let_def split: option.splits if_splits sum.splits)
  then show ?thesis
  proof cases
    case (2 l l1 reason)
    then have "canMoveTo (r_phase l) PhaseFailed" using terminal_move [of l PhaseFailed] by (simp add: Terminal_def)
    then show ?thesis
      unfolding 2(3) using quarantine_writes_step(3) [OF assms(1) 2(1)] history_step(1) ledgerStep_trans by blast
  qed simp
qed

lemma resolveAbsent_step:
  assumes "ledgerOK d" and "resolveAbsent now i d = Inr d'"
  shows "ledgerStep d d'"
proof -
  obtain l l2 d1 where l: "findLease d i = Some l" "r_phase l = PhaseQuarantine" and "r_id l2 = i"
    and d1: "d1 = applyDisruptionTx (DisruptableLease d i) DisruptionGuestAbsent now d"
    and d': "d' = archive l2 PhaseDone now (TerminalizeQuarantinedLease PhaseDone i d1)
      \<or> (\<exists>reason. d' = archive l2 PhaseFailed now (TerminalizeQuarantinedLeaseWithReason reason i d1))"
    by (rule resolveAbsent_form [OF assms(2)])
  have s: "ledgerStep d d1" unfolding d1 by (rule applyDisruptionTx_step)
  have "map keyOf (leases d1) = map keyOf (leases d)" unfolding d1 by (rule applyDisruptionTx_key)
  then obtain r where r: "findLease d1 i = Some r" "r_phase r = PhaseQuarantine"
    using findLease_key [of d1 d i l] l by metis
  then have "canMoveTo (r_phase r) PhaseFailed" "canMoveTo (r_phase r) PhaseDone"
    using open_to_terminal by (simp_all add: Terminal_def)
  then have "ledgerStep d1 (TerminalizeQuarantinedLease PhaseDone i d1)"
    "ledgerStep d1 (TerminalizeQuarantinedLeaseWithReason reason i d1)" for reason
    using quarantine_writes_step(1,4) [OF ledgerStep_OK [OF s assms(1)] r(1)] by blast+
  then show ?thesis using d' s history_step(1) ledgerStep_trans by blast
qed

lemma resolveEach_step:
  assumes "ledgerOK d" and "resolveEach now running ids d = Inr (n, d')"
  shows "ledgerStep d d'"
  using assms
proof (induction ids arbitrary: d n)
  case (Cons i ids)
  show ?case
  proof (cases "i \<in> set running")
    case False
    then obtain d1 k where one: "resolveAbsent now i d = Inr d1" "resolveEach now running ids d1 = Inr (k, d')"
      using Cons.prems(2) by (auto split: sum.splits)
    have s: "ledgerStep d d1" by (rule resolveAbsent_step [OF Cons.prems(1) one(1)])
    then show ?thesis using Cons.IH [OF ledgerStep_OK [OF s Cons.prems(1)] one(2)] ledgerStep_trans by blast
  qed (use Cons in simp)
qed simp

section \<open>Properties\<close>

lemma findLease_updLease:
  assumes "\<And>r. P r \<Longrightarrow> r_id (f r) = r_id r" and "findLease d i = Some l"
  shows "findLease (updLease P f d) i = Some (if P l then f l else l)"
  using assms by (simp add: findLease_def find_upd_where)

text \<open>
  C32. An operator's forced release of a lease whose node still holds it goes through the
  holder. For a lease in custody or teardown the ledger frees nothing: the lease keeps its
  phase, its epoch and its charge, and the request is pending. The holder's next renewal is
  answered \<open>ErrForceRelease\<close>, and the holder can still release the lease at its epoch,
  with a reason in its history.
\<close>

theorem force_release_reaches_the_holder:
  assumes "ledgerOK d" and "findLease d i = Some l" and "r_phase l \<in> {PhaseCustody, PhaseTeardown}"
    and "nameable i"
  shows "\<exists>d'. ForceRelease now i d = Inr (leaseNode l, True, d')
    \<and> TotalUsage (leases d') = TotalUsage (leases d)
    \<and> Heartbeat a later i (r_epoch l) d' = Inl ErrForceRelease
    \<and> (\<exists>l' d''. findLease d' i = Some l' \<and> r_phase l' = r_phase l \<and> r_failureReason l' \<noteq> []
         \<and> Release later PhaseFailed i (r_epoch l) d' = Inr d''
         \<and> findLease d'' i = Some (l'\<lparr>r_phase := PhaseFailed\<rparr>))"
proof -
  let ?d' = "RequestForceRelease ForceReleasedReason i (r_epoch l) d"
  let ?l' = "l\<lparr>r_forceRelease := True, r_failureReason := (if r_failureReason l = [] then ForceReleasedReason else r_failureReason l)\<rparr>"
  have id: "r_id l = i" by (rule findLease_id [OF assms(2)])
  have l': "findLease ?d' i = Some ?l'"
    unfolding RequestForceRelease_def using id by (subst findLease_updLease [OF _ assms(2)]) (simp_all add: atEpoch_def)
  have "ForceRelease now i d = Inr (leaseNode l, True, ?d')"
    using assms(2,3) by (auto simp: ForceRelease_def loadAny_def Let_def)
  moreover have "TotalUsage (leases ?d') = TotalUsage (leases d)"
  proof -
    have "sum_where isOpen w (upd_where P f (leases d)) = sum_where isOpen w (leases d)"
      if "\<And>r. isOpen (f r) = isOpen r \<and> w (f r) = w r" for w P f
      using that by (auto simp: upd_where_def intro!: sum_where_map_eq)
    then show ?thesis by (simp add: TotalUsage_def RequestForceRelease_def count_where_sum isOpen_def)
  qed
  moreover have "Heartbeat a later i (r_epoch l) ?d' = Inl ErrForceRelease"
    using l' assms(3,4) by (auto simp: Heartbeat_def heartbeatTx_def load_def loadAny_def nameable_def Terminal_def)
  moreover have "Release later PhaseFailed i (r_epoch l) ?d' =
      Inr (archive ?l' PhaseFailed later (SetLeasePhase PhaseFailed i (r_epoch l) ?d'))"
    using l' assms(3) by (auto simp: Release_def loadAny_def Terminal_def)
  moreover have "findLease (archive ?l' PhaseFailed later (SetLeasePhase PhaseFailed i (r_epoch l) ?d')) i
      = Some (?l'\<lparr>r_phase := PhaseFailed\<rparr>)"
    using findLease_updLease [OF _ l', of "atEpoch i (r_epoch l)" "\<lambda>r. r\<lparr>r_phase := PhaseFailed\<rparr>"] id
    by (simp add: SetLeasePhase_def findLease_def atEpoch_def)
  ultimately show ?thesis using l' by (intro exI [of _ ?d'] exI [of _ ?l'] conjI exI) simp_all
qed

theorem force_release_reaches_the_holder_witness:
  "\<exists>d'. ForceRelease 9 ''l6'' (sampleLedger\<lparr>leases :=
      [(sampleLease ''l6'' ''big'' ''alpha'' PhaseCustody)\<lparr>r_node := Some ''alpha''\<rparr>]\<rparr>)
      = Inr (''alpha'', True, d') \<and> Heartbeat sampleAlloc 10 ''l6'' 1 d' = Inl ErrForceRelease"
proof -
  let ?l = "(sampleLease ''l6'' ''big'' ''alpha'' PhaseCustody)\<lparr>r_node := Some ''alpha''\<rparr>"
  let ?d = "sampleLedger\<lparr>leases := [?l]\<rparr>"
  have "ledgerOK ?d" "findLease ?d ''l6'' = Some ?l" "r_phase ?l \<in> {PhaseCustody, PhaseTeardown}"
    "leaseNode ?l = ''alpha''" "r_epoch ?l = 1"
    by (simp_all add: sample_defs ledgerOK_def findLease_def leaseNode_def requiresPlacement_def)
  moreover have "nameable ''l6''" by code_simp
  ultimately show ?thesis using force_release_reaches_the_holder [of ?d "''l6''" ?l 9 sampleAlloc 10] by auto
qed

text \<open>
  A completion whose holder is gone frees nothing and overrides only a guess. It never
  changes an open lease; it answers settled exactly when the lease's row is gone, or is
  terminal at the completion's epoch or a later one; and it changes a terminal verdict only
  where that verdict was inferred from an inventory's silence, replacing it, in the lease
  and in its history alike, by what GitHub reported.
\<close>

lemma completion_settles_only_the_settled:
  assumes "ledgerOK d" and "Terminal outcome"
  shows "\<exists>settled d'. SettleCompletionOnTerminalLease outcome i e d = Inr (settled, d')
    \<and> (settled \<longleftrightarrow> (case findLease d i of None \<Rightarrow> True | Some l \<Rightarrow> e \<le> r_epoch l \<and> Terminal (r_phase l)))
    \<and> leases d' = map (\<lambda>r. if r_id r = i \<and> settled \<and> r_failureReason r = inventoryAbsenceFailureReason
          then r\<lparr>r_phase := outcome, r_failureReason := []\<rparr> else r) (leases d)
    \<and> TotalUsage (leases d') = TotalUsage (leases d)"
proof (cases "findLease d i")
  case None
  then have "r_id r \<noteq> i" if "r \<in> set (leases d)" for r using that by (auto simp: findLease_None)
  then have "map (\<lambda>r. if r_id r = i \<and> P r then f r else r) (leases d) = leases d" for P f by (auto intro!: map_idI)
  then show ?thesis using None assms(2) by (auto simp: SettleCompletionOnTerminalLease_def)
next
  case (Some l)
  have row: "r = l" if "r \<in> set (leases d)" "r_id r = i" for r using row_at assms(1) Some that by blast
  have id: "r_id l = i" by (rule findLease_id [OF Some])
  let ?ok = "e \<le> r_epoch l \<and> Terminal (r_phase l)"
  show ?thesis
  proof (cases "?ok \<and> r_failureReason l = inventoryAbsenceFailureReason")
    case False
    then have "map (\<lambda>r. if r_id r = i \<and> ?ok \<and> r_failureReason r = inventoryAbsenceFailureReason
          then r\<lparr>r_phase := outcome, r_failureReason := []\<rparr> else r) (leases d) = leases d"
      using row by (auto intro!: map_idI)
    moreover have "SettleCompletionOnTerminalLease outcome i e d = Inr (?ok, d)"
      using Some assms(2) False by (auto simp: SettleCompletionOnTerminalLease_def)
    ultimately show ?thesis using Some by (intro exI [of _ ?ok] exI [of _ d]) simp
  next
    case True
    let ?f = "\<lambda>r. if r_id r = i then r\<lparr>r_phase := outcome, r_failureReason := []\<rparr> else r"
    let ?d' = "CorrectProvisionalHistory outcome i (CorrectProvisionalLease outcome i d)"
    have eq: "SettleCompletionOnTerminalLease outcome i e d = Inr (True, ?d')"
      using Some assms(2) True by (auto simp: SettleCompletionOnTerminalLease_def)
    have leases: "leases ?d' = map ?f (leases d)"
      by (simp add: CorrectProvisionalHistory_def CorrectProvisionalLease_def upd_where_def)
    have "isOpen (?f r) = isOpen r \<and> r_vcpu (?f r) = r_vcpu r \<and> r_memory (?f r) = r_memory r" if "r \<in> set (leases d)" for r
      using row [OF that] True assms(2) by (auto simp: isOpen_def)
    then have "sum_where isOpen w (map ?f (leases d)) = sum_where isOpen w (leases d)"
      if "w \<in> {r_vcpu, r_memory, \<lambda>_. 1}" for w
      using that by (auto intro!: sum_where_map_eq)
    then have "TotalUsage (leases ?d') = TotalUsage (leases d)"
      unfolding leases by (simp add: TotalUsage_def count_where_sum)
    moreover have "leases ?d' = map (\<lambda>r. if r_id r = i \<and> True \<and> r_failureReason r = inventoryAbsenceFailureReason
          then r\<lparr>r_phase := outcome, r_failureReason := []\<rparr> else r) (leases d)"
      unfolding leases using row True by (auto intro!: map_cong)
    ultimately show ?thesis using eq Some True by (intro exI [of _ True] exI [of _ ?d']) simp
  qed
qed

end
