(* ===== verification/Registry_Facts.thy ===== *)
theory Registry_Facts
  imports Node_Registry Held_Leases
begin

text \<open>
  What a registration does: one row is written at the next epoch, which fences whatever
  process held the name before, and nothing a running lease relies on changes under it.
\<close>

section \<open>The row a registration writes\<close>

lemma updNode_find:
  assumes "\<And>n. P n \<Longrightarrow> n_name (f n) = n_name n"
  shows "findNode (updNode P f d) name = map_option (\<lambda>n. if P n then f n else n) (findNode d name)"
  using find_upd_where [of P n_name f name "nodes d"] assms by (simp add: findNode_def)

lemma registeredRow_fields [simp]:
  "n_name (registeredRow now reg d ex) = g_name reg" "n_epoch (registeredRow now reg d ex) = n_epoch ex"
  "n_dispatch (registeredRow now reg d ex) = n_dispatch ex" "n_live (registeredRow now reg d ex)"
  "n_vcpu (registeredRow now reg d ex) = g_vcpu reg" "n_memory (registeredRow now reg d ex) = g_memory reg"
  "n_site (registeredRow now reg d ex) = g_site reg" "n_provider (registeredRow now reg d ex) = g_provider reg"
  "n_fleet (registeredRow now reg d ex) = TrimSpace (g_fleet reg)"
  "n_shapes (registeredRow now reg d ex) = trimShapes (g_shapes reg)"
  "n_architectures (registeredRow now reg d ex) = JoinArchs (g_architectures reg)"
  "n_decommissionedAt (registeredRow now reg d ex) = None"
  "n_highestRelease (registeredRow now reg d ex) = highestRelease d (g_name reg) (g_release reg)"
  by (simp_all add: registeredRow_def)

lemma RegisterNode_row:
  assumes "RegisterNode now reg d = Inr (e, d')"
  defines "ex \<equiv> (case findNode d (g_name reg) of None \<Rightarrow> freshNode | Some n \<Rightarrow> n)"
  shows "findNode d' (g_name reg) = Some ((registeredRow now reg d ex)\<lparr>n_epoch := e\<rparr>)"
    and "e = n_epoch ex + 1" and "registrationOK reg"
    and "name \<noteq> g_name reg \<Longrightarrow> findNode d' name = findNode d name"
    and "leases d' = leases d" "admission d' = admission d" "history d' = history d"
    and "\<not> PoolHostReleased d (g_name reg)"
proof -
  have u: "UpsertNodeRegistration now reg d = (e, d')" "registrationOK reg" "\<not> PoolHostReleased d (g_name reg)"
    using assms(1) by (auto simp: RegisterNode_def split: if_splits sum.splits)
  show "registrationOK reg" "\<not> PoolHostReleased d (g_name reg)" using u by simp_all
  show "findNode d' (g_name reg) = Some ((registeredRow now reg d ex)\<lparr>n_epoch := e\<rparr>)" "e = n_epoch ex + 1"
    "name \<noteq> g_name reg \<Longrightarrow> findNode d' name = findNode d name"
    "leases d' = leases d" "admission d' = admission d" "history d' = history d"
  proof -
    show "findNode d' (g_name reg) = Some ((registeredRow now reg d ex)\<lparr>n_epoch := e\<rparr>)"
    proof (cases "findNode d (g_name reg)")
      case None
      then have "find (\<lambda>n. n_name n = g_name reg) (nodes d) = None" by (simp add: findNode_def)
      then have "find (\<lambda>n. n_name n = g_name reg) (nodes d @ [m]) = Some m" if "n_name m = g_name reg" for m
        using that by (simp add: find_append)
      then show ?thesis using u(1) None by (auto simp: UpsertNodeRegistration_def findNode_def ex_def freshNode_def)
    next
      case (Some n)
      then show ?thesis
        using u(1) updNode_find [of "\<lambda>n. n_name n = g_name reg"
            "\<lambda>n. (registeredRow now reg d n)\<lparr>n_epoch := n_epoch n + 1\<rparr>" d "g_name reg"] findNode_Some [OF Some]
        by (auto simp: UpsertNodeRegistration_def ex_def)
    qed
    show "e = n_epoch ex + 1" "leases d' = leases d" "admission d' = admission d" "history d' = history d"
      using u(1) by (auto simp: UpsertNodeRegistration_def ex_def freshNode_def split: option.splits)
    show "name \<noteq> g_name reg \<Longrightarrow> findNode d' name = findNode d name"
    proof -
      assume other: "name \<noteq> g_name reg"
      show ?thesis
      proof (cases "findNode d (g_name reg)")
        case None
        then show ?thesis using u(1) other
          by (auto simp: UpsertNodeRegistration_def findNode_def find_append split: option.splits)
      next
        case (Some n)
        then have "d' = updNode (\<lambda>n. n_name n = g_name reg) (\<lambda>n. (registeredRow now reg d n)\<lparr>n_epoch := n_epoch n + 1\<rparr>) d"
          using u(1) by (simp add: UpsertNodeRegistration_def)
        then show ?thesis
          using other findNode_Some [of d name] by (cases "findNode d name") (auto simp: updNode_find)
      qed
    qed
  qed
qed

section \<open>Properties\<close>


definition sampleRegistration :: NodeRegistration where
  "sampleRegistration = \<lparr>g_name = ''alpha'', g_provider = ProviderFirecracker, g_site = ''rack'',
     g_vcpu = 32, g_memory = 128, g_shapes = [], g_architectures = [ArchX64], g_incarnation = ''boot-2'',
     g_fleet = [], g_jitPath = [], g_region = [], g_release = ''v1.2.3'', g_digest = [],
     g_wireMin = 30, g_wireMax = 45, g_wireVersion = 45\<rparr>"

lemma sample_registers:
  obtains d' where "RegisterNode 5 sampleRegistration sampleLedger = Inr (2, d')"
proof -
  have "case RegisterNode 5 sampleRegistration sampleLedger of Inl _ \<Rightarrow> False | Inr (e, _) \<Rightarrow> e = 2" by code_simp
  then show ?thesis using that by (auto split: sum.splits)
qed



text \<open>
  C28. A host does not change under its work. While leases are outstanding against a node, a
  registration that is accepted reports the same site, the same backend and the same
  CodeBuild fleet as before. It drops no architecture: where the node had recorded some and
  the registration names any, it names every recorded one; naming more is free, and so is
  naming none. Where the node had purchasable shapes, it offers the same shapes in the same
  order, by type, vCPU and memory.
\<close>

theorem registration_keeps_the_work:
  assumes "RegisterNode now reg d = Inr (e, d')" and "findNode d (g_name reg) = Some ex"
    and "liveWork d (g_name reg) now" and "findNode d' (g_name reg) = Some n"
  shows "n_site n = n_site ex \<and> n_provider n = n_provider ex \<and> n_fleet n = n_fleet ex
    \<and> (n_architectures ex \<noteq> [] \<and> g_architectures reg \<noteq> [] \<longrightarrow>
         set (Split (n_architectures ex) (CHR '','')) \<subseteq> set (g_architectures reg))
    \<and> (n_shapes ex \<noteq> [] \<longrightarrow> samePlacement (n_shapes ex) (n_shapes n))"
proof -
  have n: "n = (registeredRow now reg d ex)\<lparr>n_epoch := e\<rparr>"
    using RegisterNode_row(1) [OF assms(1)] assms(2,4) by simp
  have may: "mayReplace now reg ex d = Inr ()"
    using assms(1,2) by (auto simp: RegisterNode_def split: if_splits sum.splits)
  then have "droppedArchitectures (n_architectures ex) (g_architectures reg) = []"
    using assms(3) by (auto simp: mayReplace_def Let_def split: if_splits)
  then have "n_architectures ex \<noteq> [] \<and> g_architectures reg \<noteq> [] \<longrightarrow>
      set (Split (n_architectures ex) (CHR '','')) \<subseteq> set (g_architectures reg)"
    by (auto simp: droppedArchitectures_def filter_empty_conv split: if_splits)
  moreover have "n_site n = n_site ex \<and> n_provider n = n_provider ex \<and> n_fleet n = n_fleet ex
      \<and> (n_shapes ex \<noteq> [] \<longrightarrow> samePlacement (n_shapes ex) (n_shapes n))"
    using may assms(3) by (auto simp: n mayReplace_def Let_def sameEC2PlacementShapes_def decodeRemoteShapes_def
        split: if_splits sum.splits)
  ultimately show ?thesis by blast
qed

text \<open>
  Against the running lease of \<open>alpha\<close>, a registration of the same host is accepted, one that
  moves it to another site is refused, and so is one of another architecture.
\<close>

theorem registration_keeps_the_work_witness:
  "\<exists>d' n. RegisterNode 5 sampleRegistration sampleLedger = Inr (2, d') \<and> liveWork sampleLedger ''alpha'' 5
    \<and> findNode d' ''alpha'' = Some n \<and> n_site n = ''rack'' \<and> ''x64'' \<in> set (g_architectures sampleRegistration)
    \<and> RegisterNode 5 (sampleRegistration\<lparr>g_site := ''attic''\<rparr>) sampleLedger = Inl ErrWrongSite
    \<and> RegisterNode 5 (sampleRegistration\<lparr>g_architectures := [ArchARM64]\<rparr>) sampleLedger = Inl ErrWrongProvider"
proof -
  obtain d' where d': "RegisterNode 5 sampleRegistration sampleLedger = Inr (2, d')" by (rule sample_registers)
  obtain ex where ex: "findNode sampleLedger ''alpha'' = Some ex" "n_site ex = ''rack''" "n_architectures ex = ''x64''"
    by (simp add: sample_defs findNode_def)
  have g: "g_name sampleRegistration = ''alpha''" "g_architectures sampleRegistration \<noteq> []"
    by (simp_all add: sampleRegistration_def)
  have w: "liveWork sampleLedger ''alpha'' 5" "set (Split ''x64'' (CHR '','')) = {''x64''}" by code_simp+
  have refused: "isl (RegisterNode 5 (sampleRegistration\<lparr>g_site := ''attic''\<rparr>) sampleLedger)
    \<and> projl (RegisterNode 5 (sampleRegistration\<lparr>g_site := ''attic''\<rparr>) sampleLedger) = ErrWrongSite"
    "isl (RegisterNode 5 (sampleRegistration\<lparr>g_architectures := [ArchARM64]\<rparr>) sampleLedger)
    \<and> projl (RegisterNode 5 (sampleRegistration\<lparr>g_architectures := [ArchARM64]\<rparr>) sampleLedger) = ErrWrongProvider"
    by code_simp+
  obtain n where n: "findNode d' ''alpha'' = Some n" using RegisterNode_row(1) [OF d'] g by auto
  have "n_site n = ''rack''" "''x64'' \<in> set (g_architectures sampleRegistration)"
    using registration_keeps_the_work [OF d', unfolded g(1), OF ex(1) w(1) n] ex(2,3) g(2) w(2) by simp_all
  moreover have "RegisterNode 5 (sampleRegistration\<lparr>g_site := ''attic''\<rparr>) sampleLedger = Inl ErrWrongSite"
    "RegisterNode 5 (sampleRegistration\<lparr>g_architectures := [ArchARM64]\<rparr>) sampleLedger = Inl ErrWrongProvider"
    using refused sum.collapse(1) by metis+
  ultimately show ?thesis using d' w(1) n by blast
qed








end
