(* ===== verification/Admission.thy ===== *)
theory Admission
  imports Held_Leases Escrow
begin

text \<open>
  The admission seal and quiescence: \<open>ReadAdmission\<close>, \<open>Seal\<close>, \<open>Resume\<close> and
  their common \<open>transition\<close> (here \<open>admissionTransition\<close>) of
  \<open>internal/state/admission.go\<close>, and \<open>internal/alloc/quiescence.go\<close>. The
  generation is the seal's fence: every change moves it, and a caller acts only at the
  generation it read.
\<close>

section \<open>Admission\<close>

record Admission =
  am_mode :: AdmissionMode
  am_generation :: int
  am_provenance :: string
  am_reason :: string
  am_actor :: string
  am_changedAt :: int

definition Sealed :: "Admission \<Rightarrow> bool" where
  "Sealed a \<longleftrightarrow> am_mode a \<noteq> AdmissionOpen"

definition ReadAdmission :: "Ledger \<Rightarrow> Admission" where
  "ReadAdmission d =
     \<lparr>am_mode = admission d, am_generation = sl_generation (seal d), am_provenance = sl_provenance (seal d),
      am_reason = sl_reason (seal d), am_actor = sl_actor (seal d), am_changedAt = sl_changedAt (seal d)\<rparr>"

abbreviation "ProvenanceLocalDown \<equiv> ''local-down''"
abbreviation "ProvenanceOperator \<equiv> ''operator''"

record AdmissionChange =
  tr_mode :: AdmissionMode
  tr_expect :: int
  tr_clears :: string
  tr_keepExisting :: bool
  tr_provenance :: string
  tr_reason :: string
  tr_actor :: string

text \<open>The write is conditional on the generation the transaction read.\<close>

definition SetAdmission :: "AdmissionMode \<Rightarrow> Seal \<Rightarrow> int \<Rightarrow> Ledger \<Rightarrow> Ledger" where
  "SetAdmission mode s expect d =
     (if sl_generation (seal d) = expect then d\<lparr>admission := mode, seal := s\<rparr> else d)"

definition admissionTransition :: "int \<Rightarrow> AdmissionChange \<Rightarrow> Ledger \<Rightarrow> (Admission \<times> Ledger) result" where
  "admissionTransition now t d =
     (let current = ReadAdmission d
      in if tr_keepExisting t \<and> tr_mode t = AdmissionSealed \<and> am_mode current = AdmissionSealed
            \<and> am_provenance current = tr_provenance t
         then Inr (current, d)
         else if tr_mode t = AdmissionOpen \<and> am_mode current = AdmissionOpen then Inr (current, d)
         else if tr_mode t = AdmissionOpen \<and> am_mode current \<noteq> AdmissionSealed then Inl ErrInvalid
         else if am_generation current \<noteq> tr_expect t then Inl ErrAdmissionGeneration
         else if tr_clears t \<noteq> [] \<and> am_provenance current \<noteq> tr_clears t then Inl ErrAdmissionProvenance
         else let d' = SetAdmission (tr_mode t)
                   \<lparr>sl_generation = am_generation current + 1, sl_provenance = tr_provenance t,
                    sl_reason = tr_reason t, sl_actor = tr_actor t, sl_changedAt = now\<rparr>
                   (am_generation current) d
              in Inr (ReadAdmission d', d'))"

record SealRequest =
  sq_expect :: int
  sq_provenance :: string
  sq_reason :: string
  sq_actor :: string
  sq_keepExisting :: bool

definition SealAdmission :: "int \<Rightarrow> SealRequest \<Rightarrow> Ledger \<Rightarrow> (Admission \<times> Ledger) result" where
  "SealAdmission now req d =
     (if sq_provenance req \<noteq> ProvenanceLocalDown \<and> sq_provenance req \<noteq> ProvenanceOperator then Inl ErrInvalid
      else admissionTransition now \<lparr>tr_mode = AdmissionSealed, tr_expect = sq_expect req, tr_clears = [],
             tr_keepExisting = sq_keepExisting req, tr_provenance = sq_provenance req,
             tr_reason = sq_reason req, tr_actor = sq_actor req\<rparr> d)"

record ResumeRequest =
  rq_expect :: int
  rq_clears :: string
  rq_actor :: string

definition ResumeAdmission :: "int \<Rightarrow> ResumeRequest \<Rightarrow> Ledger \<Rightarrow> (Admission \<times> Ledger) result" where
  "ResumeAdmission now req =
     admissionTransition now \<lparr>tr_mode = AdmissionOpen, tr_expect = rq_expect req, tr_clears = rq_clears req,
       tr_keepExisting = False, tr_provenance = [], tr_reason = [], tr_actor = rq_actor req\<rparr>"

section \<open>Quiescence\<close>

record Outstanding =
  ou_id :: string
  ou_tier :: string
  ou_node :: string
  ou_phase :: Phase
  ou_runID :: "int option"
  ou_since :: int
  ou_deregistered :: bool

record Quiescence =
  qu_sealed :: bool
  qu_generation :: int
  qu_outstanding :: "Outstanding list"

definition quiescencePhases :: "Phase list" where
  "quiescencePhases = [PhaseCapacity, PhaseAssigned, PhaseLaunching, PhaseOnline, PhaseBusy,
     PhaseCustody, PhaseTeardown, PhaseQuarantine]"

definition heldSince :: "LeaseRow \<Rightarrow> int" where
  "heldSince r = (case r_heldAt r of None \<Rightarrow> r_createdAt r | Some t \<Rightarrow> t)"

definition ListOutstandingLeases :: "Ledger \<Rightarrow> LeaseRow list" where
  "ListOutstandingLeases d =
     sort_key heldSince (sort_key r_id (filter (\<lambda>r. r_phase r \<in> set quiescencePhases) (leases d)))"

definition outstandingOf :: "LeaseRow \<Rightarrow> Outstanding" where
  "outstandingOf r =
     \<lparr>ou_id = r_id r, ou_tier = r_tier r, ou_node = attributedTo r, ou_phase = r_phase r,
      ou_runID = r_runID r, ou_since = heldSince r, ou_deregistered = r_deregistered r\<rparr>"

definition readQuiescence :: "Ledger \<Rightarrow> Quiescence" where
  "readQuiescence d =
     \<lparr>qu_sealed = Sealed (ReadAdmission d), qu_generation = am_generation (ReadAdmission d),
      qu_outstanding = map outstandingOf (ListOutstandingLeases d)\<rparr>"

definition Quiet :: "Quiescence \<Rightarrow> bool" where
  "Quiet q \<longleftrightarrow> qu_sealed q \<and> length (qu_outstanding q) = 0"

definition RegistrationUnconfirmed :: "Quiescence \<Rightarrow> int" where
  "RegistrationUnconfirmed q = count_where (\<lambda>x. \<not> ou_deregistered x) (qu_outstanding q)"

definition Escrowed :: "Quiescence \<Rightarrow> int" where
  "Escrowed q = count_where (\<lambda>x. ou_phase x = PhaseCapacity) (qu_outstanding q)"

section \<open>Properties\<close>

lemma admissionTransition_result:
  assumes "admissionTransition now t d = Inr (am, d')"
  shows "am = ReadAdmission d'" and "d' = d \<or> (am_generation am = sl_generation (seal d) + 1 \<and> admission d' = tr_mode t
      \<and> sl_generation (seal d) = tr_expect t \<and> (tr_clears t = [] \<or> sl_provenance (seal d) = tr_clears t)
      \<and> sl_provenance (seal d') = tr_provenance t)"
    and "leases d' = leases d" "nodes d' = nodes d" "barrier d' = barrier d" "barrierRuns d' = barrierRuns d"
    "inventories d' = inventories d"
  using assms by (auto simp: admissionTransition_def SetAdmission_def ReadAdmission_def Let_def split: if_splits)

lemma phases_listed: "p \<in> set quiescencePhases \<longleftrightarrow> \<not> Terminal p"
  by (cases p) (simp_all add: quiescencePhases_def Terminal_def)

lemma ListOutstandingLeases_open: "set (ListOutstandingLeases d) = {r \<in> set (leases d). isOpen r}"
  by (auto simp: ListOutstandingLeases_def phases_listed isOpen_def)

text \<open>
  C39. A deployment reports itself quiet exactly when it admits nothing and charges nothing:
  admission is not open and no lease of the ledger is open, in escrow, running, held or
  quarantined. Then nothing is charged to any host, to any tier or to the deployment.
\<close>

theorem quiet_means_nothing_charged:
  "(Quiet (readQuiescence d) \<longleftrightarrow> admission d \<noteq> AdmissionOpen \<and> u_leases (TotalUsage (leases d)) = 0)
   \<and> (Quiet (readQuiescence d) \<longrightarrow>
        u_vcpu (TotalUsage (leases d)) = 0 \<and> u_memory (TotalUsage (leases d)) = 0
        \<and> nu_vcpu (usageOfHost (leases d) h) = 0 \<and> nu_memory (usageOfHost (leases d) h) = 0
        \<and> CountOpenInTier (leases d) tier = 0)"
proof -
  have "filter (\<lambda>r. r_phase r \<in> set quiescencePhases) (leases d) = filter isOpen (leases d)"
    by (simp add: phases_listed isOpen_def [abs_def])
  then have listed: "length (qu_outstanding (readQuiescence d)) = length (filter isOpen (leases d))"
    by (simp add: readQuiescence_def ListOutstandingLeases_def)
  have "Quiet (readQuiescence d) \<longleftrightarrow> admission d \<noteq> AdmissionOpen \<and> u_leases (TotalUsage (leases d)) = 0"
    unfolding Quiet_def listed by (simp add: readQuiescence_def Sealed_def ReadAdmission_def count_where_def)
  moreover have "filter (\<lambda>r. isOpen r \<and> P r) (leases d) = []" "filter isOpen (leases d) = []"
    if "Quiet (readQuiescence d)" for P
    using that listed by (auto simp: Quiet_def filter_empty_conv)
  ultimately show ?thesis by (simp add: sum_where_def CountOpenInTier_def count_where_def)
qed

definition quietLedger :: Ledger where
  "quietLedger = sampleLedger\<lparr>leases := map (\<lambda>r. r\<lparr>r_phase := PhaseDone\<rparr>) (leases sampleLedger),
     admission := AdmissionSealed\<rparr>"

theorem quiet_means_nothing_charged_witness:
  "Quiet (readQuiescence quietLedger) \<and> nu_vcpu (usageOfHost (leases quietLedger) ''alpha'') = 0"
proof -
  have "Quiet (readQuiescence quietLedger)"
    using quiet_means_nothing_charged [of quietLedger]
    by (simp add: quietLedger_def sample_defs count_where_def isOpen_def Terminal_def)
  then show ?thesis using quiet_means_nothing_charged [of quietLedger "''alpha''"] by blast
qed

text \<open>
  The admission seal is a compare-and-swap on its generation. A seal or a resume that
  changes anything was asked at the generation in force and moves it by exactly one, and a
  resume that may only clear one kind of seal cleared that kind; what is answered is what
  the ledger then reads. So of two callers that read the same generation only one changes
  the ledger: whatever the other asks for then is refused, or was there already.
\<close>

lemma admission_compare_and_swap:
  assumes "admissionTransition now t d = Inr (am, d')" and "d' \<noteq> d"
  shows "tr_expect t = am_generation (ReadAdmission d)
    \<and> am = ReadAdmission d' \<and> am_generation am = am_generation (ReadAdmission d) + 1 \<and> am_mode am = tr_mode t
    \<and> (tr_clears t = [] \<or> am_provenance (ReadAdmission d) = tr_clears t)
    \<and> (\<forall>later u am' d''. tr_expect u = tr_expect t \<longrightarrow> admissionTransition later u d' = Inr (am', d'') \<longrightarrow> d'' = d')"
proof -
  note r = admissionTransition_result [OF assms(1)]
  have g: "am_generation am = sl_generation (seal d) + 1" "admission d' = tr_mode t"
    "sl_generation (seal d) = tr_expect t" "tr_clears t = [] \<or> sl_provenance (seal d) = tr_clears t"
    using r(2) assms(2) by auto
  have "d'' = d'" if u: "tr_expect u = tr_expect t" "admissionTransition later u d' = Inr (am', d'')" for later u am' d''
    using admissionTransition_result(2) [OF u(2)] u(1) g(1,3) r(1) by (auto simp: ReadAdmission_def)
  then show ?thesis using g r(1) by (auto simp: ReadAdmission_def)
qed

end
