(* ===== verification/Barrier.thy ===== *)
theory Barrier
  imports Registry_Facts Admission
begin

text \<open>
  Proving the fleet runs nothing: \<open>internal/alloc/barrier.go\<close> and \<open>Decommission\<close>
  of \<open>internal/alloc/nodes.go\<close>. A barrier asks every host; a host's answers under it
  form a continuous empty run, fenced by the registration and by the count of launches
  dispatched. A run proves the host clear once an empty answer was taken a grace after the
  run began. Random identifiers are arguments; stored instants are their times.
\<close>

definition computeAbsenceGrace :: int where
  "computeAbsenceGrace = 300000000000"

section \<open>Fences\<close>

definition BumpDispatch :: "string \<Rightarrow> Ledger \<Rightarrow> int \<times> Ledger" where
  "BumpDispatch node d =
     (case findNode d node of
        None \<Rightarrow> (0, d)
      | Some n \<Rightarrow> (n_dispatch n + 1, updNode (\<lambda>m. n_name m = node) (\<lambda>m. m\<lparr>n_dispatch := n_dispatch m + 1\<rparr>) d))"

record NodeFence =
  nf_epoch :: int
  nf_dispatch :: int
  nf_wireVersion :: int
  nf_live :: bool

definition NodeFenceOf :: "Ledger \<Rightarrow> string \<Rightarrow> NodeFence option" where
  "NodeFenceOf d node =
     map_option (\<lambda>n. \<lparr>nf_epoch = n_epoch n, nf_dispatch = n_dispatch n, nf_wireVersion = n_wireVersion n,
       nf_live = n_live n\<rparr>) (findNode d node)"

section \<open>The barrier in force\<close>

definition DeleteEveryBarrierRun :: "Ledger \<Rightarrow> Ledger" where
  "DeleteEveryBarrierRun d = d\<lparr>barrierRuns := []\<rparr>"

definition RequestComputeBarrier ::
  "int \<Rightarrow> int \<Rightarrow> string \<Rightarrow> string option \<Rightarrow> Ledger \<Rightarrow> (ComputeBarrier \<times> Ledger) result" where
  "RequestComputeBarrier now generation actor newID d =
     (case barrier d of
        Some current \<Rightarrow>
          if cb_generation current = generation then Inr (current, d)
          else (case newID of
                  None \<Rightarrow> Inl ErrStore
                | Some i \<Rightarrow>
                    (let b = \<lparr>cb_id = i, cb_generation = generation, cb_requestedAt = now, cb_requestedBy = actor\<rparr>
                     in Inr (b, (DeleteEveryBarrierRun d)\<lparr>barrier := Some b\<rparr>)))
      | None \<Rightarrow>
          (case newID of
             None \<Rightarrow> Inl ErrStore
           | Some i \<Rightarrow>
               (let b = \<lparr>cb_id = i, cb_generation = generation, cb_requestedAt = now, cb_requestedBy = actor\<rparr>
                in Inr (b, (DeleteEveryBarrierRun d)\<lparr>barrier := Some b\<rparr>))))"

definition DropComputeBarrier :: "string \<Rightarrow> Ledger \<Rightarrow> Ledger" where
  "DropComputeBarrier i d =
     (case barrier d of
        None \<Rightarrow> d
      | Some current \<Rightarrow> if cb_id current \<noteq> i then d else DeleteEveryBarrierRun (d\<lparr>barrier := None\<rparr>))"

section \<open>Observations\<close>

record BarrierObservation =
  bo_node :: string
  bo_barrierID :: string
  bo_epoch :: int
  bo_dispatch :: int
  bo_empty :: bool
  bo_running :: bool

definition sameRun :: "BarrierRow \<Rightarrow> BarrierRow \<Rightarrow> bool" where
  "sameRun r s \<longleftrightarrow> br_barrierID r = br_barrierID s \<and> br_epoch r = br_epoch s \<and> br_dispatch r = br_dispatch s"

definition RecordBarrierRun :: "string \<Rightarrow> string \<Rightarrow> int \<Rightarrow> int \<Rightarrow> int \<Rightarrow> Ledger \<Rightarrow> Ledger" where
  "RecordBarrierRun node barrierID epoch dispatch now d =
     (let new = \<lparr>br_node = node, br_barrierID = barrierID, br_epoch = epoch, br_dispatch = dispatch,
                 br_emptySince = now, br_observedAt = now\<rparr>
      in d\<lparr>barrierRuns := upsertBy br_node new
             (\<lambda>r. if sameRun r new then new\<lparr>br_emptySince := br_emptySince r\<rparr> else new) (barrierRuns d)\<rparr>)"

definition observedUnder :: "int \<Rightarrow> BarrierObservation \<Rightarrow> Ledger \<Rightarrow> Ledger" where
  "observedUnder now obs d =
     (case barrier d of
        None \<Rightarrow> d
      | Some current \<Rightarrow>
          if cb_id current \<noteq> bo_barrierID obs then d
          else (case findNode d (bo_node obs) of
                  None \<Rightarrow> d
                | Some fence \<Rightarrow>
                    if n_epoch fence \<noteq> bo_epoch obs \<or> n_dispatch fence \<noteq> bo_dispatch obs
                    then DeleteBarrierRun (bo_node obs) d
                    else if \<not> bo_empty obs then DeleteBarrierRun (bo_node obs) d
                    else RecordBarrierRun (bo_node obs) (bo_barrierID obs) (n_epoch fence) (n_dispatch fence) now d))"

definition RecordBarrierObservation :: "int \<Rightarrow> BarrierObservation \<Rightarrow> Ledger \<Rightarrow> Ledger" where
  "RecordBarrierObservation now obs d =
     observedUnder now obs (if bo_running obs then computeListedNowTx (bo_node obs) (bo_epoch obs) d else d)"

text \<open>A machine arriving under a name ends what the name had proved.\<close>

definition ArrivalHasProof :: "Ledger \<Rightarrow> string \<Rightarrow> bool" where
  "ArrivalHasProof d node \<longleftrightarrow>
     list_ex (\<lambda>r. br_node r = node) (barrierRuns d)
     \<or> list_ex (\<lambda>p. poolNodeIn node [''placed''] p \<and> (\<not> po_contradicted p \<or> po_clearSince p \<noteq> None)) (poolOrders d)"

definition ContradictWaitingPoolRelease :: "string \<Rightarrow> Ledger \<Rightarrow> Ledger" where
  "ContradictWaitingPoolRelease node d =
     d\<lparr>poolOrders := upd_where (poolNodeIn node [''placed'']) contradicted (poolOrders d)\<rparr>"

definition InvalidateBarrierRun :: "string \<Rightarrow> Ledger \<Rightarrow> Ledger" where
  "InvalidateBarrierRun node d =
     (if ArrivalHasProof d node then ContradictWaitingPoolRelease node (DeleteBarrierRun node d) else d)"

definition InvalidateEveryBarrierRun :: "Ledger \<Rightarrow> Ledger" where
  "InvalidateEveryBarrierRun d = (if barrierRuns d \<noteq> [] then DeleteEveryBarrierRun d else d)"

section \<open>Reading the fleet's answer\<close>

datatype ClearanceState =
    ClearanceUnknown | ClearanceProved | ClearanceRunning | ClearanceSettling
  | ClearanceWaiting | ClearanceUnreachable | ClearanceBelowProtocol

record NodeClearance =
  nc_node :: string
  nc_state :: ClearanceState
  nc_emptySince :: "int option"
  nc_clearAt :: "int option"
  nc_wireVersion :: int

record Exclusion =
  xc_node :: string
  xc_proven :: bool
  xc_actor :: string
  xc_at :: "int option"

record ComputeClearance =
  cc_requested :: bool
  cc_barrierID :: string
  cc_generation :: int
  cc_admissionGeneration :: int
  cc_admissionSealed :: bool
  cc_nodes :: "NodeClearance list"
  cc_excluded :: "Exclusion list"

text \<open>One host's run under the barrier, with its own last word about running compute.\<close>

record barrierRun =
  bn_run :: "BarrierRow option"
  bn_running :: bool

definition fencedBy :: "barrierRun \<Rightarrow> int \<Rightarrow> int \<Rightarrow> bool" where
  "fencedBy run epoch dispatch =
     (case bn_run run of None \<Rightarrow> False | Some r \<Rightarrow> br_epoch r = epoch \<and> br_dispatch r = dispatch)"

definition clearAt :: "BarrierRow \<Rightarrow> int" where
  "clearAt r = br_emptySince r + computeAbsenceGrace"

definition proved :: "barrierRun \<Rightarrow> bool" where
  "proved run = (case bn_run run of None \<Rightarrow> False | Some r \<Rightarrow> \<not> br_observedAt r < clearAt r)"

definition provenBy :: "barrierRun \<Rightarrow> int \<Rightarrow> int \<Rightarrow> bool" where
  "provenBy run epoch dispatch \<longleftrightarrow> fencedBy run epoch dispatch \<and> \<not> bn_running run \<and> proved run"

definition HostReportsCompute :: "Ledger \<Rightarrow> string \<Rightarrow> bool" where
  "HostReportsCompute d node =
     list_ex (\<lambda>i. iv_node i = node \<and> 0 < iv_running i
       \<and> (case findNode d node of None \<Rightarrow> False | Some n \<Rightarrow> iv_epoch i = n_epoch n)) (inventories d)"

definition barrierRunsTx :: "Ledger \<Rightarrow> ComputeBarrier option \<Rightarrow> string \<Rightarrow> barrierRun" where
  "barrierRunsTx d b node =
     \<lparr>bn_run = (case b of None \<Rightarrow> None
        | Some current \<Rightarrow> find (\<lambda>r. br_node r = node) (filter (\<lambda>r. br_barrierID r = cb_id current) (barrierRuns d))),
      bn_running = HostReportsCompute d node\<rparr>"

definition BarrierWireVersion :: int where
  "BarrierWireVersion = 14"

definition clearanceOf :: "NodeRow \<Rightarrow> barrierRun \<Rightarrow> bool \<Rightarrow> NodeClearance" where
  "clearanceOf n run requested =
     (let out = \<lparr>nc_node = n_name n, nc_state = ClearanceUnknown, nc_emptySince = None, nc_clearAt = None,
                 nc_wireVersion = n_wireVersion n\<rparr>
      in if \<not> requested then out\<lparr>nc_state := ClearanceWaiting\<rparr>
         else if bn_running run then out\<lparr>nc_state := ClearanceRunning\<rparr>
         else if fencedBy run (n_epoch n) (n_dispatch n)
         then (let out = out\<lparr>nc_emptySince := map_option br_emptySince (bn_run run),
                             nc_clearAt := map_option clearAt (bn_run run)\<rparr>
               in if provenBy run (n_epoch n) (n_dispatch n) then out\<lparr>nc_state := ClearanceProved\<rparr>
                  else if \<not> n_live n then out\<lparr>nc_state := ClearanceUnreachable\<rparr>
                  else out\<lparr>nc_state := ClearanceSettling\<rparr>)
         else if 0 < n_wireVersion n \<and> n_wireVersion n < BarrierWireVersion
         then out\<lparr>nc_state := ClearanceBelowProtocol\<rparr>
         else if \<not> n_live n then out\<lparr>nc_state := ClearanceUnreachable\<rparr>
         else out\<lparr>nc_state := ClearanceWaiting\<rparr>)"

definition ComputeClear :: "Ledger \<Rightarrow> ComputeClearance" where
  "ComputeClear d =
     (let rows = sort_key n_name (nodes d); am = ReadAdmission d; found = barrier d \<noteq> None
      in \<lparr>cc_requested = found,
          cc_barrierID = (case barrier d of None \<Rightarrow> [] | Some b \<Rightarrow> cb_id b),
          cc_generation = (case barrier d of None \<Rightarrow> 0 | Some b \<Rightarrow> cb_generation b),
          cc_admissionGeneration = am_generation am, cc_admissionSealed = Sealed am,
          cc_nodes = map (\<lambda>n. clearanceOf n (barrierRunsTx d (barrier d) (n_name n)) found)
             (filter (\<lambda>n. n_decommissionedAt n = None) rows),
          cc_excluded = map (\<lambda>n. \<lparr>xc_node = n_name n, xc_proven = n_decommissionProven n,
               xc_actor = n_decommissionActor n, xc_at = n_decommissionedAt n\<rparr>)
             (filter (\<lambda>n. n_decommissionedAt n \<noteq> None) rows)\<rparr>)"

definition Clear :: "ComputeClearance \<Rightarrow> bool" where
  "Clear c \<longleftrightarrow> cc_requested c \<and> cc_admissionSealed c \<and> cc_admissionGeneration c = cc_generation c
     \<and> list_all (\<lambda>n. nc_state n = ClearanceProved) (cc_nodes c)"

definition Stale :: "ComputeClearance \<Rightarrow> bool" where
  "Stale c \<longleftrightarrow> cc_requested c \<and> (\<not> cc_admissionSealed c \<or> cc_admissionGeneration c \<noteq> cc_generation c)"

definition Blocking :: "ComputeClearance \<Rightarrow> NodeClearance list" where
  "Blocking c = concat (map (\<lambda>want. filter (\<lambda>n. nc_state n = want) (cc_nodes c))
     [ClearanceRunning, ClearanceBelowProtocol, ClearanceUnreachable, ClearanceWaiting,
      ClearanceSettling, ClearanceUnknown])"

definition Unproven :: "ComputeClearance \<Rightarrow> string list" where
  "Unproven c = map xc_node (filter (\<lambda>e. \<not> xc_proven e) (cc_excluded c))"

definition provedTx :: "Ledger \<Rightarrow> string \<Rightarrow> bool" where
  "provedTx d node =
     (case barrier d of
        None \<Rightarrow> False
      | Some b \<Rightarrow>
          if \<not> Sealed (ReadAdmission d) \<or> am_generation (ReadAdmission d) \<noteq> cb_generation b then False
          else (case findNode d node of
                  None \<Rightarrow> False
                | Some n \<Rightarrow>
                    (case find (\<lambda>r. br_node r = node \<and> br_barrierID r = cb_id b) (barrierRuns d) of
                       None \<Rightarrow> False
                     | Some r \<Rightarrow> provenBy \<lparr>bn_run = Some r, bn_running = HostReportsCompute d node\<rparr>
                                   (n_epoch n) (n_dispatch n))))"

section \<open>Taking a host out of the fleet\<close>

definition DecommissionNode :: "int \<Rightarrow> bool \<Rightarrow> string \<Rightarrow> string \<Rightarrow> Ledger \<Rightarrow> Ledger" where
  "DecommissionNode now proven actor node =
     updNode (\<lambda>n. n_name n = node) (\<lambda>n. n\<lparr>n_decommissionedAt := Some now, n_decommissionProven := proven,
       n_decommissionActor := actor, n_drained := True, n_live := False\<rparr>)"

definition ClearPoolReleaseContradiction :: "string \<Rightarrow> Ledger \<Rightarrow> Ledger" where
  "ClearPoolReleaseContradiction node d =
     d\<lparr>poolOrders := upd_where (\<lambda>p. poolNodeIn node [''placed''] p \<and> po_contradicted p)
         (\<lambda>p. p\<lparr>po_contradicted := False\<rparr>) (poolOrders d)\<rparr>"

record DecommissionRequest =
  dr_node :: string
  dr_actor :: string
  dr_force :: bool

definition Decommission :: "int \<Rightarrow> DecommissionRequest \<Rightarrow> Ledger \<Rightarrow> (bool \<times> Ledger) result" where
  "Decommission now req d =
     (if dr_node req = [] then Inl ErrInvalid
      else case findNode d (dr_node req) of
        None \<Rightarrow> Inl ErrNotDecommissionable
      | Some n \<Rightarrow>
          if 0 < u_leases (UsageOnNode (leases d) (dr_node req)) then Inl ErrNotDecommissionable
          else if n_live n \<and> \<not> dr_force req then Inl ErrNotDecommissionable
          else let proven = provedTx d (dr_node req)
               in if \<not> proven \<and> \<not> dr_force req then Inl ErrNotDecommissionable
                  else let d1 = DecommissionNode now proven (dr_actor req) (dr_node req) d;
                           d2 = (if proven then ClearPoolReleaseContradiction (dr_node req) d1 else d1)
                       in Inr (proven, DeleteBarrierRun (dr_node req) d2))"

end
