(* ===== verification/Barrier_Facts.thy ===== *)
theory Barrier_Facts
  imports Barrier
begin

text \<open>
  The fleet's history as a state machine, and what its proof of idleness is worth. A log of
  effective events is kept beside the ledger, newest first; the invariant ties every stored
  run that is still fenced to the empty answers of the log it stands for, with nothing in
  between that could have started compute.
\<close>

section \<open>Events\<close>

datatype fleetEvent =
    Observed int BarrierObservation
  | Dispatched string
  | Registered string
  | AdmissionMoved
  | Other

definition generationOf :: "Ledger \<Rightarrow> int" where
  "generationOf d = sl_generation (seal d)"

text \<open>
  A step with the event it logs. A request for a barrier names a generation its caller has
  read, so never one the ledger has not reached. Every operation on leases, on credentials
  and on pool orders, and every read, is an instance of the last rule: it leaves the fences,
  the barrier and the seal alone, and of the stored runs it may only delete some.
\<close>

inductive fleetStep :: "fleetEvent \<Rightarrow> Ledger \<Rightarrow> Ledger \<Rightarrow> bool" where
  observe: "fleetStep (Observed now obs) d (RecordBarrierObservation now obs d)"
| dispatch: "findNode d node = Some n \<Longrightarrow> fleetStep (Dispatched node) d (snd (BumpDispatch node d))"
| register: "RegisterNode now reg d = Inr (e, d') \<Longrightarrow> fleetStep (Registered (g_name reg)) d d'"
| sealed: "SealAdmission now sreq d = Inr (am, d') \<Longrightarrow> d' \<noteq> d \<Longrightarrow> fleetStep AdmissionMoved d d'"
| resumed: "ResumeAdmission now rreq d = Inr (am, d') \<Longrightarrow> d' \<noteq> d \<Longrightarrow> fleetStep AdmissionMoved d d'"
| request: "RequestComputeBarrier now generation actor newID d = Inr (b, d') \<Longrightarrow> generation \<le> generationOf d \<Longrightarrow>
    fleetStep Other d d'"
| drop: "fleetStep Other d (DropComputeBarrier i d)"
| arrive: "fleetStep Other d (InvalidateBarrierRun node d)"
| arriveUnknown: "fleetStep Other d (InvalidateEveryBarrierRun d)"
| inventory: "ResolveQuarantineFor now node running epoch d = Inr (k, d') \<Longrightarrow> fleetStep Other d d'"
| gone: "NodeGone now node epoch d = Inr d' \<Longrightarrow> fleetStep Other d d'"
| withdraw: "NodeWithdrawn node epoch inc d = Inr d' \<Longrightarrow> fleetStep Other d d'"
| draining: "NodeDraining node epoch inc d = Inr d' \<Longrightarrow> fleetStep Other d d'"
| forget: "fleetStep Other d (ForgetEveryNode d)"
| decommission: "Decommission now dreq d = Inr (proven, d') \<Longrightarrow> fleetStep Other d d'"
| work: "evidenceKept d d' \<Longrightarrow> fleetStep Other d d'"

inductive_cases observeE: "fleetStep (Observed now obs) d d'"
inductive_cases dispatchE: "fleetStep (Dispatched node) d d'"
inductive_cases registerE: "fleetStep (Registered node) d d'"
inductive_cases admissionE: "fleetStep AdmissionMoved d d'"
inductive_cases otherE: "fleetStep Other d d'"

inductive fleetRun :: "fleetEvent list \<Rightarrow> Ledger \<Rightarrow> bool" where
  start: "barrier d = None \<Longrightarrow> barrierRuns d = [] \<Longrightarrow> fleetRun [] d"
| step: "fleetRun es d \<Longrightarrow> fleetStep e d d' \<Longrightarrow> fleetRun (e # es) d'"

section \<open>Fences only move forward\<close>

definition fenceOf :: "Ledger \<Rightarrow> string \<Rightarrow> (int \<times> int) option" where
  "fenceOf d node = map_option (\<lambda>n. (n_epoch n, n_dispatch n)) (findNode d node)"

lemma fenceOf_nodes: "nodes d' = nodes d \<Longrightarrow> fenceOf d' node = fenceOf d node"
  by (simp add: fenceOf_def findNode_def)

lemma fenceOf_updNode:
  assumes "\<And>n. P n \<Longrightarrow> n_name (f n) = n_name n \<and> n_epoch (f n) = n_epoch n \<and> n_dispatch (f n) = n_dispatch n"
  shows "fenceOf (updNode P f d) node = fenceOf d node"
  using assms by (simp add: fenceOf_def updNode_find option.map_comp comp_def) (auto intro!: option.map_cong)

lemma fenceOf_sameFences:
  assumes "sameFences (nodes d) (nodes d')"
  shows "fenceOf d' node = fenceOf d node"
proof -
  have "sameFences xs ys \<Longrightarrow> map_option (\<lambda>n. (n_epoch n, n_dispatch n)) (find (\<lambda>n. n_name n = node) ys) =
      map_option (\<lambda>n. (n_epoch n, n_dispatch n)) (find (\<lambda>n. n_name n = node) xs)" for xs ys
    unfolding sameFences_def by (induction rule: list_all2_induct) auto
  then show ?thesis using assms by (simp add: fenceOf_def findNode_def)
qed

lemma fenceOf_fences:
  assumes "fences d' = fences d"
  shows "fenceOf d' node = fenceOf d node"
proof -
  have "map (\<lambda>n. (n_name n, n_epoch n, n_dispatch n)) ys = map (\<lambda>n. (n_name n, n_epoch n, n_dispatch n)) xs \<Longrightarrow>
      map_option (\<lambda>n. (n_epoch n, n_dispatch n)) (find (\<lambda>n. n_name n = node) ys) =
      map_option (\<lambda>n. (n_epoch n, n_dispatch n)) (find (\<lambda>n. n_name n = node) xs)" for xs ys
  proof (induction xs arbitrary: ys)
    case (Cons x xs)
    then show ?case by (cases ys) auto
  qed simp
  then show ?thesis using assms by (simp add: fenceOf_def findNode_def fences_def)
qed

text \<open>
  What one step may do: stored runs only vanish or are extended by an accepted empty
  answer, the barrier changes only with all runs gone, fences and the generation never go
  back, and a step that could have let compute start moves a fence.
\<close>

definition answers :: "BarrierRow \<Rightarrow> BarrierObservation \<Rightarrow> bool" where
  "answers r obs \<longleftrightarrow> bo_node obs = br_node r \<and> bo_barrierID obs = br_barrierID r \<and> bo_epoch obs = br_epoch r
     \<and> bo_dispatch obs = br_dispatch r \<and> bo_empty obs"

definition extends :: "BarrierRow \<Rightarrow> int \<Rightarrow> BarrierObservation \<Rightarrow> BarrierRow list \<Rightarrow> bool" where
  "extends r now obs rows \<longleftrightarrow> answers r obs \<and> br_observedAt r = now
     \<and> (br_emptySince r = now
        \<or> (\<exists>r0 \<in> set rows. br_node r0 = br_node r \<and> sameRun r0 r \<and> br_emptySince r0 = br_emptySince r))"

text \<open>What ends a run: work dispatched, a new process, admission moved, an answer that is not empty.\<close>

fun disturbs :: "BarrierRow \<Rightarrow> fleetEvent \<Rightarrow> bool" where
  "disturbs r (Dispatched node) = (node = br_node r)"
| "disturbs r (Registered node) = (node = br_node r)"
| "disturbs r AdmissionMoved = True"
| "disturbs r (Observed now obs) = (bo_node obs = br_node r \<and> bo_barrierID obs = br_barrierID r \<and> \<not> bo_empty obs)"
| "disturbs r Other = False"

definition inForce :: "Ledger \<Rightarrow> BarrierRow \<Rightarrow> bool" where
  "inForce d r \<longleftrightarrow> (\<exists>b. barrier d = Some b \<and> br_barrierID r = cb_id b \<and> cb_generation b = generationOf d)
     \<and> fenceOf d (br_node r) = Some (br_epoch r, br_dispatch r)"

definition runsKnown :: "Ledger \<Rightarrow> bool" where
  "runsKnown d \<longleftrightarrow> (\<forall>r \<in> set (barrierRuns d). \<exists>e g. fenceOf d (br_node r) = Some (e, g)
       \<and> br_epoch r \<le> e \<and> br_dispatch r \<le> g)
     \<and> (\<forall>b. barrier d = Some b \<longrightarrow> cb_generation b \<le> generationOf d)"

definition stepFacts :: "fleetEvent \<Rightarrow> Ledger \<Rightarrow> Ledger \<Rightarrow> bool" where
  "stepFacts e d d' \<longleftrightarrow>
     (\<forall>r \<in> set (barrierRuns d'). r \<in> set (barrierRuns d)
        \<or> (\<exists>now obs. e = Observed now obs \<and> extends r now obs (barrierRuns d)
             \<and> fenceOf d' (br_node r) = Some (br_epoch r, br_dispatch r)))
     \<and> (barrier d' = barrier d \<or> barrierRuns d' = [])
     \<and> (\<forall>node x y. fenceOf d node = Some (x, y) \<longrightarrow> (\<exists>x' y'. fenceOf d' node = Some (x', y') \<and> x \<le> x' \<and> y \<le> y'))
     \<and> generationOf d \<le> generationOf d'
     \<and> (\<forall>b. barrier d' = Some b \<longrightarrow> barrier d = Some b \<or> cb_generation b \<le> generationOf d)
     \<and> (\<forall>r \<in> set (barrierRuns d). r \<in> set (barrierRuns d') \<longrightarrow> runsKnown d \<longrightarrow> disturbs r e \<longrightarrow> \<not> inForce d' r)"

lemma stepFactsD:
  assumes "stepFacts e d d'"
  shows "fenceOf d node = Some (x, y) \<Longrightarrow> \<exists>x' y'. fenceOf d' node = Some (x', y') \<and> x \<le> x' \<and> y \<le> y'"
    and "generationOf d \<le> generationOf d'"
    and "barrier d' = Some b \<Longrightarrow> barrier d = Some b \<or> cb_generation b \<le> generationOf d"
    and "barrier d' = barrier d \<or> barrierRuns d' = []"
  using assms unfolding stepFacts_def by simp_all

lemma stepFacts_quiet:
  assumes "set (barrierRuns d') \<subseteq> set (barrierRuns d)" and "barrier d' = barrier d \<or> barrierRuns d' = []"
    and "\<And>node. fenceOf d' node = fenceOf d node" and "seal d' = seal d"
    and "\<And>b. barrier d' = Some b \<Longrightarrow> barrier d = Some b \<or> cb_generation b \<le> generationOf d"
  shows "stepFacts Other d d'"
  using assms by (auto simp: stepFacts_def generationOf_def)

lemma computeListedNowTx_facts:
  "barrier (computeListedNowTx node e d) = barrier d" "seal (computeListedNowTx node e d) = seal d"
  "fenceOf (computeListedNowTx node e d) x = fenceOf d x"
  "set (barrierRuns (computeListedNowTx node e d)) \<subseteq> set (barrierRuns d)"
proof -
  have "fenceOf (computeListedTx node d) x = fenceOf d x" by (rule fenceOf_sameFences [OF computeListedTx_fences])
  moreover have "set (barrierRuns (computeListedTx node d)) \<subseteq> set (barrierRuns d)"
    by (auto simp: computeListedTx_def ContradictPoolRelease_def UndoPoolRetirement_def DeleteBarrierRun_def Let_def)
  ultimately show "barrier (computeListedNowTx node e d) = barrier d" "seal (computeListedNowTx node e d) = seal d"
    "fenceOf (computeListedNowTx node e d) x = fenceOf d x"
    "set (barrierRuns (computeListedNowTx node e d)) \<subseteq> set (barrierRuns d)"
    by (auto simp: computeListedNowTx_def split: option.split)
qed

lemma fenceOf_same_row: "fenceOf d node = Some (x, y) \<longleftrightarrow> (\<exists>n. findNode d node = Some n \<and> n_epoch n = x \<and> n_dispatch n = y)"
  by (auto simp: fenceOf_def)

lemma RecordBarrierRun_row:
  assumes "r \<in> set (barrierRuns (RecordBarrierRun node b e g now d))"
  shows "r \<in> set (barrierRuns d) \<and> br_node r \<noteq> node
    \<or> br_node r = node \<and> br_barrierID r = b \<and> br_epoch r = e \<and> br_dispatch r = g \<and> br_observedAt r = now
      \<and> (br_emptySince r = now \<or> (\<exists>r0 \<in> set (barrierRuns d). br_node r0 = node \<and> sameRun r0 r \<and> br_emptySince r0 = br_emptySince r))"
proof (cases "node \<in> br_node ` set (barrierRuns d)")
  case True
  then show ?thesis
    using assms by (auto simp: RecordBarrierRun_def Let_def upsertBy_def set_upd_where sameRun_def split: if_splits)
next
  case False
  then show ?thesis using assms by (auto simp: RecordBarrierRun_def Let_def upsertBy_def)
qed

lemma observedUnder_cases:
  obtains (ignored) "observedUnder now obs d = d"
      "\<And>b. barrier d = Some b \<Longrightarrow> cb_id b = bo_barrierID obs \<Longrightarrow> fenceOf d (bo_node obs) = None"
    | (ended) "observedUnder now obs d = DeleteBarrierRun (bo_node obs) d"
    | (recorded) "bo_empty obs" "fenceOf d (bo_node obs) = Some (bo_epoch obs, bo_dispatch obs)"
        "observedUnder now obs d = RecordBarrierRun (bo_node obs) (bo_barrierID obs) (bo_epoch obs) (bo_dispatch obs) now d"
proof (cases "\<exists>b n. barrier d = Some b \<and> cb_id b = bo_barrierID obs \<and> findNode d (bo_node obs) = Some n")
  case True
  then obtain b n where n: "barrier d = Some b" "cb_id b = bo_barrierID obs" "findNode d (bo_node obs) = Some n" by blast
  show ?thesis
  proof (cases "n_epoch n = bo_epoch obs \<and> n_dispatch n = bo_dispatch obs \<and> bo_empty obs")
    case True
    then show ?thesis using recorded n by (simp add: observedUnder_def fenceOf_def)
  next
    case False
    then have "observedUnder now obs d = DeleteBarrierRun (bo_node obs) d" using n by (auto simp: observedUnder_def)
    then show ?thesis by (rule ended)
  qed
next
  case False
  then have "observedUnder now obs d = d" by (auto simp: observedUnder_def split: option.split)
  then show ?thesis using ignored False by (auto simp: fenceOf_def)
qed

lemma observe_facts: "stepFacts (Observed now obs) d (RecordBarrierObservation now obs d)"
proof -
  define d1 where "d1 = (if bo_running obs then computeListedNowTx (bo_node obs) (bo_epoch obs) d else d)"
  define d' where "d' = observedUnder now obs d1"
  have one: "barrier d1 = barrier d" "seal d1 = seal d" "fenceOf d1 x = fenceOf d x"
    "set (barrierRuns d1) \<subseteq> set (barrierRuns d)" for x
    using computeListedNowTx_facts by (auto simp: d1_def)
  have "stepFacts (Observed now obs) d d'"
  proof (cases rule: observedUnder_cases [where now = now and obs = obs and d = d1])
    case ignored
    have "\<not> inForce d1 r" if "r \<in> set (barrierRuns d)" "runsKnown d" "disturbs r (Observed now obs)" for r
      using that ignored(2) one(1,3) by (auto simp: inForce_def runsKnown_def)
    then show ?thesis using one unfolding stepFacts_def d'_def ignored(1) by (auto simp: generationOf_def)
  next
    case ended
    have d': "d' = DeleteBarrierRun (bo_node obs) d1" by (simp add: d'_def ended)
    have "\<not> disturbs r (Observed now obs)" if "r \<in> set (barrierRuns d')" for r
      using that by (auto simp: d' DeleteBarrierRun_def)
    moreover have "set (barrierRuns d') \<subseteq> set (barrierRuns d)" using one(4) by (auto simp: d' DeleteBarrierRun_def)
    moreover have "barrier d' = barrier d" "seal d' = seal d" "fenceOf d' x = fenceOf d x" for x
      using one fenceOf_nodes [of d' d1 x] by (simp_all add: d')
    ultimately show ?thesis unfolding stepFacts_def by (auto simp: generationOf_def)
  next
    case recorded
    note d' = recorded(3) [folded d'_def]
    have same: "barrier d' = barrier d" "seal d' = seal d" "fenceOf d' x = fenceOf d x" for x
      using one fenceOf_nodes [of d' d1 x] by (simp_all add: d' RecordBarrierRun_def Let_def)
    have "r \<in> set (barrierRuns d) \<or> extends r now obs (barrierRuns d)
        \<and> fenceOf d' (br_node r) = Some (br_epoch r, br_dispatch r)" if "r \<in> set (barrierRuns d')" for r
      using RecordBarrierRun_row [OF that [unfolded d']] one(4) recorded(1,2) same(3) one(3)
      by (auto simp: extends_def answers_def)
    moreover have "\<not> disturbs r (Observed now obs)" for r using recorded(1) by simp
    ultimately show ?thesis using same unfolding stepFacts_def by (auto simp: generationOf_def)
  qed
  then show ?thesis by (simp add: d'_def d1_def RecordBarrierObservation_def)
qed

section \<open>The other steps\<close>

lemma dispatch_facts:
  assumes "findNode d node = Some n"
  shows "stepFacts (Dispatched node) d (snd (BumpDispatch node d))"
proof -
  let ?d' = "updNode (\<lambda>m. n_name m = node) (\<lambda>m. m\<lparr>n_dispatch := n_dispatch m + 1\<rparr>) d"
  have f: "fenceOf ?d' x = map_option (\<lambda>(a, b). (a, if x = node then b + 1 else b)) (fenceOf d x)" for x
    using findNode_Some [of d x] by (cases "findNode d x") (auto simp: fenceOf_def updNode_find)
  have "\<not> inForce ?d' r" if k: "r \<in> set (barrierRuns d)" "runsKnown d" "br_node r = node" for r
  proof -
    obtain a b where "fenceOf d node = Some (a, b)" "br_dispatch r \<le> b"
      using k by (auto simp: runsKnown_def)
    then show ?thesis using f [of node] k(3) by (auto simp: inForce_def)
  qed
  then show ?thesis
    using f assms by (auto simp: stepFacts_def BumpDispatch_def generationOf_def)
qed

lemma register_facts:
  assumes "RegisterNode now reg d = Inr (e, d')"
  shows "stepFacts (Registered (g_name reg)) d d'"
proof -
  note r = RegisterNode_row [OF assms]
  have same: "barrier d' = barrier d" "barrierRuns d' = barrierRuns d" "seal d' = seal d"
    using assms by (auto simp: RegisterNode_def UpsertNodeRegistration_def split: if_splits sum.splits option.splits)
  have f: "fenceOf d' x = fenceOf d x" if "x \<noteq> g_name reg" for x using r(4) [OF that] by (simp add: fenceOf_def)
  have g: "fenceOf d' (g_name reg) = Some (a + 1, b)" if "fenceOf d (g_name reg) = Some (a, b)" for a b
    using that r(1,2) by (auto simp: fenceOf_def)
  have "\<not> inForce d' x" if k: "x \<in> set (barrierRuns d)" "runsKnown d" "br_node x = g_name reg" for x
  proof -
    obtain a b where "fenceOf d (g_name reg) = Some (a, b)" "br_epoch x \<le> a"
      using k by (auto simp: runsKnown_def)
    then show ?thesis using g k(3) by (auto simp: inForce_def)
  qed
  moreover have "\<exists>x' y'. fenceOf d' node = Some (x', y') \<and> x \<le> x' \<and> y \<le> y'" if "fenceOf d node = Some (x, y)" for node x y
    using that f [of node] g by (cases "node = g_name reg") auto
  ultimately show ?thesis using same by (auto simp: stepFacts_def generationOf_def)
qed

lemma admission_facts:
  assumes "admissionTransition now t d = Inr (am, d')" and "d' \<noteq> d"
  shows "stepFacts AdmissionMoved d d'"
proof -
  note r = admissionTransition_result [OF assms(1)]
  have g: "generationOf d' = generationOf d + 1"
    using r(1,2) assms(2) by (auto simp: generationOf_def ReadAdmission_def)
  then have "\<not> inForce d' x" if "runsKnown d" for x
    using that r(5) by (auto simp: inForce_def runsKnown_def)
  then show ?thesis using g r(5,6) fenceOf_nodes [OF r(4)] by (auto simp: stepFacts_def)
qed

lemma request_facts:
  assumes "RequestComputeBarrier now g actor newID d = Inr (b, d')" and "g \<le> generationOf d"
  shows "stepFacts Other d d'"
proof -
  have "d' = d \<or> d' = (DeleteEveryBarrierRun d)\<lparr>barrier := Some b\<rparr> \<and> cb_generation b = g"
    using assms(1) by (auto simp: RequestComputeBarrier_def Let_def split: option.splits if_splits)
  then show ?thesis
    using assms(2) by (intro stepFacts_quiet) (auto simp: DeleteEveryBarrierRun_def fenceOf_def findNode_def)
qed

lemma inventory_facts:
  assumes "ResolveQuarantineFor now node running epoch d = Inr (k, d')"
  shows "stepFacts Other d d'"
proof -
  have each: "resolveEach now running ids d = Inr (k, d') \<Longrightarrow> nodes d' = nodes d \<and> barrier d' = barrier d
      \<and> barrierRuns d' = barrierRuns d \<and> seal d' = seal d" for ids d k
  proof (induction ids arbitrary: d k)
    case (Cons i ids)
    have one: "nodes d1 = nodes d \<and> barrier d1 = barrier d \<and> barrierRuns d1 = barrierRuns d \<and> seal d1 = seal d"
      if "resolveAbsent now i d = Inr d1" for d1
    proof -
      have app: "nodes (applyDisruptionTx js tok now d) = nodes d \<and> barrier (applyDisruptionTx js tok now d) = barrier d
          \<and> barrierRuns (applyDisruptionTx js tok now d) = barrierRuns d \<and> seal (applyDisruptionTx js tok now d) = seal d"
        for js tok d by (induction js arbitrary: d) simp_all
      show ?thesis
        by (rule resolveAbsent_form [OF that])
           (auto simp: TerminalizeQuarantinedLease_def TerminalizeQuarantinedLeaseWithReason_def archive_def Let_def app)
    qed
    show ?case using Cons one by (auto split: if_splits sum.splits prod.splits)
  qed simp
  let ?d1 = "recordInventoryTx node epoch (int (length running)) now d"
  have "d' = d \<or> nodes d' = nodes ?d1 \<and> barrier d' = barrier ?d1 \<and> barrierRuns d' = barrierRuns ?d1 \<and> seal d' = seal ?d1"
    using assms each by (auto simp: ResolveQuarantineFor_def Let_def split: option.splits if_splits)
  moreover have "set (barrierRuns ?d1) \<subseteq> set (barrierRuns d)"
    by (auto simp: recordInventoryTx_def UpsertNodeInventory_def computeListedTx_def ContradictPoolRelease_def
        UndoPoolRetirement_def DeleteBarrierRun_def Let_def)
  moreover have "fenceOf ?d1 x = fenceOf d x" for x by (rule fenceOf_sameFences [OF recordInventoryTx_fences])
  ultimately show ?thesis using fenceOf_nodes [of d' ?d1] by (intro stepFacts_quiet) auto
qed

lemma gone_facts:
  assumes "NodeGone now node epoch d = Inr d'"
  shows "stepFacts Other d d'"
proof -
  have app: "nodes (applyDisruptionTx js tok now d) = nodes d \<and> barrier (applyDisruptionTx js tok now d) = barrier d
      \<and> barrierRuns (applyDisruptionTx js tok now d) = barrierRuns d \<and> seal (applyDisruptionTx js tok now d) = seal d"
    for js tok d by (induction js arbitrary: d) simp_all
  let ?d1 = "updNode (\<lambda>m. n_name m = node \<and> n_epoch m = epoch) (\<lambda>m. m\<lparr>n_live := False\<rparr>) d"
  have "d' = d \<or> nodes d' = nodes ?d1 \<and> barrier d' = barrier d \<and> barrierRuns d' = barrierRuns d \<and> seal d' = seal d"
    using assms app by (auto simp: NodeGone_def markNodeDisruptedTx_def disruptableTx_def split: option.splits if_splits)
  moreover have "fenceOf ?d1 x = fenceOf d x" for x by (rule fenceOf_updNode) simp
  ultimately show ?thesis using fenceOf_nodes [of d' ?d1] by (intro stepFacts_quiet) auto
qed

lemma decommission_facts:
  assumes "Decommission now req d = Inr (proven, d')"
  shows "stepFacts Other d d'"
proof -
  let ?d1 = "DecommissionNode now proven (dr_actor req) (dr_node req) d"
  have "d' = DeleteBarrierRun (dr_node req) ?d1 \<or> d' = DeleteBarrierRun (dr_node req) (ClearPoolReleaseContradiction (dr_node req) ?d1)"
    using assms by (auto simp: Decommission_def Let_def split: option.splits if_splits)
  moreover have "fenceOf ?d1 x = fenceOf d x" for x unfolding DecommissionNode_def by (rule fenceOf_updNode) simp
  moreover have "barrier ?d1 = barrier d" "barrierRuns ?d1 = barrierRuns d" "seal ?d1 = seal d"
    by (simp_all add: DecommissionNode_def)
  ultimately show ?thesis
    using fenceOf_nodes [of d' ?d1]
    by (intro stepFacts_quiet) (auto simp: DeleteBarrierRun_def ClearPoolReleaseContradiction_def)
qed

lemma fleetStep_facts: "fleetStep e d d' \<Longrightarrow> stepFacts e d d'"
proof (induction rule: fleetStep.induct)
  case (observe now obs d) show ?case by (rule observe_facts)
next
  case (dispatch d node n) then show ?case by (rule dispatch_facts)
next
  case (register now reg d e d') then show ?case by (rule register_facts)
next
  case (sealed now sreq d am d') then show ?case by (auto simp: SealAdmission_def split: if_splits intro: admission_facts)
next
  case (resumed now rreq d am d') then show ?case by (auto simp: ResumeAdmission_def intro: admission_facts)
next
  case (request now generation actor newID d b d') then show ?case by (rule request_facts)
next
  case (drop d i)
  show ?case by (rule stepFacts_quiet)
    (auto simp: DropComputeBarrier_def DeleteEveryBarrierRun_def fenceOf_def findNode_def split: option.splits if_splits)
next
  case (arrive d node)
  show ?case by (rule stepFacts_quiet)
    (auto simp: InvalidateBarrierRun_def ContradictWaitingPoolRelease_def DeleteBarrierRun_def fenceOf_def findNode_def
      split: if_splits)
next
  case (arriveUnknown d)
  show ?case by (rule stepFacts_quiet)
    (auto simp: InvalidateEveryBarrierRun_def DeleteEveryBarrierRun_def fenceOf_def findNode_def split: if_splits)
next
  case (inventory now node running epoch d k d') then show ?case by (rule inventory_facts)
next
  case (gone now node epoch d d') then show ?case by (rule gone_facts)
next
  case (withdraw node epoch inc d d')
  then show ?case
    by (intro stepFacts_quiet) (auto simp: NodeWithdrawn_def fenceOf_updNode split: if_splits)
next
  case (draining node epoch inc d d')
  then show ?case
    by (intro stepFacts_quiet) (auto simp: NodeDraining_def fenceOf_updNode split: if_splits)
next
  case (forget d)
  have "fenceOf (ForgetEveryNode d) x = fenceOf (updNode (\<lambda>_. True) (\<lambda>n. n\<lparr>n_live := False\<rparr>) d) x" for x
    by (simp add: ForgetEveryNode_def fenceOf_def findNode_def)
  then show ?case by (intro stepFacts_quiet) (auto simp: ForgetEveryNode_def fenceOf_updNode)
next
  case (decommission now dreq d proven d') then show ?case by (rule decommission_facts)
next
  case (work d d')
  then have kept: "fences d' = fences d" "barrier d' = barrier d" "seal d' = seal d"
    "set (barrierRuns d') \<subseteq> set (barrierRuns d)" by (simp_all add: evidenceKept_def)
  show ?case by (rule stepFacts_quiet) (simp_all add: kept fenceOf_fences [OF kept(1)])
qed

section \<open>The invariant\<close>

text \<open>
  The evidence for a run: the log has an empty answer of the host at the run's beginning,
  nothing since has disturbed the host, and the last empty answer is the one the run was
  last observed at.
\<close>

definition evidence :: "fleetEvent list \<Rightarrow> BarrierRow \<Rightarrow> bool" where
  "evidence es r \<longleftrightarrow> (\<exists>since before first.
     es = since @ Observed (br_emptySince r) first # before \<and> answers r first
     \<and> (\<forall>e \<in> set since. \<not> disturbs r e)
     \<and> (\<exists>last. answers r last \<and> Observed (br_observedAt r) last \<in> set (Observed (br_emptySince r) first # since)))"

lemma evidence_more:
  assumes "evidence es r" and "\<not> disturbs r e"
  shows "evidence (e # es) r"
proof -
  obtain since before first last where
    "es = since @ Observed (br_emptySince r) first # before" "answers r first" "\<forall>e \<in> set since. \<not> disturbs r e"
    "answers r last" "Observed (br_observedAt r) last \<in> set (Observed (br_emptySince r) first # since)"
    using assms(1) unfolding evidence_def by blast
  then show ?thesis
    using assms(2) unfolding evidence_def
    by (intro exI [of _ "e # since"] exI [of _ before] exI [of _ first] conjI exI [of _ last]) auto
qed

lemma evidence_first:
  assumes "answers r obs" and "br_emptySince r = now" and "br_observedAt r = now"
  shows "evidence (Observed now obs # es) r"
  using assms unfolding evidence_def by (intro exI [of _ "[]"] exI [of _ es] exI [of _ obs]) auto

lemma evidence_extend:
  assumes "evidence es r0" and "br_node r0 = br_node r" and "sameRun r0 r" and "br_emptySince r0 = br_emptySince r"
    and "answers r obs" and "br_observedAt r = now"
  shows "evidence (Observed now obs # es) r"
proof -
  have same: "answers r0 x = answers r x" "disturbs r0 e = disturbs r e" for x e
    using assms(2,3) by (auto simp: answers_def sameRun_def) (cases e; auto)+
  obtain since before first where e: "es = since @ Observed (br_emptySince r) first # before" "answers r first"
    "\<forall>e \<in> set since. \<not> disturbs r e"
    using assms(1,4) unfolding evidence_def same by metis
  have "\<not> disturbs r (Observed now obs)" using assms(5) by (simp add: answers_def)
  then show ?thesis
    using e assms(5,6) unfolding evidence_def
    by (intro exI [of _ "Observed now obs # since"] exI [of _ before] exI [of _ first]) auto
qed

definition fleetInv :: "fleetEvent list \<Rightarrow> Ledger \<Rightarrow> bool" where
  "fleetInv es d \<longleftrightarrow> runsKnown d \<and> (\<forall>r \<in> set (barrierRuns d). inForce d r \<longrightarrow> evidence es r)"

lemma inForce_before:
  assumes "stepFacts e d d'" and "runsKnown d" and "r \<in> set (barrierRuns d)" and "barrierRuns d' \<noteq> []" and "inForce d' r"
  shows "inForce d r"
proof -
  obtain b where b: "barrier d' = Some b" "br_barrierID r = cb_id b" "cb_generation b = generationOf d'"
    using assms(5) by (auto simp: inForce_def)
  have same: "barrier d = Some b" using stepFactsD(4) [OF assms(1)] assms(4) b(1) by simp
  then have "cb_generation b \<le> generationOf d" using assms(2) by (auto simp: runsKnown_def)
  moreover have "generationOf d \<le> generationOf d'" by (rule stepFactsD(2) [OF assms(1)])
  ultimately have g: "cb_generation b = generationOf d" using b(3) by linarith
  obtain x y where f: "fenceOf d (br_node r) = Some (x, y)" "br_epoch r \<le> x" "br_dispatch r \<le> y"
    using assms(2,3) by (auto simp: runsKnown_def)
  then obtain x' y' where "fenceOf d' (br_node r) = Some (x', y')" "x \<le> x'" "y \<le> y'"
    using stepFactsD(1) [OF assms(1) f(1)] by blast
  then have "x = br_epoch r" "y = br_dispatch r" using f assms(5) by (auto simp: inForce_def)
  then show ?thesis using f(1) same b(2) g by (simp add: inForce_def)
qed

lemma fleetInv_step:
  assumes "fleetInv es d" and "stepFacts e d d'"
  shows "fleetInv (e # es) d'"
proof -
  have known: "runsKnown d" and ev: "r \<in> set (barrierRuns d) \<Longrightarrow> inForce d r \<Longrightarrow> evidence es r" for r
    using assms(1) by (auto simp: fleetInv_def)
  have rows: "r \<in> set (barrierRuns d) \<or> (\<exists>now obs. e = Observed now obs \<and> extends r now obs (barrierRuns d)
      \<and> fenceOf d' (br_node r) = Some (br_epoch r, br_dispatch r))" if "r \<in> set (barrierRuns d')" for r
    using assms(2) that by (auto simp: stepFacts_def)
  have "runsKnown d'"
  proof -
    have "\<exists>a b. fenceOf d' (br_node r) = Some (a, b) \<and> br_epoch r \<le> a \<and> br_dispatch r \<le> b"
      if r: "r \<in> set (barrierRuns d')" for r
    proof (cases "r \<in> set (barrierRuns d)")
      case True
      then obtain a b where "fenceOf d (br_node r) = Some (a, b)" "br_epoch r \<le> a" "br_dispatch r \<le> b"
        using known by (auto simp: runsKnown_def)
      then show ?thesis using stepFactsD(1) [OF assms(2), of "br_node r" a b] by fastforce
    qed (use rows [OF r] in auto)
    moreover have "cb_generation b \<le> generationOf d'" if "barrier d' = Some b" for b
    proof -
      have "cb_generation b \<le> generationOf d" using stepFactsD(3) [OF assms(2) that] known by (auto simp: runsKnown_def)
      then show ?thesis using stepFactsD(2) [OF assms(2)] by linarith
    qed
    ultimately show ?thesis by (simp add: runsKnown_def)
  qed
  moreover have "evidence (e # es) r" if r: "r \<in> set (barrierRuns d')" "inForce d' r" for r
    using rows [OF r(1)]
  proof
    assume old: "r \<in> set (barrierRuns d)"
    have ne: "barrierRuns d' \<noteq> []" using r(1) by auto
    have "inForce d r" by (rule inForce_before [OF assms(2) known old ne r(2)])
    moreover have "\<not> disturbs r e" using assms(2) old r known by (auto simp: stepFacts_def)
    ultimately show ?thesis using ev [OF old] evidence_more by blast
  next
    assume "\<exists>now obs. e = Observed now obs \<and> extends r now obs (barrierRuns d)
      \<and> fenceOf d' (br_node r) = Some (br_epoch r, br_dispatch r)"
    then obtain now obs where o: "e = Observed now obs" "answers r obs" "br_observedAt r = now"
      "br_emptySince r = now \<or> (\<exists>r0 \<in> set (barrierRuns d). br_node r0 = br_node r \<and> sameRun r0 r \<and> br_emptySince r0 = br_emptySince r)"
      by (auto simp: extends_def)
    from o(4) show ?thesis
    proof
      assume "br_emptySince r = now"
      then show ?thesis unfolding o(1) using evidence_first o(2,3) by blast
    next
      assume "\<exists>r0 \<in> set (barrierRuns d). br_node r0 = br_node r \<and> sameRun r0 r \<and> br_emptySince r0 = br_emptySince r"
      then obtain r0 where r0: "r0 \<in> set (barrierRuns d)" "br_node r0 = br_node r" "sameRun r0 r" "br_emptySince r0 = br_emptySince r"
        by blast
      have "inForce d' r0" using r(2) r0(2,3) by (simp add: inForce_def sameRun_def)
      moreover have "barrierRuns d' \<noteq> []" using r(1) by auto
      ultimately have "inForce d r0" using inForce_before [OF assms(2) known r0(1)] by blast
      then show ?thesis unfolding o(1) using evidence_extend [OF ev [OF r0(1)] r0(2-4) o(2,3)] by blast
    qed
  qed
  ultimately show ?thesis by (simp add: fleetInv_def)
qed

lemma fleetRun_inv: "fleetRun es d \<Longrightarrow> fleetInv es d"
proof (induction rule: fleetRun.induct)
  case (start d)
  then show ?case by (simp add: fleetInv_def runsKnown_def)
next
  case (step es d e d')
  then show ?case using fleetInv_step fleetStep_facts by blast
qed

section \<open>Properties\<close>

lemma find_filter: "find P (filter Q xs) = find (\<lambda>x. Q x \<and> P x) xs"
  by (induction xs) auto

lemma find_member: "find P xs = Some x \<Longrightarrow> x \<in> set xs \<and> P x"
  by (auto simp: find_Some_iff)

lemma clearanceOf_proved:
  "nc_state (clearanceOf n run q) = ClearanceProved \<longleftrightarrow> q \<and> provenBy run (n_epoch n) (n_dispatch n)"
  by (auto simp: clearanceOf_def Let_def provenBy_def)

lemma clearanceOf_node [simp]: "nc_node (clearanceOf n run q) = n_name n"
  by (simp add: clearanceOf_def Let_def)

lemma provenBy_row:
  assumes "provenBy (barrierRunsTx d (barrier d) node) e g"
  obtains b r where "barrier d = Some b" "r \<in> set (barrierRuns d)" "br_node r = node" "br_barrierID r = cb_id b"
    "br_epoch r = e" "br_dispatch r = g" "br_emptySince r + computeAbsenceGrace \<le> br_observedAt r"
    "\<not> HostReportsCompute d node"
  using assms find_member
  by (fastforce simp: provenBy_def fencedBy_def proved_def clearAt_def barrierRunsTx_def split: option.splits)

text \<open>
  C3. When the fleet is reported clear, every host still a member was really seen to be
  idle. In whatever order hosts answered, launches were dispatched, nodes registered,
  withdrew or were decommissioned, and admission was sealed and resumed: if the report says
  clear, then admission is sealed at the barrier's own generation, and for each member the
  history has two empty answers under this barrier and this registration, at least the
  grace apart, and since the first of them no launch was dispatched to the host, it did not
  register again, admission did not move, and it gave no answer that was not empty.
\<close>

theorem clear_fleet_was_idle:
  assumes "fleetRun es d" and "Clear (ComputeClear d)" and "findNode d name = Some n"
    and "n_decommissionedAt n = None"
  shows "\<exists>b t1 t2 first last since before. barrier d = Some b
    \<and> admission d \<noteq> AdmissionOpen \<and> cb_generation b = generationOf d
    \<and> es = since @ Observed t1 first # before \<and> Observed t2 last \<in> set (Observed t1 first # since)
    \<and> t1 + computeAbsenceGrace \<le> t2
    \<and> (\<forall>obs \<in> {first, last}. bo_node obs = name \<and> bo_barrierID obs = cb_id b \<and> bo_epoch obs = n_epoch n
         \<and> bo_dispatch obs = n_dispatch n \<and> bo_empty obs)
    \<and> (\<forall>e \<in> set since. e \<noteq> Dispatched name \<and> e \<noteq> Registered name \<and> e \<noteq> AdmissionMoved
         \<and> (\<forall>t obs. e = Observed t obs \<longrightarrow> bo_node obs = name \<longrightarrow> bo_barrierID obs = cb_id b \<longrightarrow> bo_empty obs))"
proof -
  have name: "n_name n = name" "n \<in> set (nodes d)" using findNode_Some [OF assms(3)] by auto
  have "list_all (\<lambda>c. nc_state c = ClearanceProved) (cc_nodes (ComputeClear d))" using assms(2) by (simp add: Clear_def)
  then have "nc_state (clearanceOf n (barrierRunsTx d (barrier d) name) (barrier d \<noteq> None)) = ClearanceProved"
    using name assms(4) by (auto simp: ComputeClear_def Let_def list_all_iff)
  then have "provenBy (barrierRunsTx d (barrier d) name) (n_epoch n) (n_dispatch n)" by (simp add: clearanceOf_proved)
  then obtain b r where r: "barrier d = Some b" "r \<in> set (barrierRuns d)" "br_node r = name" "br_barrierID r = cb_id b"
    "br_epoch r = n_epoch n" "br_dispatch r = n_dispatch n" "br_emptySince r + computeAbsenceGrace \<le> br_observedAt r"
    by (rule provenBy_row)
  have adm: "admission d \<noteq> AdmissionOpen" "cb_generation b = generationOf d"
    using assms(2) r(1) by (simp_all add: Clear_def ComputeClear_def Let_def Sealed_def ReadAdmission_def generationOf_def)
  have "inForce d r" using r assms(3) adm(2) by (simp add: inForce_def fenceOf_def)
  then have "evidence es r" using fleetRun_inv [OF assms(1)] r(2) by (simp add: fleetInv_def)
  then obtain since before first last where ev: "es = since @ Observed (br_emptySince r) first # before"
    "answers r first" "\<forall>e \<in> set since. \<not> disturbs r e" "answers r last"
    "Observed (br_observedAt r) last \<in> set (Observed (br_emptySince r) first # since)"
    unfolding evidence_def by blast
  have quiet: "e \<noteq> Dispatched name \<and> e \<noteq> Registered name \<and> e \<noteq> AdmissionMoved
       \<and> (\<forall>t obs. e = Observed t obs \<longrightarrow> bo_node obs = name \<longrightarrow> bo_barrierID obs = cb_id b \<longrightarrow> bo_empty obs)"
    if "e \<in> set since" for e using ev(3) that r(3,4) by auto
  have both: "\<forall>obs \<in> {first, last}. bo_node obs = name \<and> bo_barrierID obs = cb_id b \<and> bo_epoch obs = n_epoch n
       \<and> bo_dispatch obs = n_dispatch n \<and> bo_empty obs"
    using ev(2,4) r(3-6) by (simp add: answers_def)
  show ?thesis using r(1) adm ev(1) ev(5) r(7) both quiet by blast
qed

definition idleLedger :: Ledger where
  "idleLedger = sampleLedger\<lparr>leases := [], nodes := [sampleNode ''alpha'' ProviderFirecracker 16 64],
     admission := AdmissionSealed\<rparr>"

definition idleAnswer :: BarrierObservation where
  "idleAnswer = \<lparr>bo_node = ''alpha'', bo_barrierID = ''b1'', bo_epoch = 1, bo_dispatch = 0, bo_empty = True,
     bo_running = False\<rparr>"

definition askedLedger :: Ledger where
  "askedLedger = idleLedger\<lparr>barrier := Some \<lparr>cb_id = ''b1'', cb_generation = 1, cb_requestedAt = 0, cb_requestedBy = ''op''\<rparr>\<rparr>"

definition provedLedger :: Ledger where
  "provedLedger = RecordBarrierObservation 300000000001 idleAnswer (RecordBarrierObservation 1 idleAnswer askedLedger)"

lemma proved_run:
  "fleetRun [Observed 300000000001 idleAnswer, Observed 1 idleAnswer, Other] provedLedger"
proof -
  have s: "fleetRun [] idleLedger" by (rule fleetRun.start) (simp_all add: idleLedger_def sample_defs)
  have "RequestComputeBarrier 0 1 ''op'' (Some ''b1'') idleLedger =
      Inr (\<lparr>cb_id = ''b1'', cb_generation = 1, cb_requestedAt = 0, cb_requestedBy = ''op''\<rparr>, askedLedger)"
    by (simp add: RequestComputeBarrier_def idleLedger_def askedLedger_def sample_defs Let_def DeleteEveryBarrierRun_def)
  then have "fleetStep Other idleLedger askedLedger"
    by (rule fleetStep.request) (simp add: generationOf_def idleLedger_def sample_defs)
  from fleetRun.step [OF s this] have "fleetRun [Other] askedLedger" .
  from fleetRun.step [OF this fleetStep.observe [of 1 idleAnswer askedLedger]]
  have "fleetRun [Observed 1 idleAnswer, Other] (RecordBarrierObservation 1 idleAnswer askedLedger)" .
  from fleetRun.step [OF this fleetStep.observe] show ?thesis unfolding provedLedger_def .
qed

theorem clear_fleet_was_idle_witness:
  "Clear (ComputeClear provedLedger) \<and> (\<exists>t1 t2 first last.
     {Observed t1 first, Observed t2 last} \<subseteq> set [Observed 300000000001 idleAnswer, Observed 1 idleAnswer, Other]
     \<and> t1 + computeAbsenceGrace \<le> t2)"
proof -
  have c: "Clear (ComputeClear provedLedger)" by code_simp
  have "case findNode provedLedger ''alpha'' of None \<Rightarrow> False | Some n \<Rightarrow> n_decommissionedAt n = None" by code_simp
  then obtain n where n: "findNode provedLedger ''alpha'' = Some n" "n_decommissionedAt n = None"
    by (auto split: option.splits)
  from clear_fleet_was_idle [OF proved_run c n] obtain t1 t2 first last since before where
    es: "[Observed 300000000001 idleAnswer, Observed 1 idleAnswer, Other] = since @ Observed t1 first # before"
    "Observed t2 last \<in> set (Observed t1 first # since)" "t1 + computeAbsenceGrace \<le> t2"
    by blast
  have "{Observed t1 first, Observed t2 last} \<subseteq> set (since @ Observed t1 first # before)" using es(2) by auto
  then have "{Observed t1 first, Observed t2 last} \<subseteq> set [Observed 300000000001 idleAnswer, Observed 1 idleAnswer, Other]"
    unfolding es(1) .
  with c es(3) show ?thesis by blast
qed

end
