(* ===== verification/Room_Facts.thy ===== *)
theory Room_Facts
  imports Escrow
begin

text \<open>
  What a placer made for a tier may spend: holding the floors only takes room away, the
  placer \<open>headroomWithPlacer\<close> hands back divides by positive costs, and its room lies
  under every limit (the hosts, the deployment's ceiling, the target's share).
\<close>

section \<open>Placers made for a tier\<close>

definition rowsOK :: "nodeRow list \<Rightarrow> bool" where
  "rowsOK rows \<longleftrightarrow> distinct (map nr_name rows) \<and>
     (\<forall>n \<in> set rows. nr_name n \<noteq> [] \<and> (\<forall>s \<in> set (nr_shapes n). 0 < s_vcpu s \<and> 0 < s_memory s))"

definition tierOK :: "Tier \<Rightarrow> bool" where
  "tierOK t \<longleftrightarrow> 0 < t_vcpu t \<and> 0 < t_memory t \<and> 0 \<le> t_reserved t"

lemma tierOf_OK: "allocOK a \<Longrightarrow> tierOf a label = Some t \<Longrightarrow> tierOK t"
  using tierOf_label by (fastforce simp: allocOK_def tierOK_def)

lemma tierOf_self: "allocOK a \<Longrightarrow> tierOf a label = Some t \<Longrightarrow> tierOf a (t_label t) = Some t"
  using tierOf_label by metis

lemma tiers_OK: "allocOK a \<Longrightarrow> t \<in> set (a_tiers a) \<Longrightarrow> tierOK t"
  by (auto simp: allocOK_def tierOK_def)

lemma rowsOK_live:
  assumes "ledgerOK d" and "liveNodes d = Inr rows"
  shows "rowsOK rows"
  using liveNodes_names [OF assms] nodeRowFrom_fields(5) by (fastforce simp: rowsOK_def)

lemma firstShape_pos:
  "\<forall>s \<in> set shapes. 0 < s_vcpu s \<and> 0 < s_memory s \<Longrightarrow> firstShape p t shapes = Some c \<Longrightarrow>
   0 < c_vcpu c \<and> 0 < c_memory c"
  by (induction shapes) (auto split: if_splits)

lemma nodeCost_pos:
  assumes "tierOK t" and "\<forall>s \<in> set (nr_shapes n). 0 < s_vcpu s \<and> 0 < s_memory s"
    and "nodeCost n t = Some c"
  shows "0 < c_vcpu c \<and> 0 < c_memory c"
  using assms firstShape_pos by (fastforce simp: nodeCost_def tierOK_def split: if_splits)

lemma rowOf_mem: "rowOf rows h = Some n \<Longrightarrow> n \<in> set rows \<and> nr_name n = h"
  by (auto simp: rowOf_def find_Some_iff)

lemma rowOf_distinct: "rowsOK rows \<Longrightarrow> n \<in> set rows \<Longrightarrow> rowOf rows (nr_name n) = Some n"
  by (simp add: rowOf_def rowsOK_def find_distinct)

lemma placerOK_forTier:
  assumes "rowsOK (f_rows f)" and "tierOK t"
  shows "placerOK (forTier f a t)"
proof -
  let ?hosts = "eligibleFrom a (f_rows f) t (wireFloor t)"
  have "0 < c_vcpu c \<and> 0 < c_memory c" if c: "p_cost (forTier f a t) h = Some c" for h c
  proof -
    obtain n where n: "rowOf ?hosts h = Some n" "nodeCost n t = Some c"
      using c by (cases "rowOf ?hosts h") (simp_all add: forTier_def Let_def)
    then have "n \<in> set (f_rows f)" using rowOf_mem [OF n(1)] by (simp add: eligibleFrom_def)
    then show ?thesis using nodeCost_pos [OF assms(2) _ n(2)] assms(1) by (simp add: rowsOK_def)
  qed
  then show ?thesis
    using assms(1)
    by (auto simp: placerOK_def forTier_def Let_def eligibleFrom_def rowsOK_def distinct_map_filter)
qed

lemma placerOK_limits [simp]:
  "placerOK (p\<lparr>p_deploymentVCPU := x, p_deploymentMemory := y\<rparr>) = placerOK p"
  by (simp add: placerOK_def)

section \<open>Spending\<close>

text \<open>\<open>q\<close> is \<open>p\<close> with some of its room spent.\<close>

definition spentFrom :: "placer \<Rightarrow> placer \<Rightarrow> bool" where
  "spentFrom p q \<longleftrightarrow> p_order q = p_order p \<and> p_cost q = p_cost p \<and> p_rank q = p_rank p
     \<and> (\<forall>h. p_freeVCPU q h \<le> p_freeVCPU p h \<and> p_freeMemory q h \<le> p_freeMemory p h
            \<and> p_freeMacOS q h \<le> p_freeMacOS p h)
     \<and> p_deploymentVCPU q \<le> p_deploymentVCPU p \<and> p_deploymentMemory q \<le> p_deploymentMemory p"

lemma spentFrom_refl [simp]: "spentFrom p p"
  by (simp add: spentFrom_def)

lemma spentFrom_trans: "spentFrom p q \<Longrightarrow> spentFrom q r \<Longrightarrow> spentFrom p r"
  unfolding spentFrom_def by (metis order_trans)

lemma spentFrom_OK: "spentFrom p q \<Longrightarrow> placerOK p \<Longrightarrow> placerOK q"
  by (simp add: spentFrom_def placerOK_def)

lemma placerNext_spends:
  assumes "placerOK p" and "placerNext p t = Some (h, c, q)"
  shows "q = spend p h t" and "p_cost p h = Some c" and "0 < c_vcpu c" and "0 < c_memory c"
    and "c_vcpu c \<le> p_freeVCPU p h" and "c_memory c \<le> p_freeMemory p h"
    and "c_vcpu c \<le> p_deploymentVCPU p" and "c_memory c \<le> p_deploymentMemory p"
    and "t_guestOS t = GuestMacOS \<Longrightarrow> 0 < p_freeMacOS p h"
    and "h \<in> nr_name ` set (p_order p)" and "h \<noteq> []" and "costOf p h = c"
proof -
  have h: "h \<in> candidates p t" "c = costOf p h" "q = spend p h t"
    using assms placerNext_Some by blast+
  then obtain c' where c': "p_cost p h = Some c'" "c_vcpu c' \<le> p_freeVCPU p h"
    "c_memory c' \<le> p_freeMemory p h" "c_vcpu c' \<le> p_deploymentVCPU p"
    "c_memory c' \<le> p_deploymentMemory p" "t_guestOS t = GuestMacOS \<longrightarrow> 0 < p_freeMacOS p h"
    using roomFor_pos [OF assms(1)] by (auto simp: candidates_def)
  have "c = c'" using c'(1) h(2) by (simp add: costOf_def)
  with c' h show "q = spend p h t" "p_cost p h = Some c" "c_vcpu c \<le> p_freeVCPU p h"
    "c_memory c \<le> p_freeMemory p h" "c_vcpu c \<le> p_deploymentVCPU p"
    "c_memory c \<le> p_deploymentMemory p" "t_guestOS t = GuestMacOS \<Longrightarrow> 0 < p_freeMacOS p h"
    "costOf p h = c" by simp_all
  show "0 < c_vcpu c" "0 < c_memory c" using \<open>c = c'\<close> c'(1) assms(1) by (auto simp: placerOK_def)
  show "h \<in> nr_name ` set (p_order p)" "h \<noteq> []"
    using h(1) candidates_named [OF assms(1)] by (auto simp: candidates_def)
qed

lemma placerNext_spentFrom:
  assumes "placerOK p" and "placerNext p t = Some (h, c, q)"
  shows "spentFrom p q" and "placerOK q"
proof -
  note s = placerNext_spends [OF assms]
  show "spentFrom p q"
    using s(3,4) by (simp add: s(1,12) spentFrom_def placer_simps)
  then show "placerOK q" using assms(1) spentFrom_OK by blast
qed

lemma holdLoop_spends:
  assumes "placerOK p" and "holdLoop k p t = (cost, q)"
  shows "spentFrom p q \<and> 0 \<le> fst cost \<and> 0 \<le> snd cost
    \<and> p_deploymentVCPU q = p_deploymentVCPU p - fst cost
    \<and> p_deploymentMemory q = p_deploymentMemory p - snd cost
    \<and> (0 \<le> p_deploymentVCPU p \<longrightarrow> 0 \<le> p_deploymentVCPU q)
    \<and> (0 \<le> p_deploymentMemory p \<longrightarrow> 0 \<le> p_deploymentMemory q)"
  using assms
proof (induction k arbitrary: p cost)
  case (Suc k)
  show ?case
  proof (cases "placerNext p t")
    case (Some x)
    obtain h c r where x: "placerNext p t = Some (h, c, r)" using Some by (cases x) auto
    obtain rest where rest: "holdLoop k r t = (rest, q)" and
      eq: "cost = addCharge (c_vcpu c, c_memory c) rest"
      using Suc.prems(2) x by (cases "holdLoop k r t") simp
    note s = placerNext_spends [OF Suc.prems(1) x] and sf = placerNext_spentFrom [OF Suc.prems(1) x]
    have r: "p_deploymentVCPU r = p_deploymentVCPU p - c_vcpu c"
      "p_deploymentMemory r = p_deploymentMemory p - c_memory c"
      by (simp_all add: s(1,12) placer_simps)
    have "spentFrom p q" using Suc.IH [OF sf(2) rest] spentFrom_trans sf(1) by blast
    then show ?thesis
      using Suc.IH [OF sf(2) rest] r s(3,4,7,8) by (simp add: eq addCharge_def)
  qed (use Suc.prems in auto)
qed auto

section \<open>Holding the floors\<close>

text \<open>\<open>g\<close> is \<open>f\<close> with some of its room held.\<close>

definition heldFrom :: "fleet \<Rightarrow> fleet \<Rightarrow> bool" where
  "heldFrom f g \<longleftrightarrow> f_rows g = f_rows f \<and> f_committedVCPU g = f_committedVCPU f
     \<and> f_committedMemory g = f_committedMemory f
     \<and> (\<forall>h. f_vcpu g h \<le> f_vcpu f h \<and> f_memory g h \<le> f_memory f h \<and> f_macOS g h \<le> f_macOS f h)"

lemma heldFrom_refl [simp]: "heldFrom f f"
  by (simp add: heldFrom_def)

lemma heldFrom_trans: "heldFrom f g \<Longrightarrow> heldFrom g k \<Longrightarrow> heldFrom f k"
  unfolding heldFrom_def by (metis order_trans)

lemma holdFloor_holds:
  assumes "rowsOK (f_rows f)" and "tierOK t" and "holdFloor a t missing f limit = (cost, g)"
  shows "heldFrom f g \<and> 0 \<le> fst cost \<and> 0 \<le> snd cost
    \<and> fst cost \<le> max (fst limit) 0 \<and> snd cost \<le> max (snd limit) 0"
proof -
  let ?p = "(forTier f a t)\<lparr>p_deploymentVCPU := max (fst limit) 0, p_deploymentMemory := max (snd limit) 0\<rparr>"
  obtain q where q: "holdLoop (nat missing) ?p t = (cost, q)" "g = takeRoom f q"
    using assms(3) by (auto simp: holdFloor_def Let_def split: prod.splits)
  have "placerOK ?p" using placerOK_forTier [OF assms(1,2)] by simp
  from holdLoop_spends [OF this q(1)] show ?thesis
    by (auto simp: q(2) takeRoom_def heldFrom_def spentFrom_def forTier_def Let_def)
qed

definition chargesGrow :: "floorCharge \<Rightarrow> floorCharge \<Rightarrow> bool" where
  "chargesGrow x y \<longleftrightarrow> fc_vcpu x \<le> fc_vcpu y \<and> fc_memory x \<le> fc_memory y
     \<and> (\<forall>T. fst (fc_byTarget x T) \<le> fst (fc_byTarget y T) \<and> snd (fc_byTarget x T) \<le> snd (fc_byTarget y T))"

lemma chargesGrow_trans: "chargesGrow x y \<Longrightarrow> chargesGrow y z \<Longrightarrow> chargesGrow x z"
  unfolding chargesGrow_def by (metis order_trans)

lemma holdFloors_holds:
  assumes "rowsOK (f_rows f)" and "\<forall>t \<in> set ts. tierOK t"
    and "holdFloors a d measured label ts budget held f = (held', g)"
  shows "heldFrom f g \<and> chargesGrow held held'"
  using assms
proof (induction ts arbitrary: budget held f)
  case (Cons t ts)
  show ?case
  proof (cases "t_label t = label \<or> t_reserved t = 0 \<or> t_reserved t - floorLeases d measured (t_label t) \<le> 0")
    case True
    then show ?thesis using Cons by simp
  next
    case False
    let ?T = "ShareTarget t"
    let ?limit = "case budget ?T of None \<Rightarrow> (unboundedVCPU, unboundedMemory) | Some l \<Rightarrow> l"
    obtain cost f' where c: "holdFloor a t (t_reserved t - floorLeases d measured (t_label t)) f ?limit = (cost, f')"
      by (cases "holdFloor a t (t_reserved t - floorLeases d measured (t_label t)) f ?limit") auto
    let ?held = "\<lparr>fc_vcpu = fc_vcpu held + fst cost, fc_memory = fc_memory held + snd cost,
        fc_byTarget = (fc_byTarget held)(?T := addCharge (fc_byTarget held ?T) cost)\<rparr>"
    obtain budget' where rest: "holdFloors a d measured label ts budget' ?held f' = (held', g)"
      using Cons.prems(3) False c by (simp add: Let_def)
    have hf: "heldFrom f f'" "0 \<le> fst cost" "0 \<le> snd cost"
      using holdFloor_holds [OF Cons.prems(1) _ c] Cons.prems(2) by simp_all
    then have "heldFrom f' g \<and> chargesGrow ?held held'"
      using Cons.IH [OF _ _ rest] Cons.prems by (simp add: heldFrom_def)
    moreover have "chargesGrow held ?held" using hf by (simp add: chargesGrow_def addCharge_def)
    ultimately show ?thesis using hf(1) heldFrom_trans chargesGrow_trans by blast
  qed
qed (simp add: chargesGrow_def)

lemma reserveFloors_holds:
  assumes "rowsOK (f_rows f)" and "allocOK a" and "reserveFloors a d label f returned = (floors, g)"
  shows "heldFrom f g \<and> chargesGrow noFloors floors"
proof (cases "list_ex (\<lambda>t. t_label t \<noteq> label \<and> 0 < t_reserved t) (a_tiers a)")
  case True
  have "holdFloors a d f label (sort_key t_label (a_tiers a))
      (floorBudget a (readShareUsage a (leases d)) label returned) noFloors f = (floors, g)"
    using assms(3) True by (simp add: reserveFloors_def)
  from holdFloors_holds [OF assms(1) _ this] show ?thesis using tiers_OK [OF assms(2)] by simp
qed (use assms in \<open>simp add: reserveFloors_def chargesGrow_def\<close>)

section \<open>Shares\<close>

text \<open>
  What counts against a target: its own tiers' open leases, and every open lease of a tier
  the catalogue no longer has.
\<close>

definition ownedBy :: "Allocator \<Rightarrow> string \<Rightarrow> string \<Rightarrow> bool" where
  "ownedBy a target tier =
     (case tierOf a tier of None \<Rightarrow> True | Some owner \<Rightarrow> ShareTarget owner = target)"

definition countsFor :: "Allocator \<Rightarrow> string \<Rightarrow> LeaseRow \<Rightarrow> bool" where
  "countsFor a target r \<longleftrightarrow> isOpen r \<and> ownedBy a target (r_tier r)"

definition chargeTo :: "Allocator \<Rightarrow> string \<Rightarrow> string \<times> charge \<Rightarrow> charge" where
  "chargeTo a target row = (if ownedBy a target (fst row) then snd row else (0, 0))"

lemma foldl_chargeTier:
  "addCharge (su_byTarget (foldl (chargeTier a) out rows) target)
       (su_unattributed (foldl (chargeTier a) out rows)) =
     addCharge (addCharge (su_byTarget out target) (su_unattributed out))
       (sum_list (map (fst \<circ> chargeTo a target) rows), sum_list (map (snd \<circ> chargeTo a target) rows))"
proof (induction rows arbitrary: out)
  case (Cons x rows)
  obtain tier v m where x: "x = (tier, v, m)" by (cases x) auto
  have "addCharge (su_byTarget (chargeTier a out x) target) (su_unattributed (chargeTier a out x)) =
      addCharge (addCharge (su_byTarget out target) (su_unattributed out)) (chargeTo a target x)"
    by (simp add: chargeTier_def x addCharge_def chargeTo_def ownedBy_def split: option.split)
  then show ?case using Cons.IH [of "chargeTier a out x"] by (simp add: addCharge_def prod_eq_iff)
qed (simp add: addCharge_def)

lemma readTargetUsage_sum:
  "fst (su_byTarget (readTargetUsage a ls) T) + fst (su_unattributed (readTargetUsage a ls)) =
     sum_where (countsFor a T) r_vcpu ls"
  "snd (su_byTarget (readTargetUsage a ls) T) + snd (su_unattributed (readTargetUsage a ls)) =
     sum_where (countsFor a T) r_memory ls"
proof -
  let ?ks = "remdups (map r_tier (filter isOpen ls))"
  have sums: "sum_list (map (\<lambda>tier. if ownedBy a T tier
        then sum_where (\<lambda>r. isOpen r \<and> r_tier r = tier) w ls else 0) ?ks) = sum_where (countsFor a T) w ls"
    for w :: "LeaseRow \<Rightarrow> int"
  proof -
    have "(if ownedBy a T tier then sum_where (\<lambda>r. isOpen r \<and> r_tier r = tier) w ls else 0)
        = sum_where (\<lambda>r. countsFor a T r \<and> r_tier r = tier) w ls" for tier
    proof (cases "ownedBy a T tier")
      case True
      then show ?thesis by (auto simp: countsFor_def intro!: sum_where_cong)
    next
      case False
      then have "filter (\<lambda>r. countsFor a T r \<and> r_tier r = tier) ls = []"
        by (auto simp: filter_empty_conv countsFor_def)
      then show ?thesis using False by (simp add: sum_where_def)
    qed
    then show ?thesis by (simp only:) (rule sum_where_groups, auto simp: countsFor_def)
  qed
  have "fst \<circ> chargeTo a T \<circ> (\<lambda>tier. (tier, v tier, m tier)) = (\<lambda>tier. if ownedBy a T tier then v tier else 0)"
    "snd \<circ> chargeTo a T \<circ> (\<lambda>tier. (tier, v tier, m tier)) = (\<lambda>tier. if ownedBy a T tier then m tier else 0)"
    for v m :: "string \<Rightarrow> int"
    by (auto simp: fun_eq_iff chargeTo_def)
  then show "fst (su_byTarget (readTargetUsage a ls) T) + fst (su_unattributed (readTargetUsage a ls)) =
     sum_where (countsFor a T) r_vcpu ls"
  "snd (su_byTarget (readTargetUsage a ls) T) + snd (su_unattributed (readTargetUsage a ls)) =
     sum_where (countsFor a T) r_memory ls"
    using foldl_chargeTier [of a "\<lparr>su_byTarget = (\<lambda>_. (0, 0)), su_unattributed = (0, 0)\<rparr>" "UsageByTier ls" T]
      sums [of r_vcpu] sums [of r_memory]
    by (simp_all add: readTargetUsage_def UsageByTier_def addCharge_def prod_eq_iff flip: comp_assoc)
qed

lemma readShareUsage_sum:
  assumes "map_of (l_shares (a_limits a)) T = Some share"
  shows "fst (su_byTarget (readShareUsage a ls) T) + fst (su_unattributed (readShareUsage a ls)) =
     sum_where (countsFor a T) r_vcpu ls"
  "snd (su_byTarget (readShareUsage a ls) T) + snd (su_unattributed (readShareUsage a ls)) =
     sum_where (countsFor a T) r_memory ls"
  using assms readTargetUsage_sum [of a ls T] by (auto simp: readShareUsage_def)

section \<open>The placer a purchase spends\<close>

lemma headroomWithPlacer_facts:
  assumes "allocOK a" and "ledgerOK d" and "tierOK t" and "headroomWithPlacer a d t = Inr (n, p)"
  obtains f floors g where
    "fleetResources a d = Inr f" "reserveFloors a d (t_label t) f (0, 0) = (floors, g)"
    "heldFrom f g" "chargesGrow noFloors floors" "placerOK p"
    "p_order p = eligibleFrom a (f_rows f) t (wireFloor t)"
    "p_freeVCPU p = f_vcpu g" "p_freeMemory p = f_memory g" "p_freeMacOS p = f_macOS g"
    "p_deploymentVCPU p = min (max (l_maxVCPU (a_limits a) - u_vcpu (TotalUsage (leases d)) - fc_vcpu floors) 0)
       (max (fst (shareRoomFor a d (t_label t) (0, 0) floors)) 0)"
    "p_deploymentMemory p = min (max (l_maxMemory (a_limits a) - u_memory (TotalUsage (leases d)) - fc_memory floors) 0)
       (max (snd (shareRoomFor a d (t_label t) (0, 0) floors)) 0)"
    "n = max (if 0 < t_maxConcurrent t
              then min (placerTotal p t) (t_maxConcurrent t - CountOpenInTier (leases d) (t_label t))
              else placerTotal p t) 0"
proof -
  obtain f where f: "fleetResources a d = Inr f"
    using assms(4) by (cases "fleetResources a d") (simp_all add: headroomWithPlacer_def placerWithFloors_def)
  obtain floors g where g: "reserveFloors a d (t_label t) f (0, 0) = (floors, g)"
    by (cases "reserveFloors a d (t_label t) f (0, 0)") auto
  have rows: "rowsOK (f_rows f)"
    using rowsOK_live [OF assms(2)] fleetResources_fields(1) [OF f] by blast
  have held: "heldFrom f g" "chargesGrow noFloors floors"
    using reserveFloors_holds [OF rows assms(1) g] by simp_all
  have rows': "rowsOK (f_rows g)" "f_rows g = f_rows f" "f_committedVCPU g = u_vcpu (TotalUsage (leases d))"
    "f_committedMemory g = u_memory (TotalUsage (leases d))"
    using rows held(1) fleetResources_fields(5,6) [OF f] by (simp_all add: heldFrom_def del: TotalUsage_sel)
  have fields: "p_order (forTier g a t) = eligibleFrom a (f_rows f) t (wireFloor t)"
    "p_freeVCPU (forTier g a t) = f_vcpu g" "p_freeMemory (forTier g a t) = f_memory g"
    "p_freeMacOS (forTier g a t) = f_macOS g"
    "p_committedVCPU (forTier g a t) = u_vcpu (TotalUsage (leases d))"
    "p_committedMemory (forTier g a t) = u_memory (TotalUsage (leases d))"
    using rows' by (simp_all add: forTier_def Let_def del: TotalUsage_sel)
  define q where "q = (forTier g a t)\<lparr>p_deploymentVCPU :=
       min (max (l_maxVCPU (a_limits a) - u_vcpu (TotalUsage (leases d)) - fc_vcpu floors) 0)
         (max (fst (shareRoomFor a d (t_label t) (0, 0) floors)) 0),
     p_deploymentMemory := min (max (l_maxMemory (a_limits a) - u_memory (TotalUsage (leases d)) - fc_memory floors) 0)
       (max (snd (shareRoomFor a d (t_label t) (0, 0) floors)) 0)\<rparr>"
  define m where "m = max (if 0 < t_maxConcurrent t
      then min (placerTotal q t) (t_maxConcurrent t - CountOpenInTier (leases d) (t_label t))
      else placerTotal q t) 0"
  have "Inr (m, q) = (Inr (n, p) :: (int \<times> placer) result)"
    using assms(4) unfolding headroomWithPlacer_def placerWithFloors_def f g sum.case prod.case Let_def
      fields q_def m_def .
  then have q: "p = q" and m: "n = m" by simp_all
  have n: "n = max (if 0 < t_maxConcurrent t
      then min (placerTotal p t) (t_maxConcurrent t - CountOpenInTier (leases d) (t_label t))
      else placerTotal p t) 0" by (simp only: m q m_def)
  have ok: "placerOK p" using placerOK_forTier [OF rows'(1) assms(3)] by (simp add: q q_def)
  show ?thesis
    by (rule that [OF f g held ok _ _ _ _ _ _ n]) (use fields in \<open>simp_all add: q q_def\<close>)
qed

text \<open>A candidate host is a live, undrained node, and its room lies under what it has left.\<close>

lemma headroom_hosts:
  assumes "allocOK a" and "ledgerOK d" and "tierOK t" and "headroomWithPlacer a d t = Inr (n, p)"
    and "h \<in> nr_name ` set (p_order p)"
  obtains row where "row \<in> set (nodes d)" "n_name row = h" "n_live row" "\<not> n_drained row"
    "p_freeVCPU p h \<le> n_vcpu row - nu_vcpu (usageOfHost (leases d) h)"
    "p_freeMemory p h \<le> n_memory row - nu_memory (usageOfHost (leases d) h)"
    "p_freeMacOS p h \<le> macOSLimit a h - nu_macOS (usageOfHost (leases d) h)"
proof -
  obtain f floors g where f: "fleetResources a d = Inr f" "heldFrom f g"
    "p_order p = eligibleFrom a (f_rows f) t (wireFloor t)"
    "p_freeVCPU p = f_vcpu g" "p_freeMemory p = f_memory g" "p_freeMacOS p = f_macOS g"
    using headroomWithPlacer_facts [OF assms(1-4)] by metis
  have live: "liveNodes d = Inr (f_rows f)" by (rule fleetResources_fields(1) [OF f(1)])
  obtain m where m: "m \<in> set (f_rows f)" "nr_name m = h"
    using assms(5) f(3) by (auto simp: eligibleFrom_def)
  obtain row where row: "row \<in> set (nodes d)" "n_live row" "\<not> n_drained row" "nodeRowFrom row = Inr m"
    using liveNodes_names(3) [OF assms(2) live m(1)] by blast
  note same = nodeRowFrom_fields(1-3) [OF row(4)]
  have at: "rowOf (f_rows f) h = Some m"
    using rowOf_distinct [OF rowsOK_live [OF assms(2) live] m(1)] m(2) by simp
  have "f_vcpu f h = n_vcpu row - nu_vcpu (usageOfHost (leases d) h)"
    "f_memory f h = n_memory row - nu_memory (usageOfHost (leases d) h)"
    "f_macOS f h = macOSLimit a h - nu_macOS (usageOfHost (leases d) h)"
    using same by (simp_all only: fleetResources_fields(2-4) [OF f(1)] at option.case)
  moreover have "p_freeVCPU p h \<le> f_vcpu f h" "p_freeMemory p h \<le> f_memory f h" "p_freeMacOS p h \<le> f_macOS f h"
    using f(2,4-6) by (simp_all add: heldFrom_def)
  ultimately show ?thesis using that [OF row(1) _ row(2,3)] same(1) m(2) by (simp del: usageOfHost_sel)
qed

text \<open>The room overall lies under the ceiling and under the target's share, floors deducted.\<close>

lemma headroom_ceiling:
  assumes "allocOK a" and "ledgerOK d" and "tierOK t" and "headroomWithPlacer a d t = Inr (n, p)"
  shows "0 \<le> p_deploymentVCPU p" and "0 \<le> p_deploymentMemory p"
    and "p_deploymentVCPU p \<le> max (l_maxVCPU (a_limits a) - u_vcpu (TotalUsage (leases d))) 0"
    and "p_deploymentMemory p \<le> max (l_maxMemory (a_limits a) - u_memory (TotalUsage (leases d))) 0"
proof -
  obtain f floors g where f: "chargesGrow noFloors floors"
    "p_deploymentVCPU p = min (max (l_maxVCPU (a_limits a) - u_vcpu (TotalUsage (leases d)) - fc_vcpu floors) 0)
       (max (fst (shareRoomFor a d (t_label t) (0, 0) floors)) 0)"
    "p_deploymentMemory p = min (max (l_maxMemory (a_limits a) - u_memory (TotalUsage (leases d)) - fc_memory floors) 0)
       (max (snd (shareRoomFor a d (t_label t) (0, 0) floors)) 0)"
    using headroomWithPlacer_facts [OF assms] by metis
  show "0 \<le> p_deploymentVCPU p" "0 \<le> p_deploymentMemory p" by (simp_all add: f(2,3))
  have "min (max (x - c) 0) y \<le> max x 0" if "0 \<le> c" for x c y :: int using that by linarith
  moreover have "0 \<le> fc_vcpu floors" "0 \<le> fc_memory floors" using f(1) by (simp_all add: chargesGrow_def noFloors_def)
  ultimately show "p_deploymentVCPU p \<le> max (l_maxVCPU (a_limits a) - u_vcpu (TotalUsage (leases d))) 0"
    "p_deploymentMemory p \<le> max (l_maxMemory (a_limits a) - u_memory (TotalUsage (leases d))) 0"
    unfolding f(2,3) by blast+
qed

lemma headroom_share:
  assumes "allocOK a" and "ledgerOK d" and "tierOf a label = Some t"
    and "headroomWithPlacer a d t = Inr (n, p)"
    and "map_of (l_shares (a_limits a)) (ShareTarget t) = Some share"
  shows "0 < ts_vcpu share \<Longrightarrow>
      p_deploymentVCPU p \<le> max (ts_vcpu share - sum_where (countsFor a (ShareTarget t)) r_vcpu (leases d)) 0"
    and "0 < ts_memory share \<Longrightarrow>
      p_deploymentMemory p \<le> max (ts_memory share - sum_where (countsFor a (ShareTarget t)) r_memory (leases d)) 0"
proof -
  let ?T = "ShareTarget t"
  obtain f floors g where f: "chargesGrow noFloors floors"
    "p_deploymentVCPU p = min (max (l_maxVCPU (a_limits a) - u_vcpu (TotalUsage (leases d)) - fc_vcpu floors) 0)
       (max (fst (shareRoomFor a d (t_label t) (0, 0) floors)) 0)"
    "p_deploymentMemory p = min (max (l_maxMemory (a_limits a) - u_memory (TotalUsage (leases d)) - fc_memory floors) 0)
       (max (snd (shareRoomFor a d (t_label t) (0, 0) floors)) 0)"
    using headroomWithPlacer_facts [OF assms(1,2) tierOf_OK [OF assms(1,3)] assms(4)] by metis
  have c: "0 \<le> fst (fc_byTarget floors ?T)" "0 \<le> snd (fc_byTarget floors ?T)"
    using f(1) by (simp_all add: chargesGrow_def noFloors_def)
  have room: "shareRoomFor a d (t_label t) (0, 0) floors =
      (let r = shareRoom a (readShareUsage a (leases d)) ?T (0, 0)
       in (fst r - fst (fc_byTarget floors ?T), snd r - snd (fc_byTarget floors ?T)))"
    by (simp add: shareRoomFor_def roomForTier_def tierOf_self [OF assms(1,3)] roomAfterFloors_def assms(5))
  note used = readShareUsage_sum [OF assms(5), of "leases d"]
  have le: "min y (max (x - c) 0) \<le> max x 0" if "0 \<le> c" for x c y :: int using that by linarith
  show "p_deploymentVCPU p \<le> max (ts_vcpu share - sum_where (countsFor a ?T) r_vcpu (leases d)) 0"
    if "0 < ts_vcpu share"
    using that le [OF c(1), of _ "ts_vcpu share - sum_where (countsFor a ?T) r_vcpu (leases d)"]
    by (simp add: f(2) room Let_def shareRoom_def assms(5) used(1) [symmetric] algebra_simps del: TotalUsage_sel)
  show "p_deploymentMemory p \<le> max (ts_memory share - sum_where (countsFor a ?T) r_memory (leases d)) 0"
    if "0 < ts_memory share"
    using that le [OF c(2), of _ "ts_memory share - sum_where (countsFor a ?T) r_memory (leases d)"]
    by (simp add: f(3) room Let_def shareRoom_def assms(5) used(2) [symmetric] algebra_simps del: TotalUsage_sel)
qed

end
