(* ===== verification/Grant_Safety.thy ===== *)
theory Grant_Safety
  imports Room_Facts
begin

text \<open>
  Granting never overcommits. A \<open>resource\<close> is anything that open leases use and a placer
  has room of; what a purchase may add to its use is proved once, in the locale, and holds of
  every limit the allocator keeps: the deployment's vCPU and memory, each host's vCPU, memory
  and macOS slots, each target's share.
\<close>

section \<open>The interface: a resource\<close>

locale resource =
  fixes applies :: "Allocator \<Rightarrow> Tier \<Rightarrow> bool"
    and usage_of :: "Allocator \<Rightarrow> LeaseRow list \<Rightarrow> int"
    and room_of :: "placer \<Rightarrow> int"
  assumes charged: "applies a t \<Longrightarrow> placerOK p \<Longrightarrow> placerNext p t = Some (h, c, q) \<Longrightarrow>
      usage_of a (ls @ [newLease a now t h site c i]) = usage_of a ls + (room_of p - room_of q)"
    and enough: "applies a t \<Longrightarrow> placerOK p \<Longrightarrow> placerNext p t = Some (h, c, q) \<Longrightarrow>
      0 \<le> room_of q \<or> room_of q = room_of p"
begin

lemma buyLoop_bounded:
  assumes "applies a t" and "placerOK p" and "buyLoop a now t n p ids d = Inr (gs, d')"
  shows "usage_of a (leases d') \<le> usage_of a (leases d) + max (room_of p) 0"
  using assms(2,3)
proof (induction n arbitrary: p ids d gs)
  case (Suc n)
  show ?case
  proof (cases "placerNext p t")
    case (Some x)
    obtain h c q where x: "placerNext p t = Some (h, c, q)" using Some by (cases x) auto
    obtain g rest d1 gs' where i: "insertLease a now t h (siteOf q h) c (p_rank q h) ids d = Inr (g, rest, d1)"
      and b: "buyLoop a now t n q rest d1 = Inr (gs', d')"
      using Suc.prems(2) x by (auto split: sum.splits)
    have d1: "\<exists>i. leases d1 = leases d @ [newLease a now t h (siteOf q h) c i]"
      using i by (auto simp: insertLease_def InsertLease_def Let_def split: sum.splits list.splits if_splits)
    then have "usage_of a (leases d1) = usage_of a (leases d) + (room_of p - room_of q)"
      using charged [OF assms(1) Suc.prems(1) x] by auto
    then show ?thesis
      using Suc.IH [OF placerNext_spentFrom(2) [OF Suc.prems(1) x] b] enough [OF assms(1) Suc.prems(1) x]
      by linarith
  qed (use Suc.prems in simp)
qed simp

end

section \<open>Every limit is a resource\<close>

lemma newLease_fields [simp]:
  "isOpen (newLease a now t h site c i)" "r_vcpu (newLease a now t h site c i) = c_vcpu c"
  "r_memory (newLease a now t h site c i) = c_memory c" "r_tier (newLease a now t h site c i) = t_label t"
  "r_id (newLease a now t h site c i) = i" "attributedTo (newLease a now t h site c i) = h"
  "r_macosSlot (newLease a now t h site c i) \<longleftrightarrow> t_guestOS t = GuestMacOS"
  "r_phase (newLease a now t h site c i) = PhaseCapacity" "r_epoch (newLease a now t h site c i) = 0"
  by (simp_all add: newLease_def isOpen_def Terminal_def attributedTo_def coalesceNode_def)

interpretation deploymentVCPU:
  resource "\<lambda>_ _. True" "\<lambda>_ ls. sum_where isOpen r_vcpu ls" p_deploymentVCPU
proof
  fix p :: placer and t :: Tier and h c q assume p: "placerOK p" "placerNext p t = Some (h, c, q)"
  note s = placerNext_spends [OF p]
  show "sum_where isOpen r_vcpu (ls @ [newLease a now t h site c i])
      = sum_where isOpen r_vcpu ls + (p_deploymentVCPU p - p_deploymentVCPU q)" for a now site i ls
    by (simp add: s(1,12) placer_simps)
  show "0 \<le> p_deploymentVCPU q \<or> p_deploymentVCPU q = p_deploymentVCPU p"
    using s(7) by (simp add: s(1,12) placer_simps)
qed

interpretation deploymentMemory:
  resource "\<lambda>_ _. True" "\<lambda>_ ls. sum_where isOpen r_memory ls" p_deploymentMemory
proof
  fix p :: placer and t :: Tier and h c q assume p: "placerOK p" "placerNext p t = Some (h, c, q)"
  note s = placerNext_spends [OF p]
  show "sum_where isOpen r_memory (ls @ [newLease a now t h site c i])
      = sum_where isOpen r_memory ls + (p_deploymentMemory p - p_deploymentMemory q)" for a now site i ls
    by (simp add: s(1,12) placer_simps)
  show "0 \<le> p_deploymentMemory q \<or> p_deploymentMemory q = p_deploymentMemory p"
    using s(8) by (simp add: s(1,12) placer_simps)
qed

text \<open>A host that is no candidate has no room and is never chosen.\<close>

definition atHost :: "(placer \<Rightarrow> string \<Rightarrow> int) \<Rightarrow> string \<Rightarrow> placer \<Rightarrow> int" where
  "atHost free h p = (if h \<in> nr_name ` set (p_order p) then free p h else 0)"

interpretation hostVCPU:
  resource "\<lambda>_ _. True" "\<lambda>_ ls. nu_vcpu (usageOfHost ls host)" "atHost p_freeVCPU host" for host
proof
  fix p :: placer and t :: Tier and h c q assume p: "placerOK p" "placerNext p t = Some (h, c, q)"
  note s = placerNext_spends [OF p]
  show "nu_vcpu (usageOfHost (ls @ [newLease a now t h site c i]) host)
      = nu_vcpu (usageOfHost ls host) + (atHost p_freeVCPU host p - atHost p_freeVCPU host q)" for a now site i ls
    using s(10,12) by (auto simp: s(1) placer_simps atHost_def)
  show "0 \<le> atHost p_freeVCPU host q \<or> atHost p_freeVCPU host q = atHost p_freeVCPU host p"
    using s(5) by (simp add: s(1,12) placer_simps atHost_def)
qed

interpretation hostMemory:
  resource "\<lambda>_ _. True" "\<lambda>_ ls. nu_memory (usageOfHost ls host)" "atHost p_freeMemory host" for host
proof
  fix p :: placer and t :: Tier and h c q assume p: "placerOK p" "placerNext p t = Some (h, c, q)"
  note s = placerNext_spends [OF p]
  show "nu_memory (usageOfHost (ls @ [newLease a now t h site c i]) host)
      = nu_memory (usageOfHost ls host) + (atHost p_freeMemory host p - atHost p_freeMemory host q)" for a now site i ls
    using s(10,12) by (auto simp: s(1) placer_simps atHost_def)
  show "0 \<le> atHost p_freeMemory host q \<or> atHost p_freeMemory host q = atHost p_freeMemory host p"
    using s(6) by (simp add: s(1,12) placer_simps atHost_def)
qed

interpretation hostMacOS:
  resource "\<lambda>_ _. True" "\<lambda>_ ls. nu_macOS (usageOfHost ls host)" "atHost p_freeMacOS host" for host
proof
  fix p :: placer and t :: Tier and h c q assume p: "placerOK p" "placerNext p t = Some (h, c, q)"
  note s = placerNext_spends [OF p]
  show "nu_macOS (usageOfHost (ls @ [newLease a now t h site c i]) host)
      = nu_macOS (usageOfHost ls host) + (atHost p_freeMacOS host p - atHost p_freeMacOS host q)" for a now site i ls
    using s(10) by (auto simp: s(1) placer_simps atHost_def count_where_sum)
  show "0 \<le> atHost p_freeMacOS host q \<or> atHost p_freeMacOS host q = atHost p_freeMacOS host p"
    using s(9) by (auto simp: s(1) placer_simps atHost_def)
qed

definition ofTarget :: "string \<Rightarrow> Allocator \<Rightarrow> Tier \<Rightarrow> bool" where
  "ofTarget target a t \<longleftrightarrow> tierOf a (t_label t) = Some t \<and> ShareTarget t = target"

lemma countsFor_newLease:
  "ofTarget target a t \<Longrightarrow> countsFor a target (newLease a now t h site c i)"
  by (simp add: countsFor_def ownedBy_def ofTarget_def)

interpretation targetVCPU:
  resource "ofTarget target" "\<lambda>a ls. sum_where (countsFor a target) r_vcpu ls" p_deploymentVCPU for target
proof
  fix a p and t :: Tier and h c q
  assume t: "ofTarget target a t" and p: "placerOK p" "placerNext p t = Some (h, c, q)"
  note s = placerNext_spends [OF p]
  show "sum_where (countsFor a target) r_vcpu (ls @ [newLease a now t h site c i])
      = sum_where (countsFor a target) r_vcpu ls + (p_deploymentVCPU p - p_deploymentVCPU q)" for now site i ls
    by (simp add: s(1,12) placer_simps countsFor_newLease [OF t])
  show "0 \<le> p_deploymentVCPU q \<or> p_deploymentVCPU q = p_deploymentVCPU p"
    using s(7) by (simp add: s(1,12) placer_simps)
qed

interpretation targetMemory:
  resource "ofTarget target" "\<lambda>a ls. sum_where (countsFor a target) r_memory ls" p_deploymentMemory for target
proof
  fix a p and t :: Tier and h c q
  assume t: "ofTarget target a t" and p: "placerOK p" "placerNext p t = Some (h, c, q)"
  note s = placerNext_spends [OF p]
  show "sum_where (countsFor a target) r_memory (ls @ [newLease a now t h site c i])
      = sum_where (countsFor a target) r_memory ls + (p_deploymentMemory p - p_deploymentMemory q)" for now site i ls
    by (simp add: s(1,12) placer_simps countsFor_newLease [OF t])
  show "0 \<le> p_deploymentMemory q \<or> p_deploymentMemory q = p_deploymentMemory p"
    using s(8) by (simp add: s(1,12) placer_simps)
qed

section \<open>Every grant is a purchase within the headroom\<close>

definition narrower :: "placer \<Rightarrow> placer \<Rightarrow> bool" where
  "narrower p q \<longleftrightarrow> p_order q = p_order p \<and> p_rank q = p_rank p \<and> p_deploymentVCPU q = p_deploymentVCPU p
     \<and> p_deploymentMemory q = p_deploymentMemory p
     \<and> (\<forall>h. p_freeVCPU q h \<le> p_freeVCPU p h \<and> p_freeMemory q h \<le> p_freeMemory p h
            \<and> p_freeMacOS q h \<le> p_freeMacOS p h)
     \<and> (\<forall>h c. p_cost q h = Some c \<longrightarrow> p_cost p h = Some c)"

lemma narrower_refl [simp]: "narrower p p"
  by (simp add: narrower_def)

lemma narrower_trans: "narrower p q \<Longrightarrow> narrower q r \<Longrightarrow> narrower p r"
  unfolding narrower_def by (metis order_trans)

lemma narrower_OK: "narrower p q \<Longrightarrow> placerOK p \<Longrightarrow> placerOK q"
  unfolding narrower_def placerOK_def by metis

lemma keepFor_narrower: "allocOK a \<Longrightarrow> narrower p (keepFor holds a p)"
proof (induction holds a p rule: keepFor.induct)
  case (2 host owner holds a p)
  show ?case
  proof (cases "tierOf a owner")
    case None
    have "narrower p (avoid host p)" by (simp add: narrower_def avoid_def)
    then show ?thesis using 2(1) [OF None 2(3)] None narrower_trans by simp
  next
    case (Some shape)
    let ?q = "p\<lparr>p_freeVCPU := (p_freeVCPU p)(host := p_freeVCPU p host - t_vcpu shape),
              p_freeMemory := (p_freeMemory p)(host := p_freeMemory p host - t_memory shape)\<rparr>"
    have "narrower p ?q" using tierOf_OK [OF 2(3) Some] by (simp add: narrower_def tierOK_def)
    then show ?thesis using 2(2) [OF Some 2(3)] Some narrower_trans by simp
  qed
qed simp

lemma placerAvoiding_narrower:
  assumes "allocOK a" and "placerAvoiding a d t place holds want = (q, limit, flag)"
  shows "narrower place q" and "limit \<le> want"
  using assms keepFor_narrower [OF assms(1)]
  by (auto simp: placerAvoiding_def Let_def split: if_splits)

definition boughtOn :: "Allocator \<Rightarrow> int \<Rightarrow> Tier \<Rightarrow> int \<Rightarrow> Ledger \<Rightarrow> grant list \<Rightarrow> Ledger \<Rightarrow> bool" where
  "boughtOn a now t want d gs d' \<longleftrightarrow>
     (\<exists>room unheld place n ids. admission d = AdmissionOpen \<and> headroomWithPlacer a d t = Inr (room, unheld)
       \<and> narrower unheld place \<and> n \<le> nat (min want room) \<and> buyLoop a now t n place ids d = Inr (gs, d'))"

lemma escrow_bought:
  assumes "allocOK a" and "escrow a now t want guarded kept av ids d = Inr (gs, d')"
  shows "gs = [] \<and> d' = d \<or> boughtOn a now t want d gs d'"
proof (cases "want = 0")
  case False
  obtain room unheld where h: "headroomWithPlacer a d t = Inr (room, unheld)" and sealed: "admission d = AdmissionOpen"
    using assms(2) False
    by (auto simp: escrow_def refuseIfSealed_def split: sum.splits if_splits)
  obtain place limit narrowed where p: "placerAvoiding a d t unheld (av (t_label t)) want = (place, limit, narrowed)"
    by (cases "placerAvoiding a d t unheld (av (t_label t)) want") auto
  have b: "buyLoop a now t (nat (min limit room)) place ids d = Inr (gs, d')"
    using assms(2) False sealed
    by (auto simp: escrow_def refuseIfSealed_def h p split: sum.splits if_splits)
  have "narrower unheld place" "nat (min limit room) \<le> nat (min want room)"
    using placerAvoiding_narrower [OF assms(1) p] by (auto intro: nat_mono min.mono)
  then show ?thesis using sealed h b unfolding boughtOn_def by blast
qed (use assms in \<open>simp add: escrow_def\<close>)

lemma escrowTries_bought:
  assumes "allocOK a" and "escrowTries a now t n guarded kept av ids d = Inr (gs, d')"
  shows "gs = [] \<and> d' = d \<or> (\<exists>w. w \<le> int n \<and> boughtOn a now t w d gs d')"
  using assms(2)
proof (induction n)
  case (Suc n)
  show ?case
  proof (cases "escrow a now t (int (Suc n)) guarded kept av (ids (Suc n)) d")
    case (Inl e)
    then have "gs = [] \<and> d' = d \<or> escrowTries a now t n guarded kept av ids d = Inr (gs, d')"
      using Suc.prems by (simp split: if_splits)
    then show ?thesis using Suc.IH by fastforce
  next
    case (Inr r)
    then have "gs = [] \<and> d' = d \<or> boughtOn a now t (int (Suc n)) d gs d'"
      using Suc.prems by (intro escrow_bought [OF assms(1)]) simp
    then show ?thesis by blast
  qed
qed simp

lemma boughtOn_mono: "boughtOn a now t w d gs d' \<Longrightarrow> w \<le> w' \<Longrightarrow> boughtOn a now t w' d gs d'"
  unfolding boughtOn_def by (meson min.mono nat_mono order_refl order_trans)

lemma EscrowFor_bought:
  assumes "allocOK a" and "EscrowFor a now tier want purchase ids d = Inr (gs, d')"
  obtains t where "tierOf a tier = Some t" "gs = [] \<and> d' = d \<or> boughtOn a now t want d gs d'"
proof -
  obtain t where t: "tierOf a tier = Some t" and w: "0 \<le> want"
    using assms(2) by (auto simp: EscrowFor_def split: if_splits option.splits)
  have "gs = [] \<and> d' = d \<or> (\<exists>w. w \<le> int (nat want) \<and> boughtOn a now t w d gs d')"
    using assms(2) t w by (intro escrowTries_bought [OF assms(1)]) (simp add: EscrowFor_def)
  then show ?thesis using that [OF t] w boughtOn_mono by auto
qed

lemma Reserve_bought:
  assumes "Reserve a now tier ids d = Inr (g, d')"
  obtains t where "tierOf a tier = Some t" "boughtOn a now t 1 d [g] d'"
proof -
  obtain t room p where t: "tierOf a tier = Some t" and h: "headroomWithPlacer a d t = Inr (room, p)"
    and o: "admission d = AdmissionOpen" and r: "1 \<le> room"
    using assms by (auto simp: Reserve_def refuseIfSealed_def split: sum.splits if_splits option.splits)
  have "buyLoop a now t (Suc 0) p ids d = Inr ([g], d')"
    using assms t h o r by (auto simp: Reserve_def refuseIfSealed_def split: sum.splits option.splits)
  moreover have "Suc 0 \<le> nat (min 1 room)" using r by simp
  ultimately show ?thesis using that [OF t] o h unfolding boughtOn_def by (metis narrower_refl)
qed

text \<open>Whatever the way in, a grant of \<open>gs\<close> turns \<open>d\<close> into \<open>d'\<close>.\<close>

definition granted ::
  "Allocator \<Rightarrow> int \<Rightarrow> string \<Rightarrow> Ledger \<Rightarrow> grant list \<Rightarrow> Ledger \<Rightarrow> bool" where
  "granted a now tier d gs d' \<longleftrightarrow>
     (\<exists>want purchase ids. EscrowFor a now tier want purchase ids d = Inr (gs, d'))
     \<or> (\<exists>ids g. Reserve a now tier ids d = Inr (g, d') \<and> gs = [g])"

lemma granted_bought:
  assumes "allocOK a" and "granted a now tier d gs d'"
  obtains t want where "tierOf a tier = Some t" "gs = [] \<and> d' = d \<or> boughtOn a now t want d gs d'"
  using assms EscrowFor_bought [OF assms(1)] Reserve_bought unfolding granted_def by metis

lemma sample_granted: "\<exists>gs d'. granted sampleAlloc 100 ''small'' sampleLedger gs d' \<and> length gs = 3"
  using sample_buys unfolding granted_def by blast

section \<open>Limits are kept\<close>

lemma bought_placer:
  assumes "allocOK a" and "ledgerOK d" and "tierOf a tier = Some t" and "boughtOn a now t want d gs d'"
  obtains room unheld place n ids where
    "headroomWithPlacer a d t = Inr (room, unheld)" "narrower unheld place" "placerOK unheld"
    "placerOK place" "n \<le> nat (min want room)" "buyLoop a now t n place ids d = Inr (gs, d')"
proof -
  obtain room unheld place n ids where h: "headroomWithPlacer a d t = Inr (room, unheld)"
    "narrower unheld place" "n \<le> nat (min want room)" "buyLoop a now t n place ids d = Inr (gs, d')"
    using assms(4) unfolding boughtOn_def by metis
  have "placerOK unheld"
    using headroomWithPlacer_facts [OF assms(1,2) tierOf_OK [OF assms(1,3)] h(1)] by metis
  then show ?thesis using that h narrower_OK by metis
qed

lemma granted_ceiling:
  assumes "allocOK a" and "ledgerOK d" and "granted a now tier d gs d'"
  shows "u_vcpu (TotalUsage (leases d')) \<le> max (u_vcpu (TotalUsage (leases d))) (l_maxVCPU (a_limits a))
    \<and> u_memory (TotalUsage (leases d')) \<le> max (u_memory (TotalUsage (leases d))) (l_maxMemory (a_limits a))"
proof -
  obtain t want where t: "tierOf a tier = Some t" and b: "gs = [] \<and> d' = d \<or> boughtOn a now t want d gs d'"
    using granted_bought [OF assms(1,3)] by metis
  show ?thesis
  proof (cases "gs = [] \<and> d' = d")
    case False
    obtain room p q n ids where h: "headroomWithPlacer a d t = Inr (room, p)" "narrower p q" "placerOK q"
      "buyLoop a now t n q ids d = Inr (gs, d')"
      using bought_placer [OF assms(1,2) t] b False by metis
    note c = headroom_ceiling [OF assms(1,2) tierOf_OK [OF assms(1) t] h(1)]
    have q: "p_deploymentVCPU q = p_deploymentVCPU p" "p_deploymentMemory q = p_deploymentMemory p"
      using h(2) by (simp_all add: narrower_def)
    show ?thesis
      using deploymentVCPU.buyLoop_bounded [OF TrueI h(3,4)] deploymentMemory.buyLoop_bounded [OF TrueI h(3,4)]
        c unfolding q TotalUsage_sel by linarith
  qed simp
qed

lemma granted_host:
  assumes "allocOK a" and "ledgerOK d" and "granted a now tier d gs d'" and "node \<in> set (nodes d)"
  shows "nu_vcpu (usageOfHost (leases d') (n_name node))
        \<le> max (nu_vcpu (usageOfHost (leases d) (n_name node))) (n_vcpu node)
    \<and> nu_memory (usageOfHost (leases d') (n_name node))
        \<le> max (nu_memory (usageOfHost (leases d) (n_name node))) (n_memory node)
    \<and> nu_macOS (usageOfHost (leases d') (n_name node))
        \<le> max (nu_macOS (usageOfHost (leases d) (n_name node))) (macOSLimit a (n_name node))"
proof -
  obtain t want where t: "tierOf a tier = Some t" and b: "gs = [] \<and> d' = d \<or> boughtOn a now t want d gs d'"
    using granted_bought [OF assms(1,3)] by metis
  show ?thesis
  proof (cases "gs = [] \<and> d' = d")
    case False
    obtain room p q n ids where h: "headroomWithPlacer a d t = Inr (room, p)" "narrower p q" "placerOK q"
      "buyLoop a now t n q ids d = Inr (gs, d')"
      using bought_placer [OF assms(1,2) t] b False by metis
    let ?h = "n_name node"
    have "max (atHost p_freeVCPU ?h q) 0 \<le> max (n_vcpu node - nu_vcpu (usageOfHost (leases d) ?h)) 0
      \<and> max (atHost p_freeMemory ?h q) 0 \<le> max (n_memory node - nu_memory (usageOfHost (leases d) ?h)) 0
      \<and> max (atHost p_freeMacOS ?h q) 0 \<le> max (macOSLimit a ?h - nu_macOS (usageOfHost (leases d) ?h)) 0"
    proof (cases "?h \<in> nr_name ` set (p_order q)")
      case True
      then have "?h \<in> nr_name ` set (p_order p)" using h(2) by (simp add: narrower_def)
      then obtain row where row: "row \<in> set (nodes d)" "n_name row = ?h"
        "p_freeVCPU p ?h \<le> n_vcpu row - nu_vcpu (usageOfHost (leases d) ?h)"
        "p_freeMemory p ?h \<le> n_memory row - nu_memory (usageOfHost (leases d) ?h)"
        "p_freeMacOS p ?h \<le> macOSLimit a ?h - nu_macOS (usageOfHost (leases d) ?h)"
        by (rule headroom_hosts [OF assms(1,2) tierOf_OK [OF assms(1) t] h(1)])
      have "row = node" using findNode_distinct [OF assms(2)] row(1,2) assms(4) by (metis option.inject)
      moreover have "p_freeVCPU q ?h \<le> p_freeVCPU p ?h" "p_freeMemory q ?h \<le> p_freeMemory p ?h"
        "p_freeMacOS q ?h \<le> p_freeMacOS p ?h"
        using h(2) by (simp_all add: narrower_def)
      ultimately show ?thesis using row(3-5) True unfolding atHost_def by auto
    qed (simp add: atHost_def)
    then show ?thesis
      using hostVCPU.buyLoop_bounded [OF TrueI h(3,4), of ?h] hostMemory.buyLoop_bounded [OF TrueI h(3,4), of ?h]
        hostMacOS.buyLoop_bounded [OF TrueI h(3,4), of ?h] by linarith
  qed simp
qed

text \<open>
  C18. No grant takes a target past its share. Where a target has a vCPU or a memory share,
  the open leases of its tiers, counted together with those of tiers the catalogue no longer
  has, stay within it after a grant to any of its tiers, or within what they already were.
\<close>

theorem grant_within_share:
  assumes "allocOK a" and "ledgerOK d" and "granted a now tier d gs d'" and "tierOf a tier = Some t"
    and "map_of (l_shares (a_limits a)) (ShareTarget t) = Some share"
  shows "(0 < ts_vcpu share \<longrightarrow> sum_where (countsFor a (ShareTarget t)) r_vcpu (leases d')
        \<le> max (sum_where (countsFor a (ShareTarget t)) r_vcpu (leases d)) (ts_vcpu share))
    \<and> (0 < ts_memory share \<longrightarrow> sum_where (countsFor a (ShareTarget t)) r_memory (leases d')
        \<le> max (sum_where (countsFor a (ShareTarget t)) r_memory (leases d)) (ts_memory share))"
proof -
  obtain want where b: "gs = [] \<and> d' = d \<or> boughtOn a now t want d gs d'"
    using granted_bought [OF assms(1,3)] assms(4) by (metis option.inject)
  show ?thesis
  proof (cases "gs = [] \<and> d' = d")
    case False
    obtain room p q n ids where h: "headroomWithPlacer a d t = Inr (room, p)" "narrower p q" "placerOK q"
      "buyLoop a now t n q ids d = Inr (gs, d')"
      using bought_placer [OF assms(1,2,4)] b False by metis
    have T: "ofTarget (ShareTarget t) a t" by (simp add: ofTarget_def tierOf_self [OF assms(1,4)])
    note c = headroom_share [OF assms(1,2,4) h(1) assms(5)]
    have q: "p_deploymentVCPU q = p_deploymentVCPU p" "p_deploymentMemory q = p_deploymentMemory p"
      using h(2) by (simp_all add: narrower_def)
    show ?thesis
      using targetVCPU.buyLoop_bounded [OF T h(3,4)] targetMemory.buyLoop_bounded [OF T h(3,4)] c
      unfolding q by linarith
  qed simp
qed

theorem grant_within_share_witness:
  "\<exists>gs d'. granted sampleAlloc 100 ''small'' sampleLedger gs d' \<and> length gs = 3
     \<and> sum_where (countsFor sampleAlloc ''default'') r_vcpu (leases d') \<le> 20"
proof -
  obtain gs d' where g: "granted sampleAlloc 100 ''small'' sampleLedger gs d'" "length gs = 3"
    using sample_granted by blast
  have t: "ShareTarget smallTier = ''default''" by code_simp
  have sh: "map_of (l_shares (a_limits sampleAlloc)) (ShareTarget smallTier) = Some \<lparr>ts_vcpu = 20, ts_memory = 0\<rparr>"
    by (simp add: t) (simp add: sampleAlloc_def)
  have "sum_where (countsFor sampleAlloc ''default'') r_vcpu (leases sampleLedger) = 8" by code_simp
  then show ?thesis
    using grant_within_share [OF sample_OK(1,2) g(1) sample_OK(3) sh] g
    by (intro exI [of _ gs] exI [of _ d']) (simp add: t)
qed

end
