(* ===== verification/Grants.thy ===== *)
theory Grants
  imports Grant_Safety
begin

text \<open>
  What a grant writes and when one is given: the rows a purchase adds, the concurrency limit
  of a tier, the admission seal, the waiters a purchase must leave room for, and that
  \<open>Escrow\<close> grants exactly the smaller of what is asked and the tier's headroom.
\<close>

section \<open>What a purchase writes\<close>

lemma insertLease_Inr:
  "insertLease a now t h site c rank ids d = Inr (g, rest, d') \<longleftrightarrow>
     admission d = AdmissionOpen \<and> (\<exists>i. ids = i # rest \<and> i \<notin> set (map r_id (leases d))
       \<and> g = (newLease a now t h site c i, rank)
       \<and> d' = addLeases [newLease a now t h site c i] d)"
  by (cases ids) (auto simp: insertLease_def refuseIfSealed_def InsertLease_def Let_def)

text \<open>The hosts a placer may still choose from are those it started with.\<close>

definition placedBy :: "Allocator \<Rightarrow> int \<Rightarrow> Tier \<Rightarrow> placer \<Rightarrow> grant \<Rightarrow> bool" where
  "placedBy a now t p g \<longleftrightarrow> (\<exists>h c i. h \<in> nr_name ` set (p_order p) \<and> p_cost p h = Some c
     \<and> g = (newLease a now t h (siteOf p h) c i, p_rank p h))"

lemma siteOf_order: "p_order q = p_order p \<Longrightarrow> siteOf q h = siteOf p h"
  by (simp add: siteOf_def)

lemma buyLoop_writes:
  assumes "placerOK p" and "buyLoop a now t n p ids d = Inr (gs, d')"
    and "distinct (map r_id (leases d))"
  shows "d' = addLeases (map fst gs) d \<and> length gs \<le> n
    \<and> distinct (map r_id (leases d')) \<and> (\<forall>g \<in> set gs. placedBy a now t p g)"
  using assms
proof (induction n arbitrary: p ids d gs)
  case (Suc n)
  show ?case
  proof (cases "placerNext p t")
    case (Some x)
    obtain h c q where x: "placerNext p t = Some (h, c, q)" using Some by (cases x) auto
    obtain g rest d1 gs' where i: "insertLease a now t h (siteOf q h) c (p_rank q h) ids d = Inr (g, rest, d1)"
      and b: "buyLoop a now t n q rest d1 = Inr (gs', d')" and gs: "gs = g # gs'"
      using Suc.prems(2) x by (auto split: sum.splits)
    note s = placerNext_spends [OF Suc.prems(1) x] and sf = placerNext_spentFrom [OF Suc.prems(1) x]
    obtain j where j: "j \<notin> set (map r_id (leases d))" "g = (newLease a now t h (siteOf q h) c j, p_rank q h)"
      "d1 = addLeases [newLease a now t h (siteOf q h) c j] d"
      using i by (auto simp: insertLease_Inr)
    have same: "p_order q = p_order p" "p_cost q = p_cost p" "p_rank q = p_rank p"
      using sf(1) by (simp_all add: spentFrom_def)
    have "placedBy a now t p g"
      using s(2,10) j(2) same siteOf_order [OF same(1)] unfolding placedBy_def by metis
    moreover have "placedBy a now t q = placedBy a now t p"
      using same siteOf_order [OF same(1)] by (simp add: fun_eq_iff placedBy_def)
    moreover have "distinct (map r_id (leases d1))" using Suc.prems(3) j(1) unfolding j(3) by simp
    note ih = Suc.IH [OF sf(2) b this]
    have "d' = addLeases (map fst gs) d" using ih unfolding gs j(2,3) by simp
    moreover have "length gs' \<le> n" "distinct (map r_id (leases d'))" "\<forall>x \<in> set gs'. placedBy a now t q x"
      using ih by blast+
    ultimately show ?thesis unfolding gs list.set list.size by auto
  qed (use Suc.prems in auto)
qed simp

lemma bought_writes:
  assumes "allocOK a" and "ledgerOK d" and "tierOf a tier = Some t" and "boughtOn a now t want d gs d'"
  obtains room p where "headroomWithPlacer a d t = Inr (room, p)" "placerOK p"
    "d' = addLeases (map fst gs) d" "int (length gs) \<le> max (min want room) 0"
    "distinct (map r_id (leases d'))" "\<forall>g \<in> set gs. placedBy a now t p g"
proof -
  obtain room p q n ids where h: "headroomWithPlacer a d t = Inr (room, p)" "narrower p q" "placerOK p"
    "placerOK q" "n \<le> nat (min want room)" "buyLoop a now t n q ids d = Inr (gs, d')"
    using bought_placer [OF assms] by metis
  have "distinct (map r_id (leases d))" using assms(2) by (simp add: ledgerOK_def)
  note w = buyLoop_writes [OF h(4,6) this]
  have "placedBy a now t p g" if "placedBy a now t q g" for g
    using that h(2) siteOf_order [of q p] unfolding placedBy_def narrower_def by metis
  then have placed: "\<forall>g \<in> set gs. placedBy a now t p g" using w by blast
  have "int (length gs) \<le> max (min want room) 0" using w h(5) by linarith
  then show ?thesis using that [OF h(1,3) _ _ _ placed] w by blast
qed

lemma granted_writes:
  assumes "allocOK a" and "ledgerOK d" and "granted a now tier d gs d'"
  shows "d' = addLeases (map fst gs) d \<and> distinct (map r_id (leases d'))
    \<and> (\<forall>g \<in> set gs. 0 < r_vcpu (fst g) \<and> 0 < r_memory (fst g) \<and> r_tier (fst g) = tier
          \<and> r_phase (fst g) = PhaseCapacity \<and> r_epoch (fst g) = 0)"
proof -
  obtain t want where t: "tierOf a tier = Some t" and b: "gs = [] \<and> d' = d \<or> boughtOn a now t want d gs d'"
    using granted_bought [OF assms(1,3)] by metis
  show ?thesis
  proof (cases "gs = [] \<and> d' = d")
    case True
    then show ?thesis using assms(2) by (simp add: ledgerOK_def)
  next
    case False
    obtain p where p: "placerOK p" "d' = addLeases (map fst gs) d"
      "distinct (map r_id (leases d'))" "\<forall>g \<in> set gs. placedBy a now t p g"
      using bought_writes [OF assms(1,2) t] b False by metis
    have "0 < r_vcpu (fst g) \<and> 0 < r_memory (fst g) \<and> r_tier (fst g) = tier
          \<and> r_phase (fst g) = PhaseCapacity \<and> r_epoch (fst g) = 0" if "g \<in> set gs" for g
      using that p(1,4) tierOf_label [OF t] by (fastforce simp: placedBy_def placerOK_def)
    then show ?thesis using p by blast
  qed
qed

lemma granted_ledgerOK:
  assumes "allocOK a" and "ledgerOK d" and "granted a now tier d gs d'"
  shows "ledgerOK d'"
proof -
  note w = granted_writes [OF assms]
  have d': "d' = addLeases (map fst gs) d" using w by blast
  then have "nodes d' = nodes d" "leases d' = leases d @ map fst gs" by simp_all
  moreover have "0 \<le> r_vcpu r \<and> 0 \<le> r_memory r" if "r \<in> set (map fst gs)" for r
    using w that by (auto intro: less_imp_le)
  ultimately show ?thesis using w assms(2) unfolding ledgerOK_def by (metis UnE set_append)
qed

text \<open>
  C20. A tier's concurrency limit holds: after a grant the tier has at most
  \<open>max_concurrent\<close> open leases, or as many as it already had, and exactly as many more
  as were handed out.
\<close>

theorem grant_within_max_concurrent:
  assumes "allocOK a" and "ledgerOK d" and "granted a now tier d gs d'" and "tierOf a tier = Some t"
  shows "CountOpenInTier (leases d') tier = CountOpenInTier (leases d) tier + int (length gs)
    \<and> (0 < t_maxConcurrent t \<longrightarrow>
        CountOpenInTier (leases d') tier \<le> max (CountOpenInTier (leases d) tier) (t_maxConcurrent t))"
proof -
  obtain want where b: "gs = [] \<and> d' = d \<or> boughtOn a now t want d gs d'"
    using granted_bought [OF assms(1,3)] assms(4) by (metis option.inject)
  have label: "t_label t = tier" using tierOf_label [OF assms(4)] by simp
  show ?thesis
  proof (cases "gs = [] \<and> d' = d")
    case False
    obtain room p where p: "headroomWithPlacer a d t = Inr (room, p)"
      "d' = addLeases (map fst gs) d" "int (length gs) \<le> max (min want room) 0"
      "\<forall>g \<in> set gs. placedBy a now t p g"
      using bought_writes [OF assms(1,2,4)] b False by metis
    have "isOpen (fst g) \<and> r_tier (fst g) = tier" if "g \<in> set gs" for g
      using p(4) that label by (auto simp: placedBy_def)
    then have "filter (\<lambda>r. isOpen r \<and> r_tier r = tier) (map fst gs) = map fst gs"
      by (auto simp: filter_id_conv)
    then have count: "CountOpenInTier (leases d') tier = CountOpenInTier (leases d) tier + int (length gs)"
      by (simp add: p(2) CountOpenInTier_def count_where_def)
    have "room \<le> max (t_maxConcurrent t - CountOpenInTier (leases d) tier) 0" if "0 < t_maxConcurrent t"
    proof -
      have "room = max (min (placerTotal p t) (t_maxConcurrent t - CountOpenInTier (leases d) (t_label t))) 0"
        using headroomWithPlacer_facts [OF assms(1,2) tierOf_OK [OF assms(1,4)] p(1)] that by metis
      then show ?thesis unfolding label by linarith
    qed
    then show ?thesis using count p(3) by linarith
  qed simp
qed

theorem grant_within_max_concurrent_witness:
  "\<exists>gs d'. EscrowFor sampleAlloc 100 ''big'' 3 samplePurchase sampleIds sampleLedger = Inr (gs, d')
     \<and> t_maxConcurrent bigTier = 3 \<and> length gs = 1
     \<and> CountOpenInTier (leases sampleLedger) ''big'' = 2 \<and> CountOpenInTier (leases d') ''big'' = 3"
proof -
  have "case EscrowFor sampleAlloc 100 ''big'' 3 samplePurchase sampleIds sampleLedger of
      Inl _ \<Rightarrow> False | Inr (gs, _) \<Rightarrow> gs \<noteq> []" by code_simp
  then obtain gs d' where e: "EscrowFor sampleAlloc 100 ''big'' 3 samplePurchase sampleIds sampleLedger = Inr (gs, d')"
    and l: "gs \<noteq> []" by (auto split: sum.splits)
  then have g: "granted sampleAlloc 100 ''big'' sampleLedger gs d'" unfolding granted_def by blast
  have t: "tierOf sampleAlloc ''big'' = Some bigTier" "t_maxConcurrent bigTier = 3"
    "CountOpenInTier (leases sampleLedger) ''big'' = 2" by code_simp+
  have "0 < int (length gs)" using l by simp
  moreover have "CountOpenInTier (leases d') ''big'' = 2 + int (length gs)" "CountOpenInTier (leases d') ''big'' \<le> 3"
    using grant_within_max_concurrent [OF sample_OK(1,2) g t(1)] t(2,3) by simp_all
  ultimately have "int (length gs) = 1" "CountOpenInTier (leases d') ''big'' = 3" by linarith+
  then show ?thesis using e t by auto
qed

section \<open>Where a grant is placed\<close>

lemma firstShape_covers:
  "firstShape p t shapes = Some c \<Longrightarrow> t_vcpu t \<le> c_vcpu c \<and> t_memory t \<le> c_memory c"
  by (induction shapes) (auto split: if_splits)

lemma nodeCost_covers: "nodeCost n t = Some c \<Longrightarrow> t_vcpu t \<le> c_vcpu c \<and> t_memory t \<le> c_memory c"
  using firstShape_covers by (auto simp: nodeCost_def split: if_splits)

lemma eligible_facts:
  assumes "eligible a t w n"
  shows "nr_provider n \<in> set (AcceptableProviders t)" and "t_node t = [] \<or> nr_name n = t_node t"
    and "t_site t = [] \<or> nr_site n = t_site t" and "allowsGuestOS a (nr_name n) (t_guestOS t)"
    and "t_arch t = [] \<or> t_arch t \<in> set (nr_architectures n)" and "w \<le> nr_wire n"
    and "NeedsEgressAwareNode t \<Longrightarrow> EgressWireVersion \<le> nr_wire n"
    and "nr_provider n = ProviderTart \<Longrightarrow> NamesTartVerified t \<Longrightarrow> TartVerifiedWireVersion \<le> nr_wire n"
  using assms by (auto simp: eligible_def split: if_splits)

lemma wireFloor_facts:
  assumes "wireFloor t \<le> w"
  shows "t_guestOS t = GuestWindows \<Longrightarrow> WindowsGuestsWireVersion \<le> w"
    and "NeedsCacheAwareNode t \<Longrightarrow> CacheAuthorityWireVersion \<le> w"
  using assms by (auto simp: wireFloor_def guestWireFloor_def split: if_splits)

lemma nodeRowFrom_row:
  "nodeRowFrom row = Inr n \<Longrightarrow>
     n_site row = nr_site n \<and> n_wireVersion row = nr_wire n \<and> SplitArchs (n_architectures row) = Inr (nr_architectures n)"
  by (auto simp: nodeRowFrom_def split: sum.splits)

lemma headroom_cost:
  assumes "headroomWithPlacer a d t = Inr (room, p)" and "p_cost p h = Some c"
  shows "\<exists>n \<in> set (p_order p). nr_name n = h \<and> nodeCost n t = Some c"
proof -
  obtain f where f: "fleetResources a d = Inr f"
    using assms(1) by (cases "fleetResources a d") (simp_all add: headroomWithPlacer_def placerWithFloors_def)
  obtain floors g where g: "reserveFloors a d (t_label t) f (0, 0) = (floors, g)" by (rule prod.exhaust)
  obtain x y z where "Inr (z, (forTier g a t)\<lparr>p_deploymentVCPU := x, p_deploymentMemory := y\<rparr>) =
      (Inr (room, p) :: (int \<times> placer) result)"
    using assms(1) unfolding headroomWithPlacer_def placerWithFloors_def f g sum.case prod.case Let_def by blast
  then have "p = (forTier g a t)\<lparr>p_deploymentVCPU := x, p_deploymentMemory := y\<rparr>" by simp
  then have "p_cost p = p_cost (forTier g a t)" "p_order p = p_order (forTier g a t)" by simp_all
  then show ?thesis
    using assms(2) rowOf_mem
    by (fastforce simp: forTier_def Let_def split: option.splits)
qed

lemma granted_row:
  assumes "allocOK a" and "ledgerOK d" and "granted a now tier d gs d'" and "tierOf a tier = Some t"
    and "g \<in> set gs"
  obtains node n where "node \<in> set (nodes d)" "n_live node" "\<not> n_drained node" "nodeRowFrom node = Inr n"
    "eligible a t (wireFloor t) n" "r_target (fst g) = Some (n_name node)"
    "t_vcpu t \<le> r_vcpu (fst g)" "t_memory t \<le> r_memory (fst g)"
proof -
  obtain want where "gs = [] \<and> d' = d \<or> boughtOn a now t want d gs d'"
    using granted_bought [OF assms(1,3)] assms(4) by (metis option.inject)
  then obtain room p where p: "headroomWithPlacer a d t = Inr (room, p)" "placedBy a now t p g"
    using bought_writes [OF assms(1,2,4)] assms(5) by (metis empty_iff empty_set)
  obtain h c i where g: "p_cost p h = Some c" "g = (newLease a now t h (siteOf p h) c i, p_rank p h)"
    using p(2) by (auto simp: placedBy_def)
  obtain n where n: "n \<in> set (p_order p)" "nr_name n = h" "nodeCost n t = Some c"
    using headroom_cost [OF p(1) g(1)] by blast
  obtain f where f: "fleetResources a d = Inr f" "p_order p = eligibleFrom a (f_rows f) t (wireFloor t)"
    using headroomWithPlacer_facts [OF assms(1,2) tierOf_OK [OF assms(1,4)] p(1)] by metis
  have e: "eligible a t (wireFloor t) n" "n \<in> set (f_rows f)" using n(1) f(2) by (simp_all add: eligibleFrom_def)
  obtain row where row: "row \<in> set (nodes d)" "n_live row" "\<not> n_drained row" "nodeRowFrom row = Inr n"
    using liveNodes_names(3) [OF assms(2) fleetResources_fields(1) [OF f(1)] e(2)] by blast
  have "h \<noteq> []" using n(2) assms(2) row(1) nodeRowFrom_fields(1) [OF row(4)] by (auto simp: ledgerOK_def)
  then have "r_target (fst g) = Some (n_name row)"
    using nodeRowFrom_fields(1) [OF row(4)] n(2) by (simp add: g(2) newLease_def)
  then show ?thesis using that [OF row e(1)] nodeCost_covers [OF n(3)] by (simp add: g(2) newLease_def)
qed

lemma granted_placed:
  assumes "allocOK a" and "ledgerOK d" and "granted a now tier d gs d'" and "tierOf a tier = Some t"
    and "g \<in> set gs"
  shows "\<exists>node \<in> set (nodes d). r_target (fst g) = Some (n_name node) \<and> n_live node \<and> \<not> n_drained node
     \<and> allowsGuestOS a (n_name node) (t_guestOS t) \<and> t_vcpu t \<le> r_vcpu (fst g) \<and> t_memory t \<le> r_memory (fst g)"
  using granted_row [OF assms] eligible_facts(4) nodeRowFrom_fields(1) by metis

text \<open>
  C19. Every granted lease names a machine that may run it, by every condition the allocator
  knows: a registered node that is live and not drained, of a provider the tier accepts, at
  the tier's pinned node and site where it pins one, with a policy that admits the tier's
  guest operating system, reporting the tier's architecture where it names one, and speaking
  a protocol recent enough for each thing the tier needs of it: Windows guests, the cache
  authority, filtered egress and, on Tart, verified images. What is charged covers what the
  tier asks, in both dimensions.
\<close>

theorem grant_placed:
  assumes "allocOK a" and "ledgerOK d" and "granted a now tier d gs d'" and "tierOf a tier = Some t"
    and "g \<in> set gs"
  shows "\<exists>node \<in> set (nodes d). r_target (fst g) = Some (n_name node) \<and> n_live node \<and> \<not> n_drained node
     \<and> n_provider node \<in> set (AcceptableProviders t) \<and> (t_node t = [] \<or> n_name node = t_node t)
     \<and> (t_site t = [] \<or> n_site node = t_site t) \<and> allowsGuestOS a (n_name node) (t_guestOS t)
     \<and> (t_arch t = [] \<or> (\<exists>archs. SplitArchs (n_architectures node) = Inr archs \<and> t_arch t \<in> set archs))
     \<and> (t_guestOS t = GuestWindows \<longrightarrow> WindowsGuestsWireVersion \<le> n_wireVersion node)
     \<and> (NeedsCacheAwareNode t \<longrightarrow> CacheAuthorityWireVersion \<le> n_wireVersion node)
     \<and> (NeedsEgressAwareNode t \<longrightarrow> EgressWireVersion \<le> n_wireVersion node)
     \<and> (n_provider node = ProviderTart \<and> NamesTartVerified t \<longrightarrow> TartVerifiedWireVersion \<le> n_wireVersion node)
     \<and> t_vcpu t \<le> r_vcpu (fst g) \<and> t_memory t \<le> r_memory (fst g)"
proof -
  obtain node n where node: "node \<in> set (nodes d)" "n_live node" "\<not> n_drained node" "nodeRowFrom node = Inr n"
    "eligible a t (wireFloor t) n" "r_target (fst g) = Some (n_name node)"
    "t_vcpu t \<le> r_vcpu (fst g)" "t_memory t \<le> r_memory (fst g)"
    by (rule granted_row [OF assms])
  note row = nodeRowFrom_row [OF node(4)] nodeRowFrom_fields(1,4) [OF node(4)]
  show ?thesis
    using node(1-3,6-8) row eligible_facts [OF node(5)] wireFloor_facts [OF eligible_facts(6) [OF node(5)]]
    by (intro bexI [OF _ node(1)]) auto
qed

text \<open>
  A tier that names an architecture and filters egress, asked of a fleet in which one host
  has another architecture and one speaks a protocol too old to filter.
\<close>

definition strictTier :: Tier where
  "strictTier = smallTier\<lparr>t_arch := ArchX64, t_egress := True\<rparr>"

definition strictAlloc :: Allocator where
  "strictAlloc = sampleAlloc\<lparr>a_tiers := [strictTier], a_namesArch := True\<rparr>"

definition mixedLedger :: Ledger where
  "mixedLedger = sampleLedger\<lparr>nodes :=
     [(sampleNode ''arm'' ProviderFirecracker 16 64)\<lparr>n_architectures := ''arm64''\<rparr>,
      (sampleNode ''old'' ProviderFirecracker 16 64)\<lparr>n_wireVersion := 39\<rparr>,
      sampleNode ''alpha'' ProviderFirecracker 16 64]\<rparr>"

lemma strict_OK: "allocOK strictAlloc" "ledgerOK mixedLedger" "tierOf strictAlloc ''small'' = Some strictTier"
  by (simp_all add: strictAlloc_def strictTier_def mixedLedger_def sample_defs allocOK_def ledgerOK_def tierOf_def)

theorem grant_placed_witness:
  "\<exists>gs d'. granted strictAlloc 100 ''small'' mixedLedger gs d' \<and> length gs = 2
     \<and> r_target (fst (hd gs)) = Some ''alpha''"
proof -
  have "case EscrowFor strictAlloc 100 ''small'' 2 samplePurchase sampleIds mixedLedger of
      Inl _ \<Rightarrow> False | Inr (gs, _) \<Rightarrow> length gs = 2" by code_simp
  then obtain gs d' where "EscrowFor strictAlloc 100 ''small'' 2 samplePurchase sampleIds mixedLedger = Inr (gs, d')"
    and l: "length gs = 2" by (auto split: sum.splits)
  then have g: "granted strictAlloc 100 ''small'' mixedLedger gs d'" unfolding granted_def by blast
  have "hd gs \<in> set gs" using l by (cases gs) auto
  note placed = grant_placed [OF strict_OK(1,2) g strict_OK(3) this]
  have "NeedsEgressAwareNode strictTier" "t_arch strictTier = ArchX64" "ArchX64 \<noteq> []"
    "SplitArchs ''arm64'' = Inr [ArchARM64]" "ArchX64 \<noteq> ArchARM64" by code_simp+
  then have "r_target (fst (hd gs)) = Some ''alpha''"
    using placed by (auto simp: mixedLedger_def sampleNode_def EgressWireVersion_def)
  then show ?thesis using g l by blast
qed

section \<open>The seal and the waiters\<close>

text \<open>
  C21. A sealed deployment admits nothing, and says so: while admission is not open (sealed,
  or not readable) a reservation and a purchase of a known tier are refused with
  \<open>ErrAdmissionSealed\<close> before any room is measured, so a drain never looks like a full
  fleet.
\<close>

theorem sealed_refuses:
  assumes "admission d \<noteq> AdmissionOpen" and "tierOf a tier = Some t" and "0 < want"
  shows "EscrowFor a now tier want purchase ids d = Inl ErrAdmissionSealed
    \<and> Reserve a now tier (ids 0) d = Inl ErrAdmissionSealed"
proof -
  obtain n where n: "nat want = Suc n" using assms(3) by (cases "nat want") auto
  show ?thesis
    using assms by (simp add: EscrowFor_def n escrow_def refuseIfSealed_def Reserve_def)
qed

theorem sealed_refuses_witness:
  "EscrowFor sampleAlloc 100 ''small'' 1 samplePurchase sampleIds (sampleLedger\<lparr>admission := AdmissionSealed\<rparr>)
     = Inl ErrAdmissionSealed"
  using sealed_refuses [of "sampleLedger\<lparr>admission := AdmissionSealed\<rparr>" sampleAlloc "''small''" smallTier 1
      100 samplePurchase sampleIds] sample_OK(3) by simp

lemma guardedHaveRoom_each:
  "guardedHaveRoom a d gs av short = Inr () \<Longrightarrow> w \<in> set gs \<Longrightarrow>
   \<exists>n \<ge> 1. roomOf a d w (av (t_label w)) = Inr n"
  by (induction gs) (auto split: sum.splits if_splits)

lemma escrow_guards:
  assumes "escrow a now t want guarded kept av ids d = Inr (gs, d')" and "gs \<noteq> []" and "w \<in> set guarded"
  shows "(\<exists>n \<ge> 1. roomOf a d w (av (t_label w)) = Inr n) \<and> (\<exists>n \<ge> 1. roomOf a d' w (av (t_label w)) = Inr n)"
proof -
  have "guardedHaveRoom a d guarded av errWaiterShortNow = Inr ()"
    "guardedHaveRoom a d' guarded av errWaiterLeftShort = Inr ()"
    using assms(1,2)
    by (auto simp: escrow_def readBack_def split: sum.splits if_splits prod.splits)
  then show ?thesis using guardedHaveRoom_each assms(3) by blast
qed

lemma escrowTries_guards:
  assumes "escrowTries a now t n guarded kept av ids d = Inr (gs, d')" and "gs \<noteq> []" and "w \<in> set guarded"
  shows "(\<exists>n \<ge> 1. roomOf a d w (av (t_label w)) = Inr n) \<and> (\<exists>n \<ge> 1. roomOf a d' w (av (t_label w)) = Inr n)"
  using assms(1)
proof (induction n)
  case (Suc n)
  show ?case
  proof (cases "escrow a now t (int (Suc n)) guarded kept av (ids (Suc n)) d")
    case (Inl e)
    then show ?thesis using Suc assms(2) by (simp split: if_splits)
  next
    case (Inr r)
    then show ?thesis using Suc.prems by (intro escrow_guards [OF _ assms(2,3)]) simp
  qed
qed (use assms(2) in simp)

text \<open>
  C17. A purchase ahead of its turn leaves every waiter it must protect a lease: whenever it
  buys anything, each protected tier could have been granted at least one lease before it,
  and can still be granted at least one, off the hosts held against it, in the ledger the
  purchase commits.
\<close>

theorem purchase_leaves_waiters_room:
  assumes "EscrowFor a now tier want purchase ids d = Inr (gs, d')" and "gs \<noteq> []"
    and "label \<in> set (pu_protect purchase)" and "label \<noteq> tier" and "tierOf a label = Some w"
  shows "(\<exists>n \<ge> 1. roomOf a d w (pu_avoid purchase label) = Inr n)
    \<and> (\<exists>n \<ge> 1. roomOf a d' w (pu_avoid purchase label) = Inr n)"
proof -
  obtain t where "escrowTries a now t (nat want) (otherTiers a tier (pu_protect purchase))
      (otherTiers a tier (pu_keep purchase)) (pu_avoid purchase) ids d = Inr (gs, d')"
    using assms(1) by (auto simp: EscrowFor_def split: if_splits option.splits)
  moreover have "w \<in> set (otherTiers a tier (pu_protect purchase))"
    using assms(3-5) by (force simp: otherTiers_def split: option.splits)
  ultimately show ?thesis
    using escrowTries_guards [OF _ assms(2)] tierOf_label [OF assms(5)] by metis
qed

theorem purchase_leaves_waiters_room_witness:
  "\<exists>gs d'. EscrowFor sampleAlloc 100 ''small'' 3 samplePurchase sampleIds sampleLedger = Inr (gs, d')
     \<and> length gs = 3 \<and> (\<exists>n \<ge> 1. roomOf sampleAlloc d' macTier [] = Inr n)"
proof -
  obtain gs d' where g: "EscrowFor sampleAlloc 100 ''small'' 3 samplePurchase sampleIds sampleLedger = Inr (gs, d')"
    "length gs = 3" using sample_buys by blast
  have "gs \<noteq> []" "''mac'' \<in> set (pu_protect samplePurchase)" "''mac'' \<noteq> ''small''"
    using g(2) by (auto simp: samplePurchase_def)
  from purchase_leaves_waiters_room [OF g(1) this sample_OK(4)] show ?thesis
    using g by (auto simp: samplePurchase_def)
qed

section \<open>A purchase takes what fits\<close>

lemma buyLoop_takes:
  assumes "placerOK p" and "int n \<le> fst (placeAll p t)" and "admission d = AdmissionOpen"
    and "n \<le> length ids" and "distinct ids" and "set ids \<inter> set (map r_id (leases d)) = {}"
  shows "\<exists>gs d'. buyLoop a now t n p ids d = Inr (gs, d') \<and> length gs = n"
  using assms
proof (induction n arbitrary: p ids d)
  case (Suc n)
  have "candidates p t \<noteq> {}" using Suc.prems(1,2) placeAll_none by fastforce
  let ?h = "bestHost p t" and ?q = "spend p (bestHost p t) t"
  have x: "placerNext p t = Some (?h, costOf p ?h, ?q)"
    using Suc.prems(1) \<open>candidates p t \<noteq> {}\<close> by (simp add: placerNext_best bestHost_empty)
  have q: "int n \<le> fst (placeAll ?q t)"
    using placeAll_some [OF Suc.prems(1) \<open>candidates p t \<noteq> {}\<close>] Suc.prems(2) by simp
  obtain i rest where ids: "ids = i # rest" using Suc.prems(4) by (cases ids) auto
  let ?row = "newLease a now t ?h (siteOf ?q ?h) (costOf p ?h) i"
  have ins: "insertLease a now t ?h (siteOf ?q ?h) (costOf p ?h) (p_rank ?q ?h) ids d =
      Inr ((?row, p_rank ?q ?h), rest, addLeases [?row] d)"
    using Suc.prems(3,6) ids by (auto simp: insertLease_Inr)
  have "set rest \<inter> set (map r_id (leases (addLeases [?row] d))) = {}" using Suc.prems(5,6) ids by auto
  then obtain gs d' where "buyLoop a now t n ?q rest (addLeases [?row] d) = Inr (gs, d')" "length gs = n"
    using Suc.IH [of ?q "addLeases [?row] d" rest] Suc.prems q ids by auto
  then show ?case using x ins by simp
qed simp

text \<open>
  C13. \<open>Escrow\<close> grants exactly what it says: with admission open and enough fresh ids, a
  purchase of a tier with no waiter to protect succeeds and hands out exactly the smaller of
  what was asked and the tier's headroom. The count of leases returned, which is what a
  listener advertises, is never short of the room that was there and never over it.
\<close>

theorem Escrow_takes_headroom:
  assumes "allocOK a" and "ledgerOK d" and "admission d = AdmissionOpen"
    and "Headroom a d tier = Inr n" and "0 \<le> want"
    and "distinct (ids (nat want))" and "want \<le> int (length (ids (nat want)))"
    and "set (ids (nat want)) \<inter> set (map r_id (leases d)) = {}"
  shows "\<exists>gs d'. Escrow a now tier want ids d = Inr (gs, d') \<and> int (length gs) = min want n"
proof -
  obtain t where t: "tierOf a tier = Some t" and n: "headroom a d t = Inr n"
    using assms(4) by (cases "tierOf a tier") (simp_all add: Headroom_def)
  obtain p where p: "headroomWithPlacer a d t = Inr (n, p)"
    using n by (auto simp: headroom_def split: sum.splits)
  obtain ok: "placerOK p" and total: "n = max (if 0 < t_maxConcurrent t
              then min (placerTotal p t) (t_maxConcurrent t - CountOpenInTier (leases d) (t_label t))
              else placerTotal p t) 0"
    using headroomWithPlacer_facts [OF assms(1,2) tierOf_OK [OF assms(1) t] p] by metis
  have n0: "0 \<le> n" unfolding total by simp
  show ?thesis
  proof (cases "nat want")
    case 0
    then show ?thesis using assms(5) t n0 by (simp add: Escrow_def EscrowLeaving_def EscrowFor_def)
  next
    case (Suc k)
    have "int (nat (min want n)) \<le> fst (placeAll p t)"
    proof -
      have "placerTotal p t = fst (placeAll p t)" "0 \<le> placerTotal p t"
        using placerTotal_places [OF ok, of t] by blast+
      then show ?thesis using total assms(5) n0 by (simp split: if_splits)
    qed
    moreover have "nat (min want n) \<le> length (ids (nat want))" using assms(7) by linarith
    ultimately obtain gs d' where b: "buyLoop a now t (nat (min want n)) p (ids (nat want)) d = Inr (gs, d')"
      and l: "length gs = nat (min want n)"
      using buyLoop_takes [OF ok _ assms(3) _ assms(6,8)] by metis
    have w: "int (Suc k) = want" using Suc assms(5) by linarith
    have "escrow a now t want [] [] (\<lambda>_. []) (ids (nat want)) d = Inr (gs, d')"
      using p b assms(3) w by (simp add: escrow_def refuseIfSealed_def placerAvoiding_def readBack_def)
    then have "Escrow a now tier want ids d = Inr (gs, d')"
      using t w assms(5) Suc
      by (simp add: Escrow_def EscrowLeaving_def EscrowFor_def otherTiers_def del: of_nat_Suc)
    then show ?thesis using l assms(5) n0 by simp
  qed
qed

theorem Escrow_takes_headroom_witness:
  "\<exists>gs d'. Escrow sampleAlloc 100 ''small'' 4 sampleIds sampleLedger = Inr (gs, d') \<and> length gs = 4"
proof -
  have h: "Headroom sampleAlloc sampleLedger ''small'' = Inr 6" by code_simp
  have "\<exists>gs d'. Escrow sampleAlloc 100 ''small'' 4 sampleIds sampleLedger = Inr (gs, d') \<and> int (length gs) = min 4 6"
    by (rule Escrow_takes_headroom [OF sample_OK(1,2) _ h])
       (simp_all add: sampleIds_def sampleLedger_def sampleLease_def)
  then show ?thesis by simp
qed

end
