(* ===== verification/Resize.thy ===== *)
theory Resize
  imports Grants Lease_Safety
begin

text \<open>
  Changing the shape a remote lease buys: \<open>Resize\<close>, \<open>ResizeLeaving\<close> and
  \<open>resizeRefused\<close> of \<open>internal/alloc/alloc.go\<close>. A fallback to a larger shape is a
  purchase of the difference, so it is judged against every limit a grant is judged
  against, as if the current shape had first been returned.
\<close>

section \<open>The operation\<close>

definition resizeRefused :: "err \<Rightarrow> err" where
  "resizeRefused e = (if e = errWaiterLeftShort then ErrNoCapacity else e)"

text \<open>The shape the node registered under this name at this size.\<close>

definition declaredShape :: "RemoteShape list \<Rightarrow> string \<Rightarrow> int \<Rightarrow> int \<Rightarrow> RemoteShape option" where
  "declaredShape shapes instanceType vcpu memory =
     find (\<lambda>s. s_type s = instanceType \<and> s_vcpu s = vcpu \<and> s_memory s = memory) shapes"

text \<open>An EC2 fallback keeps the tier's architecture; an unknown tier's cannot be told.\<close>

definition crossesArch :: "Allocator \<Rightarrow> LeaseRow \<Rightarrow> Arch \<Rightarrow> bool" where
  "crossesArch a l arch \<longleftrightarrow> r_chosenProvider l = ProviderEC2 \<and>
     (case tierOf a (r_tier l) of
        None \<Rightarrow> a_namesArch a
      | Some tier \<Rightarrow> t_arch tier \<noteq> [] \<and> arch \<noteq> t_arch tier)"

text \<open>The fleet with the lease's current shape returned to its host.\<close>

definition returnShape :: "LeaseRow \<Rightarrow> fleet \<Rightarrow> fleet" where
  "returnShape l f =
     f\<lparr>f_vcpu := (f_vcpu f)(leaseNode l := f_vcpu f (leaseNode l) + r_vcpu l),
       f_memory := (f_memory f)(leaseNode l := f_memory f (leaseNode l) + r_memory l)\<rparr>"

definition shapeFits :: "Allocator \<Rightarrow> Ledger \<Rightarrow> LeaseRow \<Rightarrow> NodeRow \<Rightarrow> int \<Rightarrow> int \<Rightarrow> bool result" where
  "shapeFits a d l n vcpu memory =
     (case fleetResources a d of
        Inl x \<Rightarrow> Inl x
      | Inr f \<Rightarrow>
          (let used = TotalUsage (leases d);
               (floors, free) = reserveFloors a d (r_tier l) (returnShape l f) (r_vcpu l, r_memory l);
               deploymentVCPU = l_maxVCPU (a_limits a) - (u_vcpu used - r_vcpu l) - fc_vcpu floors;
               deploymentMemory = l_maxMemory (a_limits a) - (u_memory used - r_memory l) - fc_memory floors;
               share = shareRoomFor a d (r_tier l) (r_vcpu l, r_memory l) floors
           in Inr (vcpu \<le> f_vcpu free (leaseNode l) \<and> memory \<le> f_memory free (leaseNode l)
                 \<and> vcpu \<le> deploymentVCPU \<and> memory \<le> deploymentMemory
                 \<and> vcpu \<le> fst share \<and> memory \<le> snd share
                 \<and> vcpu \<le> n_vcpu n \<and> memory \<le> n_memory n)))"

definition ResizeLeaving ::
  "Allocator \<Rightarrow> string \<Rightarrow> int \<Rightarrow> int \<Rightarrow> string list \<Rightarrow> string \<Rightarrow> int \<Rightarrow> Ledger \<Rightarrow> Ledger result" where
  "ResizeLeaving a instanceType vcpu memory protect i e d =
     (case load d i e of
        Inl x \<Rightarrow> Inl x
      | Inr l \<Rightarrow>
          if r_phase l \<noteq> PhaseLaunching then Inl ErrBadTransition
          else if RunsOnHost (r_chosenProvider l) \<or> \<not> ProviderValid (r_chosenProvider l) \<or> leaseNode l = []
          then Inl ErrWrongProvider
          else (case findNode d (leaseNode l) of
            None \<Rightarrow> Inl ErrStore
          | Some n \<Rightarrow>
              (case decodeRemoteShapes (r_chosenProvider l) (n_shapes n) of
                 Inl x \<Rightarrow> Inl x
               | Inr shapes \<Rightarrow>
                   (case declaredShape shapes instanceType vcpu memory of
                      None \<Rightarrow> Inl ErrNotPlaceable
                    | Some shape \<Rightarrow>
                        if vcpu < r_requestedVCPU l \<or> memory < r_requestedMemory l then Inl ErrNotPlaceable
                        else if r_instanceType l = instanceType \<and> r_vcpu l = vcpu \<and> r_memory l = memory
                        then Inr d
                        else if crossesArch a l (s_arch shape) then Inl ErrNoCapacity
                        else (case shapeFits a d l n vcpu memory of
                                Inl x \<Rightarrow> Inl x
                              | Inr False \<Rightarrow> Inl ErrNoCapacity
                              | Inr True \<Rightarrow>
                                  (let guarded = (if r_vcpu l < vcpu \<or> r_memory l < memory
                                                  then otherTiers a (r_tier l) protect else []);
                                       d' = ResizeLease vcpu memory instanceType (s_price shape) i e d
                                   in case guardedHaveRoom a d' guarded (\<lambda>_. []) errWaiterLeftShort of
                                        Inl x \<Rightarrow> Inl (resizeRefused x)
                                      | Inr _ \<Rightarrow> Inr d'))))))"

definition Resize ::
  "Allocator \<Rightarrow> string \<Rightarrow> int \<Rightarrow> int \<Rightarrow> string \<Rightarrow> int \<Rightarrow> Ledger \<Rightarrow> Ledger result" where
  "Resize a instanceType vcpu memory = ResizeLeaving a instanceType vcpu memory []"

interpretation resize: fenced "\<lambda>_. True" "ResizeLeaving a instanceType vcpu memory protect"
  for a instanceType vcpu memory protect
  by unfold_locales (simp_all add: ResizeLeaving_def fence_rules)

section \<open>What a resize that changes the ledger has proved\<close>

lemma ResizeLeaving_changes:
  assumes "ResizeLeaving a instanceType vcpu memory protect i e d = Inr d'" and "d' \<noteq> d"
  obtains l n price where "load d i e = Inr l" "findNode d (leaseNode l) = Some n" "r_phase l = PhaseLaunching"
    "leaseNode l \<noteq> []" "shapeFits a d l n vcpu memory = Inr True"
    "d' = ResizeLease vcpu memory instanceType price i e d"
    "r_requestedVCPU l \<le> vcpu" "r_requestedMemory l \<le> memory"
    "r_vcpu l < vcpu \<or> r_memory l < memory \<Longrightarrow>
       guardedHaveRoom a d' (otherTiers a (r_tier l) protect) (\<lambda>_. []) errWaiterLeftShort = Inr ()"
    "\<exists>s \<in> set (n_shapes n). s_type s = instanceType \<and> s_vcpu s = vcpu \<and> s_memory s = memory"
proof -
  obtain l where l: "load d i e = Inr l" using assms by (cases "load d i e") (simp_all add: ResizeLeaving_def)
  then obtain n shapes shape where s: "r_phase l = PhaseLaunching" "leaseNode l \<noteq> []"
    "findNode d (leaseNode l) = Some n" "decodeRemoteShapes (r_chosenProvider l) (n_shapes n) = Inr shapes"
    "declaredShape shapes instanceType vcpu memory = Some shape"
    using assms by (auto simp: ResizeLeaving_def split: if_splits option.splits sum.splits)
  have "set shapes = set (n_shapes n)" using s(4) by (auto simp: decodeRemoteShapes_def split: if_splits)
  then have "\<exists>s \<in> set (n_shapes n). s_type s = instanceType \<and> s_vcpu s = vcpu \<and> s_memory s = memory"
    using s(5) by (fastforce simp: declaredShape_def find_Some_iff in_set_conv_nth)
  moreover have "shapeFits a d l n vcpu memory = Inr True" "d' = ResizeLease vcpu memory instanceType (s_price shape) i e d"
    "r_requestedVCPU l \<le> vcpu" "r_requestedMemory l \<le> memory"
    "r_vcpu l < vcpu \<or> r_memory l < memory \<Longrightarrow>
       guardedHaveRoom a d' (otherTiers a (r_tier l) protect) (\<lambda>_. []) errWaiterLeftShort = Inr ()"
    using assms l s by (auto simp: ResizeLeaving_def Let_def split: if_splits sum.splits bool.splits)
  ultimately show ?thesis using that [OF l s(3,1,2)] by blast
qed

lemma ResizeLeaving_positive:
  assumes "ResizeLeaving a instanceType vcpu memory protect i e d = Inr d'" and "d' \<noteq> d"
  shows "0 < vcpu \<and> 0 < memory"
proof -
  obtain l where l: "load d i e = Inr l" using assms by (cases "load d i e") (simp_all add: ResizeLeaving_def)
  then obtain n shapes shape where s: "decodeRemoteShapes (r_chosenProvider l) (n_shapes n) = Inr shapes"
    "findNode d (leaseNode l) = Some n" "declaredShape shapes instanceType vcpu memory = Some shape"
    using assms by (auto simp: ResizeLeaving_def split: if_splits option.splits sum.splits)
  have "shape \<in> set shapes" "s_vcpu shape = vcpu" "s_memory shape = memory"
    using s(3) by (auto simp: declaredShape_def find_Some_iff)
  moreover have "CheckRemoteShapes (r_chosenProvider l) shapes" if "shapes \<noteq> []"
    using s(1) that by (auto simp: decodeRemoteShapes_def split: if_splits)
  ultimately show ?thesis using CheckRemoteShapes_positive by (metis empty_iff empty_set)
qed

text \<open>The limits the new shape was held to, floors deducted.\<close>

lemma shapeFits_limits:
  assumes "allocOK a" and "ledgerOK d" and "shapeFits a d l n vcpu memory = Inr True"
    and "findNode d (leaseNode l) = Some n"
  shows "u_vcpu (TotalUsage (leases d)) - r_vcpu l + vcpu \<le> l_maxVCPU (a_limits a)"
    and "u_memory (TotalUsage (leases d)) - r_memory l + memory \<le> l_maxMemory (a_limits a)"
    and "vcpu \<le> max (r_vcpu l) (n_vcpu n - nu_vcpu (usageOfHost (leases d) (leaseNode l)) + r_vcpu l)"
    and "memory \<le> max (r_memory l) (n_memory n - nu_memory (usageOfHost (leases d) (leaseNode l)) + r_memory l)"
    and "\<exists>floors. chargesGrow noFloors floors
       \<and> vcpu \<le> fst (shareRoomFor a d (r_tier l) (r_vcpu l, r_memory l) floors)
       \<and> memory \<le> snd (shareRoomFor a d (r_tier l) (r_vcpu l, r_memory l) floors)"
proof -
  let ?h = "leaseNode l"
  obtain f where f: "fleetResources a d = Inr f"
    using assms(3) by (cases "fleetResources a d") (simp_all add: shapeFits_def)
  obtain floors g where g: "reserveFloors a d (r_tier l) (returnShape l f) (r_vcpu l, r_memory l) = (floors, g)"
    by (cases "reserveFloors a d (r_tier l) (returnShape l f) (r_vcpu l, r_memory l)") auto
  note live = fleetResources_fields(1) [OF f]
  have "rowsOK (f_rows (returnShape l f))" using rowsOK_live [OF assms(2) live] by (simp add: returnShape_def)
  from reserveFloors_holds [OF this assms(1) g] have held: "heldFrom (returnShape l f) g" "chargesGrow noFloors floors"
    by simp_all
  have fits: "vcpu \<le> f_vcpu g ?h" "memory \<le> f_memory g ?h"
    "vcpu \<le> l_maxVCPU (a_limits a) - (u_vcpu (TotalUsage (leases d)) - r_vcpu l) - fc_vcpu floors"
    "memory \<le> l_maxMemory (a_limits a) - (u_memory (TotalUsage (leases d)) - r_memory l) - fc_memory floors"
    "vcpu \<le> fst (shareRoomFor a d (r_tier l) (r_vcpu l, r_memory l) floors)"
    "memory \<le> snd (shareRoomFor a d (r_tier l) (r_vcpu l, r_memory l) floors)"
    using assms(3) by (simp_all add: shapeFits_def f g Let_def del: TotalUsage_sel)
  have "0 \<le> fc_vcpu floors" "0 \<le> fc_memory floors" using held(2) by (simp_all add: chargesGrow_def noFloors_def)
  then show "u_vcpu (TotalUsage (leases d)) - r_vcpu l + vcpu \<le> l_maxVCPU (a_limits a)"
    "u_memory (TotalUsage (leases d)) - r_memory l + memory \<le> l_maxMemory (a_limits a)"
    using fits(3,4) by linarith+
  have "f_vcpu g ?h \<le> f_vcpu f ?h + r_vcpu l" "f_memory g ?h \<le> f_memory f ?h + r_memory l"
    using held(1) unfolding heldFrom_def returnShape_def by (auto dest!: spec [of _ ?h])
  moreover have "f_vcpu f ?h \<le> max 0 (n_vcpu n - nu_vcpu (usageOfHost (leases d) ?h))
      \<and> f_memory f ?h \<le> max 0 (n_memory n - nu_memory (usageOfHost (leases d) ?h))"
  proof (cases "rowOf (f_rows f) ?h")
    case None
    then show ?thesis by (simp add: fleetResources_fields(2,3) [OF f] del: usageOfHost_sel)
  next
    case (Some m)
    obtain row where row: "row \<in> set (nodes d)" "nodeRowFrom row = Inr m"
      using liveNodes_names(3) [OF assms(2) live] rowOf_mem [OF Some] by blast
    note same = nodeRowFrom_fields(1-3) [OF row(2)]
    then have "row = n"
      using findNode_distinct [OF assms(2) row(1)] assms(4) rowOf_mem [OF Some] by simp
    then show ?thesis using same by (simp add: fleetResources_fields(2,3) [OF f] Some del: usageOfHost_sel)
  qed
  ultimately show "vcpu \<le> max (r_vcpu l) (n_vcpu n - nu_vcpu (usageOfHost (leases d) ?h) + r_vcpu l)"
    "memory \<le> max (r_memory l) (n_memory n - nu_memory (usageOfHost (leases d) ?h) + r_memory l)"
    using fits(1,2) by linarith+
  show "\<exists>floors. chargesGrow noFloors floors
       \<and> vcpu \<le> fst (shareRoomFor a d (r_tier l) (r_vcpu l, r_memory l) floors)
       \<and> memory \<le> snd (shareRoomFor a d (r_tier l) (r_vcpu l, r_memory l) floors)"
    using held(2) fits(5,6) by blast
qed

lemma shareRoomFor_returned:
  assumes "tierOf a label = Some t" and "map_of (l_shares (a_limits a)) (ShareTarget t) = Some share"
    and "chargesGrow noFloors floors"
  shows "0 < ts_vcpu share \<Longrightarrow> fst (shareRoomFor a d label (v, m) floors)
      \<le> ts_vcpu share - sum_where (countsFor a (ShareTarget t)) r_vcpu (leases d) + v"
    and "0 < ts_memory share \<Longrightarrow> snd (shareRoomFor a d label (v, m) floors)
      \<le> ts_memory share - sum_where (countsFor a (ShareTarget t)) r_memory (leases d) + m"
proof -
  have c: "0 \<le> fst (fc_byTarget floors (ShareTarget t))" "0 \<le> snd (fc_byTarget floors (ShareTarget t))"
    using assms(3) by (simp_all add: chargesGrow_def noFloors_def)
  note used = readShareUsage_sum [OF assms(2), of "leases d"]
  show "0 < ts_vcpu share \<Longrightarrow> fst (shareRoomFor a d label (v, m) floors)
      \<le> ts_vcpu share - sum_where (countsFor a (ShareTarget t)) r_vcpu (leases d) + v"
    using c(1) used(1) by (simp add: shareRoomFor_def roomForTier_def assms(1,2) roomAfterFloors_def shareRoom_def Let_def)
  show "0 < ts_memory share \<Longrightarrow> snd (shareRoomFor a d label (v, m) floors)
      \<le> ts_memory share - sum_where (countsFor a (ShareTarget t)) r_memory (leases d) + m"
    using c(2) used(2) by (simp add: shareRoomFor_def roomForTier_def assms(1,2) roomAfterFloors_def shareRoom_def Let_def)
qed

text \<open>A resize moves a sum by the difference of the two shapes, where the row counts.\<close>

lemma ResizeLease_sum:
  assumes "ledgerOK d" and "load d i e = Inr l"
    and "\<And>r v m it p. P (r\<lparr>r_vcpu := v, r_memory := m, r_instanceType := it, r_price := p\<rparr>) = P r" and "P l"
  shows "sum_where P r_vcpu (leases (ResizeLease v m it p i e d)) = sum_where P r_vcpu (leases d) - r_vcpu l + v"
    and "sum_where P r_memory (leases (ResizeLease v m it p i e d)) = sum_where P r_memory (leases d) - r_memory l + m"
proof -
  have l: "l \<in> set (leases d)" "r_id l = i" "r_epoch l = e"
    using assms(2) findLease_Some by (auto simp: load_Inr)
  have dist: "distinct (map r_id (leases d))" using assms(1) by (simp add: ledgerOK_def)
  show "sum_where P r_vcpu (leases (ResizeLease v m it p i e d)) = sum_where P r_vcpu (leases d) - r_vcpu l + v"
    "sum_where P r_memory (leases (ResizeLease v m it p i e d)) = sum_where P r_memory (leases d) - r_memory l + m"
    using sum_where_upd_key [OF dist l(1,2), of P "\<lambda>r. r\<lparr>r_vcpu := v, r_memory := m, r_instanceType := it, r_price := p\<rparr>"
        "atEpoch i e"] assms(3,4) l
    by (simp_all add: ResizeLease_def atEpoch_def)
qed

section \<open>Properties\<close>

lemma resize_bounds:
  assumes "allocOK a" and "ledgerOK d" and "ResizeLeaving a instanceType vcpu memory protect i e d = Inr d'"
    and "d' \<noteq> d" and "findLease d i = Some l" and "findNode d (leaseNode l) = Some n"
  shows "u_vcpu (TotalUsage (leases d')) \<le> l_maxVCPU (a_limits a)
    \<and> u_memory (TotalUsage (leases d')) \<le> l_maxMemory (a_limits a)
    \<and> nu_vcpu (usageOfHost (leases d') (leaseNode l)) \<le> max (nu_vcpu (usageOfHost (leases d) (leaseNode l))) (n_vcpu n)
    \<and> nu_memory (usageOfHost (leases d') (leaseNode l)) \<le> max (nu_memory (usageOfHost (leases d) (leaseNode l))) (n_memory n)
    \<and> (\<forall>t share. tierOf a (r_tier l) = Some t \<longrightarrow> map_of (l_shares (a_limits a)) (ShareTarget t) = Some share \<longrightarrow>
         (0 < ts_vcpu share \<longrightarrow> sum_where (countsFor a (ShareTarget t)) r_vcpu (leases d') \<le> ts_vcpu share)
         \<and> (0 < ts_memory share \<longrightarrow> sum_where (countsFor a (ShareTarget t)) r_memory (leases d') \<le> ts_memory share))
    \<and> (\<exists>s \<in> set (n_shapes n). s_type s = instanceType \<and> s_vcpu s = vcpu \<and> s_memory s = memory)
    \<and> r_requestedVCPU l \<le> vcpu \<and> r_requestedMemory l \<le> memory"
proof -
  obtain m n' price where r: "load d i e = Inr m" "findNode d (leaseNode m) = Some n'" "leaseNode m \<noteq> []"
    "shapeFits a d m n' vcpu memory = Inr True" "d' = ResizeLease vcpu memory instanceType price i e d"
    "r_requestedVCPU m \<le> vcpu" "r_requestedMemory m \<le> memory"
    "\<exists>s \<in> set (n_shapes n'). s_type s = instanceType \<and> s_vcpu s = vcpu \<and> s_memory s = memory"
    using ResizeLeaving_changes [OF assms(3,4)] by metis
  have m: "m = l" "n' = n" using r(1,2) assms(5,6) by (simp_all add: load_Inr)
  have opn: "isOpen l" using r(1) by (simp add: load_Inr isOpen_def m)
  have att: "attributedTo l = leaseNode l"
    using r(3) by (auto simp: m attributedTo_def coalesceNode_def leaseNode_def split: option.splits)
  note lim = shapeFits_limits [OF assms(1,2) r(4) r(2), unfolded m]
  have P: "isOpen (r\<lparr>r_vcpu := v, r_memory := k, r_instanceType := it, r_price := p\<rparr>) = isOpen r"
    "attributedTo (r\<lparr>r_vcpu := v, r_memory := k, r_instanceType := it, r_price := p\<rparr>) = attributedTo r"
    for r v k it p by (simp_all add: isOpen_def attributedTo_def coalesceNode_def split: option.splits)
  note total = ResizeLease_sum [OF assms(2) r(1) [unfolded m], of isOpen, folded r(5), OF _ opn]
  note host = ResizeLease_sum [OF assms(2) r(1) [unfolded m], of "\<lambda>r. isOpen r \<and> attributedTo r = leaseNode l", folded r(5)]
  have "u_vcpu (TotalUsage (leases d')) \<le> l_maxVCPU (a_limits a)" "u_memory (TotalUsage (leases d')) \<le> l_maxMemory (a_limits a)"
    using total P lim(1,2) by (simp_all add: r(5))
  moreover have "nu_vcpu (usageOfHost (leases d') (leaseNode l)) \<le> max (nu_vcpu (usageOfHost (leases d) (leaseNode l))) (n_vcpu n)"
    "nu_memory (usageOfHost (leases d') (leaseNode l)) \<le> max (nu_memory (usageOfHost (leases d) (leaseNode l))) (n_memory n)"
    using host P opn att lim(3,4) by (simp_all add: r(5) max_def split: if_splits)
  moreover have "(0 < ts_vcpu share \<longrightarrow> sum_where (countsFor a (ShareTarget t)) r_vcpu (leases d') \<le> ts_vcpu share)
      \<and> (0 < ts_memory share \<longrightarrow> sum_where (countsFor a (ShareTarget t)) r_memory (leases d') \<le> ts_memory share)"
    if t: "tierOf a (r_tier l) = Some t" "map_of (l_shares (a_limits a)) (ShareTarget t) = Some share" for t share
  proof -
    obtain floors where floors: "chargesGrow noFloors floors"
      "vcpu \<le> fst (shareRoomFor a d (r_tier l) (r_vcpu l, r_memory l) floors)"
      "memory \<le> snd (shareRoomFor a d (r_tier l) (r_vcpu l, r_memory l) floors)" using lim(5) by blast
    have "countsFor a (ShareTarget t) l" using opn t(1) by (simp add: countsFor_def ownedBy_def)
    moreover have "countsFor a T (r\<lparr>r_vcpu := v, r_memory := k, r_instanceType := it, r_price := p\<rparr>) = countsFor a T r"
      for T r v k it p by (simp add: countsFor_def P)
    ultimately show ?thesis
      using ResizeLease_sum [OF assms(2) r(1) [unfolded m], of "countsFor a (ShareTarget t)", folded r(5)]
        shareRoomFor_returned [OF t floors(1), of d "r_vcpu l" "r_memory l"] floors(2,3)
      by (simp add: r(5)) linarith
  qed
  ultimately show ?thesis using r(6-8) m by blast
qed

text \<open>
  C30. Changing a remote lease's shape cannot overspend: after a resize that changed
  anything the open leases together are within the deployment's ceiling, the lease's host
  is within what it registered (or no larger than it was), and the tier's target is within
  its share. The shape charged is one the node registered and holds what was asked.
\<close>

theorem resize_within_budget:
  assumes "allocOK a" and "ledgerOK d" and "ResizeLeaving a instanceType vcpu memory protect i e d = Inr d'"
    and "d' \<noteq> d" and "findLease d i = Some l" and "findNode d (leaseNode l) = Some n"
  shows "u_vcpu (TotalUsage (leases d')) \<le> l_maxVCPU (a_limits a)
    \<and> u_memory (TotalUsage (leases d')) \<le> l_maxMemory (a_limits a)
    \<and> nu_vcpu (usageOfHost (leases d') (leaseNode l)) \<le> max (nu_vcpu (usageOfHost (leases d) (leaseNode l))) (n_vcpu n)
    \<and> nu_memory (usageOfHost (leases d') (leaseNode l)) \<le> max (nu_memory (usageOfHost (leases d) (leaseNode l))) (n_memory n)
    \<and> (\<forall>t share. tierOf a (r_tier l) = Some t \<longrightarrow> map_of (l_shares (a_limits a)) (ShareTarget t) = Some share \<longrightarrow>
         (0 < ts_vcpu share \<longrightarrow> sum_where (countsFor a (ShareTarget t)) r_vcpu (leases d') \<le> ts_vcpu share)
         \<and> (0 < ts_memory share \<longrightarrow> sum_where (countsFor a (ShareTarget t)) r_memory (leases d') \<le> ts_memory share))
    \<and> (\<exists>s \<in> set (n_shapes n). s_type s = instanceType \<and> s_vcpu s = vcpu \<and> s_memory s = memory)
    \<and> r_requestedVCPU l \<le> vcpu \<and> r_requestedMemory l \<le> memory"
  by (rule resize_bounds [OF assms])

text \<open>A cloud account with two shapes beside the sample's hosts, and a lease launching on it.\<close>

definition cloudShape :: "string \<Rightarrow> int \<Rightarrow> int \<Rightarrow> RemoteShape" where
  "cloudShape name vcpu memory =
     \<lparr>s_type = name, s_vcpu = vcpu, s_memory = memory, s_price = 100, s_arch = []\<rparr>"

definition cloudLedger :: Ledger where
  "cloudLedger = sampleLedger\<lparr>
     leases := leases sampleLedger @ [(sampleLease ''l3'' ''small'' ''cloud'' PhaseLaunching)\<lparr>
       r_vcpu := 2, r_requestedVCPU := 2, r_memory := 4, r_requestedMemory := 4,
       r_chosenProvider := ProviderEC2, r_instanceType := ''c.large''\<rparr>],
     nodes := nodes sampleLedger @ [(sampleNode ''cloud'' ProviderEC2 8 32)\<lparr>
       n_shapes := [cloudShape ''c.large'' 2 4, cloudShape ''c.xlarge'' 4 8]\<rparr>]\<rparr>"

lemmas cloud_defs = cloudShape_def cloudLedger_def sample_defs

lemma cloudLedger_OK: "ledgerOK cloudLedger"
  by (simp add: cloud_defs ledgerOK_def)

theorem resize_within_budget_witness:
  "\<exists>d'. ResizeLeaving sampleAlloc ''c.xlarge'' 4 8 [''mac''] ''l3'' 1 cloudLedger = Inr d'
    \<and> d' \<noteq> cloudLedger \<and> u_vcpu (TotalUsage (leases d')) \<le> 24"
proof -
  have "case ResizeLeaving sampleAlloc ''c.xlarge'' 4 8 [''mac''] ''l3'' 1 cloudLedger of
      Inl _ \<Rightarrow> False | Inr d' \<Rightarrow> map r_vcpu (leases d') \<noteq> map r_vcpu (leases cloudLedger)"
    by code_simp
  then obtain d' where d': "ResizeLeaving sampleAlloc ''c.xlarge'' 4 8 [''mac''] ''l3'' 1 cloudLedger = Inr d'"
    "d' \<noteq> cloudLedger" by (auto split: sum.splits)
  obtain l where l: "findLease cloudLedger ''l3'' = Some l" "leaseNode l = ''cloud''"
    by (simp add: cloud_defs findLease_def leaseNode_def requiresPlacement_def)
  obtain n where "findNode cloudLedger (leaseNode l) = Some n"
    unfolding l(2) by (simp add: cloud_defs findNode_def)
  from resize_within_budget [OF sample_OK(1) cloudLedger_OK d' l(1) this]
  have "u_vcpu (TotalUsage (leases d')) \<le> 24" by (simp add: sampleAlloc_def del: TotalUsage_sel)
  with d' show ?thesis by blast
qed

text \<open>
  A fallback to a larger shape does not jump the queue: where it grows the lease in
  either dimension, every tier it must protect can still be granted at least one lease in
  the ledger it commits; and where that would fail the answer is \<open>ErrNoCapacity\<close>, which
  sends the node on to its next shape.
\<close>

lemma resize_leaves_waiters_room:
  assumes "ResizeLeaving a instanceType vcpu memory protect i e d = Inr d'" and "findLease d i = Some l"
    and "r_vcpu l < vcpu \<or> r_memory l < memory"
    and "label \<in> set protect" and "label \<noteq> r_tier l" and "tierOf a label = Some w"
  shows "\<exists>n \<ge> 1. roomOf a d' w [] = Inr n"
proof -
  obtain m where m: "load d i e = Inr m" using assms(1) by (cases "load d i e") (simp_all add: ResizeLeaving_def)
  then have l: "m = l" using assms(2) by (simp add: load_Inr)
  have "d' = d \<longrightarrow> r_vcpu l = vcpu \<and> r_memory l = memory \<or>
      guardedHaveRoom a d' (otherTiers a (r_tier l) protect) (\<lambda>_. []) errWaiterLeftShort = Inr ()"
    using assms(1,3) m l by (auto simp: ResizeLeaving_def Let_def split: if_splits option.splits sum.splits bool.splits)
  moreover have "d' \<noteq> d \<longrightarrow> guardedHaveRoom a d' (otherTiers a (r_tier l) protect) (\<lambda>_. []) errWaiterLeftShort = Inr ()"
    using ResizeLeaving_changes [OF assms(1)] assms(3) m l by (metis sum.inject(2))
  ultimately have "guardedHaveRoom a d' (otherTiers a (r_tier l) protect) (\<lambda>_. []) errWaiterLeftShort = Inr ()"
    using assms(3) by auto
  moreover have "w \<in> set (otherTiers a (r_tier l) protect)"
    using assms(4-6) by (force simp: otherTiers_def split: option.splits)
  ultimately show ?thesis using guardedHaveRoom_each by blast
qed

end
