(* ===== verification/Heartbeats.thy ===== *)
theory Heartbeats
  imports Lease_Safety
begin

text \<open>
  A batched renewal against its reference. \<open>HeartbeatMany\<close> packs references into one
  string a transaction, renews what it names in one statement and asks the one-lease renewal
  of the rest; the reference renews one lease at a time. They answer alike for every lease
  and leave the same ledger.
\<close>

section \<open>The reference\<close>

fun renewEach :: "Allocator \<Rightarrow> int \<Rightarrow> LeaseRef list \<Rightarrow> Ledger \<Rightarrow> err option list \<times> Ledger" where
  "renewEach a now [] d = ([], d)"
| "renewEach a now (ref # refs) d =
     (case Heartbeat a now (lr_id ref) (lr_epoch ref) d of
        Inl x \<Rightarrow> (let (as, d') = renewEach a now refs d in (Some x # as, d'))
      | Inr d1 \<Rightarrow> (let (as, d') = renewEach a now refs d1 in (None # as, d')))"

section \<open>Renewing a set of references\<close>

definition refOf :: "LeaseRow \<Rightarrow> LeaseRef" where
  "refOf r = \<lparr>lr_id = r_id r, lr_epoch = r_epoch r\<rparr>"

definition live :: "LeaseRow \<Rightarrow> bool" where
  "live r \<longleftrightarrow> isOpen r \<and> \<not> r_forceRelease r"

definition touch :: "Allocator \<Rightarrow> int \<Rightarrow> LeaseRow \<Rightarrow> LeaseRow" where
  "touch a now r = r\<lparr>r_heartbeatAt := now, r_expiresAt := now + a_leaseTTL a\<rparr>"

definition renew :: "Allocator \<Rightarrow> int \<Rightarrow> LeaseRef set \<Rightarrow> Ledger \<Rightarrow> Ledger" where
  "renew a now S d = updLease (\<lambda>r. live r \<and> refOf r \<in> S) (touch a now) d"

definition answer :: "Ledger \<Rightarrow> LeaseRef \<Rightarrow> err option" where
  "answer d ref =
     (if \<not> nameable (lr_id ref) then Some ErrLeaseNotFound
      else case load d (lr_id ref) (lr_epoch ref) of
             Inl x \<Rightarrow> Some x
           | Inr l \<Rightarrow> if r_forceRelease l then Some ErrForceRelease else None)"

lemma touch_fields [simp]:
  "r_id (touch a now r) = r_id r" "r_epoch (touch a now r) = r_epoch r"
  "r_forceRelease (touch a now r) = r_forceRelease r" "r_phase (touch a now r) = r_phase r"
  "live (touch a now r) = live r" "refOf (touch a now r) = refOf r"
  "touch a now (touch a now r) = touch a now r"
  by (simp_all add: touch_def live_def isOpen_def refOf_def)

lemma renew_renew: "renew a now T (renew a now S d) = renew a now (S \<union> T) d"
proof -
  have "upd_where (\<lambda>r. live r \<and> refOf r \<in> T) (touch a now) (upd_where (\<lambda>r. live r \<and> refOf r \<in> S) (touch a now) xs)
      = upd_where (\<lambda>r. live r \<and> refOf r \<in> S \<union> T) (touch a now) xs" for xs
    by (induction xs) auto
  then show ?thesis by (simp add: renew_def updLease_def)
qed

lemma renew_none: "(\<And>r. r \<in> set (leases d) \<Longrightarrow> live r \<Longrightarrow> refOf r \<notin> S) \<Longrightarrow> renew a now S d = d"
  by (auto simp: renew_def updLease_def upd_where_none)

lemma renew_OK: "ledgerOK d \<Longrightarrow> ledgerOK (renew a now S d)"
  unfolding renew_def
  by (rule ledgerStep_OK [OF ledgerStep_updLease]) (simp_all add: rowStep_def touch_def)

lemma findLease_renew:
  "findLease (renew a now S d) i =
     map_option (\<lambda>r. if live r \<and> refOf r \<in> S then touch a now r else r) (findLease d i)"
  by (simp add: findLease_def renew_def find_upd_where)

lemma answer_renew [simp]: "answer (renew a now S d) = answer d"
proof
  fix ref
  have "load (renew a now S d) i e =
      (case load d i e of Inl x \<Rightarrow> Inl x
       | Inr l \<Rightarrow> Inr (if live l \<and> refOf l \<in> S then touch a now l else l))" for i e
    by (simp add: load_def loadAny_def findLease_renew split: option.split)
  then show "answer (renew a now S d) ref = answer d ref"
    by (simp add: answer_def split: sum.split)
qed

text \<open>A reference is answered with success exactly when a live row carries it.\<close>

lemma answer_None:
  assumes "ledgerOK d"
  shows "answer d ref = None \<longleftrightarrow> nameable (lr_id ref) \<and> (\<exists>r \<in> set (leases d). live r \<and> refOf r = ref)"
proof
  assume "answer d ref = None"
  then obtain l where "nameable (lr_id ref)" "load d (lr_id ref) (lr_epoch ref) = Inr l" "\<not> r_forceRelease l"
    by (auto simp: answer_def split: if_splits sum.splits)
  then show "nameable (lr_id ref) \<and> (\<exists>r \<in> set (leases d). live r \<and> refOf r = ref)"
    using findLease_Some [of d "lr_id ref" l]
    by (auto simp: load_Inr live_def isOpen_def refOf_def intro!: bexI [of _ l])
next
  assume n: "nameable (lr_id ref) \<and> (\<exists>r \<in> set (leases d). live r \<and> refOf r = ref)"
  then obtain r where r: "r \<in> set (leases d)" "live r" "refOf r = ref" by blast
  have "findLease d (r_id r) = Some r" using assms r(1) findLease_distinct by (simp add: ledgerOK_def)
  then have "load d (lr_id ref) (lr_epoch ref) = Inr r"
    using r(2,3) by (auto simp: load_Inr refOf_def live_def isOpen_def)
  then show "answer d ref = None" using n r(2) by (simp add: answer_def live_def)
qed

lemma heartbeatTx_renews:
  assumes "ledgerOK d"
  shows "heartbeatTx a now (lr_id ref) (lr_epoch ref) d =
     (case answer d ref of Some x \<Rightarrow> Inl x | None \<Rightarrow> Inr (renew a now {ref} d))"
proof (cases "answer d ref")
  case (Some x)
  then show ?thesis
    by (auto simp: heartbeatTx_def answer_def nameable_def split: if_splits sum.splits)
next
  case None
  then obtain l where n: "nameable (lr_id ref)" and l: "load d (lr_id ref) (lr_epoch ref) = Inr l" "\<not> r_forceRelease l"
    by (auto simp: answer_def split: if_splits sum.splits)
  have same: "atEpoch (lr_id ref) (lr_epoch ref) r \<longleftrightarrow> live r \<and> refOf r \<in> {ref}" if r: "r \<in> set (leases d)" for r
  proof -
    have "r = l" if "r_id r = lr_id ref" using row_at [OF assms _ r that] l(1) by (simp add: load_Inr)
    then show ?thesis
      using l by (cases ref) (auto simp: atEpoch_def refOf_def live_def isOpen_def load_Inr)
  qed
  have "HeartbeatLease now (now + a_leaseTTL a) (lr_id ref) (lr_epoch ref) d = renew a now {ref} d"
    unfolding HeartbeatLease_def renew_def updLease_def upd_where_def touch_def
    by (rule arg_cong [where f = "\<lambda>x. d\<lparr>leases := x\<rparr>"], rule map_cong [OF refl], simp add: same)
  then show ?thesis using None n l by (simp add: heartbeatTx_def nameable_def)
qed

lemma renew_refused:
  assumes "ledgerOK d" and "answer d ref = Some x" and "nameable (lr_id ref)"
  shows "renew a now {ref} d = d"
proof (rule renew_none)
  fix r assume "r \<in> set (leases d)" "live r"
  then show "refOf r \<notin> {ref}" using answer_None [OF assms(1), of ref] assms(2,3) by auto
qed

definition named :: "LeaseRef list \<Rightarrow> LeaseRef set" where
  "named refs = {ref \<in> set refs. nameable (lr_id ref)}"

lemma renewEach_eq:
  "ledgerOK d \<Longrightarrow> renewEach a now refs d = (map (answer d) refs, renew a now (named refs) d)"
proof (induction refs arbitrary: d)
  case Nil
  show ?case by (simp add: named_def renew_none)
next
  case (Cons ref refs)
  show ?case
  proof (cases "answer d ref")
    case None
    then have "nameable (lr_id ref)" using answer_None [OF Cons.prems] by blast
    then have "named (ref # refs) = {ref} \<union> named refs" by (auto simp: named_def)
    then show ?thesis
      using None Cons.IH [OF renew_OK [OF Cons.prems], of a now "{ref}"]
      by (simp add: Heartbeat_def heartbeatTx_renews [OF Cons.prems] renew_renew)
  next
    case (Some x)
    have "renew a now (named (ref # refs)) d = renew a now (named refs) d"
    proof (cases "nameable (lr_id ref)")
      case True
      then have "named (ref # refs) = {ref} \<union> named refs" by (auto simp: named_def)
      then show ?thesis
        using renew_renew [of a now "named refs" "{ref}" d] renew_refused [OF Cons.prems Some True] by simp
    next
      case False
      then have "named (ref # refs) = named refs" by (auto simp: named_def)
      then show ?thesis by simp
    qed
    then show ?thesis
      using Some Cons.IH [OF Cons.prems] by (simp add: Heartbeat_def heartbeatTx_renews [OF Cons.prems])
  qed
qed

section \<open>The batch\<close>

lemma validBytes_ascii: "\<forall>b \<in> set bs. b < 0x80 \<Longrightarrow> validBytes bs"
  by (induction bs) auto

lemma packable_nameable:
  assumes "packable ref"
  shows "nameable (lr_id ref)"
proof -
  have "\<forall>c \<in> set (lr_id ref). CHR '' '' < c \<and> c \<le> CHR ''~''"
    using assms by (simp add: packable_def list_all_iff)
  then have b: "\<forall>c \<in> set (lr_id ref). 0x20 < (of_char c :: nat) \<and> (of_char c :: nat) \<le> 0x7E"
    by (simp add: less_char_def less_eq_char_def)
  then have "validBytes (map of_char (lr_id ref))" by (intro validBytes_ascii) auto
  moreover have "CHR 0x00 \<notin> set (lr_id ref)" using b by auto
  ultimately show ?thesis by (simp add: nameable_def ValidString_def)
qed

lemma load_errors: "load d i e = Inl x \<Longrightarrow> x \<in> {ErrLeaseNotFound, ErrFenced}"
  by (auto simp: load_def loadAny_def split: option.splits if_splits)

lemma answer_errors: "answer d ref = Some x \<Longrightarrow> x \<in> {ErrLeaseNotFound, ErrFenced, ErrForceRelease}"
  using load_errors by (fastforce simp: answer_def split: if_splits sum.splits)

lemma askEach_eq:
  assumes "ledgerOK d" and "\<And>ref. ref \<in> set refs \<Longrightarrow> packable ref \<Longrightarrow> ref \<in> set done \<longleftrightarrow> answer d ref = None"
  shows "askEach a now done refs d =
    Inr (map (answer d) refs, renew a now {ref \<in> named refs. \<not> (packable ref \<and> ref \<in> set done)} d)"
  using assms
proof (induction refs arbitrary: d)
  case Nil
  show ?case by (simp add: named_def renew_none)
next
  case (Cons ref refs)
  let ?T = "\<lambda>refs. {ref \<in> named refs. \<not> (packable ref \<and> ref \<in> set done)}"
  have ih: "askEach a now done refs (renew a now S d) =
      Inr (map (answer d) refs, renew a now (S \<union> ?T refs) d)" for S
    using Cons.IH [of "renew a now S d"] Cons.prems renew_OK [OF Cons.prems(1)] by (simp add: renew_renew)
  have ih0: "askEach a now done refs d = Inr (map (answer d) refs, renew a now (?T refs) d)"
    using Cons.IH [of d] Cons.prems by simp
  show ?case
  proof (cases "packable ref \<and> ref \<in> set done")
    case True
    then have "answer d ref = None" "?T (ref # refs) = ?T refs" using Cons.prems(2) by (auto simp: named_def)
    then show ?thesis using True ih0 by simp
  next
    case False
    show ?thesis
    proof (cases "answer d ref")
      case None
      then have "nameable (lr_id ref)" using answer_None [OF Cons.prems(1)] by blast
      then have "?T (ref # refs) = {ref} \<union> ?T refs" using False by (auto simp: named_def)
      then show ?thesis using False None ih [of "{ref}"] by (auto simp: heartbeatTx_renews [OF Cons.prems(1)])
    next
      case (Some x)
      have "renew a now (?T (ref # refs)) d = renew a now (?T refs) d"
      proof (cases "nameable (lr_id ref)")
        case True
        then have "?T (ref # refs) = {ref} \<union> ?T refs" using False by (auto simp: named_def)
        then show ?thesis
          using renew_renew [of a now "?T refs" "{ref}" d] renew_refused [OF Cons.prems(1) Some True] by simp
      next
        case False
        then have "?T (ref # refs) = ?T refs" by (auto simp: named_def)
        then show ?thesis by simp
      qed
      then show ?thesis
        using False Some answer_errors [OF Some] ih0 by (auto simp: heartbeatTx_renews [OF Cons.prems(1)])
    qed
  qed
qed

lemma HeartbeatLeases_renews:
  assumes "\<forall>ref \<in> set refs. lr_epoch ref \<le> maxInt64"
  shows "HeartbeatLeases now (now + a_leaseTTL a) (fst (packLeaseRefs refs)) d =
    (map refOf (filter (\<lambda>r. live r \<and> refOf r \<in> set (filter packable refs)) (leases d)),
     renew a now (set (filter packable refs)) d)"
proof -
  have "map unpackRef (parts (fst (packLeaseRefs refs))) = filter packable refs"
    by (rule unpack_packLeaseRefs [OF assms])
  moreover have "renewable d xs = (\<lambda>r. live r \<and> refOf r \<in> set xs)" for xs
    by (simp add: fun_eq_iff renewable_def live_def refOf_def conj_ac)
  moreover have "(\<lambda>r. r\<lparr>r_heartbeatAt := now, r_expiresAt := now + a_leaseTTL a\<rparr>) = touch a now"
    by (simp add: fun_eq_iff touch_def)
  moreover have "(\<lambda>r. \<lparr>lr_id = r_id r, lr_epoch = r_epoch r\<rparr>) = refOf" by (simp add: fun_eq_iff refOf_def)
  ultimately show ?thesis by (simp only: HeartbeatLeases_def Let_def renew_def)
qed

lemma heartbeatManyTx_eq:
  assumes "ledgerOK d" and "\<forall>ref \<in> set refs. lr_epoch ref \<le> maxInt64"
  shows "heartbeatManyTx a now refs d = Inr (renewEach a now refs d)"
proof -
  let ?P = "filter packable refs"
  let ?done = "map refOf (filter (\<lambda>r. live r \<and> refOf r \<in> set ?P) (leases d))"
  obtain packed count flags where p: "packLeaseRefs refs = (packed, count, flags)" by (rule prod_cases3)
  have run: "(if 0 < count then HeartbeatLeases now (now + a_leaseTTL a) packed d else ([], d)) =
      (?done, renew a now (set ?P) d)"
  proof (cases "?P = []")
    case True
    then show ?thesis using p by (simp add: packLeaseRefs_def renew_none)
  next
    case False
    then have "0 < count" "packed = fst (packLeaseRefs refs)" using p by (auto simp: packLeaseRefs_def)
    then show ?thesis using HeartbeatLeases_renews [OF assms(2), of now a d] by simp
  qed
  have "ref \<in> set ?done \<longleftrightarrow> answer d ref = None" if "ref \<in> set refs" "packable ref" for ref
    using answer_None [OF assms(1), of ref] packable_nameable [OF that(2)] that by auto
  then have "askEach a now ?done refs (renew a now (set ?P) d) = Inr (map (answer d) refs,
      renew a now (set ?P \<union> {ref \<in> named refs. \<not> (packable ref \<and> ref \<in> set ?done)}) d)"
    using askEach_eq [OF renew_OK [OF assms(1)], of refs "?done" a now "set ?P" a now] by (simp add: renew_renew)
  moreover have "renew a now (set ?P \<union> {ref \<in> named refs. \<not> (packable ref \<and> ref \<in> set ?done)}) d
      = renew a now (named refs) d"
  proof -
    have "set ?P \<union> {ref \<in> named refs. \<not> (packable ref \<and> ref \<in> set ?done)} = named refs"
      using packable_nameable by (auto simp: named_def)
    then show ?thesis by simp
  qed
  ultimately show ?thesis
    by (simp only: heartbeatManyTx_def p run Let_def prod.case renewEach_eq [OF assms(1)])
qed

lemma renewEach_append:
  "renewEach a now (xs @ ys) d =
     (let (as, d1) = renewEach a now xs d; (bs, d2) = renewEach a now ys d1 in (as @ bs, d2))"
  by (induction xs arbitrary: d) (auto simp: split_beta Let_def split: sum.split)

text \<open>
  C22. Renewing leases in batches is renewing them one at a time: for references with 64-bit
  epochs, \<open>HeartbeatMany\<close> answers for every lease, in order, exactly what
  \<open>Heartbeat\<close> would have answered for it, and leaves the ledger the one-at-a-time
  renewals leave, whatever the number of references, with repeats, ids that cannot be packed,
  unknown leases, stale epochs and leases an operator has asked to be released among them.
\<close>

theorem HeartbeatMany_renews_each:
  assumes "ledgerOK d" and "\<forall>ref \<in> set refs. lr_epoch ref \<le> maxInt64"
  shows "HeartbeatMany a now refs d = renewEach a now refs d"
  using assms
proof (induction "length refs" arbitrary: refs d rule: less_induct)
  case less
  show ?case
  proof (cases "refs = []")
    case True
    then show ?thesis by (simp add: HeartbeatMany.simps)
  next
    case False
    let ?part = "take heartbeatBatch refs" and ?rest = "drop heartbeatBatch refs"
    let ?d = "snd (renewEach a now ?part d)"
    have part: "heartbeatManyTx a now ?part d = Inr (renewEach a now ?part d)"
      by (rule heartbeatManyTx_eq [OF less.prems(1)]) (use less.prems(2) in \<open>auto dest: in_set_takeD\<close>)
    have ok: "ledgerOK ?d" by (simp add: renewEach_eq [OF less.prems(1)] renew_OK [OF less.prems(1)])
    have "HeartbeatMany a now ?rest ?d = renewEach a now ?rest ?d"
      by (rule less.hyps) (use False less.prems(2) ok in \<open>auto simp: heartbeatBatch_def dest: in_set_dropD\<close>)
    then show ?thesis
      using False part renewEach_append [of a now ?part ?rest d]
      by (subst HeartbeatMany.simps) (simp add: split_beta Let_def)
  qed
qed

theorem HeartbeatMany_renews_each_witness:
  "HeartbeatMany sampleAlloc 10 [\<lparr>lr_id = ''l1'', lr_epoch = 1\<rparr>, \<lparr>lr_id = ''l2'', lr_epoch = 0\<rparr>,
     \<lparr>lr_id = ''gone'', lr_epoch = 0\<rparr>] sampleLedger =
   ([None, Some ErrFenced, Some ErrLeaseNotFound],
    HeartbeatLease 10 70 ''l1'' 1 sampleLedger)"
proof -
  have ok: "ledgerOK sampleLedger" by (simp add: sample_defs ledgerOK_def)
  let ?refs = "[\<lparr>lr_id = ''l1'', lr_epoch = 1\<rparr>, \<lparr>lr_id = ''l2'', lr_epoch = 0\<rparr>, \<lparr>lr_id = ''gone'', lr_epoch = 0\<rparr>]"
  have "HeartbeatMany sampleAlloc 10 ?refs sampleLedger = renewEach sampleAlloc 10 ?refs sampleLedger"
    by (rule HeartbeatMany_renews_each [OF ok]) (simp add: maxInt64_def)
  also have "\<dots> = ([None, Some ErrFenced, Some ErrLeaseNotFound], HeartbeatLease 10 70 ''l1'' 1 sampleLedger)"
    by code_simp
  finally show ?thesis .
qed

end
