(* ===== verification/Reaping.thy ===== *)
theory Reaping
  imports Lease_Safety
begin

text \<open>
  \<open>Reap\<close> row by row: which leases a pass reclaims, what becomes of each, that the rest
  are untouched, that a backlog shrinks by a batch a pass, and that a reclaimed lease's old
  holder is fenced out of every operation.
\<close>

section \<open>One lease\<close>

definition expiredAt :: "int \<Rightarrow> LeaseRow \<Rightarrow> bool" where
  "expiredAt now r \<longleftrightarrow> isOpen r \<and> r_phase r \<noteq> PhaseQuarantine \<and> r_expiresAt r \<le> now"

definition reclaimed :: "int \<Rightarrow> LeaseRow \<Rightarrow> LeaseRow" where
  "reclaimed now r =
     r\<lparr>r_phase := (if hadCompute (r_phase r) then PhaseQuarantine else PhaseFailed),
       r_epoch := r_epoch r + 1,
       r_heldAt := (if hadCompute (r_phase r) then keepFirst (r_heldAt r) (Some now) else r_heldAt r)\<rparr>"

lemma reclaimed_fields [simp]:
  "r_id (reclaimed now r) = r_id r" "r_vcpu (reclaimed now r) = r_vcpu r"
  "r_memory (reclaimed now r) = r_memory r" "r_epoch (reclaimed now r) = r_epoch r + 1"
  "r_node (reclaimed now r) = r_node r" "r_target (reclaimed now r) = r_target r"
  "isOpen (reclaimed now r) \<longleftrightarrow> hadCompute (r_phase r)" "\<not> expiredAt t (reclaimed now r)"
  by (simp_all add: reclaimed_def isOpen_def Terminal_def expiredAt_def)

lemma reapOne_leases:
  assumes "ledgerOK d" and "findLease d (r_id l) = Some l"
  shows "leases (reapOne now l d) = upd_where (\<lambda>r. r_id r = r_id l) (reclaimed now) (leases d)"
proof -
  let ?p = "if hadCompute (r_phase l) then PhaseQuarantine else PhaseFailed"
  have "leases (reapOne now l d) = leases (ReclaimLease ?p now (r_id l) (r_epoch l) d)"
    by (simp add: reapOne_def Let_def)
  also have "\<dots> = upd_where (\<lambda>r. r_id r = r_id l) (reclaimed now) (leases d)"
    unfolding ReclaimLease_def leases_updLease upd_where_def
  proof (rule map_cong [OF refl])
    fix r assume r: "r \<in> set (leases d)"
    show "(if atEpoch (r_id l) (r_epoch l) r then r\<lparr>r_phase := ?p, r_epoch := r_epoch r + 1,
        r_heldAt := if ?p = PhaseQuarantine \<and> r_heldAt r = None then Some now else r_heldAt r\<rparr> else r) =
      (if r_id r = r_id l then reclaimed now r else r)"
    proof (cases "r_id r = r_id l")
      case True
      then have "r = l" using row_at [OF assms r] by blast
      then show ?thesis by (cases "r_heldAt l") (simp_all add: atEpoch_def reclaimed_def keepFirst_def)
    qed (simp add: atEpoch_def)
  qed
  finally show ?thesis .
qed

lemma reapOne_step:
  assumes "ledgerOK d" and "findLease d (r_id l) = Some l" and "expiredAt now l"
  shows "ledgerStep d (reapOne now l d)"
proof -
  have "canMoveTo (r_phase l) (if hadCompute (r_phase l) then PhaseQuarantine else PhaseFailed)"
    using assms(3) by (cases "r_phase l") (simp_all add: expiredAt_def isOpen_def phase_defs canMoveTo_iff)
  note step = ReclaimLease_step [OF assms(1,2) this]
  show ?thesis
  proof (cases "hadCompute (r_phase l)")
    case True
    then show ?thesis
      using ledgerStep_trans [OF step history_step(3)] by (simp add: reapOne_def)
  next
    case False
    then show ?thesis
      using ledgerStep_trans [OF step history_step(1)] by (simp add: reapOne_def)
  qed
qed

section \<open>A pass\<close>

lemma upd_where_twice:
  assumes "\<And>r. k (f r) = k r" and "i \<notin> S"
  shows "upd_where (\<lambda>r. k r \<in> S) f (upd_where (\<lambda>r. k r = i) f xs) = upd_where (\<lambda>r. k r \<in> insert i S) f xs"
  using assms by (induction xs) auto

lemma reapAll_leases:
  assumes "ledgerOK d" and "\<forall>l \<in> set ls. findLease d (r_id l) = Some l \<and> expiredAt now l"
    and "distinct (map r_id ls)"
  shows "leases (snd (reapAll now ls d)) = upd_where (\<lambda>r. r_id r \<in> r_id ` set ls) (reclaimed now) (leases d)
    \<and> ledgerStep d (snd (reapAll now ls d))
    \<and> fst (reapAll now ls d) = count_where (\<lambda>l. \<not> hadCompute (r_phase l)) ls"
  using assms
proof (induction ls arbitrary: d)
  case Nil
  then show ?case by (simp add: upd_where_def count_where_def)
next
  case (Cons l ls)
  let ?d = "reapOne now l d"
  have l: "findLease d (r_id l) = Some l" "expiredAt now l" using Cons.prems(2) by simp_all
  have step: "ledgerStep d ?d" by (rule reapOne_step [OF Cons.prems(1) l])
  have ls: "leases ?d = upd_where (\<lambda>r. r_id r = r_id l) (reclaimed now) (leases d)"
    by (rule reapOne_leases [OF Cons.prems(1) l(1)])
  have rest: "findLease ?d (r_id m) = Some m \<and> expiredAt now m" if "m \<in> set ls" for m
  proof -
    have "r_id m \<in> r_id ` set ls" using that by simp
    then have "r_id m \<noteq> r_id l" using Cons.prems(3) by auto
    moreover have "findLease d (r_id m) = Some m" "expiredAt now m" using Cons.prems(2) that by simp_all
    ultimately show ?thesis by (simp add: findLease_def ls find_upd_where)
  qed
  have dist: "distinct (map r_id ls)" and notin: "r_id l \<notin> r_id ` set ls" using Cons.prems(3) by auto
  note ih = Cons.IH [OF ledgerStep_OK [OF step Cons.prems(1)] ballI [OF rest] dist]
  have "leases (snd (reapAll now (l # ls) d)) = leases (snd (reapAll now ls ?d))"
    by (simp add: split_beta)
  also have "\<dots> = upd_where (\<lambda>r. r_id r \<in> r_id ` set (l # ls)) (reclaimed now) (leases d)"
    using ih upd_where_twice [of r_id "reclaimed now" "r_id l" "r_id ` set ls" "leases d"] notin ls by simp
  finally have "leases (snd (reapAll now (l # ls) d)) =
      upd_where (\<lambda>r. r_id r \<in> r_id ` set (l # ls)) (reclaimed now) (leases d)" .
  moreover have "ledgerStep d (snd (reapAll now (l # ls) d))"
    using ledgerStep_trans [OF step] ih by (simp add: split_beta)
  moreover have "fst (reapAll now (l # ls) d) = count_where (\<lambda>l. \<not> hadCompute (r_phase l)) (l # ls)"
    using ih by (simp add: split_beta count_where_sum)
  ultimately show ?case by blast
qed

lemma expired_alt: "ListExpiredLeases d now n = take n (sort_key r_expiresAt (filter (expiredAt now) (leases d)))"
  by (simp add: ListExpiredLeases_def expiredAt_def [abs_def])

lemma expired_rows:
  assumes "ledgerOK d"
  shows "\<forall>l \<in> set (ListExpiredLeases d now n). findLease d (r_id l) = Some l \<and> expiredAt now l"
    and "distinct (map r_id (ListExpiredLeases d now n))"
    and "set (ListExpiredLeases d now n) \<subseteq> set (filter (expiredAt now) (leases d))"
    and "length (ListExpiredLeases d now n) = min n (length (filter (expiredAt now) (leases d)))"
proof -
  let ?s = "sort_key r_expiresAt (filter (expiredAt now) (leases d))"
  have sub: "set (ListExpiredLeases d now n) \<subseteq> set ?s" unfolding expired_alt by (rule set_take_subset)
  then show "set (ListExpiredLeases d now n) \<subseteq> set (filter (expiredAt now) (leases d))" by simp
  have dist: "distinct (map r_id (leases d))" using assms by (simp add: ledgerOK_def)
  show "\<forall>l \<in> set (ListExpiredLeases d now n). findLease d (r_id l) = Some l \<and> expiredAt now l"
    using sub findLease_distinct [OF dist] by auto
  have "distinct (map r_id ?s)"
    using distinct_map_filter [OF dist, of "expiredAt now"] by (simp add: distinct_map)
  then show "distinct (map r_id (ListExpiredLeases d now n))"
    unfolding expired_alt take_map [symmetric] by (rule distinct_take)
  show "length (ListExpiredLeases d now n) = min n (length (filter (expiredAt now) (leases d)))"
    by (simp add: expired_alt)
qed

lemma Reap_facts:
  assumes "ledgerOK d"
  shows "leases (snd (Reap now d)) =
      upd_where (\<lambda>r. r_id r \<in> r_id ` set (ListExpiredLeases d now reapBatchSize)) (reclaimed now) (leases d)"
    and "ledgerStep d (snd (Reap now d))"
    and "fst (Reap now d) = count_where (\<lambda>l. \<not> hadCompute (r_phase l)) (ListExpiredLeases d now reapBatchSize)"
  using reapAll_leases [OF assms expired_rows(1,2) [OF assms]] by (simp_all add: Reap_def)

text \<open>
  C15. A reaping pass reclaims exactly the expired leases it read and leaves every other
  lease untouched. A lease whose compute may exist is quarantined: it stays open and stays
  charged, because nothing has proved the compute is gone. Escrow nobody launched ends as
  failed and returns its capacity. Either way the epoch moves, so the old holder is fenced.
\<close>

theorem reap_quarantines_compute:
  assumes "ledgerOK d" and "findLease d i = Some r"
  shows "findLease (snd (Reap now d)) i =
      Some (if r \<in> set (ListExpiredLeases d now reapBatchSize)
            then r\<lparr>r_phase := (if hadCompute (r_phase r) then PhaseQuarantine else PhaseFailed),
                   r_epoch := r_epoch r + 1,
                   r_heldAt := (if hadCompute (r_phase r) then keepFirst (r_heldAt r) (Some now) else r_heldAt r)\<rparr>
            else r)
    \<and> fst (Reap now d) = count_where (\<lambda>l. \<not> hadCompute (r_phase l)) (ListExpiredLeases d now reapBatchSize)"
proof -
  let ?E = "ListExpiredLeases d now reapBatchSize"
  have "r \<in> set ?E" if mem: "r_id r \<in> r_id ` set ?E"
  proof -
    obtain l where l: "l \<in> set ?E" "r_id l = r_id r" using mem by auto
    then have "findLease d (r_id r) = Some l" using expired_rows(1) [OF assms(1)] by metis
    then show ?thesis using l assms(2) findLease_id [OF assms(2)] by simp
  qed
  then have "r_id r \<in> r_id ` set ?E \<longleftrightarrow> r \<in> set ?E" by blast
  then show ?thesis
    using Reap_facts [OF assms(1), of now] assms(2)
    by (simp add: findLease_def find_upd_where reclaimed_def)
qed

theorem reap_quarantines_compute_witness:
  "map_option r_phase (findLease (snd (Reap 60 sampleLedger)) ''l1'') = Some PhaseQuarantine
   \<and> map_option r_phase (findLease (snd (Reap 60 sampleLedger)) ''l2'') = Some PhaseFailed
   \<and> fst (Reap 60 sampleLedger) = 1"
proof -
  have ok: "ledgerOK sampleLedger" by (simp add: sample_defs ledgerOK_def)
  let ?l1 = "sampleLease ''l1'' ''big'' ''alpha'' PhaseBusy" and ?l2 = "sampleLease ''l2'' ''big'' ''beta'' PhaseCapacity"
  have f: "findLease sampleLedger ''l1'' = Some ?l1" "findLease sampleLedger ''l2'' = Some ?l2"
    by (simp_all add: findLease_def sample_defs)
  have e: "ListExpiredLeases sampleLedger 60 reapBatchSize = [?l1, ?l2]"
    by (simp add: ListExpiredLeases_def sample_defs isOpen_def Terminal_def reapBatchSize_def)
  have c: "hadCompute (r_phase ?l1)" "\<not> hadCompute (r_phase ?l2)" by (simp_all add: sampleLease_def phase_defs)
  then show ?thesis
    using reap_quarantines_compute [OF ok f(1), of 60] reap_quarantines_compute [OF ok f(2), of 60]
    by (simp add: e count_where_def)
qed

text \<open>
  A backlog of expired leases drains: every pass takes a full batch of 256 off it, or
  all of it, and what a pass reclaimed never comes back as expired. So enough passes leave
  none, and one transaction never holds the writer for more than a batch.
\<close>

lemma reap_drains:
  assumes "ledgerOK d"
  shows "length (filter (expiredAt now) (leases (snd (Reap now d)))) =
    length (filter (expiredAt now) (leases d)) - 256"
proof -
  let ?E = "ListExpiredLeases d now reapBatchSize" and ?X = "filter (expiredAt now) (leases d)"
  let ?S = "r_id ` set ?E"
  have gone: "filter (expiredAt now) (upd_where (\<lambda>r. r_id r \<in> S) (reclaimed now) xs) =
      filter (\<lambda>r. r_id r \<notin> S) (filter (expiredAt now) xs)" for S xs
    by (induction xs) auto
  have dist: "distinct (map r_id (leases d))" using assms by (simp add: ledgerOK_def)
  then have dX: "distinct ?X" and inj: "inj_on r_id (set (leases d))" by (auto simp: distinct_map)
  have sub: "set ?E \<subseteq> set ?X" by (rule expired_rows(3) [OF assms])
  have "set (filter (\<lambda>r. r_id r \<in> ?S) ?X) = set ?E"
    using sub inj by (auto simp: inj_on_def)
  moreover have "distinct ?E" using expired_rows(2) [OF assms] by (simp add: distinct_map)
  ultimately have "length (filter (\<lambda>r. r_id r \<in> ?S) ?X) = length ?E"
    using dX distinct_card [of "filter (\<lambda>r. r_id r \<in> ?S) ?X"] distinct_card [of ?E] by (metis distinct_filter)
  moreover have "length ?X = length (filter (\<lambda>r. r_id r \<in> ?S) ?X) + length (filter (\<lambda>r. r_id r \<notin> ?S) ?X)"
    by (rule sum_length_filter_compl [symmetric])
  ultimately show ?thesis
    using expired_rows(4) [OF assms, of now reapBatchSize] gone [of ?S "leases d"]
    by (simp add: Reap_facts(1) [OF assms] reapBatchSize_def)
qed

text \<open>
  C16. A reclaimed lease's old holder can do nothing more with it: after the pass, assigning,
  advancing, binding, renewing, failing and releasing at the old epoch are all refused with
  \<open>ErrFenced\<close>, and the ledger stays as it is.
\<close>

theorem reap_fences_the_holder:
  assumes "ledgerOK d" and "r \<in> set (ListExpiredLeases d now reapBatchSize)" and "d' = snd (Reap now d)"
  shows "Assign a t run request (r_id r) (r_epoch r) d' = Inl ErrFenced
    \<and> Advance a t p (r_id r) (r_epoch r) d' = Inl ErrFenced
    \<and> (node \<noteq> [] \<longrightarrow> Bind a node (r_id r) (r_epoch r) d' = Inl ErrFenced)
    \<and> (nameable (r_id r) \<longrightarrow> Heartbeat a t (r_id r) (r_epoch r) d' = Inl ErrFenced)
    \<and> (reasonAllowed why \<longrightarrow> MarkFailure t why (r_id r) (r_epoch r) d' = Inl ErrFenced)
    \<and> (reasonAllowed why \<longrightarrow> ReleaseFailed t why (r_id r) (r_epoch r) d' = Inl ErrFenced)
    \<and> (Terminal outcome \<longrightarrow> Release t outcome (r_id r) (r_epoch r) d' = Inl ErrFenced)"
proof -
  have f: "findLease d (r_id r) = Some r" using expired_rows(1) [OF assms(1)] assms(2) by blast
  obtain r' where r': "findLease d' (r_id r) = Some r'" "r_epoch r < r_epoch r'"
    using Reap_facts(1) [OF assms(1), of now] f assms(2,3)
    by (simp add: findLease_def find_upd_where)
  show ?thesis
    using assign.holder_refused [OF TrueI r'] advance.holder_refused [OF TrueI r']
      bind.holder_refused [OF _ r'] heartbeat.holder_refused [OF _ r']
      markFailure.holder_refused [OF _ r'] releaseFailed.holder_refused [OF _ r']
      release.holder_refused [OF _ r'] by simp
qed

theorem reap_fences_the_holder_witness:
  "Advance sampleAlloc 70 PhaseCustody ''l1'' 1 (snd (Reap 60 sampleLedger)) = Inl ErrFenced
   \<and> Release 70 PhaseDone ''l1'' 1 (snd (Reap 60 sampleLedger)) = Inl ErrFenced"
proof -
  have ok: "ledgerOK sampleLedger" by (simp add: sample_defs ledgerOK_def)
  let ?l1 = "sampleLease ''l1'' ''big'' ''alpha'' PhaseBusy"
  have e: "?l1 \<in> set (ListExpiredLeases sampleLedger 60 reapBatchSize)"
    by (simp add: ListExpiredLeases_def sample_defs isOpen_def Terminal_def reapBatchSize_def)
  have "r_id ?l1 = ''l1''" "r_epoch ?l1 = 1" by (simp_all add: sampleLease_def)
  then show ?thesis using reap_fences_the_holder [OF ok e refl] by (simp add: Terminal_def)
qed

end
