(* ===== verification/Timestamps.thy ===== *)
theory Timestamps
  imports Prelude
begin

text \<open>
  The texts that stand for instants. The allocator stores \<open>ts\<close> of \<open>alloc/alloc.go\<close>, which
  always has nine digits of fraction; other columns hold \<open>time.RFC3339Nano\<close>, which trims them
  (\<open>nowStamp\<close> of \<open>alloc/pool_runner.go\<close>). The database compares the columns as bytes. An instant
  is a number of nanoseconds since the start of the year 0 in UTC; Go's \<open>Format\<close> counts days in
  the proleptic Gregorian calendar and writes four digits for the years 0 to 9999.
\<close>

section \<open>The calendar\<close>

definition isLeap :: "int \<Rightarrow> bool" where
  "isLeap y \<longleftrightarrow> y mod 4 = 0 \<and> (y mod 100 \<noteq> 0 \<or> y mod 400 = 0)"

definition daysIn :: "int \<Rightarrow> int" where
  "daysIn y = (if isLeap y then 366 else 365)"

definition monthLengths :: "int \<Rightarrow> int list" where
  "monthLengths y = [31, if isLeap y then 29 else 28, 31, 30, 31, 30, 31, 31, 30, 31, 30, 31]"

text \<open>Whole cycles of 400 years are divided off; the years and months left are counted one at a time.\<close>

function yearFrom :: "int \<Rightarrow> int \<Rightarrow> int \<times> int" where
  "yearFrom y d = (if d < daysIn y then (y, d) else yearFrom (y + 1) (d - daysIn y))"
  by auto
termination
  by (relation "measure (nat \<circ> snd)") (auto simp: daysIn_def split: if_splits)

declare yearFrom.simps [simp del]

fun monthFrom :: "int \<Rightarrow> int list \<Rightarrow> int \<Rightarrow> int \<times> int" where
  "monthFrom m (l # l' # ls) d = (if d < l then (m, d) else monthFrom (m + 1) (l' # ls) (d - l))"
| "monthFrom m _ d = (m, d)"

definition civil :: "int \<Rightarrow> int \<times> int \<times> int" where
  "civil days = (let (y, r) = yearFrom 0 (days mod 146097); (m, d) = monthFrom 1 (monthLengths y) r
     in (400 * (days div 146097) + y, m, d + 1))"

section \<open>The calendar counts days\<close>

definition startDay :: "int \<Rightarrow> int" where
  "startDay y = 365 * y + (y + 3) div 4 - (y + 99) div 100 + (y + 399) div 400"

lemma monthLengths_sum: "sum_list (monthLengths y) = daysIn y"
  by (simp add: monthLengths_def daysIn_def)

lemma ceiling_step:
  assumes "j = k - 1" and k: "0 < k"
  shows "(y + 1 + j) div k = (y + j) div k + (if y mod k = 0 then 1 else (0 :: int))"
proof -
  have "(y + 1 + j) div k = y div k + 1" using assms by simp
  moreover
  have "(y + (k - 1)) div k = y div k + (if y mod k = 0 then 0 else 1)"
  proof (cases "y mod k = 0")
    case True
    then show ?thesis using k mult_div_mod_eq [of k y] by (intro int_div_pos_eq [where r = "k - 1"]) auto
  next
    case False
    then have "0 < y mod k" using k pos_mod_sign [of k y] by linarith
    moreover have "y + (k - 1) = k * (y div k + 1) + (y mod k - 1)" using mult_div_mod_eq [of k y] by (simp add: algebra_simps)
    moreover have "y mod k - 1 < k" using pos_mod_bound [OF k, of y] by linarith
    ultimately show ?thesis using False by (intro int_div_pos_eq [where r = "y mod k - 1"]) auto
  qed
  ultimately show ?thesis using assms(1) by simp
qed

lemma startDay_step: "startDay (y + 1) = startDay y + daysIn y"
proof -
  have whole: "365 * (y + 1) + b4 - b100 + b400 = 365 * y + a4 - a100 + a400 + (if l4 \<and> (\<not> l100 \<or> l400) then 366 else 365)"
    if "b4 = a4 + (if l4 then 1 else 0)" "b100 = a100 + (if l100 then 1 else 0)" "b400 = a400 + (if l400 then 1 else 0)"
      "l400 \<Longrightarrow> l100" "l100 \<Longrightarrow> l4" for a4 a100 a400 b4 b100 b400 :: int and l4 l100 l400
    using that by (cases l4; cases l100; cases l400) simp_all
  have part: "y mod k = 0" if "y mod m = 0" "k dvd m" for k m :: int
    using dvd_imp_mod_0 dvd_trans [OF that(2) mod_0_imp_dvd [OF that(1)]] by blast
  have dvd: "y mod 400 = 0 \<Longrightarrow> y mod 100 = 0" "y mod 100 = 0 \<Longrightarrow> y mod 4 = 0"
    by (erule part, simp)+
  show ?thesis unfolding startDay_def daysIn_def isLeap_def
    by (rule whole [OF ceiling_step ceiling_step ceiling_step dvd]) simp_all
qed

lemma startDay_less: "y < z \<Longrightarrow> startDay y + daysIn y \<le> startDay z"
proof (induction z rule: int_gr_induct [of y])
  case (step i)
  then show ?case using startDay_step [of i] by (auto simp: daysIn_def split: if_splits)
qed (simp add: startDay_step)

lemma cycle_mod: "k dvd 400 \<Longrightarrow> (400 * q + y) mod k = y mod (k :: int)"
  by (metis add.commute dvd_def mod_mult_self2 mult.assoc)

lemma isLeap_cycle: "isLeap (400 * q + y) = isLeap y"
  using cycle_mod [of 4 q y] cycle_mod [of 100 q y] cycle_mod [of 400 q y] by (simp add: isLeap_def)

lemma cycle_div:
  assumes "400 = k * j" and "0 < k"
  shows "(400 * q + y + c) div k = j * q + (y + c) div (k :: int)"
  using assms(2) by (simp add: assms(1) mult.assoc add.assoc)

lemma startDay_cycle: "startDay (400 * q + y) = 146097 * q + startDay y"
proof -
  have whole: "365 * (400 * q + y) + (100 * q + a) - (4 * q + b) + (1 * q + c) = 146097 * q + (365 * y + a - b + c)" for a b c
    by simp
  show ?thesis unfolding startDay_def
    using whole cycle_div [of 4 100 q y 3] cycle_div [of 100 4 q y 99] cycle_div [of 400 1 q y 399] by presburger
qed

lemma yearFrom_startDay:
  "0 \<le> d \<Longrightarrow> yearFrom y d = (y', r) \<Longrightarrow> startDay y + d = startDay y' + r \<and> 0 \<le> r \<and> r < daysIn y'"
proof (induction y d rule: yearFrom.induct)
  case (1 y d)
  show ?case
  proof (cases "d < daysIn y")
    case False
    then have "yearFrom (y + 1) (d - daysIn y) = (y', r)" using "1.prems" by (simp add: yearFrom.simps [of y])
    then show ?thesis using "1.IH" False by (simp add: startDay_step)
  qed (use "1.prems" in \<open>simp add: yearFrom.simps [of y]\<close>)
qed

lemma monthFrom_days:
  "ls \<noteq> [] \<Longrightarrow> 0 \<le> d \<Longrightarrow> d < sum_list ls \<Longrightarrow> monthFrom m ls d = (m', r) \<Longrightarrow>
     \<exists>k. m' = m + int k \<and> k < length ls \<and> d = sum_list (take k ls) + r \<and> 0 \<le> r \<and> r < ls ! k"
proof (induction m ls d rule: monthFrom.induct)
  case (1 m l l' ls d)
  show ?case
  proof (cases "d < l")
    case True
    then show ?thesis using "1.prems" by (intro exI [of _ 0]) simp
  next
    case False
    then have "0 \<le> d - l" "d - l < sum_list (l' # ls)" "monthFrom (m + 1) (l' # ls) (d - l) = (m', r)" using "1.prems" by auto
    then obtain k where "m' = m + 1 + int k" "k < length (l' # ls)" "d - l = sum_list (take k (l' # ls)) + r" "0 \<le> r" "r < (l' # ls) ! k"
      using "1.IH" [OF False] by blast
    then show ?thesis by (intro exI [of _ "Suc k"]) simp
  qed
qed auto

definition dayNumber :: "int \<times> int \<times> int \<Rightarrow> int" where
  "dayNumber = (\<lambda>(y, m, d). startDay y + sum_list (take (nat (m - 1)) (monthLengths y)) + (d - 1))"

definition validDate :: "int \<times> int \<times> int \<Rightarrow> bool" where
  "validDate = (\<lambda>(y, m, d). 1 \<le> m \<and> m \<le> 12 \<and> 1 \<le> d \<and> d \<le> monthLengths y ! nat (m - 1))"

lemma civil_dayNumber: "dayNumber (civil n) = n \<and> validDate (civil n)"
proof -
  obtain y r where y: "yearFrom 0 (n mod 146097) = (y, r)" by fastforce
  have yr: "n mod 146097 = startDay y + r" "0 \<le> r" "r < daysIn y" using yearFrom_startDay [OF _ y] by (simp_all add: startDay_def)
  obtain m d where m: "monthFrom 1 (monthLengths y) r = (m, d)" by fastforce
  have "monthLengths y \<noteq> []" "length (monthLengths y) = 12" by (simp_all add: monthLengths_def)
  then obtain k where k: "m = 1 + int k" "k < 12" "r = sum_list (take k (monthLengths y)) + d" "0 \<le> d" "d < monthLengths y ! k"
    using monthFrom_days [OF _ _ _ m] yr(2,3) by (auto simp: monthLengths_sum)
  have l: "monthLengths (400 * q + y) = monthLengths y" for q by (simp add: monthLengths_def isLeap_cycle)
  have "startDay (400 * (n div 146097) + y) + r = n"
    using yr(1) mult_div_mod_eq [of 146097 n] by (simp add: startDay_cycle)
  moreover have "civil n = (400 * (n div 146097) + y, m, d + 1)" by (simp add: civil_def y m)
  ultimately show ?thesis using k by (simp add: dayNumber_def validDate_def l)
qed

text \<open>A later date counts more days.\<close>

lemma monthLengths_days:
  "k < l \<Longrightarrow> l \<le> 12 \<Longrightarrow> sum_list (take k (monthLengths y)) + monthLengths y ! k \<le> sum_list (take l (monthLengths y))"
proof (induction l)
  case (Suc l)
  have len: "l < length (monthLengths y)" using Suc(3) by (simp add: monthLengths_def)
  then have "0 \<le> monthLengths y ! l" using nth_mem [OF len] by (auto simp: monthLengths_def)
  then show ?case using Suc len by (cases "k = l") (auto simp: take_Suc_conv_app_nth)
qed simp

lemma dayNumber_year:
  assumes "validDate (y, m, d)"
  shows "startDay y \<le> dayNumber (y, m, d) \<and> dayNumber (y, m, d) < startDay y + daysIn y"
proof -
  have k: "nat (m - 1) < 12" "1 \<le> d" "d \<le> monthLengths y ! nat (m - 1)" using assms by (auto simp: validDate_def)
  have "0 \<le> sum_list (take (nat (m - 1)) (monthLengths y))"
    by (intro sum_list_nonneg) (auto simp: monthLengths_def dest!: in_set_takeD split: if_splits)
  moreover have "sum_list (take (nat (m - 1)) (monthLengths y)) + monthLengths y ! nat (m - 1) \<le> daysIn y"
    using monthLengths_days [OF k(1), of y] monthLengths_sum [of y] by (simp add: monthLengths_def split: if_splits)
  ultimately show ?thesis using k(2,3) by (simp add: dayNumber_def)
qed

lemma dayNumber_less:
  assumes "validDate a" "validDate b" and "a < b"
  shows "dayNumber a < dayNumber b"
proof -
  obtain y m d y' m' d' where ab: "a = (y, m, d)" "b = (y', m', d')" by (metis prod_cases3)
  consider "y < y'" | "y = y'" "m < m'" | "y = y'" "m = m'" "d < d'" using assms(3) by (auto simp: ab less_prod_def')
  then show ?thesis
  proof cases
    case 1
    then show ?thesis using dayNumber_year [of y m d] dayNumber_year [of y' m' d'] assms(1,2) startDay_less [of y y'] by (simp add: ab)
  next
    case 2
    then have "nat (m - 1) < nat (m' - 1)" "nat (m' - 1) \<le> 12" using assms(1,2) by (auto simp: ab validDate_def)
    from monthLengths_days [OF this, of y] show ?thesis using 2 assms(1,2) by (simp add: ab dayNumber_def validDate_def)
  next
    case 3
    then show ?thesis by (simp add: ab dayNumber_def)
  qed
qed

lemma civil_less: "civil m < civil n \<longleftrightarrow> m < n"
proof -
  have "dayNumber (civil m) < dayNumber (civil n)" if "civil m < civil n" using dayNumber_less that civil_dayNumber by blast
  moreover have "dayNumber (civil n) < dayNumber (civil m)" if "civil n < civil m" using dayNumber_less that civil_dayNumber by blast
  ultimately show ?thesis using civil_dayNumber by (metis less_asym neqE)
qed

section \<open>Digits\<close>

fun dec :: "nat \<Rightarrow> int \<Rightarrow> string" where
  "dec 0 n = []"
| "dec (Suc w) n = dec w (n div 10) @ [char_of (48 + nat (n mod 10))]"

lemma dec_length [simp]: "length (dec w n) = w"
  by (induction w arbitrary: n) auto

lemma append_less: "length xs = length ys \<Longrightarrow> xs @ us < ys @ vs \<longleftrightarrow> xs < ys \<or> xs = ys \<and> us < (vs :: 'a :: linorder list)"
  by (induction xs ys rule: list_induct2) auto

lemma divmod_less: "0 < k \<Longrightarrow> m < n \<longleftrightarrow> m div k < n div k \<or> m div k = n div k \<and> m mod k < n mod (k :: int)"
  by (metis add_less_cancel_left leD linorder_neqE mult_div_mod_eq order.strict_implies_order zdiv_mono1)

lemma divmod_eq: "m = n \<longleftrightarrow> m div k = n div k \<and> m mod k = n mod (k :: int)"
  by (metis mult_div_mod_eq)

lemma digit_less: "char_of (48 + nat (m mod 10)) < (char_of (48 + nat (n mod 10)) :: char) \<longleftrightarrow> m mod 10 < n mod (10 :: int)"
proof -
  have "nat (k mod 10) < 10" for k :: int by simp
  then have "(48 + nat (k mod 10)) mod 256 = 48 + nat (k mod 10)" for k :: int by (simp add: order.strict_trans)
  then show ?thesis using pos_mod_sign [of 10 m] by (auto simp: less_char_def)
qed

lemma dec_less: "0 \<le> m \<Longrightarrow> m < 10 ^ w \<Longrightarrow> 0 \<le> n \<Longrightarrow> n < 10 ^ w \<Longrightarrow>
    (dec w m < dec w n \<longleftrightarrow> m < n) \<and> (dec w m = dec w n \<longleftrightarrow> m = n)"
proof (induction w arbitrary: m n)
  case (Suc w)
  have "0 \<le> m div 10" "m div 10 < 10 ^ w" "0 \<le> n div 10" "n div 10 < 10 ^ w" using Suc.prems by auto
  then have ih: "dec w (m div 10) < dec w (n div 10) \<longleftrightarrow> m div 10 < n div 10" "dec w (m div 10) = dec w (n div 10) \<longleftrightarrow> m div 10 = n div 10"
    using Suc.IH by blast+
  have "(char_of (48 + nat (m mod 10)) :: char) = char_of (48 + nat (n mod 10)) \<longleftrightarrow> m mod 10 = n mod 10"
    using digit_less [of m n] digit_less [of n m] by (metis (no_types) less_irrefl linorder_less_linear)
  then show ?case using ih digit_less [of m n] divmod_less [of 10 m n] divmod_eq [of m n 10]
    by (simp only: dec.simps append_less dec_length append_eq_append_conv list.inject simp_thms Cons_less_Cons) simp
qed simp

text \<open>Fields of a fixed width, each followed by its separator.\<close>

fun fields :: "(nat \<times> int \<times> string) list \<Rightarrow> string" where
  "fields [] = []"
| "fields ((w, n, after) # fs) = dec w n @ after @ fields fs"

abbreviation fieldValues :: "(nat \<times> int \<times> string) list \<Rightarrow> int list" where
  "fieldValues \<equiv> map (fst \<circ> snd)"

abbreviation sameLayout :: "nat \<times> int \<times> string \<Rightarrow> nat \<times> int \<times> string \<Rightarrow> bool" where
  "sameLayout \<equiv> \<lambda>(w, m, a) (v, n, b). w = v \<and> a = b \<and> 0 \<le> m \<and> m < 10 ^ w \<and> 0 \<le> n \<and> n < 10 ^ w"

lemma fields_less:
  "list_all2 sameLayout fs gs \<Longrightarrow>
     fields fs @ us < fields gs @ vs \<longleftrightarrow> fieldValues fs < fieldValues gs \<or> fieldValues fs = fieldValues gs \<and> us < vs"
proof (induction rule: list_all2_induct)
  case (Cons f fs g gs)
  obtain w m a n where fg: "f = (w, m, a)" "g = (w, n, a)" "0 \<le> m" "m < 10 ^ w" "0 \<le> n" "n < 10 ^ w"
    using Cons(1) by (cases f; cases g) auto
  show ?case using dec_less [OF fg(3-6)] Cons(3) by (cases "m = n") (simp_all add: fg append_less)
qed simp

section \<open>The texts\<close>

abbreviation "second \<equiv> 1000000000 :: int"

text \<open>The fields of an instant down to the second.\<close>

definition clockFields :: "int \<Rightarrow> (nat \<times> int \<times> string) list" where
  "clockFields t = (let s = t div second; (y, m, d) = civil (s div 86400)
     in [(4, y, ''-''), (2, m, ''-''), (2, d, ''T''), (2, s div 3600 mod 24, '':''), (2, s div 60 mod 60, '':''), (2, s mod 60, [])])"

definition ts :: "int \<Rightarrow> string" where
  "ts t = fields (clockFields t) @ ''.'' @ dec 9 (t mod second) @ ''Z''"

definition trimZeros :: "string \<Rightarrow> string" where
  "trimZeros s = rev (dropWhile (\<lambda>c. c = CHR ''0'') (rev s))"

definition nowStamp :: "int \<Rightarrow> string" where
  "nowStamp t = fields (clockFields t) @ (if t mod second = 0 then [] else ''.'' @ trimZeros (dec 9 (t mod second))) @ ''Z''"

text \<open>The instants of the years 0 to 9999.\<close>

definition fourDigitYears :: "int \<Rightarrow> bool" where
  "fourDigitYears t \<longleftrightarrow> 0 \<le> t \<and> t < startDay 10000 * 86400 * second"

lemma dayNumber_bounds:
  assumes "validDate (y, m, d)" and "0 \<le> dayNumber (y, m, d)" and "dayNumber (y, m, d) < startDay 10000"
  shows "0 \<le> y \<and> y < 10000 \<and> 1 \<le> m \<and> m \<le> 12 \<and> 1 \<le> d \<and> d \<le> 31"
proof -
  have "monthLengths y ! nat (m - 1) \<le> 31"
  proof -
    have "length (monthLengths y) = 12" "\<forall>l \<in> set (monthLengths y). l \<le> 31" by (simp_all add: monthLengths_def)
    moreover have "nat (m - 1) < 12" using assms(1) by (auto simp: validDate_def)
    ultimately show ?thesis by (metis nth_mem)
  qed
  moreover have "startDay 0 = 0" "0 < daysIn 10000" by (simp_all add: startDay_def daysIn_def)
  note year = dayNumber_year [OF assms(1)] this
  have "0 \<le> y"
  proof (rule ccontr)
    assume "\<not> 0 \<le> y"
    then show False using startDay_less [of y 0] year assms(2) by linarith
  qed
  moreover have "y < 10000"
  proof (rule ccontr)
    assume "\<not> y < 10000"
    then have "startDay 10000 \<le> startDay y" using startDay_less [of 10000 y] year(3) by (cases "y = 10000") auto
    then show False using year(1) assms(3) by linarith
  qed
  ultimately show ?thesis using assms(1) by (auto simp: validDate_def)
qed

lemma civil_bounds:
  assumes "fourDigitYears t" and "civil (t div second div 86400) = (y, m, d)"
  shows "0 \<le> y \<and> y < 10000 \<and> 1 \<le> m \<and> m \<le> 12 \<and> 1 \<le> d \<and> d \<le> 31"
proof (rule dayNumber_bounds)
  have v: "validDate (y, m, d)" "dayNumber (y, m, d) = t div second div 86400"
    using civil_dayNumber [of "t div second div 86400"] assms(2) by simp_all
  show "validDate (y, m, d)" by (rule v(1))
  have n: "t div second div 86400 = t div 86400000000000" by (simp add: zdiv_zmult2_eq [symmetric])
  show "0 \<le> dayNumber (y, m, d)" "dayNumber (y, m, d) < startDay 10000"
    unfolding v(2) n using assms(1) unfolding fourDigitYears_def by linarith+
qed

lemma clock_less:
  "s < s' \<longleftrightarrow> s div 86400 < s' div 86400 \<or> s div 86400 = s' div 86400 \<and>
     [s div 3600 mod 24, s div 60 mod 60, s mod 60] < [s' div 3600 mod 24, s' div 60 mod 60, s' mod (60 :: int)]"
proof -
  have d: "k div 60 div 60 = k div 3600" "k div 3600 div 24 = k div 86400" for k :: int by (simp_all add: zdiv_zmult2_eq [symmetric])
  show ?thesis
    using divmod_less [of 60 s s'] divmod_less [of 60 "s div 60" "s' div 60"] divmod_less [of 24 "s div 3600" "s' div 3600"]
      divmod_eq [of "s div 60" "s' div 60" 60] divmod_eq [of "s div 3600" "s' div 3600" 24]
    unfolding d by auto
qed

lemma clockFields_layout:
  assumes "fourDigitYears t" "fourDigitYears u"
  shows "list_all2 sameLayout (clockFields t) (clockFields u)"
proof -
  obtain y m d where c: "civil (t div second div 86400) = (y, m, d)" by (metis prod_cases3)
  obtain y' m' d' where c': "civil (u div second div 86400) = (y', m', d')" by (metis prod_cases3)
  have mods: "0 \<le> k mod 24" "k mod 24 < 100" "0 \<le> k mod 60" "k mod 60 < 100" for k :: int by (simp_all add: order.strict_trans)
  show ?thesis using civil_bounds [OF assms(1) c] civil_bounds [OF assms(2) c']
    by (simp only: clockFields_def c c' Let_def prod.case list.rel_inject list.rel_intros) (simp add: mods)
qed

lemma date_less: "y # m # d # xs < y' # m' # d' # xs' \<longleftrightarrow> (y, m, d) < (y', m', d') \<or> (y, m, d) = (y', m', d') \<and> xs < (xs' :: int list)"
  by (auto simp: less_prod_def')

lemma clockFields_less: "fieldValues (clockFields t) < fieldValues (clockFields u) \<longleftrightarrow> t div second < u div second"
proof -
  obtain y m d where c: "civil (t div second div 86400) = (y, m, d)" by (metis prod_cases3)
  obtain y' m' d' where c': "civil (u div second div 86400) = (y', m', d')" by (metis prod_cases3)
  have h: "(y, m, d) < (y', m', d') \<longleftrightarrow> t div second div 86400 < u div second div 86400"
    "(y, m, d) = (y', m', d') \<longleftrightarrow> t div second div 86400 = u div second div 86400"
    using civil_less [of "t div second div 86400" "u div second div 86400"] civil_less [of "u div second div 86400" "t div second div 86400"]
    unfolding c c' by (blast, metis c c' less_irrefl linorder_neqE)
  show ?thesis unfolding clock_less [of "t div second"]
    by (simp only: clockFields_def c c' Let_def prod.case list.map comp_apply fst_conv snd_conv date_less h)
qed

lemma clockFields_eq: "fieldValues (clockFields t) = fieldValues (clockFields u) \<longleftrightarrow> t div second = u div second"
  using clockFields_less [of t u] clockFields_less [of u t] by (metis less_irrefl linorder_neqE)

lemma ts_less:
  assumes "fourDigitYears t" "fourDigitYears u"
  shows "ts t < ts u \<longleftrightarrow> t < u"
proof -
  have "0 \<le> k mod second" "k mod second < 10 ^ 9" for k by simp_all
  then have "''.'' @ dec 9 (t mod second) @ ''Z'' < ''.'' @ dec 9 (u mod second) @ ''Z'' \<longleftrightarrow> t mod second < u mod second"
    using dec_less [of "t mod second" 9 "u mod second"] by (simp only: append_less [OF refl] append_less dec_length simp_thms less_irrefl)
  then show ?thesis using divmod_less [of second t u]
    by (simp only: ts_def fields_less [OF clockFields_layout [OF assms]] clockFields_less clockFields_eq)
qed

text \<open>
  C23. The texts the ledger keeps order as the instants they name. Two instants of the years 0 to
  9999 compare as bytes exactly as they compare in time, and only equal instants share a text: so
  the database may compare and index the columns as text. The trimmed texts of other columns
  agree with time where the instants lie in different seconds.
\<close>

theorem stamps_order_as_time:
  assumes "fourDigitYears t" "fourDigitYears u"
  shows "(ts t < ts u \<longleftrightarrow> t < u) \<and> (ts t = ts u \<longleftrightarrow> t = u)
    \<and> (t div second \<noteq> u div second \<longrightarrow> (nowStamp t < nowStamp u \<longleftrightarrow> t < u))"
proof (intro conjI impI)
  show "ts t < ts u \<longleftrightarrow> t < u" by (rule ts_less [OF assms])
  show "ts t = ts u \<longleftrightarrow> t = u" using ts_less [OF assms] ts_less [OF assms(2,1)] by (metis less_irrefl linorder_neqE)
  assume "t div second \<noteq> u div second"
  moreover have "0 < second" by simp
  ultimately show "nowStamp t < nowStamp u \<longleftrightarrow> t < u"
    using divmod_less [of second t u] by (simp only: nowStamp_def fields_less [OF clockFields_layout [OF assms]] clockFields_less clockFields_eq) blast
qed

text \<open>
  Within a second the trimmed texts do not order: half past is a byte before the whole second.
  The two instants are the 14th of November 2023 at 22:13:20 and half a second later.
\<close>

abbreviation "sampleInstant \<equiv> 63867219200 * second"

theorem stamps_order_as_time_witness:
  "ts sampleInstant = ''2023-11-14T22:13:20.000000000Z'' \<and> ts (sampleInstant + 500000000) = ''2023-11-14T22:13:20.500000000Z''
   \<and> ts sampleInstant < ts (sampleInstant + 500000000)"
proof -
  have "fourDigitYears sampleInstant" "fourDigitYears (sampleInstant + 500000000)" by code_simp+
  then have "ts sampleInstant < ts (sampleInstant + 500000000)" using stamps_order_as_time by simp
  moreover have "ts sampleInstant = ''2023-11-14T22:13:20.000000000Z''" by code_simp
  moreover have "ts (sampleInstant + 500000000) = ''2023-11-14T22:13:20.500000000Z''" by code_simp
  ultimately show ?thesis by blast
qed

lemma trimmed_stamps_misorder: "nowStamp (sampleInstant + 500000000) < nowStamp sampleInstant"
proof -
  have "nowStamp (sampleInstant + 500000000) = ''2023-11-14T22:13:20.5Z''" "nowStamp sampleInstant = ''2023-11-14T22:13:20Z''" by code_simp+
  then show ?thesis by (simp add: less_char_def)
qed

end
