(* ===== verification/Credentials.thy ===== *)
theory Credentials
  imports Inventory Timestamps
begin

text \<open>
  What lets a machine in, and what keeps it out: join tokens (\<open>alloc/jointoken.go\<close>,
  \<open>queries/jointokens.sql\<close>) and certificates (\<open>alloc/revocation.go\<close>, \<open>queries/revocation.sql\<close>).
  A secret drawn at random is an argument of the operation that draws it, and \<open>sha\<close> is the
  hexadecimal SHA-256 the ledger keeps a token under: the theorems hold whatever function it is.
  A certificate's end of validity is compared as text with the instant rendered by \<open>ts\<close>, as the
  statement does; every other column holds the instant its text renders.
\<close>

definition updCredentials :: "(Credentials \<Rightarrow> Credentials) \<Rightarrow> Ledger \<Rightarrow> Ledger" where
  "updCredentials f d = d\<lparr>credentials := f (credentials d)\<rparr>"

lemma updCredentials_fields [simp]:
  "leases (updCredentials f d) = leases d" "nodes (updCredentials f d) = nodes d" "history (updCredentials f d) = history d"
  "pending (updCredentials f d) = pending d" "poolOrders (updCredentials f d) = poolOrders d"
  "admission (updCredentials f d) = admission d" "seal (updCredentials f d) = seal d"
  "tierReleases (updCredentials f d) = tierReleases d" "usageSeq (updCredentials f d) = usageSeq d"
  "inventories (updCredentials f d) = inventories d" "barrier (updCredentials f d) = barrier d"
  "barrierRuns (updCredentials f d) = barrierRuns d" "credentials (updCredentials f d) = f (credentials d)"
  by (simp_all add: updCredentials_def)

text \<open>The zero value of Go's \<open>time.Time\<close> is the first instant of the year 1.\<close>

definition zeroTime :: int where
  "zeroTime = 366 * 86400 * second"

section \<open>Join tokens\<close>

text \<open>\<open>strings.ToLower\<close> on the letters of ASCII.\<close>

definition lowerChar :: "char \<Rightarrow> char" where
  "lowerChar c = (let n = of_char c in if 65 \<le> n \<and> n \<le> (90 :: nat) then char_of (n + 32) else c)"

definition hashJoinToken :: "(string \<Rightarrow> string) \<Rightarrow> string \<Rightarrow> string" where
  "hashJoinToken sha token = sha (TrimSpace (map lowerChar token))"

definition liveToken :: "int \<Rightarrow> JoinTokenRow \<Rightarrow> bool" where
  "liveToken now t \<longleftrightarrow> 0 < jt_uses t \<and> now < jt_expiresAt t"

text \<open>\<open>token_sha256\<close> is the table's primary key.\<close>

definition InsertJoinToken :: "JoinTokenRow \<Rightarrow> Ledger \<Rightarrow> Ledger result" where
  "InsertJoinToken row d =
     (if jt_sha256 row \<in> set (map jt_sha256 (joinTokens (credentials d))) then Inl ErrStore
      else Inr (updCredentials (\<lambda>c. c\<lparr>joinTokens := joinTokens c @ [row]\<rparr>) d))"

definition spendTokens :: "(JoinTokenRow \<Rightarrow> bool) \<Rightarrow> Ledger \<Rightarrow> int \<times> Ledger" where
  "spendTokens P d =
     (count_where P (joinTokens (credentials d)),
      updCredentials (\<lambda>c. c\<lparr>joinTokens := upd_where P (\<lambda>t. t\<lparr>jt_uses := jt_uses t - 1\<rparr>) (joinTokens c)\<rparr>) d)"

definition SpendJoinTokenRow :: "int \<Rightarrow> string \<Rightarrow> Ledger \<Rightarrow> int \<times> Ledger" where
  "SpendJoinTokenRow now hash = spendTokens (\<lambda>t. jt_sha256 t = hash \<and> liveToken now t)"

definition SpendPoolJoinToken :: "int \<Rightarrow> string \<Rightarrow> string \<Rightarrow> Ledger \<Rightarrow> int \<times> Ledger" where
  "SpendPoolJoinToken now hash order = spendTokens (\<lambda>t. jt_sha256 t = hash \<and> jt_poolOrder t = order \<and> liveToken now t)"

definition RetirePoolJoinTokens :: "string \<Rightarrow> Ledger \<Rightarrow> Ledger" where
  "RetirePoolJoinTokens order =
     updCredentials (\<lambda>c. c\<lparr>joinTokens := upd_where (\<lambda>t. jt_poolOrder t = order \<and> 0 < jt_uses t) (\<lambda>t. t\<lparr>jt_uses := 0\<rparr>) (joinTokens c)\<rparr>)"

definition findToken :: "Ledger \<Rightarrow> string \<Rightarrow> JoinTokenRow option" where
  "findToken d hash = find (\<lambda>t. jt_sha256 t = hash) (joinTokens (credentials d))"

definition LiveJoinTokenExists :: "int \<Rightarrow> Ledger \<Rightarrow> string \<Rightarrow> bool" where
  "LiveJoinTokenExists now d hash = list_ex (\<lambda>t. jt_sha256 t = hash \<and> liveToken now t) (joinTokens (credentials d))"

definition ReadJoinTokenOrder :: "int \<Rightarrow> Ledger \<Rightarrow> string \<Rightarrow> (string \<times> bool) option" where
  "ReadJoinTokenOrder now d hash = map_option (\<lambda>t. (jt_poolOrder t, liveToken now t)) (findToken d hash)"

definition insertJoinTokenTx :: "(string \<Rightarrow> string) \<Rightarrow> int \<Rightarrow> string \<Rightarrow> string \<Rightarrow> string \<Rightarrow> int \<Rightarrow> int \<Rightarrow> Ledger \<Rightarrow> Ledger result" where
  "insertJoinTokenTx sha now token note poolOrder uses ttl =
     InsertJoinToken \<lparr>jt_sha256 = hashJoinToken sha token, jt_note = note, jt_uses = uses, jt_createdAt = now,
       jt_expiresAt = now + ttl, jt_poolOrder = poolOrder\<rparr>"

definition NewJoinToken :: "(string \<Rightarrow> string) \<Rightarrow> int \<Rightarrow> string \<Rightarrow> int \<Rightarrow> int \<Rightarrow> string \<Rightarrow> Ledger \<Rightarrow> Ledger result" where
  "NewJoinToken sha now token ttl uses note d =
     (if ttl \<le> 0 then Inl ErrInvalid
      else if uses \<le> 0 then Inl ErrInvalid
      else insertJoinTokenTx sha now token note [] uses ttl d)"

definition spendJoinTokenTx :: "(string \<Rightarrow> string) \<Rightarrow> int \<Rightarrow> string \<Rightarrow> Ledger \<Rightarrow> Ledger result" where
  "spendJoinTokenTx sha now token d =
     (if TrimSpace token = [] then Inl ErrBadJoinToken
      else case SpendJoinTokenRow now (hashJoinToken sha token) d of
        (n, d') \<Rightarrow> if n = 0 then Inl ErrBadJoinToken else Inr d')"

definition SpendJoinToken :: "(string \<Rightarrow> string) \<Rightarrow> int \<Rightarrow> string \<Rightarrow> Ledger \<Rightarrow> Ledger result" where
  "SpendJoinToken sha now token = spendJoinTokenTx sha now token"

text \<open>What is outstanding, newest first, without the secrets.\<close>

record JoinToken =
  tk_note :: string
  tk_uses :: int
  tk_createdAt :: int
  tk_expiresAt :: int

definition JoinTokens :: "Ledger \<Rightarrow> JoinToken list" where
  "JoinTokens d =
     map (\<lambda>t. \<lparr>tk_note = jt_note t, tk_uses = jt_uses t, tk_createdAt = jt_createdAt t, tk_expiresAt = jt_expiresAt t\<rparr>)
       (sort_key (\<lambda>t. - jt_createdAt t) (joinTokens (credentials d)))"

section \<open>Certificates\<close>

abbreviation "CertEnrolled \<equiv> ''enrolled''"
abbreviation "CertIssued \<equiv> ''issued''"
abbreviation "CertRenewed \<equiv> ''renewed''"
abbreviation "CertPool \<equiv> ''pool''"

text \<open>\<open>serial\<close> is the primary key of both tables; a second insert under it does nothing.\<close>

definition insertNew :: "('a \<Rightarrow> string) \<Rightarrow> 'a \<Rightarrow> 'a list \<Rightarrow> 'a list" where
  "insertNew key row rows = (if key row \<in> set (map key rows) then rows else rows @ [row])"

definition recordIssuedCertTx :: "int \<Rightarrow> IssuedCert \<Rightarrow> Ledger \<Rightarrow> Ledger" where
  "recordIssuedCertTx now cert =
     updCredentials (\<lambda>c. c\<lparr>issuedCerts := insertNew ic_serial (cert\<lparr>ic_issuedAt := now\<rparr>) (issuedCerts c)\<rparr>)"

definition RevokeCertRow :: "int \<Rightarrow> string \<Rightarrow> string \<Rightarrow> string \<Rightarrow> Ledger \<Rightarrow> Ledger" where
  "RevokeCertRow now serial node reason =
     updCredentials (\<lambda>c. c\<lparr>revokedCerts := insertNew rv_serial
       \<lparr>rv_serial = serial, rv_node = node, rv_reason = reason, rv_revokedAt = now\<rparr> (revokedCerts c)\<rparr>)"

definition CertRevocation :: "Ledger \<Rightarrow> string \<Rightarrow> bool" where
  "CertRevocation d serial \<longleftrightarrow> serial \<in> set (map rv_serial (revokedCerts (credentials d)))"

definition LiveCertsFor :: "int \<Rightarrow> string \<Rightarrow> Ledger \<Rightarrow> IssuedCert list" where
  "LiveCertsFor now node d =
     sort_key (\<lambda>i. - ic_issuedAt i)
       (filter (\<lambda>i. ic_node i = node \<and> \<not> CertRevocation d (ic_serial i) \<and> ts now < ic_notAfter i) (issuedCerts (credentials d)))"

definition RecordNodeRevocation :: "NodeRevocation \<Rightarrow> Ledger \<Rightarrow> Ledger" where
  "RecordNodeRevocation row =
     updCredentials (\<lambda>c. c\<lparr>nodeRevocations := upsertBy nr_node row (\<lambda>_. row) (nodeRevocations c)\<rparr>)"

definition NodeRevocationCutoff :: "Ledger \<Rightarrow> string \<Rightarrow> int option" where
  "NodeRevocationCutoff d node = map_option nr_revokedBefore (find (\<lambda>r. nr_node r = node) (nodeRevocations (credentials d)))"

text \<open>\<open>Truncate(time.Second)\<close>.\<close>

definition truncSecond :: "int \<Rightarrow> int" where
  "truncSecond t = t div second * second"

definition RevokeCert :: "int \<Rightarrow> string \<Rightarrow> string \<Rightarrow> string \<Rightarrow> Ledger \<Rightarrow> Ledger result" where
  "RevokeCert now serial node reason d =
     (if serial = [] then Inl ErrInvalid else Inr (RevokeCertRow now serial node reason d))"

definition CertRevoked :: "Ledger \<Rightarrow> string \<Rightarrow> bool" where
  "CertRevoked d serial = CertRevocation d serial"

definition RevokedCerts :: "Ledger \<Rightarrow> RevokedCert list" where
  "RevokedCerts d = sort_key (\<lambda>r. - rv_revokedAt r) (revokedCerts (credentials d))"

definition RecordIssuedCert :: "int \<Rightarrow> IssuedCert \<Rightarrow> Ledger \<Rightarrow> Ledger result" where
  "RecordIssuedCert now cert d =
     (if ic_serial cert = [] then Inl ErrInvalid else Inr (recordIssuedCertTx now cert d))"

definition RecordRenewedCert :: "int \<Rightarrow> IssuedCert \<Rightarrow> string \<Rightarrow> int \<Rightarrow> Ledger \<Rightarrow> Ledger result" where
  "RecordRenewedCert now cert parent parentIssuedAt d =
     (if ic_serial cert = [] then Inl ErrInvalid
      else if CertRevocation d parent then Inl ErrParentRevoked
      else case NodeRevocationCutoff d (ic_node cert) of
        None \<Rightarrow> Inr (recordIssuedCertTx now cert d)
      | Some cutoff \<Rightarrow>
          if truncSecond parentIssuedAt < cutoff then Inl ErrParentRevoked
          else Inr (recordIssuedCertTx now cert d))"

fun revokeEach :: "int \<Rightarrow> string \<Rightarrow> string \<Rightarrow> IssuedCert list \<Rightarrow> Ledger \<Rightarrow> Ledger" where
  "revokeEach now node reason [] d = d"
| "revokeEach now node reason (i # is) d = revokeEach now node reason is (RevokeCertRow now (ic_serial i) node reason d)"

definition revokeNodeTx :: "string \<Rightarrow> string \<Rightarrow> int \<Rightarrow> Ledger \<Rightarrow> Ledger" where
  "revokeNodeTx node reason now d =
     RecordNodeRevocation \<lparr>nr_node = node, nr_revokedBefore = truncSecond now + second, nr_reason = reason, nr_revokedAt = now\<rparr>
       (revokeEach now node reason (LiveCertsFor now node d) d)"

definition RevokeNode :: "int \<Rightarrow> string \<Rightarrow> string \<Rightarrow> Ledger \<Rightarrow> IssuedCert list \<times> Ledger" where
  "RevokeNode now node reason d = (LiveCertsFor now node d, revokeNodeTx node reason now d)"

definition CertRevokedFor :: "string \<Rightarrow> string \<Rightarrow> int \<Rightarrow> Ledger \<Rightarrow> bool" where
  "CertRevokedFor node serial issuedAt d =
     (if CertRevocation d serial then True
      else case NodeRevocationCutoff d node of
        None \<Rightarrow> False
      | Some cutoff \<Rightarrow> truncSecond issuedAt < cutoff)"

end
