(* ===== verification/Pool_Orders.thy ===== *)
theory Pool_Orders
  imports Credentials Barrier
begin

text \<open>
  The orders a pool of rented bare metal placed (\<open>alloc/pool.go\<close>, \<open>queries/poolorders.sql\<close>), and
  what links an order to the node that joined from it (the shared half of \<open>alloc/pooljoin.go\<close>).
  An order's state is the text of the table. Every statement that moves an order names the state
  it moves from and answers how many rows it moved.
\<close>

abbreviation "PoolOrdering \<equiv> ''ordering''"
abbreviation "PoolPlaced \<equiv> ''placed''"
abbreviation "PoolUncertain \<equiv> ''uncertain''"
abbreviation "PoolRefused \<equiv> ''refused''"
abbreviation "PoolSealed \<equiv> ''sealed''"
abbreviation "PoolReleased \<equiv> ''released''"
abbreviation "PoolGone \<equiv> ''gone''"
abbreviation "PoolAbandoned \<equiv> ''abandoned''"

definition updOrders :: "(PoolOrder \<Rightarrow> bool) \<Rightarrow> (PoolOrder \<Rightarrow> PoolOrder) \<Rightarrow> Ledger \<Rightarrow> int \<times> Ledger" where
  "updOrders P f d = (count_where P (poolOrders d), d\<lparr>poolOrders := upd_where P f (poolOrders d)\<rparr>)"

definition ReadPoolOrder :: "Ledger \<Rightarrow> string \<Rightarrow> PoolOrder option" where
  "ReadPoolOrder d i = find (\<lambda>p. po_orderID p = i) (poolOrders d)"

section \<open>Placing an order\<close>

text \<open>What an order is recorded with.\<close>

record OrderRequest =
  or_id :: string
  or_source :: string
  or_scope :: string
  or_shape :: string
  or_location :: string
  or_arch :: Arch

definition InsertPoolOrder :: "int \<Rightarrow> OrderRequest \<Rightarrow> Ledger \<Rightarrow> Ledger result" where
  "InsertPoolOrder now req d =
     (if or_id req \<in> set (map po_orderID (poolOrders d)) then Inl ErrStore
      else Inr (d\<lparr>poolOrders := poolOrders d @
        [\<lparr>po_orderID = or_id req, po_source = or_source req, po_scope = or_scope req, po_shape = or_shape req,
          po_location = or_location req, po_arch = or_arch req, po_state = PoolOrdering, po_hostID = [], po_nodeName = [],
          po_reason = [], po_firstAttemptAt = now, po_updatedAt = now, po_fingerprint = [], po_certSerial = [],
          po_joinHold = [], po_releaseRequestedAt = None, po_releaseReason = [], po_contradicted = False,
          po_clearEpoch = 0, po_clearDispatch = 0, po_clearSince = None, po_clearObservedAt = None,
          po_clearGeneration = 0\<rparr>]\<rparr>))"

definition RecordPoolOrder :: "int \<Rightarrow> OrderRequest \<Rightarrow> Ledger \<Rightarrow> Ledger result" where
  "RecordPoolOrder now req d =
     (if or_id req = [] \<or> or_source req = [] \<or> or_scope req = [] \<or> or_shape req = [] \<or> or_arch req = [] then Inl ErrInvalid
      else if \<not> ArchValid (or_arch req) then Inl ErrInvalid
      else InsertPoolOrder now req d)"

definition PoolOrders :: "Ledger \<Rightarrow> PoolOrder list" where
  "PoolOrders d = sort_key (\<lambda>p. (po_firstAttemptAt p, po_orderID p)) (poolOrders d)"

definition MarkPoolOrderPlaced :: "int \<Rightarrow> string \<Rightarrow> string \<Rightarrow> Ledger \<Rightarrow> int \<times> Ledger" where
  "MarkPoolOrderPlaced now i host =
     updOrders (\<lambda>p. po_orderID p = i \<and> po_state p = PoolOrdering)
       (\<lambda>p. p\<lparr>po_state := PoolPlaced, po_hostID := host, po_reason := [], po_updatedAt := now\<rparr>)"

definition MarkUncertainPoolOrderFound :: "int \<Rightarrow> string \<Rightarrow> string \<Rightarrow> Ledger \<Rightarrow> int \<times> Ledger" where
  "MarkUncertainPoolOrderFound now i host =
     updOrders (\<lambda>p. po_orderID p = i \<and> po_state p = PoolUncertain)
       (\<lambda>p. p\<lparr>po_state := PoolPlaced, po_hostID := host, po_reason := [], po_updatedAt := now\<rparr>)"

definition MarkPoolOrderUncertain :: "int \<Rightarrow> string \<Rightarrow> string \<Rightarrow> Ledger \<Rightarrow> int \<times> Ledger" where
  "MarkPoolOrderUncertain now i reason =
     updOrders (\<lambda>p. po_orderID p = i \<and> po_state p = PoolOrdering)
       (\<lambda>p. p\<lparr>po_state := PoolUncertain, po_reason := reason, po_updatedAt := now\<rparr>)"

definition MarkPoolOrderRefused :: "int \<Rightarrow> string \<Rightarrow> string \<Rightarrow> Ledger \<Rightarrow> int \<times> Ledger" where
  "MarkPoolOrderRefused now i reason =
     updOrders (\<lambda>p. po_orderID p = i \<and> po_state p = PoolOrdering)
       (\<lambda>p. p\<lparr>po_state := PoolRefused, po_reason := reason, po_updatedAt := now\<rparr>)"

definition MarkPoolOrderAbandoned :: "int \<Rightarrow> string \<Rightarrow> string \<Rightarrow> Ledger \<Rightarrow> int \<times> Ledger" where
  "MarkPoolOrderAbandoned now i reason =
     updOrders (\<lambda>p. po_orderID p = i \<and> po_state p = PoolUncertain)
       (\<lambda>p. p\<lparr>po_state := PoolAbandoned, po_reason := reason, po_updatedAt := now\<rparr>)"

definition movePoolOrder :: "(Ledger \<Rightarrow> int \<times> Ledger) \<Rightarrow> Ledger \<Rightarrow> Ledger result" where
  "movePoolOrder move d = (case move d of (n, d') \<Rightarrow> if n \<noteq> 1 then Inl ErrPoolOrderMoved else Inr d')"

definition PoolOrderPlaced :: "int \<Rightarrow> string \<Rightarrow> string \<Rightarrow> Ledger \<Rightarrow> Ledger result" where
  "PoolOrderPlaced now i host d =
     (if host = [] then Inl ErrInvalid else movePoolOrder (MarkPoolOrderPlaced now i host) d)"

definition PoolOrderUncertain :: "int \<Rightarrow> string \<Rightarrow> string \<Rightarrow> Ledger \<Rightarrow> Ledger result" where
  "PoolOrderUncertain now i reason = movePoolOrder (MarkPoolOrderUncertain now i reason)"

definition UncertainPoolOrderFound :: "int \<Rightarrow> string \<Rightarrow> string \<Rightarrow> Ledger \<Rightarrow> Ledger result" where
  "UncertainPoolOrderFound now i host d =
     (if host = [] then Inl ErrInvalid else movePoolOrder (MarkUncertainPoolOrderFound now i host) d)"

definition PoolOrderRefused :: "int \<Rightarrow> string \<Rightarrow> string \<Rightarrow> Ledger \<Rightarrow> Ledger result" where
  "PoolOrderRefused now i reason = movePoolOrder (MarkPoolOrderRefused now i reason)"

definition PoolOrderAbandoned :: "int \<Rightarrow> string \<Rightarrow> string \<Rightarrow> Ledger \<Rightarrow> Ledger result" where
  "PoolOrderAbandoned now i reason d =
     (if reason = [] then Inl ErrInvalid else movePoolOrder (MarkPoolOrderAbandoned now i reason) d)"

section \<open>Joining from an order\<close>

abbreviation "poolNodePrefix \<equiv> ''pool-''"

definition PoolNodeName :: "string \<Rightarrow> string" where
  "PoolNodeName order = poolNodePrefix @ order"

definition IsPoolNodeName :: "string \<Rightarrow> bool" where
  "IsPoolNodeName name \<longleftrightarrow> take (length poolNodePrefix) name = poolNodePrefix"

definition LinkPoolOrderNode :: "int \<Rightarrow> string \<Rightarrow> string \<Rightarrow> string \<Rightarrow> string \<Rightarrow> string \<Rightarrow> Ledger \<Rightarrow> int \<times> Ledger" where
  "LinkPoolOrderNode now name fingerprint serial i hold =
     updOrders (\<lambda>p. po_orderID p = i \<and> po_state p = PoolPlaced \<and> po_nodeName p = [] \<and> po_joinHold p = hold)
       (\<lambda>p. p\<lparr>po_nodeName := name, po_fingerprint := fingerprint, po_certSerial := serial, po_joinHold := [], po_updatedAt := now\<rparr>)"

definition HoldPoolOrderJoin :: "int \<Rightarrow> string \<Rightarrow> string \<Rightarrow> int \<Rightarrow> Ledger \<Rightarrow> int \<times> Ledger" where
  "HoldPoolOrderJoin now i hold seen =
     updOrders (\<lambda>p. po_orderID p = i \<and> po_joinHold p = [] \<and> po_state p = PoolPlaced \<and> po_nodeName p = [] \<and> po_updatedAt p = seen)
       (\<lambda>p. p\<lparr>po_joinHold := hold, po_updatedAt := now\<rparr>)"

definition ReleasePoolOrderJoin :: "int \<Rightarrow> string \<Rightarrow> Ledger \<Rightarrow> int \<times> Ledger" where
  "ReleasePoolOrderJoin now i =
     updOrders (\<lambda>p. po_orderID p = i \<and> po_joinHold p \<noteq> [] \<and> po_state p = PoolPlaced \<and> po_nodeName p = [])
       (\<lambda>p. p\<lparr>po_joinHold := [], po_updatedAt := now\<rparr>)"

text \<open>
  Nothing can join from an order any more: it is open, no live token of it is left and no request
  under it waits for a person.
\<close>

definition lapsed :: "int \<Rightarrow> Credentials \<Rightarrow> PoolOrder \<Rightarrow> bool" where
  "lapsed now c p \<longleftrightarrow> po_state p = PoolPlaced \<and> po_nodeName p = [] \<and> po_joinHold p = []
     \<and> \<not> list_ex (\<lambda>t. jt_poolOrder t = po_orderID p \<and> liveToken now t) (joinTokens c)
     \<and> \<not> list_ex (\<lambda>e. en_poolOrder e = po_orderID p \<and> en_state e = ''pending'') (enrollments c)"

abbreviation "lapsedJoin \<equiv> ''every join token of this order lapsed and no node joined from it; look at its host before abandoning or releasing it''"

definition HoldLapsedPoolJoinsRow :: "int \<Rightarrow> Ledger \<Rightarrow> int \<times> Ledger" where
  "HoldLapsedPoolJoinsRow now d =
     updOrders (lapsed now (credentials d)) (\<lambda>p. p\<lparr>po_joinHold := lapsedJoin, po_updatedAt := now\<rparr>) d"

definition HoldLapsedPoolJoinRow :: "int \<Rightarrow> string \<Rightarrow> Ledger \<Rightarrow> int \<times> Ledger" where
  "HoldLapsedPoolJoinRow now i d =
     updOrders (\<lambda>p. po_orderID p = i \<and> lapsed now (credentials d) p) (\<lambda>p. p\<lparr>po_joinHold := lapsedJoin, po_updatedAt := now\<rparr>) d"

text \<open>
  An order a node may join from: the row that was read, where there is one, and why a node may
  not join from it.
\<close>

definition openPoolOrderTx :: "Ledger \<Rightarrow> string \<Rightarrow> PoolOrder option \<times> err option" where
  "openPoolOrderTx d i =
     (case ReadPoolOrder d i of
        None \<Rightarrow> (None, Some ErrPoolOrderClosed)
      | Some row \<Rightarrow>
          (Some row,
           if po_state row = PoolOrdering then Some ErrPoolOrderNotPlaced
           else if po_state row \<noteq> PoolPlaced then Some ErrPoolOrderClosed
           else if po_nodeName row \<noteq> [] then Some ErrPoolOrderClosed
           else if po_joinHold row \<noteq> [] then Some ErrPoolJoinHeld
           else None))"

definition spendPoolJoinTokenTx :: "(string \<Rightarrow> string) \<Rightarrow> int \<Rightarrow> string \<Rightarrow> string \<Rightarrow> Ledger \<Rightarrow> Ledger result" where
  "spendPoolJoinTokenTx sha now order token d =
     (if token = [] then Inl ErrBadJoinToken
      else case SpendPoolJoinToken now (hashJoinToken sha token) order d of
        (n, d') \<Rightarrow> if n = 0 then Inl ErrBadJoinToken else Inr d')"

definition linkPoolNodeTx :: "int \<Rightarrow> string \<Rightarrow> string \<Rightarrow> string \<Rightarrow> string \<Rightarrow> bool \<Rightarrow> Ledger \<Rightarrow> Ledger result" where
  "linkPoolNodeTx now order name fingerprint serial heldMay d =
     (if serial = [] then Inl ErrInvalid
      else if name \<noteq> PoolNodeName order then Inl ErrPoolOrderClosed
      else case openPoolOrderTx d order of
        (None, e) \<Rightarrow> Inl ErrPoolOrderClosed
      | (Some row, e) \<Rightarrow>
          if e \<noteq> None \<and> \<not> (heldMay \<and> e = Some ErrPoolJoinHeld) then Inl (the e)
          else case LinkPoolOrderNode now name fingerprint serial order (po_joinHold row) d of
            (n, d') \<Rightarrow> if n \<noteq> 1 then Inl ErrPoolOrderClosed else Inr (RetirePoolJoinTokens order d'))"

definition NewPoolJoinToken :: "(string \<Rightarrow> string) \<Rightarrow> int \<Rightarrow> string \<Rightarrow> string \<Rightarrow> int \<Rightarrow> Ledger \<Rightarrow> Ledger result" where
  "NewPoolJoinToken sha now token order ttl d =
     (if ttl \<le> 0 then Inl ErrInvalid
      else case ReadPoolOrder d order of
        None \<Rightarrow> Inl ErrPoolOrderClosed
      | Some row \<Rightarrow>
          if po_state row \<noteq> PoolOrdering \<and> po_state row \<noteq> PoolPlaced then Inl ErrPoolOrderClosed
          else insertJoinTokenTx sha now token (''pool order '' @ order) order 1 ttl d)"

definition PoolJoinOrder :: "(string \<Rightarrow> string) \<Rightarrow> int \<Rightarrow> string \<Rightarrow> Ledger \<Rightarrow> string \<times> bool" where
  "PoolJoinOrder sha now token d =
     (case ReadJoinTokenOrder now d (hashJoinToken sha token) of None \<Rightarrow> ([], False) | Some row \<Rightarrow> row)"

definition ReleasePoolJoin :: "int \<Rightarrow> string \<Rightarrow> Ledger \<Rightarrow> Ledger result" where
  "ReleasePoolJoin now order d =
     (case ReleasePoolOrderJoin now order d of
        (n, d') \<Rightarrow>
          if n = 1 then Inr d'
          else case ReadPoolOrder d' order of
            None \<Rightarrow> Inl ErrPoolOrderClosed
          | Some row \<Rightarrow> if po_joinHold row = [] then Inl ErrPoolJoinNotHeld else Inl ErrPoolOrderClosed)"

definition HoldPoolJoin :: "int \<Rightarrow> string \<Rightarrow> string \<Rightarrow> int \<Rightarrow> Ledger \<Rightarrow> Ledger result" where
  "HoldPoolJoin now order reason seen d =
     (if reason = [] then Inl ErrInvalid
      else case HoldPoolOrderJoin now order reason seen d of
        (n, d') \<Rightarrow>
          if n = 1 then Inr d'
          else case ReadPoolOrder d' order of
            None \<Rightarrow> Inl ErrPoolOrderClosed
          | Some row \<Rightarrow>
              if po_joinHold row = [] \<and> po_state row = PoolPlaced \<and> po_nodeName row = [] then Inl ErrPoolOrderMoved
              else Inr d')"

definition HoldLapsedPoolJoins :: "int \<Rightarrow> Ledger \<Rightarrow> int \<times> Ledger" where
  "HoldLapsedPoolJoins now d = HoldLapsedPoolJoinsRow now d"

definition HoldLapsedPoolJoin :: "int \<Rightarrow> string \<Rightarrow> Ledger \<Rightarrow> (bool \<times> Ledger) result" where
  "HoldLapsedPoolJoin now order d =
     (case HoldLapsedPoolJoinRow now order d of
        (n, d') \<Rightarrow>
          (case ReadPoolOrder d' order of
             None \<Rightarrow> Inl ErrPoolOrderClosed
           | Some row \<Rightarrow> Inr (po_joinHold row \<noteq> [], d')))"

end
