(* ===== verification/Enrolling.thy ===== *)
theory Enrolling
  imports Pool_Orders
begin

text \<open>
  A machine asks to join and is decided about: \<open>alloc/enrollment.go\<close>, the admissions of
  \<open>alloc/pooljoin.go\<close> and \<open>queries/enrollment.sql\<close>. A transaction is one definition over the ledger;
  the read that precedes one (\<open>plausibleEnrollment\<close>) is read from the ledger the transaction starts
  from. What a request is answered is the \<open>Enrollment\<close> the code returns, whose source is empty
  where it is not read back from the table.
\<close>

abbreviation "EnrollPending \<equiv> ''pending''"
abbreviation "EnrollApproved \<equiv> ''approved''"
abbreviation "EnrollDenied \<equiv> ''denied''"

section \<open>Statements\<close>

definition readEnrollment :: "Ledger \<Rightarrow> string \<Rightarrow> Enrollment option" where
  "readEnrollment d name = find (\<lambda>e. en_name e = name) (enrollments (credentials d))"

definition updEnrollments :: "(Enrollment \<Rightarrow> bool) \<Rightarrow> (Enrollment \<Rightarrow> Enrollment) \<Rightarrow> Ledger \<Rightarrow> Ledger" where
  "updEnrollments P f = updCredentials (\<lambda>c. c\<lparr>enrollments := upd_where P f (enrollments c)\<rparr>)"

definition addEnrollment :: "Enrollment \<Rightarrow> Ledger \<Rightarrow> Ledger" where
  "addEnrollment row = updCredentials (\<lambda>c. c\<lparr>enrollments := enrollments c @ [row]\<rparr>)"

definition askedRow :: "int \<Rightarrow> string \<Rightarrow> string \<Rightarrow> string \<Rightarrow> string \<Rightarrow> Enrollment" where
  "askedRow now name fingerprint csr order =
     \<lparr>en_name = name, en_fingerprint = fingerprint, en_csr = csr, en_cert = [], en_state = EnrollPending, en_source = [],
      en_requestedAt = now, en_decidedAt = None, en_poolOrder = order\<rparr>"

definition InsertEnrollment :: "Enrollment \<Rightarrow> Ledger \<Rightarrow> Ledger" where
  "InsertEnrollment row = addEnrollment (row\<lparr>en_source := CertEnrolled\<rparr>)"

definition ReplaceDeniedEnrollment :: "Enrollment \<Rightarrow> Ledger \<Rightarrow> Ledger" where
  "ReplaceDeniedEnrollment row =
     updEnrollments (\<lambda>e. en_name e = en_name row)
       (\<lambda>e. e\<lparr>en_fingerprint := en_fingerprint row, en_csr := en_csr row, en_cert := [], en_state := en_state row,
          en_source := CertEnrolled, en_requestedAt := en_requestedAt row, en_decidedAt := None, en_poolOrder := en_poolOrder row\<rparr>)"

definition DecideEnrollmentRow :: "int \<Rightarrow> string \<Rightarrow> string \<Rightarrow> string \<Rightarrow> Ledger \<Rightarrow> Ledger" where
  "DecideEnrollmentRow now name decision cert =
     updEnrollments (\<lambda>e. en_name e = name) (\<lambda>e. e\<lparr>en_state := decision, en_cert := cert, en_decidedAt := Some now\<rparr>)"

definition InsertAdmittedEnrollment :: "int \<Rightarrow> string \<Rightarrow> string \<Rightarrow> string \<Rightarrow> string \<Rightarrow> string \<Rightarrow> Ledger \<Rightarrow> Ledger" where
  "InsertAdmittedEnrollment now name fingerprint csr cert order =
     addEnrollment \<lparr>en_name = name, en_fingerprint = fingerprint, en_csr = csr, en_cert = cert, en_state = EnrollApproved,
       en_source = CertPool, en_requestedAt = now, en_decidedAt = Some now, en_poolOrder = order\<rparr>"

definition AdmitPendingEnrollment :: "int \<Rightarrow> string \<Rightarrow> string \<Rightarrow> string \<Rightarrow> string \<Rightarrow> Ledger \<Rightarrow> int \<times> Ledger" where
  "AdmitPendingEnrollment now cert name fingerprint order d =
     (let P = (\<lambda>e. en_name e = name \<and> en_fingerprint e = fingerprint \<and> en_poolOrder e = order \<and> en_state e = EnrollPending)
      in (count_where P (enrollments (credentials d)),
          updEnrollments P (\<lambda>e. e\<lparr>en_state := EnrollApproved, en_cert := cert, en_source := CertPool, en_decidedAt := Some now\<rparr>) d))"

section \<open>Asking\<close>

definition requestEnrollmentTx :: "int \<Rightarrow> string \<Rightarrow> string \<Rightarrow> string \<Rightarrow> string \<Rightarrow> Ledger \<Rightarrow> (Enrollment \<times> Ledger) result" where
  "requestEnrollmentTx now name fingerprint csr order d =
     (let row = askedRow now name fingerprint csr order
      in case readEnrollment d name of
           None \<Rightarrow> Inr (row, InsertEnrollment row d)
         | Some existing \<Rightarrow>
             if en_state existing = EnrollDenied \<and> en_fingerprint existing \<noteq> fingerprint
             then Inr (row, ReplaceDeniedEnrollment row d)
             else if en_fingerprint existing \<noteq> fingerprint then Inl ErrEnrollmentConflict
             else Inr (existing, d))"

definition RequestEnrollment :: "int \<Rightarrow> string \<Rightarrow> string \<Rightarrow> string \<Rightarrow> Ledger \<Rightarrow> (Enrollment \<times> Ledger) result" where
  "RequestEnrollment now name fingerprint csr = requestEnrollmentTx now name fingerprint csr []"

definition isKnownEnrollmentTx :: "Ledger \<Rightarrow> string \<Rightarrow> string \<Rightarrow> bool" where
  "isKnownEnrollmentTx d name fingerprint =
     (case readEnrollment d name of None \<Rightarrow> False | Some existing \<Rightarrow> en_fingerprint existing = fingerprint)"

definition plausibleEnrollment :: "(string \<Rightarrow> string) \<Rightarrow> int \<Rightarrow> string \<Rightarrow> string \<Rightarrow> string \<Rightarrow> Ledger \<Rightarrow> bool" where
  "plausibleEnrollment sha now name fingerprint token d \<longleftrightarrow>
     isKnownEnrollmentTx d name fingerprint
     \<or> TrimSpace token \<noteq> [] \<and> LiveJoinTokenExists now d (hashJoinToken sha token)"

definition spendEnrollmentTokenTx :: "(string \<Rightarrow> string) \<Rightarrow> int \<Rightarrow> string \<Rightarrow> string \<Rightarrow> Ledger \<Rightarrow> (string \<times> Ledger) result" where
  "spendEnrollmentTokenTx sha now name token d =
     (let order = (case ReadJoinTokenOrder now d (hashJoinToken sha token) of None \<Rightarrow> [] | Some (order, live) \<Rightarrow> order)
      in if order = [] \<and> IsPoolNodeName name then Inl ErrPoolNameReserved
         else if order = [] then (case spendJoinTokenTx sha now token d of Inl e \<Rightarrow> Inl e | Inr d' \<Rightarrow> Inr ([], d'))
         else if name \<noteq> PoolNodeName order then Inl ErrBadJoinToken
         else case openPoolOrderTx d order of
           (_, Some e) \<Rightarrow> Inl e
         | (_, None) \<Rightarrow>
             (case spendPoolJoinTokenTx sha now order token d of Inl e \<Rightarrow> Inl e | Inr d' \<Rightarrow> Inr (order, d')))"

definition RequestEnrollmentWithToken ::
  "(string \<Rightarrow> string) \<Rightarrow> int \<Rightarrow> string \<Rightarrow> string \<Rightarrow> string \<Rightarrow> string \<Rightarrow> Ledger \<Rightarrow> (Enrollment \<times> Ledger) result" where
  "RequestEnrollmentWithToken sha now name fingerprint csr token d =
     (if \<not> plausibleEnrollment sha now name fingerprint token d then Inl ErrBadJoinToken
      else if isKnownEnrollmentTx d name fingerprint then requestEnrollmentTx now name fingerprint csr [] d
      else case spendEnrollmentTokenTx sha now name token d of
        Inl e \<Rightarrow> Inl e
      | Inr (order, d1) \<Rightarrow> requestEnrollmentTx now name fingerprint csr order d1)"

definition LookupEnrollment :: "string \<Rightarrow> Ledger \<Rightarrow> Enrollment option" where
  "LookupEnrollment name d = readEnrollment d name"

definition Enrollments :: "string \<Rightarrow> Ledger \<Rightarrow> Enrollment list" where
  "Enrollments want d =
     sort_key en_requestedAt
       (if want = [] then enrollments (credentials d) else filter (\<lambda>e. en_state e = want) (enrollments (credentials d)))"

section \<open>Deciding\<close>

definition fingerprintMatches :: "string \<Rightarrow> string \<Rightarrow> bool" where
  "fingerprintMatches recorded supplied \<longleftrightarrow> supplied \<noteq> [] \<and> recorded = supplied"

definition decideEnrollment ::
  "int \<Rightarrow> string \<Rightarrow> string \<Rightarrow> string \<Rightarrow> string \<Rightarrow> string \<Rightarrow> IssuedCert option \<Rightarrow> Ledger \<Rightarrow> Ledger result" where
  "decideEnrollment now name fingerprint decision cert serial issued d =
     (if decision \<noteq> EnrollApproved \<and> decision \<noteq> EnrollDenied then Inl ErrInvalid
      else case readEnrollment d name of
        None \<Rightarrow> Inl ErrInvalid
      | Some existing \<Rightarrow>
          if \<not> fingerprintMatches (en_fingerprint existing) fingerprint then Inl ErrInvalid
          else if en_state existing \<noteq> EnrollPending then Inl ErrNotPending
          else let d1 = (case issued of None \<Rightarrow> d | Some c \<Rightarrow> recordIssuedCertTx now c d);
                   d2 = DecideEnrollmentRow now name decision cert d1
               in if decision \<noteq> EnrollApproved \<or> en_poolOrder existing = [] then Inr d2
                  else linkPoolNodeTx now (en_poolOrder existing) name (en_fingerprint existing) serial True d2)"

definition DecideEnrollment :: "int \<Rightarrow> string \<Rightarrow> string \<Rightarrow> string \<Rightarrow> string \<Rightarrow> string \<Rightarrow> Ledger \<Rightarrow> Ledger result" where
  "DecideEnrollment now name fingerprint decision cert serial = decideEnrollment now name fingerprint decision cert serial None"

definition ApproveEnrollment :: "int \<Rightarrow> string \<Rightarrow> string \<Rightarrow> string \<Rightarrow> IssuedCert \<Rightarrow> Ledger \<Rightarrow> Ledger result" where
  "ApproveEnrollment now name fingerprint certPEM cert d =
     (if ic_serial cert = [] then Inl ErrInvalid
      else decideEnrollment now name fingerprint EnrollApproved certPEM (ic_serial cert) (Some cert) d)"

text \<open>A certificate handed out directly takes the name whoever held it, and says whom it displaced.\<close>

definition UpsertIssuedEnrollment :: "int \<Rightarrow> string \<Rightarrow> string \<Rightarrow> string \<Rightarrow> Ledger \<Rightarrow> Ledger" where
  "UpsertIssuedEnrollment now name fingerprint cert =
     updCredentials (\<lambda>c. c\<lparr>enrollments := upsertBy en_name
       \<lparr>en_name = name, en_fingerprint = fingerprint, en_csr = [], en_cert = cert, en_state = EnrollApproved, en_source = CertIssued,
        en_requestedAt = now, en_decidedAt = Some now, en_poolOrder = []\<rparr>
       (\<lambda>e. e\<lparr>en_fingerprint := fingerprint, en_cert := cert, en_state := EnrollApproved, en_source := CertIssued,
          en_decidedAt := Some now, en_poolOrder := []\<rparr>) (enrollments c)\<rparr>)"

definition RecordIssued :: "int \<Rightarrow> string \<Rightarrow> string \<Rightarrow> string \<Rightarrow> Ledger \<Rightarrow> string \<times> Ledger" where
  "RecordIssued now name fingerprint cert d =
     (case readEnrollment d name of
        None \<Rightarrow> []
      | Some previous \<Rightarrow> if en_fingerprint previous \<noteq> fingerprint then en_fingerprint previous else [],
      UpsertIssuedEnrollment now name fingerprint cert d)"

section \<open>Pool hosts\<close>

definition RecordHeldPoolRequest :: "int \<Rightarrow> string \<Rightarrow> string \<Rightarrow> string \<Rightarrow> Ledger \<Rightarrow> (Enrollment \<times> Ledger) result" where
  "RecordHeldPoolRequest now order fingerprint csr d =
     (let name = PoolNodeName order
      in case openPoolOrderTx d order of
           (_, None) \<Rightarrow> Inl ErrPoolJoinNotHeld
         | (row, Some e) \<Rightarrow>
             if e \<noteq> ErrPoolJoinHeld \<or> (case row of None \<Rightarrow> True | Some p \<Rightarrow> po_joinHold p = []) then Inl e
             else case readEnrollment d name of
               Some existing \<Rightarrow>
                 if en_fingerprint existing = fingerprint \<and> en_state existing = EnrollDenied then Inr (existing, d)
                 else requestEnrollmentTx now name fingerprint csr order d
             | None \<Rightarrow> requestEnrollmentTx now name fingerprint csr order d)"

record PoolAdmission =
  ad_order :: string
  ad_fingerprint :: string
  ad_csr :: string
  ad_token :: string
  ad_cert :: string
  ad_serial :: string
  ad_notAfter :: string
  ad_seen :: int

definition approvePendingPoolTx :: "int \<Rightarrow> string \<Rightarrow> PoolAdmission \<Rightarrow> Ledger \<Rightarrow> Ledger result" where
  "approvePendingPoolTx now name adm d =
     (case AdmitPendingEnrollment now (ad_cert adm) name (ad_fingerprint adm) (ad_order adm) d of
        (n, d') \<Rightarrow> if n \<noteq> 1 then Inl ErrPoolOrderClosed else Inr d')"

text \<open>
  What becomes of a request the source vouched for: it is admitted, answered with a person's
  denial, or refused because another key holds the name.
\<close>

datatype poolVerdict = Admitted Ledger | Denied Enrollment | Conflicting string

definition admitRequest :: "(string \<Rightarrow> string) \<Rightarrow> int \<Rightarrow> PoolAdmission \<Rightarrow> Ledger \<Rightarrow> poolVerdict result" where
  "admitRequest sha now adm d =
     (let name = PoolNodeName (ad_order adm)
      in case readEnrollment d name of
           None \<Rightarrow>
             (case spendPoolJoinTokenTx sha now (ad_order adm) (ad_token adm) d of
                Inl e \<Rightarrow> Inl e
              | Inr d1 \<Rightarrow> Inr (Admitted (InsertAdmittedEnrollment now name (ad_fingerprint adm) (ad_csr adm) (ad_cert adm) (ad_order adm) d1)))
         | Some existing \<Rightarrow>
             if en_fingerprint existing \<noteq> ad_fingerprint adm \<and> en_state existing \<noteq> EnrollDenied then Inr (Conflicting (en_fingerprint existing))
             else if en_fingerprint existing = ad_fingerprint adm \<and> en_state existing = EnrollDenied then Inr (Denied existing)
             else if en_fingerprint existing = ad_fingerprint adm \<and> en_state existing = EnrollPending \<and> en_poolOrder existing = ad_order adm
             then map_sum id Admitted (approvePendingPoolTx now name adm d)
             else if en_state existing = EnrollDenied then
               (case spendPoolJoinTokenTx sha now (ad_order adm) (ad_token adm) d of
                  Inl e \<Rightarrow> Inl e
                | Inr d1 \<Rightarrow>
                    map_sum id Admitted (approvePendingPoolTx now name adm
                      (ReplaceDeniedEnrollment (askedRow now name (ad_fingerprint adm) (ad_csr adm) (ad_order adm)) d1)))
             else Inl ErrPoolOrderClosed)"

text \<open>
  A conflict holds the order and is reported as an error all the same, so the ledger is answered in
  either case. What tells a conflict is the key that holds the name, so a name held by an empty key
  is answered with the zero enrolment.
\<close>

definition zeroEnrollment :: Enrollment where
  "zeroEnrollment = \<lparr>en_name = [], en_fingerprint = [], en_csr = [], en_cert = [], en_state = [], en_source = [],
     en_requestedAt = zeroTime, en_decidedAt = None, en_poolOrder = []\<rparr>"

definition AdmitPoolEnrollment :: "(string \<Rightarrow> string) \<Rightarrow> int \<Rightarrow> PoolAdmission \<Rightarrow> Ledger \<Rightarrow> Enrollment result \<times> Ledger" where
  "AdmitPoolEnrollment sha now adm d =
     (let name = PoolNodeName (ad_order adm)
      in if ad_order adm = [] \<or> ad_fingerprint adm = [] \<or> ad_csr adm = [] then (Inl ErrInvalid, d)
         else if ad_cert adm = [] \<or> ad_serial adm = [] \<or> ad_notAfter adm = [] then (Inl ErrInvalid, d)
         else case ReadPoolOrder d (ad_order adm) of
           None \<Rightarrow> (Inl ErrPoolOrderClosed, d)
         | Some order \<Rightarrow>
             if po_nodeName order \<noteq> [] then
               (if po_nodeName order \<noteq> name \<or> po_fingerprint order \<noteq> ad_fingerprint adm then (Inl ErrPoolOrderClosed, d)
                else (case readEnrollment d name of None \<Rightarrow> Inl ErrStore | Some e \<Rightarrow> Inr e, d))
             else case openPoolOrderTx d (ad_order adm) of
               (_, Some e) \<Rightarrow> (Inl e, d)
             | (_, None) \<Rightarrow>
                 if po_updatedAt order \<noteq> ad_seen adm then (Inl ErrPoolOrderMoved, d)
                 else case admitRequest sha now adm d of
                   Inl e \<Rightarrow> (Inl e, d)
                 | Inr (Conflicting other) \<Rightarrow>
                     (if other = [] then Inr zeroEnrollment else Inl ErrEnrollmentConflict,
                      snd (HoldPoolOrderJoin now (ad_order adm)
                        (''the source vouched for key '' @ ad_fingerprint adm @ '', and '' @ other @ '' already holds the name '' @ name)
                        (po_updatedAt order) d))
                 | Inr (Denied existing) \<Rightarrow> (Inr existing, d)
                 | Inr (Admitted d1) \<Rightarrow>
                     (case linkPoolNodeTx now (ad_order adm) name (ad_fingerprint adm) (ad_serial adm) False
                        (recordIssuedCertTx now \<lparr>ic_serial = ad_serial adm, ic_node = name, ic_source = CertPool,
                           ic_notAfter = ad_notAfter adm, ic_issuedAt = now\<rparr> d1) of
                        Inl e \<Rightarrow> (Inl e, d)
                      | Inr d2 \<Rightarrow> (case readEnrollment d2 name of None \<Rightarrow> (Inl ErrStore, d) | Some e \<Rightarrow> (Inr e, d2))))"

end
