(* ===== verification/Pool_Release.thy ===== *)
theory Pool_Release
  imports Enrolling
begin

text \<open>
  Giving a rented host back: the proofs of \<open>internal/releaseproof\<close> and the transactions of
  \<open>alloc/poolrelease.go\<close>, with \<open>settleClosedNodeTx\<close> of \<open>alloc/quarantine.go\<close> and the statements of
  \<open>queries/poolorders.sql\<close> and \<open>queries/nodes.sql\<close> they run. A proof is a value only the constructors
  here build.
\<close>

section \<open>The proof a host is released on\<close>

record Proof =
  pf_host :: string
  pf_at :: int
  pf_verified :: bool

record Holdings =
  hg_host :: string
  hg_sealed :: int
  hg_leases :: int
  hg_quarantine :: int
  hg_custody :: int
  hg_inventory :: int

definition NewDrained :: "Holdings \<Rightarrow> Proof option" where
  "NewDrained h =
     (let counts = [hg_leases h, hg_quarantine h, hg_custody h, hg_inventory h]
      in if hg_host h = [] then None
         else if hg_sealed h = zeroTime then None
         else if list_ex (\<lambda>n. n < 0) counts then None
         else if list_ex (\<lambda>n. 0 < n) counts then None
         else Some \<lparr>pf_host = hg_host h, pf_at = hg_sealed h, pf_verified = True\<rparr>)"

definition NewUnjoined :: "string \<Rightarrow> int \<Rightarrow> int \<Rightarrow> Proof option" where
  "NewUnjoined host orderSealed admitted =
     (if host = [] then None
      else if orderSealed = zeroTime then None
      else if admitted < 0 then None
      else if 0 < admitted then None
      else Some \<lparr>pf_host = host, pf_at = orderSealed, pf_verified = True\<rparr>)"

definition SealedProof :: "string \<Rightarrow> int \<Rightarrow> Proof option" where
  "SealedProof host sealed =
     (if host = [] then None
      else if sealed = zeroTime then None
      else Some \<lparr>pf_host = host, pf_at = sealed, pf_verified = True\<rparr>)"

definition proofFor :: "Proof \<Rightarrow> string \<Rightarrow> bool" where
  "proofFor p i \<longleftrightarrow> pf_verified p \<and> pf_host p \<noteq> [] \<and> pf_host p = i"

section \<open>What holds a host\<close>

record NodeHoldings =
  nh_outstanding :: int
  nh_quarantine :: int
  nh_custody :: int

definition CountNodeHoldings :: "Ledger \<Rightarrow> string \<Rightarrow> NodeHoldings" where
  "CountNodeHoldings d node =
     \<lparr>nh_outstanding = count_where (\<lambda>r. coalesceNode r = Some node \<and> isOpen r) (leases d),
      nh_quarantine = count_where (\<lambda>r. coalesceNode r = Some node \<and> isOpen r \<and> r_phase r = PhaseQuarantine) (leases d),
      nh_custody = count_where (\<lambda>r. coalesceNode r = Some node \<and> isOpen r \<and> r_phase r = PhaseCustody) (leases d)\<rparr>"

record ReleaseFacts =
  rf_epoch :: int
  rf_dispatch :: int
  rf_decommissionProven :: bool
  rf_inventory :: "InventoryRow option"

definition ReadNodeReleaseFacts :: "Ledger \<Rightarrow> string \<Rightarrow> ReleaseFacts option" where
  "ReadNodeReleaseFacts d node =
     map_option (\<lambda>n. \<lparr>rf_epoch = n_epoch n, rf_dispatch = n_dispatch n, rf_decommissionProven = n_decommissionProven n,
       rf_inventory = find (\<lambda>i. iv_node i = node) (inventories d)\<rparr>) (findNode d node)"

definition reportsCompute :: "ReleaseFacts \<Rightarrow> bool" where
  "reportsCompute f = (case rf_inventory f of None \<Rightarrow> False | Some i \<Rightarrow> iv_epoch i = rf_epoch f \<and> 0 < iv_running i)"

definition releaseInventory :: "ReleaseFacts \<Rightarrow> int" where
  "releaseInventory f =
     (if \<not> rf_decommissionProven f then - 1
      else if reportsCompute f then (case rf_inventory f of None \<Rightarrow> 0 | Some i \<Rightarrow> iv_running i)
      else 0)"

definition poolClearanceProved :: "PoolOrder \<Rightarrow> ReleaseFacts \<Rightarrow> bool" where
  "poolClearanceProved row f =
     (case (po_clearSince row, po_clearObservedAt row) of
        (Some since, Some observed) \<Rightarrow>
          po_clearEpoch row = rf_epoch f \<and> po_clearDispatch row = rf_dispatch f \<and> since + computeAbsenceGrace \<le> observed
      | _ \<Rightarrow> False)"

definition releaseHoldingsTx :: "Ledger \<Rightarrow> PoolOrder \<Rightarrow> int \<Rightarrow> Holdings" where
  "releaseHoldingsTx d row sealed =
     (let counts = CountNodeHoldings d (po_nodeName row)
      in \<lparr>hg_host = po_hostID row, hg_sealed = sealed, hg_leases = nh_outstanding counts,
          hg_quarantine = nh_quarantine counts, hg_custody = nh_custody counts,
          hg_inventory =
            (case ReadNodeReleaseFacts d (po_nodeName row) of
               None \<Rightarrow> 0
             | Some facts \<Rightarrow>
                 if poolClearanceProved row facts \<and> \<not> reportsCompute facts then 0
                 else if po_contradicted row then - 1
                 else releaseInventory facts)\<rparr>)"

section \<open>Statements\<close>

definition CountPoolOrderAdmissions :: "Ledger \<Rightarrow> string \<Rightarrow> string \<Rightarrow> int" where
  "CountPoolOrderAdmissions d order name =
     count_where (\<lambda>e. (en_poolOrder e = order \<or> en_name e = name) \<and> en_state e = EnrollApproved) (enrollments (credentials d))
     + count_where (\<lambda>i. ic_node i = name) (issuedCerts (credentials d))"

definition RequestPoolOrderRelease :: "int \<Rightarrow> string \<Rightarrow> string \<Rightarrow> Ledger \<Rightarrow> int \<times> Ledger" where
  "RequestPoolOrderRelease now reason i =
     updOrders (\<lambda>p. po_orderID p = i \<and> po_state p = PoolPlaced \<and> po_releaseRequestedAt p = None)
       (\<lambda>p. p\<lparr>po_releaseRequestedAt := Some now, po_releaseReason := reason, po_updatedAt := now\<rparr>)"

definition SealPoolOrder :: "int \<Rightarrow> int \<Rightarrow> string \<Rightarrow> string \<Rightarrow> string \<Rightarrow> Ledger \<Rightarrow> int \<times> Ledger" where
  "SealPoolOrder now requested reason i node =
     updOrders (\<lambda>p. po_orderID p = i \<and> po_state p = PoolPlaced \<and> po_nodeName p = node
         \<and> (po_nodeName p = [] \<or> po_releaseRequestedAt p \<noteq> None))
       (\<lambda>p. p\<lparr>po_state := PoolSealed, po_releaseRequestedAt := Some requested, po_releaseReason := reason, po_updatedAt := now\<rparr>)"

definition MarkPoolOrderReleased :: "int \<Rightarrow> string \<Rightarrow> Ledger \<Rightarrow> int \<times> Ledger" where
  "MarkPoolOrderReleased now i =
     updOrders (\<lambda>p. po_orderID p = i \<and> po_state p = PoolSealed) (\<lambda>p. p\<lparr>po_state := PoolReleased, po_updatedAt := now\<rparr>)"

definition MarkPoolOrderGone :: "string \<Rightarrow> string \<Rightarrow> int \<Rightarrow> Ledger \<Rightarrow> int \<times> Ledger" where
  "MarkPoolOrderGone reason i now =
     updOrders (\<lambda>p. po_orderID p = i \<and> po_state p = PoolReleased)
       (\<lambda>p. p\<lparr>po_state := PoolGone, po_reason := reason, po_updatedAt := now\<rparr>)"

definition ClosePoolOrderRow :: "string \<Rightarrow> string \<Rightarrow> int \<Rightarrow> Ledger \<Rightarrow> int \<times> Ledger" where
  "ClosePoolOrderRow reason i now =
     updOrders (\<lambda>p. po_orderID p = i \<and> po_state p \<in> {PoolSealed, PoolReleased})
       (\<lambda>p. p\<lparr>po_state := PoolGone, po_reason := reason, po_updatedAt := now\<rparr>)"

definition ForceClosePoolOrderRow :: "int \<Rightarrow> string \<Rightarrow> string \<Rightarrow> string \<Rightarrow> Ledger \<Rightarrow> int \<times> Ledger" where
  "ForceClosePoolOrderRow now reason i node =
     updOrders (\<lambda>p. po_orderID p = i \<and> po_state p = PoolPlaced \<and> po_releaseRequestedAt p \<noteq> None \<and> po_nodeName p = node)
       (\<lambda>p. p\<lparr>po_state := PoolGone, po_reason := reason, po_updatedAt := now\<rparr>)"

definition RecordPoolClearanceRun :: "int \<Rightarrow> int \<Rightarrow> int \<Rightarrow> int \<Rightarrow> int \<Rightarrow> string \<Rightarrow> string \<Rightarrow> Ledger \<Rightarrow> int \<times> Ledger" where
  "RecordPoolClearanceRun epoch dispatch recorded asked generation i node =
     updOrders (\<lambda>p. po_orderID p = i \<and> po_state p = PoolPlaced \<and> po_releaseRequestedAt p \<noteq> None \<and> po_nodeName p = node
         \<and> po_clearGeneration p = generation)
       (\<lambda>p. p\<lparr>po_clearSince := (if po_clearEpoch p = epoch \<and> po_clearDispatch p = dispatch \<and> po_clearSince p \<noteq> None
                 then po_clearSince p else Some recorded),
          po_clearEpoch := epoch, po_clearDispatch := dispatch, po_clearObservedAt := Some asked\<rparr>)"

definition EndPoolClearanceRun :: "string \<Rightarrow> Ledger \<Rightarrow> Ledger" where
  "EndPoolClearanceRun i d =
     snd (updOrders (\<lambda>p. po_orderID p = i \<and> po_state p = PoolPlaced) (\<lambda>p. p\<lparr>po_clearSince := None, po_clearObservedAt := None\<rparr>) d)"

definition MarkNodeDrainedForRelease :: "string \<Rightarrow> Ledger \<Rightarrow> Ledger" where
  "MarkNodeDrainedForRelease node = updNode (\<lambda>n. n_name n = node) (\<lambda>n. n\<lparr>n_drained := True\<rparr>)"

definition HandOverPoolRetirement :: "string \<Rightarrow> string \<Rightarrow> string \<Rightarrow> Ledger \<Rightarrow> Ledger" where
  "HandOverPoolRetirement closing name sealing =
     updNode (\<lambda>n. n_name n = name \<and> n_decommissionActor n = sealing) (\<lambda>n. n\<lparr>n_decommissionActor := closing\<rparr>)"

section \<open>Asking for a release\<close>

definition sealPoolOrderTx :: "int \<Rightarrow> string \<Rightarrow> string \<Rightarrow> int \<Rightarrow> string \<Rightarrow> Ledger \<Rightarrow> Ledger result" where
  "sealPoolOrderTx now order node requested reason d =
     (case SealPoolOrder now requested reason order node d of (n, d') \<Rightarrow> if n \<noteq> 1 then Inl ErrPoolOrderMoved else Inr d')"

definition sealUnjoinedTx :: "int \<Rightarrow> PoolOrder \<Rightarrow> string \<Rightarrow> Ledger \<Rightarrow> Ledger result" where
  "sealUnjoinedTx now row reason d =
     (case NewUnjoined (po_hostID row) now 0 of
        None \<Rightarrow> Inl ErrPoolReleaseWaits
      | Some _ \<Rightarrow> sealPoolOrderTx now (po_orderID row) [] now reason (RetirePoolJoinTokens (po_orderID row) d))"

text \<open>Asking for the release of a host a node is linked to.\<close>

definition requestJoinedTx :: "int \<Rightarrow> string \<Rightarrow> string \<Rightarrow> string \<Rightarrow> Ledger \<Rightarrow> (bool \<times> Ledger) result" where
  "requestJoinedTx now order node reason d =
     (case RequestPoolOrderRelease now reason order d of
        (n, d') \<Rightarrow> if n \<noteq> 1 then Inl ErrPoolOrderMoved else Inr (False, MarkNodeDrainedForRelease node d'))"

definition RequestPoolRelease :: "int \<Rightarrow> string \<Rightarrow> string \<Rightarrow> Ledger \<Rightarrow> (bool \<times> Ledger) result" where
  "RequestPoolRelease now order reason d =
     (if reason = [] then Inl ErrInvalid
      else case ReadPoolOrder d order of
        None \<Rightarrow> Inl ErrPoolOrderMoved
      | Some row \<Rightarrow>
          if po_state row \<noteq> PoolPlaced then Inl ErrPoolOrderMoved
          else if po_releaseRequestedAt row \<noteq> None then Inl ErrPoolReleaseAsked
          else if po_nodeName row = [] then
            (let name = PoolNodeName order
             in if CountPoolOrderAdmissions d order name = 0
                then map_sum id (Pair True) (sealUnjoinedTx now row reason d)
                else case LinkPoolOrderNode now name [] [] order (po_joinHold row) d of
                  (n, d1) \<Rightarrow>
                    if n \<noteq> 1 then Inl ErrPoolOrderMoved
                    else requestJoinedTx now order name reason
                      (DeleteBarrierRun name (snd (ContradictPoolRelease name (RetirePoolJoinTokens order d1)))))
          else requestJoinedTx now order (po_nodeName row) reason d)"

section \<open>Sealing a release\<close>

definition retireReleasedNodeTx :: "int \<Rightarrow> string \<Rightarrow> Ledger \<Rightarrow> Ledger" where
  "retireReleasedNodeTx now node d =
     (case ReadNodeReleaseFacts d node of
        None \<Rightarrow> d
      | Some facts \<Rightarrow>
          if rf_decommissionProven facts then d
          else DeleteBarrierRun node (DecommissionNode now True poolReleaseActor node d))"

definition SealPoolRelease :: "int \<Rightarrow> string \<Rightarrow> Ledger \<Rightarrow> (Proof \<times> Ledger) result" where
  "SealPoolRelease now order d =
     (case ReadPoolOrder d order of
        None \<Rightarrow> Inl ErrPoolOrderMoved
      | Some row \<Rightarrow>
          (case po_releaseRequestedAt row of
             None \<Rightarrow> Inl ErrPoolOrderMoved
           | Some requested \<Rightarrow>
               if po_state row \<noteq> PoolPlaced \<or> po_nodeName row = [] then Inl ErrPoolOrderMoved
               else case NewDrained (releaseHoldingsTx d row requested) of
                 None \<Rightarrow> Inl ErrPoolReleaseWaits
               | Some p \<Rightarrow>
                   map_sum id (Pair p)
                     (sealPoolOrderTx now order (po_nodeName row) requested (po_releaseReason row)
                       (retireReleasedNodeTx now (po_nodeName row)
                         (MarkNodeDrainedForRelease (po_nodeName row)
                           (revokeNodeTx (po_nodeName row) (''its pool host is being released: '' @ po_releaseReason row) now d))))))"

definition poolReleaseProofTx :: "string \<Rightarrow> Ledger \<Rightarrow> Proof result" where
  "poolReleaseProofTx order d =
     (case ReadPoolOrder d order of
        None \<Rightarrow> Inl ErrPoolOrderMoved
      | Some row \<Rightarrow>
          if po_state row \<noteq> PoolSealed then Inl ErrPoolOrderMoved
          else if po_nodeName row \<noteq> [] \<and> NewDrained (releaseHoldingsTx d row (po_updatedAt row)) = None
          then Inl ErrPoolReleaseContradicted
          else case SealedProof (po_hostID row) (po_updatedAt row) of None \<Rightarrow> Inl ErrInvalid | Some p \<Rightarrow> Inr p)"

definition PoolReleaseProof :: "string \<Rightarrow> Ledger \<Rightarrow> Proof result" where
  "PoolReleaseProof order d = poolReleaseProofTx order d"

definition PoolReleaseRefused :: "string \<Rightarrow> Ledger \<Rightarrow> bool result" where
  "PoolReleaseRefused order d =
     (case poolReleaseProofTx order d of
        Inr _ \<Rightarrow> Inr False
      | Inl e \<Rightarrow> if e = ErrPoolReleaseContradicted then Inr True else if e = ErrPoolOrderMoved then Inr False else Inl e)"

section \<open>A node's own answers\<close>

record PoolClearanceTarget =
  pc_order :: string
  pc_node :: string
  pc_generation :: int

definition PoolClearanceTargets :: "Ledger \<Rightarrow> PoolClearanceTarget list" where
  "PoolClearanceTargets d =
     map (\<lambda>p. \<lparr>pc_order = po_orderID p, pc_node = po_nodeName p, pc_generation = po_clearGeneration p\<rparr>)
       (sort_key po_orderID (filter (\<lambda>p. po_state p = PoolPlaced \<and> po_releaseRequestedAt p \<noteq> None \<and> po_nodeName p \<noteq> []
          \<and> \<not> list_ex (\<lambda>r. coalesceNode r = Some (po_nodeName p) \<and> isOpen r) (leases d)) (poolOrders d)))"

record PoolClearanceObservation =
  ob_order :: string
  ob_node :: string
  ob_epoch :: int
  ob_dispatch :: int
  ob_empty :: bool
  ob_running :: bool
  ob_askedAt :: int
  ob_generation :: int

definition RecordPoolClearance :: "int \<Rightarrow> PoolClearanceObservation \<Rightarrow> Ledger \<Rightarrow> Ledger" where
  "RecordPoolClearance now obs d =
     (case ReadPoolOrder d (ob_order obs) of
        None \<Rightarrow> d
      | Some row \<Rightarrow>
          if po_nodeName row \<noteq> ob_node obs then d
          else if ob_running obs then computeListedNowTx (ob_node obs) (ob_epoch obs) d
          else if po_state row \<noteq> PoolPlaced \<or> po_releaseRequestedAt row = None then d
          else if 0 < nh_outstanding (CountNodeHoldings d (ob_node obs)) then EndPoolClearanceRun (ob_order obs) d
          else case findNode d (ob_node obs) of
            None \<Rightarrow> EndPoolClearanceRun (ob_order obs) d
          | Some fence \<Rightarrow>
              if n_epoch fence \<noteq> ob_epoch obs \<or> n_dispatch fence \<noteq> ob_dispatch obs \<or> \<not> ob_empty obs
                \<or> ob_askedAt obs = zeroTime \<or> po_clearGeneration row \<noteq> ob_generation obs
              then EndPoolClearanceRun (ob_order obs) d
              else snd (RecordPoolClearanceRun (n_epoch fence) (n_dispatch fence) now (ob_askedAt obs) (ob_generation obs)
                     (ob_order obs) (ob_node obs) d))"

section \<open>Closing an order\<close>

definition settleClosedNodeTx :: "int \<Rightarrow> string \<Rightarrow> bool \<Rightarrow> string \<Rightarrow> Ledger \<Rightarrow> Ledger" where
  "settleClosedNodeTx now node proven actor d =
     (if node = [] then d
      else case ReadNodeReleaseFacts d node of
        None \<Rightarrow> d
      | Some facts \<Rightarrow>
          if rf_decommissionProven facts then HandOverPoolRetirement actor node poolReleaseActor d
          else DeleteBarrierRun node (DecommissionNode now proven actor node d))"

definition closePoolOrderTx :: "int \<Rightarrow> string \<Rightarrow> bool \<Rightarrow> string \<Rightarrow> (int \<Rightarrow> Ledger \<Rightarrow> int \<times> Ledger) \<Rightarrow> Ledger \<Rightarrow> Ledger result" where
  "closePoolOrderTx now i proven actor move d =
     (case ReadPoolOrder d i of
        None \<Rightarrow> Inl ErrPoolOrderMoved
      | Some row \<Rightarrow>
          (case move now d of
             (n, d') \<Rightarrow> if n \<noteq> 1 then Inl ErrPoolOrderMoved else Inr (settleClosedNodeTx now (po_nodeName row) proven actor d')))"

definition PoolOrderReleased :: "int \<Rightarrow> string \<Rightarrow> Ledger \<Rightarrow> Ledger result" where
  "PoolOrderReleased now i = movePoolOrder (MarkPoolOrderReleased now i)"

definition PoolOrderGone :: "int \<Rightarrow> string \<Rightarrow> Ledger \<Rightarrow> Ledger result" where
  "PoolOrderGone now i =
     closePoolOrderTx now i True ''billet pool (its source said gone)'' (MarkPoolOrderGone ''its source said the host is gone'' i)"

definition ClosePoolOrder :: "int \<Rightarrow> string \<Rightarrow> string \<Rightarrow> Ledger \<Rightarrow> Ledger result" where
  "ClosePoolOrder now i reason d =
     (if reason = [] then Inl ErrInvalid
      else closePoolOrderTx now i False ''billet pool close'' (ClosePoolOrderRow (''closed by a person: '' @ reason) i) d)"

definition ForceClosePoolOrder :: "int \<Rightarrow> string \<Rightarrow> string \<Rightarrow> Ledger \<Rightarrow> Ledger result" where
  "ForceClosePoolOrder now i reason d =
     (if reason = [] then Inl ErrInvalid
      else case ReadPoolOrder d i of
        None \<Rightarrow> Inl ErrPoolOrderMoved
      | Some row \<Rightarrow>
          if po_state row \<noteq> PoolPlaced \<or> po_releaseRequestedAt row = None \<or> po_nodeName row = [] then Inl ErrPoolOrderMoved
          else if 0 < nh_outstanding (CountNodeHoldings d (po_nodeName row)) then Inl ErrPoolReleaseWaits
          else case ForceClosePoolOrderRow now (''closed by a person without proof: '' @ reason) i (po_nodeName row)
              (DeleteBarrierRun (po_nodeName row)
                (DecommissionNode now False ''billet pool close --force'' (po_nodeName row)
                  (MarkNodeDrainedForRelease (po_nodeName row)
                    (revokeNodeTx (po_nodeName row) (''its pool host was closed by a person without proof: '' @ reason) now d)))) of
            (n, d') \<Rightarrow> if n \<noteq> 1 then Inl ErrPoolOrderMoved else Inr d')"

end
