(* ===== verification/Pool_Facts.thy ===== *)
theory Pool_Facts
  imports Pool_Release
begin

text \<open>
  What the operations on credentials and pool orders do to the tables. Each table is read as a
  map from its key to its row, and an operation is a sequence of updates of those maps.
\<close>

section \<open>The tables as maps\<close>

text \<open>
  What the schema declares of the tables (their primary keys and the checks on their columns) and
  what the operations keep beside it: an order that has a host names it, an order's node has the
  order's own name, an order is sealed only once its release was asked for, and a request is
  pending exactly while nobody has decided about it.
\<close>

definition orderTyped :: "PoolOrder \<Rightarrow> bool" where
  "orderTyped p \<longleftrightarrow>
     po_state p \<in> {PoolOrdering, PoolPlaced, PoolUncertain, PoolRefused, PoolSealed, PoolReleased, PoolGone, PoolAbandoned}
     \<and> (po_state p \<in> {PoolPlaced, PoolSealed, PoolReleased} \<longrightarrow> po_hostID p \<noteq> [])
     \<and> (po_state p \<in> {PoolSealed, PoolReleased} \<longrightarrow> po_releaseRequestedAt p \<noteq> None)
     \<and> (po_nodeName p \<noteq> [] \<longrightarrow> po_nodeName p = PoolNodeName (po_orderID p)
          \<and> po_state p \<in> {PoolPlaced, PoolSealed, PoolReleased, PoolGone})
     \<and> 0 \<le> po_clearGeneration p"

definition enrollmentTyped :: "Enrollment \<Rightarrow> bool" where
  "enrollmentTyped e \<longleftrightarrow> en_state e \<in> {EnrollPending, EnrollApproved, EnrollDenied}
     \<and> (en_state e = EnrollPending \<longleftrightarrow> en_decidedAt e = None)"

definition certsOK :: "Credentials \<Rightarrow> bool" where
  "certsOK c \<longleftrightarrow> distinct (map ic_serial (issuedCerts c)) \<and> distinct (map rv_serial (revokedCerts c))
     \<and> distinct (map nr_node (nodeRevocations c))"

definition tokensOK :: "Credentials \<Rightarrow> bool" where
  "tokensOK c \<longleftrightarrow> distinct (map jt_sha256 (joinTokens c)) \<and> (\<forall>t \<in> set (joinTokens c). 0 \<le> jt_uses t)"

definition enrollmentsOK :: "Credentials \<Rightarrow> bool" where
  "enrollmentsOK c \<longleftrightarrow> distinct (map en_name (enrollments c)) \<and> (\<forall>e \<in> set (enrollments c). enrollmentTyped e)"

definition ordersOK :: "PoolOrder list \<Rightarrow> bool" where
  "ordersOK ps \<longleftrightarrow> distinct (map po_orderID ps) \<and> (\<forall>p \<in> set ps. orderTyped p)"

definition credentialsOK :: "Ledger \<Rightarrow> bool" where
  "credentialsOK d \<longleftrightarrow> tokensOK (credentials d) \<and> enrollmentsOK (credentials d) \<and> certsOK (credentials d) \<and> ordersOK (poolOrders d)"

text \<open>How a row with a key is found after the statements the operations are made of.\<close>

lemma find_key_append:
  "key row \<notin> set (map key rows) \<Longrightarrow> find (\<lambda>r. key r = k) (rows @ [row]) = (if k = key row then Some row else find (\<lambda>r. key r = k) rows)"
  by (induction rows) auto

lemma find_key_count:
  assumes "distinct (map key rows)" and "\<And>r. P r \<Longrightarrow> key r = k"
  shows "count_where P rows = (case find (\<lambda>r. key r = k) rows of None \<Rightarrow> 0 | Some r \<Rightarrow> if P r then 1 else 0)"
  using assms(1)
proof (induction rows)
  case (Cons r rows)
  show ?case
  proof (cases "key r = k")
    case True
    then have "\<not> P s" if "s \<in> set rows" for s using Cons.prems assms(2) [of s] that by (metis distinct.simps(2) image_eqI list.set_map list.simps(9))
    then show ?thesis using True by (simp add: count_where_def filter_False)
  next
    case False
    then show ?thesis using Cons assms(2) [of r] by (auto simp: count_where_def)
  qed
qed (simp add: count_where_def)

lemma find_key_none: "find (\<lambda>r. key r = k) rows = None \<longleftrightarrow> k \<notin> set (map key rows)"
  by (auto simp: find_None_iff)

lemma find_key_some: "find (\<lambda>r. key r = k) rows = Some r \<Longrightarrow> r \<in> set rows \<and> key r = k"
  by (auto simp: find_Some_iff)

lemma find_key_distinct: "distinct (map key rows) \<Longrightarrow> r \<in> set rows \<Longrightarrow> find (\<lambda>s. key s = key r) rows = Some r"
  by (induction rows) force+

lemma findToken_upd:
  "(\<And>t. P t \<Longrightarrow> jt_sha256 (f t) = jt_sha256 t) \<Longrightarrow>
     findToken (updCredentials (\<lambda>c. c\<lparr>joinTokens := upd_where P f (joinTokens c)\<rparr>) d) h = map_option (\<lambda>t. if P t then f t else t) (findToken d h)"
  by (simp add: findToken_def find_upd_where)

lemma readEnrollment_upd:
  "(\<And>e. P e \<Longrightarrow> en_name (f e) = en_name e) \<Longrightarrow>
     readEnrollment (updEnrollments P f d) name = map_option (\<lambda>e. if P e then f e else e) (readEnrollment d name)"
  by (simp add: readEnrollment_def updEnrollments_def find_upd_where)

lemma ReadPoolOrder_upd:
  "(\<And>p. P p \<Longrightarrow> po_orderID (f p) = po_orderID p) \<Longrightarrow>
     ReadPoolOrder (snd (updOrders P f d)) i = map_option (\<lambda>p. if P p then f p else p) (ReadPoolOrder d i)"
  by (simp add: ReadPoolOrder_def updOrders_def find_upd_where)

lemma ReadPoolOrder_id: "ReadPoolOrder d i = Some p \<Longrightarrow> po_orderID p = i"
  unfolding ReadPoolOrder_def by (drule find_key_some) simp

lemma ReadPoolOrder_row: "distinct (map po_orderID (poolOrders d)) \<Longrightarrow> p \<in> set (poolOrders d) \<Longrightarrow> ReadPoolOrder d (po_orderID p) = Some p"
  unfolding ReadPoolOrder_def using find_key_distinct [of po_orderID "poolOrders d" p] by simp

lemma readEnrollment_name: "readEnrollment d name = Some e \<Longrightarrow> en_name e = name"
  unfolding readEnrollment_def by (drule find_key_some) simp

section \<open>Which tables a statement leaves alone\<close>

lemma updOrders_fields [simp]:
  "leases (snd (updOrders P f d)) = leases d" "nodes (snd (updOrders P f d)) = nodes d"
  "admission (snd (updOrders P f d)) = admission d" "seal (snd (updOrders P f d)) = seal d"
  "inventories (snd (updOrders P f d)) = inventories d" "barrier (snd (updOrders P f d)) = barrier d"
  "barrierRuns (snd (updOrders P f d)) = barrierRuns d" "credentials (snd (updOrders P f d)) = credentials d"
  "poolOrders (snd (updOrders P f d)) = upd_where P f (poolOrders d)" "fst (updOrders P f d) = count_where P (poolOrders d)"
  by (simp_all add: updOrders_def)

lemma views_cong:
  "credentials d' = credentials d \<Longrightarrow> findToken d' = findToken d" "credentials d' = credentials d \<Longrightarrow> readEnrollment d' = readEnrollment d"
  "poolOrders d' = poolOrders d \<Longrightarrow> ReadPoolOrder d' = ReadPoolOrder d"
  by (simp_all add: findToken_def readEnrollment_def ReadPoolOrder_def fun_eq_iff)

lemma views_other [simp]:
  "findToken (snd (updOrders P f d)) = findToken d" "readEnrollment (snd (updOrders P f d)) = readEnrollment d"
  "findToken (updNode Q g d) = findToken d" "readEnrollment (updNode Q g d) = readEnrollment d" "ReadPoolOrder (updNode Q g d) = ReadPoolOrder d"
  "findToken (DeleteBarrierRun n d) = findToken d" "readEnrollment (DeleteBarrierRun n d) = readEnrollment d"
  "ReadPoolOrder (DeleteBarrierRun n d) = ReadPoolOrder d" "ReadPoolOrder (updCredentials h d) = ReadPoolOrder d"
  "findToken (updEnrollments R k d) = findToken d"
  by (simp_all add: findToken_def readEnrollment_def ReadPoolOrder_def fun_eq_iff updEnrollments_def DeleteBarrierRun_def)

section \<open>What every operation keeps\<close>

definition tokenKept :: "JoinTokenRow \<Rightarrow> JoinTokenRow \<Rightarrow> bool" where
  "tokenKept t t' \<longleftrightarrow> t' = t\<lparr>jt_uses := jt_uses t'\<rparr> \<and> jt_uses t' \<le> jt_uses t"

definition tokensKept :: "Ledger \<Rightarrow> Ledger \<Rightarrow> bool" where
  "tokensKept d d' \<longleftrightarrow> (\<forall>h t. findToken d h = Some t \<longrightarrow> (\<exists>t'. findToken d' h = Some t' \<and> tokenKept t t'))"

text \<open>The states an order may still reach.\<close>

definition poolReach :: "string \<Rightarrow> string list" where
  "poolReach s =
     (if s = PoolOrdering then [PoolOrdering, PoolPlaced, PoolUncertain, PoolRefused, PoolSealed, PoolReleased, PoolGone, PoolAbandoned]
      else if s = PoolUncertain then [PoolUncertain, PoolPlaced, PoolSealed, PoolReleased, PoolGone, PoolAbandoned]
      else if s = PoolPlaced then [PoolPlaced, PoolSealed, PoolReleased, PoolGone]
      else if s = PoolSealed then [PoolSealed, PoolReleased, PoolGone]
      else if s = PoolReleased then [PoolReleased, PoolGone]
      else [s])"

definition orderKept :: "PoolOrder \<Rightarrow> PoolOrder \<Rightarrow> bool" where
  "orderKept p p' \<longleftrightarrow>
     po_orderID p' = po_orderID p \<and> po_source p' = po_source p \<and> po_scope p' = po_scope p \<and> po_shape p' = po_shape p
     \<and> po_location p' = po_location p \<and> po_arch p' = po_arch p \<and> po_firstAttemptAt p' = po_firstAttemptAt p
     \<and> po_state p' \<in> set (poolReach (po_state p))
     \<and> (po_state p \<notin> {PoolOrdering, PoolUncertain} \<longrightarrow> po_hostID p' = po_hostID p)
     \<and> (po_nodeName p \<noteq> [] \<longrightarrow> po_nodeName p' = po_nodeName p \<and> po_fingerprint p' = po_fingerprint p \<and> po_certSerial p' = po_certSerial p)
     \<and> (po_nodeName p = [] \<and> po_state p \<in> {PoolSealed, PoolReleased, PoolGone, PoolRefused, PoolAbandoned} \<longrightarrow> po_nodeName p' = [])
     \<and> (po_releaseRequestedAt p \<noteq> None \<longrightarrow> po_releaseRequestedAt p' = po_releaseRequestedAt p)
     \<and> po_clearGeneration p \<le> po_clearGeneration p' \<and> (orderTyped p \<longrightarrow> orderTyped p')"

definition ordersKept :: "Ledger \<Rightarrow> Ledger \<Rightarrow> bool" where
  "ordersKept d d' \<longleftrightarrow> (\<forall>i p. ReadPoolOrder d i = Some p \<longrightarrow> (\<exists>p'. ReadPoolOrder d' i = Some p' \<and> orderKept p p'))"

definition revokedKept :: "Ledger \<Rightarrow> Ledger \<Rightarrow> bool" where
  "revokedKept d d' \<longleftrightarrow> (\<forall>s. CertRevocation d s \<longrightarrow> CertRevocation d' s)"

definition rowsKept :: "Ledger \<Rightarrow> Ledger \<Rightarrow> bool" where
  "rowsKept d d' \<longleftrightarrow> tokensKept d d' \<and> ordersKept d d' \<and> revokedKept d d' \<and> (credentialsOK d \<longrightarrow> credentialsOK d')"

text \<open>
  What the operations leave alone beside: the leases, the evidence of an idle fleet, which they may only
  take from, and of a node its size and its fence; none comes back into placement.
\<close>

definition nodeKept :: "NodeRow \<Rightarrow> NodeRow \<Rightarrow> bool" where
  "nodeKept n n' \<longleftrightarrow> n_name n' = n_name n \<and> n_vcpu n' = n_vcpu n \<and> n_memory n' = n_memory n \<and> n_epoch n' = n_epoch n
     \<and> (n_drained n \<longrightarrow> n_drained n')"

definition poolFrame :: "Ledger \<Rightarrow> Ledger \<Rightarrow> bool" where
  "poolFrame d d' \<longleftrightarrow> leases d' = leases d \<and> admission d' = admission d \<and> list_all2 nodeKept (nodes d) (nodes d')
     \<and> evidenceKept d d'"

text \<open>A run of clear answers goes on as it is or ends; only an answer begins or extends one.\<close>

definition clearKept :: "PoolOrder \<Rightarrow> PoolOrder \<Rightarrow> bool" where
  "clearKept p p' \<longleftrightarrow> po_clearSince p' = None
     \<or> po_clearSince p' = po_clearSince p \<and> po_clearObservedAt p' = po_clearObservedAt p \<and> po_clearEpoch p' = po_clearEpoch p
       \<and> po_clearDispatch p' = po_clearDispatch p \<and> po_clearGeneration p' = po_clearGeneration p"

definition clearsKept :: "Ledger \<Rightarrow> Ledger \<Rightarrow> bool" where
  "clearsKept d d' \<longleftrightarrow> (\<forall>i p'. ReadPoolOrder d' i = Some p' \<and> po_clearSince p' \<noteq> None \<longrightarrow>
     (\<exists>p. ReadPoolOrder d i = Some p \<and> clearKept p p'))"

definition poolMoved :: "Ledger \<Rightarrow> Ledger \<Rightarrow> bool" where
  "poolMoved d d' \<longleftrightarrow> rowsKept d d' \<and> poolFrame d d'"

definition poolKept :: "Ledger \<Rightarrow> Ledger \<Rightarrow> bool" where
  "poolKept d d' \<longleftrightarrow> poolMoved d d' \<and> clearsKept d d'"

lemma evidence_statements [simp]:
  "evidenceKept d (updCredentials f d)" "evidenceKept d (snd (updOrders P g d))" "evidenceKept d (d\<lparr>poolOrders := ps\<rparr>)"
  "evidenceKept d (d\<lparr>barrierRuns := filter Q (barrierRuns d)\<rparr>)"
  by (auto simp: evidenceKept_def fences_def)

lemmas keptDefs = poolKept_def poolMoved_def rowsKept_def poolFrame_def clearsKept_def tokensKept_def ordersKept_def revokedKept_def CertRevocation_def

lemma clearKept_refl [simp]: "clearKept p p"
  by (simp add: clearKept_def)

lemma clearKept_trans: "clearKept p q \<Longrightarrow> clearKept q r \<Longrightarrow> clearKept p r"
  by (auto simp: clearKept_def)

lemma clearsKept_trans: "clearsKept d e \<Longrightarrow> clearsKept e f \<Longrightarrow> clearsKept d f"
  unfolding clearsKept_def
proof (intro allI impI)
  fix i p' assume e: "\<forall>i p'. ReadPoolOrder e i = Some p' \<and> po_clearSince p' \<noteq> None \<longrightarrow> (\<exists>p. ReadPoolOrder d i = Some p \<and> clearKept p p')"
    "\<forall>i p'. ReadPoolOrder f i = Some p' \<and> po_clearSince p' \<noteq> None \<longrightarrow> (\<exists>p. ReadPoolOrder e i = Some p \<and> clearKept p p')"
    and p': "ReadPoolOrder f i = Some p' \<and> po_clearSince p' \<noteq> None"
  then obtain q where "ReadPoolOrder e i = Some q" "clearKept q p'" by blast
  moreover from this(2) p' have "po_clearSince q \<noteq> None" by (auto simp: clearKept_def)
  ultimately show "\<exists>p. ReadPoolOrder d i = Some p \<and> clearKept p p'" using e(1) clearKept_trans by blast
qed

lemma nodeKept_refl [simp]: "nodeKept n n" "list_all2 nodeKept ns ns"
  by (simp_all add: nodeKept_def list.rel_refl_strong)

lemma nodesKept_trans: "list_all2 nodeKept ms ns \<Longrightarrow> list_all2 nodeKept ns ps \<Longrightarrow> list_all2 nodeKept ms ps"
  by (rule list_all2_trans [of nodeKept nodeKept nodeKept]) (auto simp: nodeKept_def)

lemma tokenKept_refl [simp]: "tokenKept t t"
  by (simp add: tokenKept_def)

lemma tokenKept_trans: "tokenKept t u \<Longrightarrow> tokenKept u v \<Longrightarrow> tokenKept t v"
  unfolding tokenKept_def by (metis JoinTokenRow.update_convs(3) JoinTokenRow.surjective order.trans)

lemma poolReach_refl [simp]: "s \<in> set (poolReach s)"
  by (simp add: poolReach_def)

lemma poolReach_trans: "t \<in> set (poolReach s) \<Longrightarrow> u \<in> set (poolReach t) \<Longrightarrow> u \<in> set (poolReach s)"
  by (auto simp: poolReach_def split: if_splits)

lemma orderKept_refl [simp]: "orderKept p p"
  by (simp add: orderKept_def)

lemma poolReach_placed: "s \<notin> {PoolOrdering, PoolUncertain} \<Longrightarrow> t \<in> set (poolReach s) \<Longrightarrow> t \<notin> {PoolOrdering, PoolUncertain}"
  by (auto simp: poolReach_def split: if_splits)

lemma poolReach_closed:
  "s \<in> {PoolSealed, PoolReleased, PoolGone, PoolRefused, PoolAbandoned} \<Longrightarrow> t \<in> set (poolReach s) \<Longrightarrow>
     t \<in> {PoolSealed, PoolReleased, PoolGone, PoolRefused, PoolAbandoned}"
  by (auto simp: poolReach_def split: if_splits)

lemma orderKept_trans:
  assumes "orderKept p q" "orderKept q r"
  shows "orderKept p r"
proof -
  have "po_state r \<in> set (poolReach (po_state p))" using assms poolReach_trans unfolding orderKept_def by blast
  moreover have "po_state p \<notin> {PoolOrdering, PoolUncertain} \<longrightarrow> po_hostID r = po_hostID p"
    using assms poolReach_placed unfolding orderKept_def by metis
  moreover have "po_nodeName p = [] \<and> po_state p \<in> {PoolSealed, PoolReleased, PoolGone, PoolRefused, PoolAbandoned} \<longrightarrow> po_nodeName r = []"
    using assms poolReach_closed unfolding orderKept_def by metis
  moreover have "po_clearGeneration p \<le> po_clearGeneration q" "po_clearGeneration q \<le> po_clearGeneration r"
    using assms by (simp_all add: orderKept_def)
  ultimately show ?thesis using assms unfolding orderKept_def by simp
qed

lemma poolKept_refl [simp]: "poolKept d d"
  by (auto simp: keptDefs)

lemma tokensKept_trans: "tokensKept d e \<Longrightarrow> tokensKept e f \<Longrightarrow> tokensKept d f"
  unfolding tokensKept_def by (blast dest: tokenKept_trans)

lemma ordersKept_trans: "ordersKept d e \<Longrightarrow> ordersKept e f \<Longrightarrow> ordersKept d f"
  unfolding ordersKept_def by (blast dest: orderKept_trans)

lemma rowsKept_refl [simp]: "rowsKept d d"
  by (auto simp: keptDefs)

lemma rowsKept_trans: "rowsKept d e \<Longrightarrow> rowsKept e f \<Longrightarrow> rowsKept d f"
  using tokensKept_trans ordersKept_trans unfolding rowsKept_def revokedKept_def by blast

lemma poolKept_trans [trans]: "poolKept d e \<Longrightarrow> poolKept e f \<Longrightarrow> poolKept d f"
  using rowsKept_trans nodesKept_trans clearsKept_trans evidenceKept_trans unfolding poolKept_def poolMoved_def poolFrame_def by metis

text \<open>The statements, one at a time.\<close>

lemma CertRevocation_cong: "credentials d' = credentials d \<Longrightarrow> CertRevocation d' = CertRevocation d"
  by (simp add: CertRevocation_def fun_eq_iff)

lemma rowsKept_same: "credentials d' = credentials d \<Longrightarrow> poolOrders d' = poolOrders d \<Longrightarrow> rowsKept d d'"
  using views_cong [of d' d] CertRevocation_cong [of d' d]
  by (simp add: rowsKept_def tokensKept_def ordersKept_def revokedKept_def credentialsOK_def)

lemma poolMoved_updRead:
  assumes ids: "\<And>p. P p \<Longrightarrow> po_orderID (f p) = po_orderID p" and "\<And>i p. ReadPoolOrder d i = Some p \<Longrightarrow> P p \<Longrightarrow> orderKept p (f p)"
  shows "poolMoved d (snd (updOrders P f d))"
proof -
  have "ordersKept d (snd (updOrders P f d))" using assms(2) by (auto simp: ordersKept_def ReadPoolOrder_upd [OF ids])
  moreover have "credentialsOK d \<longrightarrow> credentialsOK (snd (updOrders P f d))"
  proof
    assume c: "credentialsOK d"
    then have "orderTyped (f p)" if "p \<in> set (poolOrders d)" "P p" for p
      using that assms(2) [OF ReadPoolOrder_row [of d p]] by (simp add: credentialsOK_def ordersOK_def orderKept_def)
    then show "credentialsOK (snd (updOrders P f d))"
      using c map_upd_where_same [where P = P and f = f and k = po_orderID, OF ids]
      by (auto simp: credentialsOK_def ordersOK_def set_upd_where)
  qed
  ultimately show ?thesis using CertRevocation_cong [of "snd (updOrders P f d)" d]
    by (simp add: poolMoved_def rowsKept_def poolFrame_def tokensKept_def revokedKept_def)
qed

lemma clearsKept_upd:
  assumes "\<And>p. P p \<Longrightarrow> po_orderID (f p) = po_orderID p \<and> clearKept p (f p)"
  shows "clearsKept d (snd (updOrders P f d))"
proof -
  have "\<exists>p. ReadPoolOrder d i = Some p \<and> clearKept p p'" if "ReadPoolOrder (snd (updOrders P f d)) i = Some p'" for i p'
    using that ReadPoolOrder_upd [of P f d i] assms by (cases "ReadPoolOrder d i") (auto split: if_splits)
  then show ?thesis by (simp add: clearsKept_def)
qed

lemma poolKept_updRead:
  assumes "\<And>p. P p \<Longrightarrow> po_orderID (f p) = po_orderID p \<and> clearKept p (f p)" and "\<And>i p. ReadPoolOrder d i = Some p \<Longrightarrow> P p \<Longrightarrow> orderKept p (f p)"
  shows "poolKept d (snd (updOrders P f d))"
  using assms poolMoved_updRead [of P f d] clearsKept_upd [of P f d] by (simp add: poolKept_def)

lemma poolKept_updOrders: "(\<And>p. P p \<Longrightarrow> orderKept p (f p) \<and> clearKept p (f p)) \<Longrightarrow> poolKept d (snd (updOrders P f d))"
  by (rule poolKept_updRead) (simp_all add: orderKept_def)

lemma updTokens_kept:
  assumes "\<And>t. P t \<Longrightarrow> tokenKept t (f t) \<and> (0 \<le> jt_uses t \<longrightarrow> 0 \<le> jt_uses (f t))"
  shows "poolKept d (updCredentials (\<lambda>c. c\<lparr>joinTokens := upd_where P f (joinTokens c)\<rparr>) d)"
proof -
  have shas: "P t \<Longrightarrow> jt_sha256 (f t) = jt_sha256 t" for t using assms [of t] unfolding tokenKept_def by (metis JoinTokenRow.select_convs(1) JoinTokenRow.surjective JoinTokenRow.update_convs(3))
  have "tokensKept d (updCredentials (\<lambda>c. c\<lparr>joinTokens := upd_where P f (joinTokens c)\<rparr>) d)"
    using assms by (auto simp: tokensKept_def findToken_upd [OF shas])
  moreover have "credentialsOK d \<longrightarrow> credentialsOK (updCredentials (\<lambda>c. c\<lparr>joinTokens := upd_where P f (joinTokens c)\<rparr>) d)"
    using assms map_upd_where_same [where P = P and f = f and k = jt_sha256, OF shas]
    by (auto simp: credentialsOK_def tokensOK_def enrollmentsOK_def certsOK_def set_upd_where)
  ultimately show ?thesis by (simp add: poolKept_def poolMoved_def rowsKept_def poolFrame_def clearsKept_def ordersKept_def revokedKept_def CertRevocation_def)
qed

lemma spendTokens_kept: "(\<And>t. P t \<Longrightarrow> 0 < jt_uses t) \<Longrightarrow> poolKept d (snd (spendTokens P d))"
  unfolding spendTokens_def snd_conv by (rule updTokens_kept) (force simp: tokenKept_def)

lemma RetirePoolJoinTokens_kept: "poolKept d (RetirePoolJoinTokens order d)"
  unfolding RetirePoolJoinTokens_def by (rule updTokens_kept) (auto simp: tokenKept_def)

lemma InsertJoinToken_kept:
  assumes "InsertJoinToken row d = Inr d'" and "0 \<le> jt_uses row"
  shows "poolKept d d'"
proof -
  have new: "jt_sha256 row \<notin> set (map jt_sha256 (joinTokens (credentials d)))"
    and d': "d' = updCredentials (\<lambda>c. c\<lparr>joinTokens := joinTokens c @ [row]\<rparr>) d"
    using assms(1) by (auto simp: InsertJoinToken_def split: if_splits)
  have "findToken d' h = Some t" if "findToken d h = Some t" for h t
    using that find_key_some [of jt_sha256 h "joinTokens (credentials d)" t] new by (auto simp: findToken_def d' find_key_append intro: image_eqI dest: sym)
  moreover have "credentialsOK d \<longrightarrow> credentialsOK d'"
    using new assms(2) by (auto simp: credentialsOK_def tokensOK_def enrollmentsOK_def certsOK_def d')
  ultimately show ?thesis by (auto simp: keptDefs d')
qed

lemma enrollments_kept:
  assumes "enrollmentsOK (credentials d) \<longrightarrow> distinct (map en_name (f (enrollments (credentials d))))
      \<and> (\<forall>e \<in> set (f (enrollments (credentials d))). enrollmentTyped e)"
  shows "poolKept d (updCredentials (\<lambda>c. c\<lparr>enrollments := f (enrollments c)\<rparr>) d)"
  using assms
  by (simp add: keptDefs findToken_def credentialsOK_def
      tokensOK_def enrollmentsOK_def certsOK_def)

lemma updEnrollments_kept:
  "(\<And>e. P e \<Longrightarrow> en_name (f e) = en_name e \<and> enrollmentTyped (f e)) \<Longrightarrow> poolKept d (updEnrollments P f d)"
  unfolding updEnrollments_def by (rule enrollments_kept) (auto simp: map_upd_where_same enrollmentsOK_def set_upd_where)

lemma addEnrollment_kept: "readEnrollment d (en_name row) = None \<Longrightarrow> enrollmentTyped row \<Longrightarrow> poolKept d (addEnrollment row d)"
  unfolding addEnrollment_def by (rule enrollments_kept) (auto simp: readEnrollment_def find_key_none enrollmentsOK_def)

lemma insertNew_keys: "set (map key (insertNew key row rows)) = insert (key row) (set (map key rows))"
  by (auto simp: insertNew_def)

lemma certificates_kept:
  assumes "set (map rv_serial (revokedCerts c)) \<subseteq> set (map rv_serial (revokedCerts (f c)))"
    and "joinTokens (f c) = joinTokens c" "enrollments (f c) = enrollments c" "certsOK c \<longrightarrow> certsOK (f c)" and "c = credentials d"
  shows "poolKept d (updCredentials f d)"
  using assms
  by (auto simp: keptDefs findToken_def credentialsOK_def
      tokensOK_def enrollmentsOK_def simp del: set_map)

lemma insertNew_distinct: "distinct (map key rows) \<Longrightarrow> distinct (map key (insertNew key row rows))"
  by (simp add: insertNew_def)

lemma recordIssuedCertTx_kept: "poolKept d (recordIssuedCertTx now cert d)"
  unfolding recordIssuedCertTx_def by (rule certificates_kept) (simp_all add: certsOK_def insertNew_distinct)

lemma RevokeCertRow_kept: "poolKept d (RevokeCertRow now serial node reason d)"
  unfolding RevokeCertRow_def by (rule certificates_kept) (auto simp: insertNew_keys insertNew_distinct certsOK_def simp del: set_map)

lemma RecordNodeRevocation_kept: "poolKept d (RecordNodeRevocation row d)"
  unfolding RecordNodeRevocation_def by (rule certificates_kept) (simp_all add: certsOK_def upsertBy_def map_upd_where_same)

lemma revokeEach_kept: "poolKept d (revokeEach now node reason is d)"
proof (induction "is" arbitrary: d)
  case (Cons i "is")
  show ?case using poolKept_trans [OF RevokeCertRow_kept [of d now "ic_serial i" node reason] Cons] by simp
qed simp

lemma revokeNodeTx_kept: "poolKept d (revokeNodeTx node reason now d)"
  unfolding revokeNodeTx_def using poolKept_trans [OF revokeEach_kept RecordNodeRevocation_kept] by blast

section \<open>The operations\<close>

lemmas statements_kept = poolKept_refl spendTokens_kept RetirePoolJoinTokens_kept recordIssuedCertTx_kept RevokeCertRow_kept revokeNodeTx_kept

lemma updNode_kept: "(\<And>n. P n \<Longrightarrow> nodeKept n (f n) \<and> n_dispatch (f n) = n_dispatch n) \<Longrightarrow> poolKept d (updNode P f d)"
  using fences_updNode [of P f d]
  by (simp add: evidenceKept_def nodeKept_def poolKept_def poolMoved_def rowsKept_same poolFrame_def clearsKept_def upd_where_def list_all2_map2 list.rel_refl_strong)

lemma node_statements_kept:
  "poolKept d (MarkNodeDrainedForRelease node d)" "poolKept d (DecommissionNode now proven actor node d)"
  "poolKept d (HandOverPoolRetirement closing name sealing d)" "poolKept d (snd (UndoPoolRetirement node actor d))"
  by (simp_all add: MarkNodeDrainedForRelease_def DecommissionNode_def HandOverPoolRetirement_def UndoPoolRetirement_def updNode_kept nodeKept_def)

lemma DeleteBarrierRun_kept: "poolKept d (DeleteBarrierRun node d)"
  by (simp add: poolKept_def poolMoved_def poolFrame_def clearsKept_def rowsKept_same DeleteBarrierRun_def ReadPoolOrder_def)

lemma contradicted_kept: "orderKept p (contradicted p) \<and> clearKept p (contradicted p)"
  by (simp add: contradicted_def orderKept_def orderTyped_def clearKept_def)

lemma ContradictPoolRelease_updOrders:
  "ContradictPoolRelease node d = updOrders (poolNodeIn node [''placed'', ''sealed'']) contradicted d"
  by (simp add: ContradictPoolRelease_def updOrders_def)

lemma computeListedTx_kept: "poolKept d (computeListedTx node d)"
proof -
  have "poolKept d (snd (ContradictPoolRelease node d))"
    unfolding ContradictPoolRelease_updOrders by (rule poolKept_updOrders) (rule contradicted_kept)
  moreover note node_statements_kept(4)
  ultimately have "poolKept d (snd (UndoPoolRetirement node poolReleaseActor (snd (ContradictPoolRelease node d))))" by (rule poolKept_trans)
  then show ?thesis unfolding computeListedTx_def Let_def by (simp add: case_prod_beta poolKept_trans [OF _ DeleteBarrierRun_kept])
qed

lemma movePoolOrder_kept: "movePoolOrder (updOrders P f) d = Inr d' \<Longrightarrow> (\<And>p. P p \<Longrightarrow> orderKept p (f p) \<and> clearKept p (f p)) \<Longrightarrow> poolKept d d'"
  using poolKept_updOrders [of P f d] by (auto simp: movePoolOrder_def case_prod_beta split: if_splits)

lemma InsertPoolOrder_kept:
  assumes "InsertPoolOrder now req d = Inr d'"
  shows "poolKept d d'"
proof -
  have new: "or_id req \<notin> set (map po_orderID (poolOrders d))" using assms by (auto simp: InsertPoolOrder_def split: if_splits)
  obtain row where d': "d' = d\<lparr>poolOrders := poolOrders d @ [row]\<rparr>" "po_orderID row = or_id req" "orderTyped row" "po_clearSince row = None"
    using assms new by (auto simp: InsertPoolOrder_def orderTyped_def)
  have "ReadPoolOrder d' i = Some p" if "ReadPoolOrder d i = Some p" for i p
    using that find_key_some [of po_orderID i "poolOrders d" p] new d'(2)
    by (auto simp: ReadPoolOrder_def d'(1) find_key_append intro: image_eqI dest: sym)
  moreover have "clearsKept d d'"
    using new d'(2,4) find_key_append [of po_orderID row "poolOrders d"] by (auto simp: clearsKept_def ReadPoolOrder_def d'(1) split: if_splits)
  ultimately show ?thesis using new d'
    by (auto simp: poolKept_def poolMoved_def rowsKept_def poolFrame_def tokensKept_def ordersKept_def revokedKept_def CertRevocation_def
        findToken_def credentialsOK_def ordersOK_def)
qed

lemma order_moves_kept:
  "RecordPoolOrder now req d = Inr d' \<Longrightarrow> poolKept d d'"
  "PoolOrderPlaced now i host d = Inr d' \<Longrightarrow> poolKept d d'"
  "UncertainPoolOrderFound now i host d = Inr d' \<Longrightarrow> poolKept d d'"
  "PoolOrderUncertain now i reason d = Inr d' \<Longrightarrow> poolKept d d'"
  "PoolOrderRefused now i reason d = Inr d' \<Longrightarrow> poolKept d d'"
  "PoolOrderAbandoned now i reason d = Inr d' \<Longrightarrow> poolKept d d'"
  "PoolOrderReleased now i d = Inr d' \<Longrightarrow> poolKept d d'"
proof -
  note marks = MarkPoolOrderPlaced_def MarkUncertainPoolOrderFound_def MarkPoolOrderUncertain_def MarkPoolOrderRefused_def
    MarkPoolOrderAbandoned_def MarkPoolOrderReleased_def
  note ops = PoolOrderPlaced_def UncertainPoolOrderFound_def PoolOrderUncertain_def PoolOrderRefused_def PoolOrderAbandoned_def PoolOrderReleased_def
  show "RecordPoolOrder now req d = Inr d' \<Longrightarrow> poolKept d d'"
    using InsertPoolOrder_kept by (auto simp: RecordPoolOrder_def split: if_splits)
  show "PoolOrderPlaced now i host d = Inr d' \<Longrightarrow> poolKept d d'" "UncertainPoolOrderFound now i host d = Inr d' \<Longrightarrow> poolKept d d'"
    "PoolOrderUncertain now i reason d = Inr d' \<Longrightarrow> poolKept d d'" "PoolOrderRefused now i reason d = Inr d' \<Longrightarrow> poolKept d d'"
    "PoolOrderAbandoned now i reason d = Inr d' \<Longrightarrow> poolKept d d'" "PoolOrderReleased now i d = Inr d' \<Longrightarrow> poolKept d d'"
    by (auto simp: ops marks orderKept_def orderTyped_def clearKept_def poolReach_def split: if_splits elim!: movePoolOrder_kept)
qed

lemma InsertToken_ops_kept:
  "NewJoinToken sha now token ttl uses note d = Inr d' \<Longrightarrow> poolKept d d'"
  "NewPoolJoinToken sha now token order ttl d = Inr d' \<Longrightarrow> poolKept d d'"
  using InsertJoinToken_kept
  by (auto simp: NewJoinToken_def NewPoolJoinToken_def insertJoinTokenTx_def split: if_splits option.splits)

lemma spend_kept:
  "spendJoinTokenTx sha now token d = Inr d' \<Longrightarrow> poolKept d d'"
  "spendPoolJoinTokenTx sha now order token d = Inr d' \<Longrightarrow> poolKept d d'"
  using spendTokens_kept [of "\<lambda>t. jt_sha256 t = hashJoinToken sha token \<and> liveToken now t" d]
    spendTokens_kept [of "\<lambda>t. jt_sha256 t = hashJoinToken sha token \<and> jt_poolOrder t = order \<and> liveToken now t" d]
  by (auto simp: spendJoinTokenTx_def spendPoolJoinTokenTx_def SpendJoinTokenRow_def SpendPoolJoinToken_def liveToken_def case_prod_beta split: if_splits)

lemma open_order:
  assumes "openPoolOrderTx d i = (row, None)"
  obtains p where "row = Some p" "ReadPoolOrder d i = Some p" "po_state p = PoolPlaced" "po_nodeName p = []" "po_joinHold p = []"
proof (cases "ReadPoolOrder d i")
  case (Some p)
  then show ?thesis using assms that [of p] by (simp add: openPoolOrderTx_def split: if_splits)
qed (use assms in \<open>simp add: openPoolOrderTx_def\<close>)

lemma hold_kept:
  "poolKept d (snd (HoldPoolOrderJoin now i hold seen d))" "poolKept d (snd (ReleasePoolOrderJoin now i d))"
  "poolKept d (snd (HoldLapsedPoolJoinsRow now d))" "poolKept d (snd (HoldLapsedPoolJoinRow now i d))"
  "poolKept d (snd (LinkPoolOrderNode now (PoolNodeName i) fingerprint serial i hold d))"
  unfolding HoldPoolOrderJoin_def ReleasePoolOrderJoin_def HoldLapsedPoolJoinsRow_def HoldLapsedPoolJoinRow_def LinkPoolOrderNode_def
  by (rule poolKept_updOrders; simp add: orderKept_def orderTyped_def clearKept_def lapsed_def)+

lemma join_ops_kept:
  "ReleasePoolJoin now order d = Inr d' \<Longrightarrow> poolKept d d'" "HoldPoolJoin now order reason seen d = Inr d' \<Longrightarrow> poolKept d d'"
  "HoldLapsedPoolJoins now d = (n, d') \<Longrightarrow> poolKept d d'" "HoldLapsedPoolJoin now order d = Inr (held, d') \<Longrightarrow> poolKept d d'"
proof -
  show "ReleasePoolJoin now order d = Inr d' \<Longrightarrow> poolKept d d'"
    using hold_kept(2) [of d now order] by (auto simp: ReleasePoolJoin_def case_prod_beta split: if_splits option.splits)
  show "HoldPoolJoin now order reason seen d = Inr d' \<Longrightarrow> poolKept d d'"
    using hold_kept(1) [of d now order reason seen] by (auto simp: HoldPoolJoin_def case_prod_beta split: if_splits option.splits)
  show "HoldLapsedPoolJoins now d = (n, d') \<Longrightarrow> poolKept d d'" using hold_kept(3) [of d now] by (auto simp: HoldLapsedPoolJoins_def)
  show "HoldLapsedPoolJoin now order d = Inr (held, d') \<Longrightarrow> poolKept d d'"
    using hold_kept(4) [of d now order] by (auto simp: HoldLapsedPoolJoin_def case_prod_beta split: option.splits)
qed

lemma linkPoolNodeTx_cases:
  assumes "linkPoolNodeTx now order name fingerprint serial heldMay d = Inr d'"
  obtains p where "ReadPoolOrder d order = Some p" "po_state p = PoolPlaced" "po_nodeName p = []" "heldMay \<or> po_joinHold p = []"
    "name = PoolNodeName order" "serial \<noteq> []"
    "d' = RetirePoolJoinTokens order (snd (LinkPoolOrderNode now name fingerprint serial order (po_joinHold p) d))"
proof (cases "ReadPoolOrder d order")
  case (Some p)
  then show ?thesis using assms that by (auto simp: linkPoolNodeTx_def openPoolOrderTx_def case_prod_beta split: if_splits)
qed (use assms in \<open>simp add: linkPoolNodeTx_def openPoolOrderTx_def split: if_splits\<close>)

lemma linkPoolNodeTx_kept: "linkPoolNodeTx now order name fingerprint serial heldMay d = Inr d' \<Longrightarrow> poolKept d d'"
  by (erule linkPoolNodeTx_cases) (simp add: poolKept_trans [OF hold_kept(5) RetirePoolJoinTokens_kept])

lemma requestEnrollmentTx_kept: "requestEnrollmentTx now name fingerprint csr order d = Inr (e, d') \<Longrightarrow> poolKept d d'"
  by (auto simp: requestEnrollmentTx_def InsertEnrollment_def ReplaceDeniedEnrollment_def askedRow_def Let_def enrollmentTyped_def
      split: option.splits if_splits intro!: addEnrollment_kept updEnrollments_kept)

lemma spendEnrollmentTokenTx_kept: "spendEnrollmentTokenTx sha now name token d = Inr (order, d') \<Longrightarrow> poolKept d d'"
  by (auto simp: spendEnrollmentTokenTx_def Let_def split: if_splits option.splits sum.splits prod.splits dest: spend_kept)

lemma ask_ops_kept:
  "RequestEnrollment now name fingerprint csr d = Inr (e, d') \<Longrightarrow> poolKept d d'"
  "RequestEnrollmentWithToken sha now name fingerprint csr token d = Inr (e, d') \<Longrightarrow> poolKept d d'"
  "RecordHeldPoolRequest now order fingerprint csr d = Inr (e, d') \<Longrightarrow> poolKept d d'"
  "SpendJoinToken sha now token d = Inr d' \<Longrightarrow> poolKept d d'"
  by (auto simp: RequestEnrollment_def RequestEnrollmentWithToken_def RecordHeldPoolRequest_def SpendJoinToken_def Let_def
      split: if_splits option.splits sum.splits prod.splits
      dest!: requestEnrollmentTx_kept spendEnrollmentTokenTx_kept spend_kept intro: poolKept_trans)

lemma decideEnrollment_kept:
  assumes "decideEnrollment now name fingerprint decision cert serial issued d = Inr d'"
  shows "poolKept d d'"
proof -
  let ?d1 = "case issued of None \<Rightarrow> d | Some c \<Rightarrow> recordIssuedCertTx now c d"
  have "poolKept d ?d1" by (simp add: recordIssuedCertTx_kept split: option.splits)
  also have "poolKept ?d1 (DecideEnrollmentRow now name decision cert ?d1)"
    unfolding DecideEnrollmentRow_def using assms
    by (intro updEnrollments_kept) (auto simp: decideEnrollment_def enrollmentTyped_def split: if_splits)
  also have "poolKept \<dots> d'"
    using assms linkPoolNodeTx_kept by (auto simp: decideEnrollment_def Let_def split: if_splits option.splits)
  finally show ?thesis .
qed

lemma decide_ops_kept:
  "DecideEnrollment now name fingerprint decision cert serial d = Inr d' \<Longrightarrow> poolKept d d'"
  "ApproveEnrollment now name fingerprint certPEM issued d = Inr d' \<Longrightarrow> poolKept d d'"
  "RecordIssued now name fingerprint certPEM d = (was, d') \<Longrightarrow> poolKept d d'"
proof -
  show "DecideEnrollment now name fingerprint decision cert serial d = Inr d' \<Longrightarrow> poolKept d d'"
    "ApproveEnrollment now name fingerprint certPEM issued d = Inr d' \<Longrightarrow> poolKept d d'"
    using decideEnrollment_kept by (auto simp: DecideEnrollment_def ApproveEnrollment_def split: if_splits)
  show "RecordIssued now name fingerprint certPEM d = (was, d') \<Longrightarrow> poolKept d d'"
    by (auto simp: RecordIssued_def UpsertIssuedEnrollment_def upsertBy_def map_upd_where_same enrollmentsOK_def enrollmentTyped_def
        set_upd_where split: if_splits intro!: enrollments_kept)
qed

lemma approvePendingPoolTx_kept: "approvePendingPoolTx now name adm d = Inr d' \<Longrightarrow> poolKept d d'"
  by (auto simp: approvePendingPoolTx_def AdmitPendingEnrollment_def Let_def enrollmentTyped_def split: if_splits intro!: updEnrollments_kept)

lemma admitRequest_cases:
  assumes "admitRequest sha now adm d = Inr (Admitted d')"
  obtains (new) d1 where "readEnrollment d (PoolNodeName (ad_order adm)) = None"
      "spendPoolJoinTokenTx sha now (ad_order adm) (ad_token adm) d = Inr d1"
      "d' = InsertAdmittedEnrollment now (PoolNodeName (ad_order adm)) (ad_fingerprint adm) (ad_csr adm) (ad_cert adm) (ad_order adm) d1"
  | (waiting) e where "readEnrollment d (PoolNodeName (ad_order adm)) = Some e" "en_state e = EnrollPending"
      "en_fingerprint e = ad_fingerprint adm" "approvePendingPoolTx now (PoolNodeName (ad_order adm)) adm d = Inr d'"
  | (replaced) e d1 where "readEnrollment d (PoolNodeName (ad_order adm)) = Some e" "en_state e = EnrollDenied"
      "spendPoolJoinTokenTx sha now (ad_order adm) (ad_token adm) d = Inr d1"
      "approvePendingPoolTx now (PoolNodeName (ad_order adm)) adm
         (ReplaceDeniedEnrollment (askedRow now (PoolNodeName (ad_order adm)) (ad_fingerprint adm) (ad_csr adm) (ad_order adm)) d1) = Inr d'"
  using assms by (auto simp: admitRequest_def Let_def map_sum_def split: option.splits if_splits sum.splits)

lemma InsertAdmitted_kept:
  assumes "spendPoolJoinTokenTx sha now order token d = Inr d1" and "readEnrollment d name = None"
  shows "poolKept d1 (InsertAdmittedEnrollment now name fingerprint csr cert order d1)"
proof -
  have "readEnrollment d1 name = None" using assms
    by (auto simp: spendPoolJoinTokenTx_def SpendPoolJoinToken_def spendTokens_def readEnrollment_def split: if_splits)
  then show ?thesis by (auto simp: InsertAdmittedEnrollment_def enrollmentTyped_def intro: addEnrollment_kept)
qed

lemma ReplaceDenied_kept: "poolKept d (ReplaceDeniedEnrollment (askedRow now name fingerprint csr order) d)"
  unfolding ReplaceDeniedEnrollment_def by (rule updEnrollments_kept) (simp add: askedRow_def enrollmentTyped_def)

lemma admitRequest_kept:
  assumes "admitRequest sha now adm d = Inr (Admitted d')"
  shows "poolKept d d'"
  using assms
proof (cases rule: admitRequest_cases)
  case (new d1)
  then show ?thesis using poolKept_trans spend_kept(2) InsertAdmitted_kept by blast
next
  case (waiting e)
  then show ?thesis by (blast intro: approvePendingPoolTx_kept)
next
  case (replaced e d1)
  show ?thesis
    using poolKept_trans [OF poolKept_trans [OF spend_kept(2) [OF replaced(3)] ReplaceDenied_kept] approvePendingPoolTx_kept [OF replaced(4)]] .
qed

lemma AdmitPoolEnrollment_cases:
  assumes "AdmitPoolEnrollment sha now adm d = (r, d')"
  obtains (unchanged) "d' = d" "\<forall>e. r = Inr e \<longrightarrow> readEnrollment d (PoolNodeName (ad_order adm)) = Some e"
  | (conflict) other row where "admitRequest sha now adm d = Inr (Conflicting other)"
      "r = (if other = [] then Inr zeroEnrollment else Inl ErrEnrollmentConflict)" "ReadPoolOrder d (ad_order adm) = Some row"
      "d' = snd (HoldPoolOrderJoin now (ad_order adm)
        (''the source vouched for key '' @ ad_fingerprint adm @ '', and '' @ other @ '' already holds the name '' @ PoolNodeName (ad_order adm))
        (po_updatedAt row) d)"
  | (admitted) e d1 row where "r = Inr e" "readEnrollment d' (PoolNodeName (ad_order adm)) = Some e" "ad_fingerprint adm \<noteq> []"
      "ReadPoolOrder d (ad_order adm) = Some row" "po_state row = PoolPlaced" "po_nodeName row = []" "po_joinHold row = []"
      "po_updatedAt row = ad_seen adm" "admitRequest sha now adm d = Inr (Admitted d1)"
      "linkPoolNodeTx now (ad_order adm) (PoolNodeName (ad_order adm)) (ad_fingerprint adm) (ad_serial adm) False
         (recordIssuedCertTx now \<lparr>ic_serial = ad_serial adm, ic_node = PoolNodeName (ad_order adm), ic_source = CertPool,
            ic_notAfter = ad_notAfter adm, ic_issuedAt = now\<rparr> d1) = Inr d'"
proof -
  let ?name = "PoolNodeName (ad_order adm)"
  note def = AdmitPoolEnrollment_def [of sha now adm d, unfolded Let_def]
  have denied: "readEnrollment d ?name = Some e" if "admitRequest sha now adm d = Inr (Denied e)" for e
    using that by (auto simp: admitRequest_def Let_def map_sum_def split: option.splits if_splits sum.splits)
  show ?thesis
  proof (cases "(ad_order adm = [] \<or> ad_fingerprint adm = [] \<or> ad_csr adm = []) \<or> (ad_cert adm = [] \<or> ad_serial adm = [] \<or> ad_notAfter adm = [])
      \<or> ReadPoolOrder d (ad_order adm) = None")
    case True
    then have "d' = d" "\<exists>x. r = Inl x" using assms unfolding def by (auto split: if_splits)
    then show ?thesis by (intro unchanged) auto
  next
    case False
    then obtain row where row: "ReadPoolOrder d (ad_order adm) = Some row" by auto
    show ?thesis
    proof (cases "po_nodeName row = [] \<and> snd (openPoolOrderTx d (ad_order adm)) = None \<and> po_updatedAt row = ad_seen adm")
      case True
      then obtain r' where o: "openPoolOrderTx d (ad_order adm) = (r', None)" by (metis prod.collapse)
      have p: "po_state row = PoolPlaced" "po_joinHold row = []" using open_order [OF o] row by (metis option.inject)+
      have eq: "AdmitPoolEnrollment sha now adm d = (case admitRequest sha now adm d of
           Inl e \<Rightarrow> (Inl e, d)
         | Inr (Conflicting other) \<Rightarrow> (if other = [] then Inr zeroEnrollment else Inl ErrEnrollmentConflict, snd (HoldPoolOrderJoin now (ad_order adm)
              (''the source vouched for key '' @ ad_fingerprint adm @ '', and '' @ other @ '' already holds the name '' @ ?name) (po_updatedAt row) d))
         | Inr (Denied existing) \<Rightarrow> (Inr existing, d)
         | Inr (Admitted d1) \<Rightarrow> (case linkPoolNodeTx now (ad_order adm) ?name (ad_fingerprint adm) (ad_serial adm) False
              (recordIssuedCertTx now \<lparr>ic_serial = ad_serial adm, ic_node = ?name, ic_source = CertPool,
                 ic_notAfter = ad_notAfter adm, ic_issuedAt = now\<rparr> d1) of
              Inl e \<Rightarrow> (Inl e, d) | Inr d2 \<Rightarrow> (case readEnrollment d2 ?name of None \<Rightarrow> (Inl ErrStore, d) | Some e \<Rightarrow> (Inr e, d2))))"
        using False True row o by (simp add: def)
      show ?thesis
      proof (cases "admitRequest sha now adm d")
        case (Inr v)
        then show ?thesis
        proof (cases v)
          case (Admitted d1)
          then show ?thesis using assms Inr unchanged admitted [OF _ _ _ row p(1) _ p(2)] False True
            unfolding eq by (auto split: sum.splits option.splits)
        next
          case (Denied e)
          then show ?thesis using assms Inr unchanged denied unfolding eq by auto
        next
          case (Conflicting other)
          then show ?thesis using assms Inr conflict [OF _ _ row] unfolding eq by auto
        qed
      qed (use assms unchanged in \<open>force simp: eq\<close>)
    next
      case closed: False
      obtain r' e' where "openPoolOrderTx d (ad_order adm) = (r', e')" by fastforce
      then have "d' = d \<and> (\<forall>e. r = Inr e \<longrightarrow> readEnrollment d ?name = Some e)"
        using assms closed False row unfolding def by (auto split: if_splits option.splits)
      then show ?thesis using unchanged by blast
    qed
  qed
qed

lemma AdmitPoolEnrollment_admitted:
  assumes "AdmitPoolEnrollment sha now adm d = (Inr e, d')" and "d' \<noteq> d" and "readEnrollment d' (PoolNodeName (ad_order adm)) = Some e"
  obtains d1 where "ad_fingerprint adm \<noteq> []" "admitRequest sha now adm d = Inr (Admitted d1)"
    "linkPoolNodeTx now (ad_order adm) (PoolNodeName (ad_order adm)) (ad_fingerprint adm) (ad_serial adm) False
       (recordIssuedCertTx now \<lparr>ic_serial = ad_serial adm, ic_node = PoolNodeName (ad_order adm), ic_source = CertPool,
          ic_notAfter = ad_notAfter adm, ic_issuedAt = now\<rparr> d1) = Inr d'"
  using assms(1)
proof (cases rule: AdmitPoolEnrollment_cases)
  case (conflict other row)
  then show ?thesis using readEnrollment_name [OF assms(3)] by (simp add: zeroEnrollment_def PoolNodeName_def split: if_splits)
next
  case (admitted e' d1 row)
  then show ?thesis using that by blast
qed (use assms(2) in simp)

lemma AdmitPoolEnrollment_kept:
  assumes "AdmitPoolEnrollment sha now adm d = (r, d')"
  shows "poolKept d d'"
  using assms
proof (cases rule: AdmitPoolEnrollment_cases)
  case (conflict other row)
  then show ?thesis by (simp add: hold_kept)
next
  case (admitted e d1 row)
  then show ?thesis using poolKept_trans admitRequest_kept [OF admitted(9)] recordIssuedCertTx_kept linkPoolNodeTx_kept [OF admitted(10)] by blast
qed simp

lemma certificate_ops_kept:
  "RevokeCert now serial node reason d = Inr d' \<Longrightarrow> poolKept d d'" "RecordIssuedCert now cert d = Inr d' \<Longrightarrow> poolKept d d'"
  "RecordRenewedCert now cert parent issuedAt d = Inr d' \<Longrightarrow> poolKept d d'" "RevokeNode now node reason d = (taken, d') \<Longrightarrow> poolKept d d'"
  using statements_kept
  by (auto simp: RevokeCert_def RecordIssuedCert_def RecordRenewedCert_def RevokeNode_def split: if_splits option.splits)

text \<open>Releasing.\<close>

lemma sealPoolOrderTx_cases:
  assumes "sealPoolOrderTx now order node requested reason d = Inr d'" and "distinct (map po_orderID (poolOrders d))"
  obtains p where "ReadPoolOrder d order = Some p" "po_state p = PoolPlaced" "po_nodeName p = node" "node = [] \<or> po_releaseRequestedAt p \<noteq> None"
    "ReadPoolOrder d' order = Some (p\<lparr>po_state := PoolSealed, po_releaseRequestedAt := Some requested, po_releaseReason := reason, po_updatedAt := now\<rparr>)"
    "d' = snd (SealPoolOrder now requested reason order node d)"
proof -
  let ?P = "\<lambda>p. po_orderID p = order \<and> po_state p = PoolPlaced \<and> po_nodeName p = node \<and> (po_nodeName p = [] \<or> po_releaseRequestedAt p \<noteq> None)"
  have n: "count_where ?P (poolOrders d) = 1" and d': "d' = snd (SealPoolOrder now requested reason order node d)"
    using assms(1) by (auto simp: sealPoolOrderTx_def SealPoolOrder_def case_prod_beta split: if_splits)
  have "count_where ?P (poolOrders d) = (case ReadPoolOrder d order of None \<Rightarrow> 0 | Some p \<Rightarrow> if ?P p then 1 else 0)"
    unfolding ReadPoolOrder_def by (rule find_key_count [OF assms(2)]) simp
  then obtain p where p: "ReadPoolOrder d order = Some p" "?P p" using n by (auto split: option.splits if_splits)
  have "ReadPoolOrder d' order = map_option (\<lambda>p. if ?P p then p\<lparr>po_state := PoolSealed, po_releaseRequestedAt := Some requested, po_releaseReason := reason, po_updatedAt := now\<rparr> else p) (ReadPoolOrder d order)"
    unfolding d' SealPoolOrder_def by (rule ReadPoolOrder_upd) simp
  then show ?thesis using that [OF p(1)] p d' by auto
qed

lemma sealPoolOrderTx_kept:
  assumes "sealPoolOrderTx now order node requested reason d = Inr d'"
    and "\<And>p r. ReadPoolOrder d order = Some p \<Longrightarrow> po_releaseRequestedAt p = Some r \<Longrightarrow> po_state p = PoolPlaced \<Longrightarrow> r = requested"
  shows "poolKept d d'"
proof -
  have "poolKept d (snd (SealPoolOrder now requested reason order node d))"
    unfolding SealPoolOrder_def using assms(2) ReadPoolOrder_id by (intro poolKept_updRead) (auto simp: orderKept_def orderTyped_def clearKept_def poolReach_def)
  then show ?thesis using assms(1) by (auto simp: sealPoolOrderTx_def case_prod_beta split: if_splits)
qed

lemma sealUnjoinedTx_kept:
  assumes "sealUnjoinedTx now row reason d = Inr d'" and "ReadPoolOrder d (po_orderID row) = Some row" and "po_releaseRequestedAt row = None"
  shows "poolKept d d'"
proof -
  let ?d1 = "RetirePoolJoinTokens (po_orderID row) d"
  have "sealPoolOrderTx now (po_orderID row) [] now reason ?d1 = Inr d'" using assms(1) by (auto simp: sealUnjoinedTx_def split: option.splits)
  moreover have "ReadPoolOrder ?d1 = ReadPoolOrder d" by (simp add: RetirePoolJoinTokens_def)
  ultimately have "poolKept ?d1 d'" using assms(2,3) by (intro sealPoolOrderTx_kept) auto
  then show ?thesis using poolKept_trans RetirePoolJoinTokens_kept by blast
qed

lemma requestJoinedTx_kept:
  assumes "requestJoinedTx now order node reason d = Inr (sealed, d')"
  shows "poolKept d d'"
proof -
  have "poolKept d (snd (RequestPoolOrderRelease now reason order d))"
    unfolding RequestPoolOrderRelease_def by (rule poolKept_updOrders) (simp add: orderKept_def orderTyped_def clearKept_def)
  moreover have "d' = MarkNodeDrainedForRelease node (snd (RequestPoolOrderRelease now reason order d))"
    using assms by (auto simp: requestJoinedTx_def case_prod_beta split: if_splits)
  ultimately show ?thesis using poolKept_trans node_statements_kept(1) by simp
qed

lemma RequestPoolRelease_kept:
  assumes "RequestPoolRelease now order reason d = Inr (sealed, d')"
  shows "poolKept d d'"
proof -
  let ?name = "PoolNodeName order"
  obtain row where row: "ReadPoolOrder d order = Some row" "po_releaseRequestedAt row = None" "po_state row = PoolPlaced"
  proof (cases "ReadPoolOrder d order")
    case (Some row)
    then show ?thesis using assms that [of row] by (simp add: RequestPoolRelease_def split: if_splits)
  qed (use assms in \<open>simp add: RequestPoolRelease_def split: if_splits\<close>)
  have i: "po_orderID row = order" by (rule ReadPoolOrder_id [OF row(1)])
  let ?d1 = "snd (LinkPoolOrderNode now ?name [] [] order (po_joinHold row) d)"
  let ?d2 = "DeleteBarrierRun ?name (snd (ContradictPoolRelease ?name (RetirePoolJoinTokens order ?d1)))"
  have "sealUnjoinedTx now row reason d = Inr d' \<or> requestJoinedTx now order ?name reason ?d2 = Inr (sealed, d')
      \<or> requestJoinedTx now order (po_nodeName row) reason d = Inr (sealed, d')"
    using assms row by (auto simp: RequestPoolRelease_def Let_def map_sum_def case_prod_beta split: if_splits sum.splits)
  moreover have "poolKept d ?d2"
  proof -
    have "poolKept e (snd (ContradictPoolRelease ?name e))" for e
      unfolding ContradictPoolRelease_updOrders by (rule poolKept_updOrders) (rule contradicted_kept)
    then show ?thesis using poolKept_trans hold_kept(5) RetirePoolJoinTokens_kept DeleteBarrierRun_kept by meson
  qed
  ultimately show ?thesis using sealUnjoinedTx_kept [of now row reason d d'] row(1,2) i requestJoinedTx_kept poolKept_trans by blast
qed

lemma retireReleasedNodeTx_kept: "poolKept d (retireReleasedNodeTx now node d)"
  using poolKept_trans [OF node_statements_kept(2) DeleteBarrierRun_kept]
  by (auto simp: retireReleasedNodeTx_def split: option.splits)

text \<open>The ledger a seal is written to: the node's certificates revoked, the node out of placement and out of the fleet.\<close>

definition withdrawn :: "int \<Rightarrow> PoolOrder \<Rightarrow> Ledger \<Rightarrow> Ledger" where
  "withdrawn now row d =
     retireReleasedNodeTx now (po_nodeName row)
       (MarkNodeDrainedForRelease (po_nodeName row)
         (revokeNodeTx (po_nodeName row) (''its pool host is being released: '' @ po_releaseReason row) now d))"

lemma SealPoolRelease_cases:
  assumes "SealPoolRelease now order d = Inr (p, d')"
  obtains row requested where "ReadPoolOrder d order = Some row" "po_releaseRequestedAt row = Some requested" "po_state row = PoolPlaced"
    "po_nodeName row \<noteq> []" "NewDrained (releaseHoldingsTx d row requested) = Some p"
    "sealPoolOrderTx now order (po_nodeName row) requested (po_releaseReason row) (withdrawn now row d) = Inr d'"
proof (cases "ReadPoolOrder d order")
  case (Some row)
  then show ?thesis
  proof (cases "po_releaseRequestedAt row")
    case (Some requested)
    then show ?thesis using assms \<open>ReadPoolOrder d order = Some row\<close> that [of row requested]
      by (auto simp: SealPoolRelease_def withdrawn_def map_sum_def split: if_splits option.splits sum.splits)
  qed (use assms Some in \<open>simp add: SealPoolRelease_def\<close>)
qed (use assms in \<open>simp add: SealPoolRelease_def\<close>)

lemma revokeNodeTx_fields [simp]:
  "poolOrders (revokeNodeTx node reason now d) = poolOrders d" "nodes (revokeNodeTx node reason now d) = nodes d"
  "leases (revokeNodeTx node reason now d) = leases d" "inventories (revokeNodeTx node reason now d) = inventories d"
  "barrierRuns (revokeNodeTx node reason now d) = barrierRuns d" "admission (revokeNodeTx node reason now d) = admission d"
  "seal (revokeNodeTx node reason now d) = seal d" "barrier (revokeNodeTx node reason now d) = barrier d"
proof -
  have "poolOrders (revokeEach now node reason is d) = poolOrders d \<and> nodes (revokeEach now node reason is d) = nodes d
    \<and> leases (revokeEach now node reason is d) = leases d \<and> inventories (revokeEach now node reason is d) = inventories d
    \<and> barrierRuns (revokeEach now node reason is d) = barrierRuns d \<and> admission (revokeEach now node reason is d) = admission d
    \<and> seal (revokeEach now node reason is d) = seal d \<and> barrier (revokeEach now node reason is d) = barrier d" for "is"
    by (induction "is" arbitrary: d) (simp_all add: RevokeCertRow_def)
  then show "poolOrders (revokeNodeTx node reason now d) = poolOrders d" "nodes (revokeNodeTx node reason now d) = nodes d"
    "leases (revokeNodeTx node reason now d) = leases d" "inventories (revokeNodeTx node reason now d) = inventories d"
    "barrierRuns (revokeNodeTx node reason now d) = barrierRuns d" "admission (revokeNodeTx node reason now d) = admission d"
    "seal (revokeNodeTx node reason now d) = seal d" "barrier (revokeNodeTx node reason now d) = barrier d"
    by (simp_all add: revokeNodeTx_def RecordNodeRevocation_def)
qed

lemma withdrawn_orders [simp]: "poolOrders (withdrawn now row d) = poolOrders d" "leases (withdrawn now row d) = leases d"
  by (simp_all add: withdrawn_def retireReleasedNodeTx_def MarkNodeDrainedForRelease_def DecommissionNode_def split: option.splits)

lemma withdrawn_kept: "poolKept d (withdrawn now row d)"
  unfolding withdrawn_def
  using poolKept_trans [OF poolKept_trans [OF revokeNodeTx_kept node_statements_kept(1)] retireReleasedNodeTx_kept] by blast

lemma SealPoolRelease_kept:
  assumes "SealPoolRelease now order d = Inr (p, d')"
  shows "poolKept d d'"
  using assms
proof (cases rule: SealPoolRelease_cases)
  case (1 row requested)
  have "ReadPoolOrder (withdrawn now row d) = ReadPoolOrder d" by (simp add: ReadPoolOrder_def fun_eq_iff)
  then have "r = requested" if "ReadPoolOrder (withdrawn now row d) order = Some p" "po_releaseRequestedAt p = Some r" for p r
    using that 1(1,2) by auto
  then have "poolKept (withdrawn now row d) d'" using sealPoolOrderTx_kept [OF 1(6)] by blast
  then show ?thesis using poolKept_trans withdrawn_kept by blast
qed

lemma computeListedNowTx_kept: "poolKept d (computeListedNowTx node epoch d)"
  by (simp add: computeListedNowTx_def computeListedTx_kept split: option.splits)

lemma EndPoolClearanceRun_kept: "poolKept d (EndPoolClearanceRun i d)"
  unfolding EndPoolClearanceRun_def by (rule poolKept_updOrders) (simp add: orderKept_def orderTyped_def clearKept_def)

lemma RecordPoolClearance_moved: "poolMoved d (RecordPoolClearance now obs d)"
proof -
  have "poolMoved d (snd (RecordPoolClearanceRun epoch dispatch recorded asked generation i node d))" for epoch dispatch recorded asked generation i node
    unfolding RecordPoolClearanceRun_def by (rule poolMoved_updRead) (simp_all add: orderKept_def orderTyped_def)
  moreover have "poolMoved d d" "poolMoved d (computeListedNowTx node epoch d)" "poolMoved d (EndPoolClearanceRun i d)" for node epoch i
    using computeListedNowTx_kept [of d node epoch] EndPoolClearanceRun_kept [of d i] poolKept_refl [of d] unfolding poolKept_def by blast+
  ultimately show ?thesis by (simp add: RecordPoolClearance_def split: option.splits)
qed

lemma settleClosedNodeTx_kept: "poolKept d (settleClosedNodeTx now node proven actor d)"
  using poolKept_trans [OF node_statements_kept(2) DeleteBarrierRun_kept] node_statements_kept(3)
  by (auto simp: settleClosedNodeTx_def split: option.splits)

lemma closePoolOrderTx_kept:
  assumes "closePoolOrderTx now i proven actor (\<lambda>now. updOrders (P now) (f now)) d = Inr d'" and "\<And>p. P now p \<Longrightarrow> orderKept p (f now p) \<and> clearKept p (f now p)"
  shows "poolKept d d'"
proof -
  obtain node where "d' = settleClosedNodeTx now node proven actor (snd (updOrders (P now) (f now) d))"
    using assms(1) by (auto simp: closePoolOrderTx_def case_prod_beta split: if_splits option.splits)
  then show ?thesis using poolKept_trans [OF poolKept_updOrders [OF assms(2)] settleClosedNodeTx_kept] by simp
qed

lemma close_ops_kept:
  "PoolOrderGone now i d = Inr d' \<Longrightarrow> poolKept d d'" "ClosePoolOrder now i reason d = Inr d' \<Longrightarrow> poolKept d d'"
  "ForceClosePoolOrder now i reason d = Inr d' \<Longrightarrow> poolKept d d'"
proof -
  show "PoolOrderGone now i d = Inr d' \<Longrightarrow> poolKept d d'"
    unfolding PoolOrderGone_def MarkPoolOrderGone_def by (erule closePoolOrderTx_kept) (simp add: orderKept_def orderTyped_def clearKept_def poolReach_def)
  show "ClosePoolOrder now i reason d = Inr d' \<Longrightarrow> poolKept d d'"
    unfolding ClosePoolOrder_def ClosePoolOrderRow_def
    by (auto split: if_splits elim!: closePoolOrderTx_kept simp: orderKept_def orderTyped_def clearKept_def poolReach_def)
  assume "ForceClosePoolOrder now i reason d = Inr d'"
  then obtain why node e where d': "d' = snd (ForceClosePoolOrderRow now why i node e)"
    "e = DeleteBarrierRun node (DecommissionNode now False ''billet pool close --force'' node (MarkNodeDrainedForRelease node
       (revokeNodeTx node (''its pool host was closed by a person without proof: '' @ reason) now d)))"
    by (auto simp: ForceClosePoolOrder_def case_prod_beta split: if_splits option.splits)
  have "poolKept d e"
    unfolding d'(2) using poolKept_trans revokeNodeTx_kept node_statements_kept(1,2) DeleteBarrierRun_kept by meson
  moreover have "poolKept e d'" unfolding d'(1) ForceClosePoolOrderRow_def by (rule poolKept_updOrders) (simp add: orderKept_def orderTyped_def clearKept_def poolReach_def)
  ultimately show "poolKept d d'" by (rule poolKept_trans)
qed

end
