(* ===== verification/Pool_Steps.thy ===== *)
theory Pool_Steps
  imports Pool_Facts
begin

text \<open>
  Every operation on credentials and pool orders as one step relation. A label says what a step
  did that the theorems speak of: a join token spent, an enrolment decided, a host vouched for, a
  certificate handed out directly, a node revoked, a node's answer to whether it is clear. Arguments
  are arbitrary, so machines, sources and operators may call in any order, late or twice.
\<close>

datatype poolEvent =
    Spent string int
  | Decided string string string
  | Vouched string string "string option" int
  | IssuedTo string
  | RevokedNode string int
  | Answered int PoolClearanceObservation
  | PoolWork

text \<open>The token an admission spends: none where the request already waits under the order.\<close>

definition tokenSpent :: "(string \<Rightarrow> string) \<Rightarrow> PoolAdmission \<Rightarrow> Ledger \<Rightarrow> string option" where
  "tokenSpent sha adm d =
     (case readEnrollment d (PoolNodeName (ad_order adm)) of
        None \<Rightarrow> Some (hashJoinToken sha (ad_token adm))
      | Some e \<Rightarrow> if en_state e = EnrollPending then None else Some (hashJoinToken sha (ad_token adm)))"

inductive poolStep :: "(string \<Rightarrow> string) \<Rightarrow> poolEvent \<Rightarrow> Ledger \<Rightarrow> Ledger \<Rightarrow> bool" for sha where
  recordOrder: "RecordPoolOrder now req d = Inr d' \<Longrightarrow> poolStep sha PoolWork d d'"
| orderPlaced: "PoolOrderPlaced now i host d = Inr d' \<Longrightarrow> poolStep sha PoolWork d d'"
| orderFound: "UncertainPoolOrderFound now i host d = Inr d' \<Longrightarrow> poolStep sha PoolWork d d'"
| orderUncertain: "PoolOrderUncertain now i why d = Inr d' \<Longrightarrow> poolStep sha PoolWork d d'"
| orderRefused: "PoolOrderRefused now i why d = Inr d' \<Longrightarrow> poolStep sha PoolWork d d'"
| orderAbandoned: "PoolOrderAbandoned now i why d = Inr d' \<Longrightarrow> poolStep sha PoolWork d d'"
| orderReleased: "PoolOrderReleased now i d = Inr d' \<Longrightarrow> poolStep sha PoolWork d d'"
| newToken: "NewJoinToken sha now token ttl uses note d = Inr d' \<Longrightarrow> poolStep sha PoolWork d d'"
| newPoolToken: "NewPoolJoinToken sha now token order ttl d = Inr d' \<Longrightarrow> poolStep sha PoolWork d d'"
| spendToken: "SpendJoinToken sha now token d = Inr d' \<Longrightarrow> poolStep sha (Spent (hashJoinToken sha token) now) d d'"
| ask: "RequestEnrollment now name fingerprint csr d = Inr (e, d') \<Longrightarrow> poolStep sha PoolWork d d'"
| askAgain: "isKnownEnrollmentTx d name fingerprint \<Longrightarrow> RequestEnrollmentWithToken sha now name fingerprint csr token d = Inr (e, d')
    \<Longrightarrow> poolStep sha PoolWork d d'"
| askNew: "\<not> isKnownEnrollmentTx d name fingerprint \<Longrightarrow> RequestEnrollmentWithToken sha now name fingerprint csr token d = Inr (e, d')
    \<Longrightarrow> poolStep sha (Spent (hashJoinToken sha token) now) d d'"
| askHeld: "RecordHeldPoolRequest now order fingerprint csr d = Inr (e, d') \<Longrightarrow> poolStep sha PoolWork d d'"
| decide: "DecideEnrollment now name fingerprint decision cert serial d = Inr d' \<Longrightarrow> poolStep sha (Decided name fingerprint decision) d d'"
| approve: "ApproveEnrollment now name fingerprint cert issued d = Inr d' \<Longrightarrow> poolStep sha (Decided name fingerprint EnrollApproved) d d'"
| issue: "RecordIssued now name fingerprint cert d = (was, d') \<Longrightarrow> poolStep sha (IssuedTo name) d d'"
| admitRefused: "AdmitPoolEnrollment sha now adm d = (Inl x, d') \<Longrightarrow> poolStep sha PoolWork d d'"
| admitAgain: "AdmitPoolEnrollment sha now adm d = (Inr e, d) \<Longrightarrow> poolStep sha PoolWork d d"
| admitHeld: "AdmitPoolEnrollment sha now adm d = (Inr e, d') \<Longrightarrow> readEnrollment d' (PoolNodeName (ad_order adm)) \<noteq> Some e
    \<Longrightarrow> poolStep sha PoolWork d d'"
| admit: "AdmitPoolEnrollment sha now adm d = (Inr e, d') \<Longrightarrow> d' \<noteq> d \<Longrightarrow> readEnrollment d' (PoolNodeName (ad_order adm)) = Some e
    \<Longrightarrow> poolStep sha (Vouched (ad_order adm) (ad_fingerprint adm) (tokenSpent sha adm d) now) d d'"
| holdJoin: "HoldPoolJoin now order why seen d = Inr d' \<Longrightarrow> poolStep sha PoolWork d d'"
| releaseJoin: "ReleasePoolJoin now order d = Inr d' \<Longrightarrow> poolStep sha PoolWork d d'"
| lapsedJoins: "HoldLapsedPoolJoins now d = (n, d') \<Longrightarrow> poolStep sha PoolWork d d'"
| lapsedOne: "HoldLapsedPoolJoin now order d = Inr (held, d') \<Longrightarrow> poolStep sha PoolWork d d'"
| revokeCert: "RevokeCert now serial node why d = Inr d' \<Longrightarrow> poolStep sha PoolWork d d'"
| recordCert: "RecordIssuedCert now cert' d = Inr d' \<Longrightarrow> poolStep sha PoolWork d d'"
| renewCert: "RecordRenewedCert now cert' parent issuedAt d = Inr d' \<Longrightarrow> poolStep sha PoolWork d d'"
| revokeNode: "RevokeNode now node why d = (taken, d') \<Longrightarrow> poolStep sha (RevokedNode node now) d d'"
| requestRelease: "RequestPoolRelease now order why d = Inr (sealed, d') \<Longrightarrow> poolStep sha PoolWork d d'"
| sealRelease: "SealPoolRelease now order d = Inr (p, d') \<Longrightarrow> ReadPoolOrder d order = Some row
    \<Longrightarrow> poolStep sha (RevokedNode (po_nodeName row) now) d d'"
| clearance: "poolStep sha (Answered now obs) d (RecordPoolClearance now obs d)"
| orderGone: "PoolOrderGone now i d = Inr d' \<Longrightarrow> poolStep sha PoolWork d d'"
| closeOrder: "ClosePoolOrder now i why d = Inr d' \<Longrightarrow> poolStep sha PoolWork d d'"
| forceClose: "ForceClosePoolOrder now i why d = Inr d' \<Longrightarrow> ReadPoolOrder d i = Some row
    \<Longrightarrow> poolStep sha (RevokedNode (po_nodeName row) now) d d'"

lemma poolStep_kept: "poolStep sha ev d d' \<Longrightarrow> (\<And>now obs. ev \<noteq> Answered now obs) \<Longrightarrow> poolKept d d'"
  by (erule poolStep.cases; hypsubst)
     (blast intro: poolKept_refl order_moves_kept InsertToken_ops_kept ask_ops_kept decide_ops_kept AdmitPoolEnrollment_kept
        join_ops_kept certificate_ops_kept RequestPoolRelease_kept SealPoolRelease_kept close_ops_kept)+

inductive_cases answeredE: "poolStep sha (Answered now obs) d d'"

lemma poolStep_moved:
  assumes "poolStep sha ev d d'"
  shows "poolMoved d d'"
proof (cases "\<exists>now obs. ev = Answered now obs")
  case True
  then show ?thesis using assms RecordPoolClearance_moved by (auto elim: answeredE)
next
  case False
  then show ?thesis using poolStep_kept [OF assms] by (simp add: poolKept_def)
qed

end
