(* ===== verification/Deployment.thy ===== *)
theory Deployment
  imports Barrier_Facts Resize Heartbeats Reaping Pool_Steps
begin

text \<open>
  The whole control plane as one step relation over the ledger. Every modelled operation of the
  allocator that writes the ledger is a rule, labelled with the events the theorems speak
  of; a run is any sequence of them. A rule takes any arguments at all: hosts, holders,
  listeners and operators may call in any order, late, twice or with stale epochs. Writes
  are serialised by the ledger's single writer, so one rule is one transaction. The lemmas
  classify a step once (a \<open>tame\<close> step charges nothing new), and the properties follow
  by rule induction.
\<close>

section \<open>Steps and runs\<close>

datatype deploymentEvent = Granted | RegisteredNode string | Sealing | Resuming | Working | Pooling poolEvent

inductive deploymentStep :: "Allocator \<Rightarrow> deploymentEvent \<Rightarrow> Ledger \<Rightarrow> Ledger \<Rightarrow> bool" for a where
  buy: "EscrowFor a now tier want purchase ids d = Inr (gs, d') \<Longrightarrow> deploymentStep a Granted d d'"
| reserve: "Reserve a now tier is d = Inr (g, d') \<Longrightarrow> deploymentStep a Granted d d'"
| resize: "ResizeLeaving a instanceType vcpu memory protect i e d = Inr d' \<Longrightarrow> deploymentStep a Working d d'"
| assign: "Assign a now run request i e d = Inr d' \<Longrightarrow> deploymentStep a Working d d'"
| bind: "Bind a node i e d = Inr d' \<Longrightarrow> deploymentStep a Working d d'"
| advance: "Advance a now to_phase i e d = Inr d' \<Longrightarrow> deploymentStep a Working d d'"
| heartbeat: "Heartbeat a now i e d = Inr d' \<Longrightarrow> deploymentStep a Working d d'"
| heartbeats: "HeartbeatMany a now refs d = (said, d') \<Longrightarrow> deploymentStep a Working d d'"
| markFailure: "MarkFailure now why i e d = Inr d' \<Longrightarrow> deploymentStep a Working d d'"
| release: "Release now outcome i e d = Inr d' \<Longrightarrow> deploymentStep a Working d d'"
| releaseFailed: "ReleaseFailed now why i e d = Inr d' \<Longrightarrow> deploymentStep a Working d d'"
| deregistered: "deploymentStep a Working d (MarkDeregistered i d)"
| reap: "deploymentStep a Working d (snd (Reap now d))"
| resolve: "ResolveQuarantine now outcome i d = Inr d' \<Longrightarrow> deploymentStep a Working d d'"
| resolveFailed: "ResolveQuarantineFailed now why i d = Inr d' \<Longrightarrow> deploymentStep a Working d d'"
| inventory: "ResolveQuarantineFor now node running epoch d = Inr (k, d') \<Longrightarrow> deploymentStep a Working d d'"
| reconcile: "Reconcile now node running d = Inr (k, d') \<Longrightarrow> deploymentStep a Working d d'"
| settle: "SettleCompletionOnTerminalLease outcome i e d = Inr (settled, d') \<Longrightarrow> deploymentStep a Working d d'"
| forceRelease: "ForceRelease now i d = Inr (node, handed, d') \<Longrightarrow> deploymentStep a Working d d'"
| forceTerminate: "ForceTerminate now i d = Inr d' \<Longrightarrow> deploymentStep a Working d d'"
| register: "RegisterNode now reg d = Inr (e, d') \<Longrightarrow> deploymentStep a (RegisteredNode (g_name reg)) d d'"
| gone: "NodeGone now node epoch d = Inr d' \<Longrightarrow> deploymentStep a Working d d'"
| withdrawn: "NodeWithdrawn node epoch inc d = Inr d' \<Longrightarrow> deploymentStep a Working d d'"
| draining: "NodeDraining node epoch inc d = Inr d' \<Longrightarrow> deploymentStep a Working d d'"
| forget: "deploymentStep a Working d (ForgetEveryNode d)"
| decommission: "Decommission now dreq d = Inr (proven, d') \<Longrightarrow> deploymentStep a Working d d'"
| sealing: "SealAdmission now sreq d = Inr (am, d') \<Longrightarrow> deploymentStep a Sealing d d'"
| resuming: "ResumeAdmission now rreq d = Inr (am, d') \<Longrightarrow> deploymentStep a Resuming d d'"
| dispatch: "deploymentStep a Working d (snd (BumpDispatch node d))"
| requestBarrier: "RequestComputeBarrier now generation actor newID d = Inr (b, d') \<Longrightarrow> deploymentStep a Working d d'"
| dropBarrier: "deploymentStep a Working d (DropComputeBarrier i d)"
| observe: "deploymentStep a Working d (RecordBarrierObservation now obs d)"
| arrive: "deploymentStep a Working d (InvalidateBarrierRun node d)"
| arriveUnknown: "deploymentStep a Working d (InvalidateEveryBarrierRun d)"
| pooling: "poolStep sha pe d d' \<Longrightarrow> deploymentStep a (Pooling pe) d d'"

inductive deploymentRun :: "Allocator \<Rightarrow> deploymentEvent list \<Rightarrow> Ledger \<Rightarrow> Ledger \<Rightarrow> bool" for a where
  nothing: "deploymentRun a [] d d"
| more: "deploymentRun a es d d' \<Longrightarrow> deploymentStep a ev d' d'' \<Longrightarrow> deploymentRun a (ev # es) d d''"

section \<open>Steps that charge nothing\<close>

definition phaseKept :: "Phase \<Rightarrow> Phase \<Rightarrow> bool" where
  "phaseKept p q \<longleftrightarrow> q = p \<or> walk p q \<or> Terminal p \<and> Terminal q"

definition rowKept :: "LeaseRow \<Rightarrow> LeaseRow \<Rightarrow> bool" where
  "rowKept r r' \<longleftrightarrow> r_id r' = r_id r \<and> r_tier r' = r_tier r \<and> r_target r' = r_target r
     \<and> r_macosSlot r' = r_macosSlot r \<and> r_epoch r \<le> r_epoch r' \<and> phaseKept (r_phase r) (r_phase r')
     \<and> (r_node r' = r_node r \<or> leaseNode r = [] \<and> (leaseTarget r = [] \<or> r_node r' = r_target r))"

definition rowTame :: "LeaseRow \<Rightarrow> LeaseRow \<Rightarrow> bool" where
  "rowTame r r' \<longleftrightarrow> rowKept r r' \<and> r_vcpu r' = r_vcpu r \<and> r_memory r' = r_memory r"

definition tame :: "Ledger \<Rightarrow> Ledger \<Rightarrow> bool" where
  "tame d d' \<longleftrightarrow> list_all2 rowTame (leases d) (leases d') \<and> list_all2 nodeKept (nodes d) (nodes d')
     \<and> admission d' = admission d"

text \<open>
  The credentials are no business of the other operations, and of a pool order they touch only
  what a listing of compute contradicts.
\<close>

definition orderTouched :: "PoolOrder \<Rightarrow> PoolOrder \<Rightarrow> bool" where
  "orderTouched p p' \<longleftrightarrow>
     p' = p\<lparr>po_contradicted := po_contradicted p', po_clearSince := po_clearSince p', po_clearObservedAt := po_clearObservedAt p',
       po_clearGeneration := po_clearGeneration p'\<rparr>
     \<and> po_clearGeneration p \<le> po_clearGeneration p' \<and> clearKept p p'"

definition sidelines :: "Ledger \<Rightarrow> Ledger \<Rightarrow> bool" where
  "sidelines d d' \<longleftrightarrow> credentials d' = credentials d \<and> list_all2 orderTouched (poolOrders d) (poolOrders d')"

definition calm :: "Ledger \<Rightarrow> Ledger \<Rightarrow> bool" where
  "calm d d' \<longleftrightarrow> tame d d' \<and> sidelines d d'"

lemma orderTouched_refl [simp]: "orderTouched p p" "list_all2 orderTouched ps ps"
  by (simp_all add: orderTouched_def list.rel_refl_strong)

lemma orderTouched_trans:
  assumes "orderTouched p q" "orderTouched q r"
  shows "orderTouched p r"
proof -
  have "po_clearGeneration p \<le> po_clearGeneration r" using assms by (simp add: orderTouched_def)
  moreover have "clearKept p r" using assms clearKept_trans by (auto simp: orderTouched_def)
  moreover have "r = p\<lparr>po_contradicted := po_contradicted r, po_clearSince := po_clearSince r, po_clearObservedAt := po_clearObservedAt r,
       po_clearGeneration := po_clearGeneration r\<rparr>"
  proof -
    obtain c s t g where q: "q = p\<lparr>po_contradicted := c, po_clearSince := s, po_clearObservedAt := t, po_clearGeneration := g\<rparr>"
      using assms(1) unfolding orderTouched_def by blast
    obtain c' s' t' g' where "r = q\<lparr>po_contradicted := c', po_clearSince := s', po_clearObservedAt := t', po_clearGeneration := g'\<rparr>"
      using assms(2) unfolding orderTouched_def by blast
    then show ?thesis by (simp add: q)
  qed
  ultimately show ?thesis by (simp add: orderTouched_def)
qed

lemma contradicted_touched: "orderTouched p (contradicted p)"
  by (simp add: orderTouched_def contradicted_def clearKept_def)

lemma touched_upd: "(\<And>p. P p \<Longrightarrow> orderTouched p (f p)) \<Longrightarrow> list_all2 orderTouched ps (upd_where P f ps)"
  by (simp add: upd_where_def list_all2_map2 list.rel_refl_strong)

lemma sidelines_same: "credentials d' = credentials d \<Longrightarrow> poolOrders d' = poolOrders d \<Longrightarrow> sidelines d d'"
  by (simp add: sidelines_def)

lemma sidelines_trans: "sidelines d e \<Longrightarrow> sidelines e f \<Longrightarrow> sidelines d f"
  unfolding sidelines_def by (auto intro: list_all2_trans [of orderTouched orderTouched orderTouched] orderTouched_trans)

lemma phaseKept_refl [simp]: "phaseKept p p"
  by (simp add: phaseKept_def)

lemma phaseKept_trans: "phaseKept p q \<Longrightarrow> phaseKept q r \<Longrightarrow> phaseKept p r"
  unfolding phaseKept_def using walk_trans walk_from_open open_to_terminal walk_one by metis

lemma phaseKept_Terminal: "phaseKept p q \<Longrightarrow> Terminal p \<Longrightarrow> Terminal q"
  using walk_from_open by (auto simp: phaseKept_def)

lemma rowKept_trans: "rowKept r s \<Longrightarrow> rowKept s u \<Longrightarrow> rowKept r u"
  unfolding rowKept_def leaseNode_def leaseTarget_def
  by (elim conjE, intro conjI) (auto intro: phaseKept_trans split: option.splits)

lemma rowTame_trans: "rowTame r s \<Longrightarrow> rowTame s u \<Longrightarrow> rowTame r u"
  unfolding rowTame_def using rowKept_trans by metis

lemma rowKept_refl [simp]: "rowKept r r" "rowTame r r" "nodeKept n n"
  by (simp_all add: rowKept_def rowTame_def nodeKept_def)

lemma rowStep_tame: "rowStep r r' \<Longrightarrow> rowTame r r'"
  by (auto simp: rowStep_def rowTame_def rowKept_def phaseKept_def)

lemma calm_trans: "calm d e \<Longrightarrow> calm e f \<Longrightarrow> calm d f"
  unfolding calm_def tame_def by (auto intro: list_all2_trans [OF rowTame_trans] nodesKept_trans sidelines_trans)

lemma ledgerStep_calm: "ledgerStep d d' \<Longrightarrow> calm d d'"
  unfolding ledgerStep_def calm_def tame_def by (auto intro: list_all2_mono [OF _ rowStep_tame] sidelines_same)

lemma calm_nodes:
  assumes "leases d' = leases d" and "admission d' = admission d" and "list_all2 nodeKept (nodes d) (nodes d')" and "sidelines d d'"
  shows "calm d d'"
  using assms by (simp add: calm_def tame_def list.rel_refl_strong)

lemma calm_same:
  "leases d' = leases d \<Longrightarrow> admission d' = admission d \<Longrightarrow> nodes d' = nodes d \<Longrightarrow> sidelines d d' \<Longrightarrow> calm d d'"
  by (rule calm_nodes) simp_all

lemma calm_updNode: "(\<And>n. P n \<Longrightarrow> nodeKept n (f n)) \<Longrightarrow> calm d (updNode P f d)"
  by (rule calm_nodes) (simp_all add: upd_where_def list_all2_map2 list.rel_refl_strong sidelines_same)

lemma listed_sidelines: "sidelines d (computeListedTx node d)" "sidelines d (recordInventoryTx node epoch running now d)"
proof -
  have "sidelines e (computeListedTx node e)" for e
    by (simp add: sidelines_def computeListedTx_def ContradictPoolRelease_def UndoPoolRetirement_def Let_def touched_upd contradicted_touched)
  then show "sidelines d (computeListedTx node d)" "sidelines d (recordInventoryTx node epoch running now d)"
    using sidelines_trans [of d "UpsertNodeInventory node epoch now running d"]
    by (auto simp: recordInventoryTx_def UpsertNodeInventory_def Let_def sidelines_same)
qed

lemma sameFences_kept: "sameFences ns ns' \<Longrightarrow> list_all2 nodeKept ns ns'"
  unfolding sameFences_def by (erule list_all2_mono) (simp add: nodeKept_def)

lemma calm_refl [simp]: "calm d d"
  by (simp add: calm_same sidelines_same)

text \<open>Which operations are calm.\<close>

lemma askEach_step:
  "askEach a now renewed refs d = Inr (as, d') \<Longrightarrow> ledgerStep d d'"
proof (induction refs arbitrary: d as)
  case (Cons ref refs)
  have "\<exists>d1 bs. (d1 = d \<or> heartbeatTx a now (lr_id ref) (lr_epoch ref) d = Inr d1)
      \<and> askEach a now renewed refs d1 = Inr (bs, d')"
    using Cons.prems by (auto split: if_splits sum.splits prod.splits)
  then show ?case using Cons.IH heartbeatTx_step ledgerStep_trans by metis
qed simp

lemma heartbeatManyTx_step:
  assumes "heartbeatManyTx a now refs d = Inr (as, d')"
  shows "ledgerStep d d'"
proof -
  obtain packed count flags where p: "packLeaseRefs refs = (packed, count, flags)" by (rule prod_cases3)
  obtain renewed d1 where h: "(if 0 < count then HeartbeatLeases now (now + a_leaseTTL a) packed d else ([], d)) = (renewed, d1)"
    by (rule prod.exhaust)
  have "ledgerStep d d1" using h touch_step(6) by (auto simp: HeartbeatLeases_def Let_def split: if_splits)
  moreover have "askEach a now renewed refs d1 = Inr (as, d')" using assms by (simp add: heartbeatManyTx_def p h)
  ultimately show ?thesis using askEach_step ledgerStep_trans by blast
qed

lemma HeartbeatMany_step: "ledgerStep d (snd (HeartbeatMany a now refs d))"
proof (induction a now refs d rule: HeartbeatMany.induct)
  case (1 a now refs d)
  let ?t = "case heartbeatManyTx a now (take heartbeatBatch refs) d of
      Inl x \<Rightarrow> (replicate (length (take heartbeatBatch refs)) (Some x), d) | Inr r \<Rightarrow> r"
  obtain as d1 where t: "?t = (as, d1)" by (rule prod.exhaust)
  have "ledgerStep d d1" using t heartbeatManyTx_step by (auto split: sum.splits)
  moreover have "ledgerStep d1 (snd (HeartbeatMany a now (drop heartbeatBatch refs) d1))" if "refs \<noteq> []"
    using 1 that t [symmetric] by blast
  ultimately show ?case
    using t ledgerStep_trans by (subst HeartbeatMany.simps) (auto simp: Let_def split: prod.splits)
qed

lemma SettleCompletion_calm:
  assumes "ledgerOK d" and "SettleCompletionOnTerminalLease outcome i e d = Inr (settled, d')"
  shows "calm d d'"
proof (cases "d' = d")
  case False
  then obtain l where l: "findLease d i = Some l" "Terminal (r_phase l)" "Terminal outcome"
    "d' = CorrectProvisionalHistory outcome i (CorrectProvisionalLease outcome i d)"
    using assms(2) by (auto simp: SettleCompletionOnTerminalLease_def split: if_splits option.splits)
  have "rowTame r (if r_id r = i then r\<lparr>r_phase := outcome, r_failureReason := []\<rparr> else r)"
    if "r \<in> set (leases d)" for r
    using that row_at [OF assms(1) l(1)] l(2,3) by (auto simp: rowTame_def rowKept_def phaseKept_def)
  then show ?thesis
    unfolding l(4) by (simp add: calm_def tame_def sidelines_same CorrectProvisionalHistory_def CorrectProvisionalLease_def upd_where_def
        list_all2_map2 list.rel_refl_strong)
qed simp

lemma ResolveQuarantineFor_calm:
  assumes "ledgerOK d" and "ResolveQuarantineFor now node running epoch d = Inr (k, d')"
  shows "calm d d'"
proof (cases "d' = d")
  case False
  let ?d1 = "recordInventoryTx node epoch (int (length running)) now d"
  obtain ids where r: "resolveEach now running ids ?d1 = Inr (k, d')"
    using assms(2) False by (auto simp: ResolveQuarantineFor_def Let_def split: option.splits if_splits)
  have one: "calm d ?d1" by (rule calm_nodes) (simp_all add: sameFences_kept recordInventoryTx_fences listed_sidelines)
  have "map n_name (nodes ?d1) = map n_name (nodes d)" by (rule sameFences_names [OF recordInventoryTx_fences])
  then have "ledgerOK ?d1"
    using assms(1) by (simp add: ledgerOK_def) (metis (mono_tags, lifting) image_iff list.set_map)
  then show ?thesis using calm_trans [OF one] ledgerStep_calm resolveEach_step r by blast
qed simp

lemma NodeGone_calm:
  assumes "NodeGone now node epoch d = Inr d'"
  shows "calm d d'"
proof (cases "d' = d")
  case False
  let ?d1 = "updNode (\<lambda>m. n_name m = node \<and> n_epoch m = epoch) (\<lambda>m. m\<lparr>n_live := False\<rparr>) d"
  obtain b where "markNodeDisruptedTx node DisruptionNodeForgotten now ?d1 = Inr (b, d')"
    using assms False by (auto simp: NodeGone_def split: option.splits if_splits sum.splits)
  then have "ledgerStep ?d1 d'" using applyDisruptionTx_step by (auto simp: markNodeDisruptedTx_def split: sum.splits)
  moreover have "calm d ?d1" by (rule calm_updNode) (simp add: nodeKept_def)
  ultimately show ?thesis using calm_trans ledgerStep_calm by blast
qed simp

lemma computeListedNowTx_calm: "calm d (computeListedNowTx node epoch d)"
  using calm_nodes [OF _ _ sameFences_kept [OF computeListedTx_fences] listed_sidelines(1)]
  by (auto simp: computeListedNowTx_def split: option.splits)

lemma RecordBarrierObservation_calm: "calm d (RecordBarrierObservation now obs d)"
proof -
  have "calm e (observedUnder now obs e)" for e
    by (rule calm_same)
       (simp_all add: observedUnder_def RecordBarrierRun_def DeleteBarrierRun_def Let_def sidelines_def split: option.splits)
  then show ?thesis using computeListedNowTx_calm calm_trans unfolding RecordBarrierObservation_def by (metis (full_types))
qed

lemma node_writes_calm:
  "NodeWithdrawn node epoch inc d = Inr d' \<Longrightarrow> calm d d'" "NodeDraining node epoch inc d = Inr d' \<Longrightarrow> calm d d'"
  "calm d (snd (BumpDispatch node d))" "calm d (ForgetEveryNode d)"
  "Decommission now req d = Inr (proven, d') \<Longrightarrow> calm d d'"
proof -
  show "NodeWithdrawn node epoch inc d = Inr d' \<Longrightarrow> calm d d'" "NodeDraining node epoch inc d = Inr d' \<Longrightarrow> calm d d'"
    "calm d (snd (BumpDispatch node d))"
    by (auto simp: NodeWithdrawn_def NodeDraining_def BumpDispatch_def nodeKept_def split: if_splits option.splits
        intro!: calm_updNode)
  have "calm d (updNode (\<lambda>_. True) (\<lambda>n. n\<lparr>n_live := False\<rparr>) d)" by (rule calm_updNode) (simp add: nodeKept_def)
  then show "calm d (ForgetEveryNode d)" by (simp add: ForgetEveryNode_def calm_def tame_def sidelines_def)
  have "calm d (DecommissionNode now p actor name d)" for p actor name
    unfolding DecommissionNode_def by (rule calm_updNode) (simp add: nodeKept_def)
  moreover have "calm e (ClearPoolReleaseContradiction name e)" "calm e (DeleteBarrierRun name e)" for name e
    by (rule calm_same; simp add: ClearPoolReleaseContradiction_def sidelines_def touched_upd orderTouched_def clearKept_def)+
  ultimately have "calm d (DeleteBarrierRun name (DecommissionNode now p actor name d))"
    "calm d (DeleteBarrierRun name (ClearPoolReleaseContradiction name (DecommissionNode now p actor name d)))" for p actor name
    using calm_trans by meson+
  then show "Decommission now req d = Inr (proven, d') \<Longrightarrow> calm d d'"
    by (auto simp: Decommission_def Let_def split: if_splits option.splits)
qed

lemma barrier_writes_calm:
  "RequestComputeBarrier now g actor newID d = Inr (b, d') \<Longrightarrow> calm d d'" "calm d (DropComputeBarrier i d)"
  "calm d (InvalidateBarrierRun node d)" "calm d (InvalidateEveryBarrierRun d)"
  by (auto simp: RequestComputeBarrier_def DropComputeBarrier_def InvalidateBarrierRun_def InvalidateEveryBarrierRun_def
      DeleteEveryBarrierRun_def ContradictWaitingPoolRelease_def Let_def sidelines_def contradicted_touched
      split: option.splits if_splits intro!: calm_same touched_upd)

lemma SealAdmission_moves:
  "SealAdmission now req d = Inr (am, d') \<Longrightarrow> \<exists>t. admissionTransition now t d = Inr (am, d') \<and> tr_mode t \<noteq> AdmissionOpen"
  by (auto simp: SealAdmission_def split: if_splits intro!: exI)

text \<open>A step is calm unless it grants, resizes, registers a node, moves admission or is about credentials and pool orders.\<close>

lemma deploymentStep_kinds:
  assumes "deploymentStep a ev d d'" and "ledgerOK d"
  obtains (granted) now tier gs where "ev = Granted" "granted a now tier d gs d'"
  | (resized) it v m protect i e where "ev = Working" "ResizeLeaving a it v m protect i e d = Inr d'"
  | (registered) now reg e where "ev = RegisteredNode (g_name reg)" "RegisterNode now reg d = Inr (e, d')"
  | (moved) now t am where "admissionTransition now t d = Inr (am, d')" "ev = Sealing \<and> tr_mode t \<noteq> AdmissionOpen \<or> ev = Resuming"
  | (calm) "ev = Working" "calm d d'"
  | (pooled) sha pe where "ev = Pooling pe" "poolStep sha pe d d'"
proof -
  note fenced = Assign_step Bind_step Release_step ReleaseFailed_step ResolveQuarantine_step ResolveQuarantineFailed_step
    ForceRelease_step ForceTerminate_step transition_step
  note needs = fenced [OF assms(2), THEN ledgerStep_calm] MarkFailure_step [THEN ledgerStep_calm]
    heartbeatTx_step [THEN ledgerStep_calm] ResolveQuarantineFor_calm [OF assms(2)] SettleCompletion_calm [OF assms(2)]
    NodeGone_calm node_writes_calm(1,2,5) barrier_writes_calm(1)
  note always = touch_step(3) [THEN ledgerStep_calm] Reap_facts(2) [OF assms(2), THEN ledgerStep_calm]
    node_writes_calm(3,4) barrier_writes_calm(2-4) RecordBarrierObservation_calm
  note ops = MarkDeregistered_def Heartbeat_def Advance_def
  from assms(1) show ?thesis
  proof (cases rule: deploymentStep.cases)
    case (reconcile now node running k)
    then show ?thesis using that(5) needs by (auto simp: Reconcile_def split: option.splits)
  next
    case (heartbeats now refs said)
    then show ?thesis using that(5) ledgerStep_calm HeartbeatMany_step [of d a now refs] by simp
  next
    case (sealing now sreq am)
    then show ?thesis using that(4) SealAdmission_moves by metis
  next
    case (resuming now rreq am)
    then show ?thesis using that(4) unfolding ResumeAdmission_def by blast
  next
    case (buy now tier want purchase ids gs)
    then show ?thesis using that(1) unfolding granted_def by blast
  next
    case (reserve now tier "is" g)
    then show ?thesis using that(1) unfolding granted_def by blast
  next
    case (resize instanceType vcpu memory protect i e)
    then show ?thesis by (rule that(2))
  next
    case (register now reg e)
    then show ?thesis by (rule that(3))
  next
    case (pooling sha pe)
    then show ?thesis by (rule that(6))
  qed (unfold ops, (rule that(5), assumption, rule needs, assumption |
       (rule that(5), assumption, erule ssubst, rule always))+)
qed

lemma poolStep_tame: "poolStep sha pe d d' \<Longrightarrow> tame d d'"
  by (drule poolStep_moved) (simp add: poolMoved_def poolFrame_def tame_def list.rel_refl_strong)

text \<open>What the pool does is work of the fleet's history: it can end a proof of idleness, never begin or extend one.\<close>

lemma poolStep_fleetStep: "poolStep sha ev d d' \<Longrightarrow> fleetStep Other d d'"
  by (drule poolStep_moved) (auto simp: poolMoved_def poolFrame_def intro: fleetStep.work)

lemma deploymentStep_cases:
  assumes "deploymentStep a ev d d'" and "ledgerOK d"
  obtains (granted) now tier gs where "ev = Granted" "granted a now tier d gs d'"
  | (resized) it v m protect i e where "ev = Working" "ResizeLeaving a it v m protect i e d = Inr d'"
  | (registered) now reg e where "ev = RegisteredNode (g_name reg)" "RegisterNode now reg d = Inr (e, d')"
  | (moved) now t am where "admissionTransition now t d = Inr (am, d')" "ev = Sealing \<and> tr_mode t \<noteq> AdmissionOpen \<or> ev = Resuming"
  | (tame) "ev = Working \<or> (\<exists>pe. ev = Pooling pe)" "tame d d'"
  using assms
proof (cases rule: deploymentStep_kinds)
  case calm
  then show ?thesis using tame by (simp add: calm_def)
next
  case (pooled sha pe)
  then show ?thesis using tame poolStep_tame by blast
qed (blast intro: that)+

end
