(* ===== verification/Deployment_Safety.thy ===== *)
theory Deployment_Safety
  imports Deployment
begin

text \<open>
  What holds of every run of the control plane, whatever the order of its operations: the
  ceiling and every host's capacity are kept, a lease's life only moves forward and a fenced
  holder stays fenced, and a sealed deployment only drains. Each is one fact about a single
  step, carried over runs by rule induction.
\<close>

section \<open>Leases of one step\<close>

definition rowPlaced :: "LeaseRow \<Rightarrow> bool" where
  "rowPlaced r \<longleftrightarrow> leaseTarget r \<noteq> [] \<and> r_node r \<noteq> Some []"

lemma rowTame_kept: "list_all2 rowTame rs rs' \<Longrightarrow> list_all2 rowKept rs rs'"
  by (erule list_all2_mono) (simp add: rowTame_def)

lemma granted_unbound:
  assumes "allocOK a" and "ledgerOK d" and "granted a now tier d gs d'" and "g \<in> set gs"
  shows "r_node (fst g) = None \<and> leaseTarget (fst g) \<noteq> [] \<and> isOpen (fst g) \<and> admission d = AdmissionOpen"
proof -
  obtain t want where t: "tierOf a tier = Some t" and b: "gs = [] \<and> d' = d \<or> boughtOn a now t want d gs d'"
    using granted_bought [OF assms(1,3)] by metis
  then have b: "boughtOn a now t want d gs d'" using assms(4) by auto
  obtain p where "placedBy a now t p g" using bought_writes [OF assms(1,2) t b] assms(4) by metis
  then have "r_node (fst g) = None" by (auto simp: placedBy_def newLease_def)
  moreover obtain node where "node \<in> set (nodes d)" "r_target (fst g) = Some (n_name node)"
    using granted_placed [OF assms(1-3) t assms(4)] by blast
  then have "leaseTarget (fst g) \<noteq> []" using assms(2) by (auto simp: leaseTarget_def ledgerOK_def)
  moreover have "isOpen (fst g)" using granted_writes [OF assms(1-3)] assms(4) by (simp add: isOpen_def Terminal_def)
  moreover have "admission d = AdmissionOpen" using b by (auto simp: boughtOn_def)
  ultimately show ?thesis by blast
qed

lemma ResizeLeaving_rows:
  assumes "ledgerOK d" and "ResizeLeaving a it v m protect i e d = Inr d'"
  shows "list_all2 rowKept (leases d) (leases d')" and "nodes d' = nodes d" and "admission d' = admission d"
    and "ledgerOK d'"
proof -
  have "list_all2 rowKept (leases d) (leases d') \<and> nodes d' = nodes d \<and> admission d' = admission d \<and> ledgerOK d'"
  proof (cases "d' = d")
    case False
    obtain price where d': "d' = ResizeLease v m it price i e d" using ResizeLeaving_changes [OF assms(2) False] by metis
    have ls: "leases d' = upd_where (atEpoch i e) (\<lambda>r. r\<lparr>r_vcpu := v, r_memory := m, r_instanceType := it, r_price := price\<rparr>) (leases d)"
      by (simp add: d' ResizeLease_def)
    have "map r_id (leases d') = map r_id (leases d)" unfolding ls by (rule map_upd_where_same) simp
    then have "ledgerOK d'"
      using assms(1) ResizeLeaving_positive [OF assms(2) False]
      by (auto simp: ledgerOK_def d' ResizeLease_def set_upd_where)
    moreover have "list_all2 rowKept (leases d) (leases d')"
      unfolding ls by (simp add: upd_where_def list_all2_map2 list.rel_refl_strong rowKept_def)
    ultimately show ?thesis by (simp add: d' ResizeLease_def)
  qed (use assms(1) in \<open>simp add: list.rel_refl_strong\<close>)
  then show "list_all2 rowKept (leases d) (leases d')" "nodes d' = nodes d" "admission d' = admission d" "ledgerOK d'"
    by blast+
qed

lemma step_leases:
  assumes "allocOK a" and "ledgerOK d" and "deploymentStep a ev d d'"
  obtains kept new where "leases d' = kept @ new" "list_all2 rowKept (leases d) kept"
    "new = [] \<or> ev = Granted \<and> admission d = AdmissionOpen"
    "\<forall>r \<in> set new. isOpen r \<and> rowPlaced r"
  using assms(3,2)
proof (cases rule: deploymentStep_cases)
  case (granted now tier gs)
  note w = granted_writes [OF assms(1,2) granted(2)] and u = granted_unbound [OF assms(1,2) granted(2)]
  have "leases d' = leases d @ map fst gs" using w by (metis addLeases_fields(1))
  moreover have "map fst gs = [] \<or> ev = Granted \<and> admission d = AdmissionOpen"
    using u granted(1) by (cases gs) auto
  moreover have "\<forall>r \<in> set (map fst gs). isOpen r \<and> rowPlaced r" using u by (auto simp: rowPlaced_def)
  ultimately show ?thesis using that list.rel_refl_strong rowKept_refl(1) by metis
next
  case (resized it v m protect i e)
  then show ?thesis using that [of "leases d'" "[]"] ResizeLeaving_rows(1) [OF assms(2)] by simp
next
  case (registered now reg e)
  then show ?thesis using that [of "leases d'" "[]"] RegisterNode_row(5) by (simp add: list.rel_refl_strong)
next
  case (moved now t am)
  then show ?thesis using that [of "leases d'" "[]"] admissionTransition_result(3) by (simp add: list.rel_refl_strong)
next
  case tame
  then show ?thesis using that [of "leases d'" "[]"] rowTame_kept by (simp add: tame_def)
qed

lemma tame_ledgerOK:
  assumes "ledgerOK d" and "tame d d'"
  shows "ledgerOK d'"
proof -
  have "map r_id (leases d') = map r_id (leases d)"
    using assms(2) list_all2_keys [of rowTame _ _ r_id] by (auto simp: tame_def rowTame_def rowKept_def)
  moreover have names: "map n_name (nodes d') = map n_name (nodes d)"
    using assms(2) list_all2_keys [of nodeKept _ _ n_name] by (auto simp: tame_def nodeKept_def)
  moreover have "\<forall>n \<in> set (nodes d'). n_name n \<noteq> []"
    using assms(1) names by (simp add: ledgerOK_def) (metis (mono_tags, lifting) image_iff list.set_map)
  moreover have "\<forall>r \<in> set (leases d'). 0 \<le> r_vcpu r \<and> 0 \<le> r_memory r"
  proof
    fix r' assume "r' \<in> set (leases d')"
    then obtain r where "r \<in> set (leases d)" "rowTame r r'"
      using assms(2) list_all2_source [of rowTame "leases d" "leases d'"] unfolding tame_def by blast
    then show "0 \<le> r_vcpu r' \<and> 0 \<le> r_memory r'" using assms(1) by (auto simp: ledgerOK_def rowTame_def)
  qed
  ultimately show ?thesis using assms(1) by (simp add: ledgerOK_def)
qed

lemma RegisterNode_ledgerOK:
  assumes "ledgerOK d" and "RegisterNode now reg d = Inr (e, d')"
  shows "ledgerOK d'"
proof -
  have u: "UpsertNodeRegistration now reg d = (e, d')" "g_name reg \<noteq> []"
    using assms(2) RegisterNode_row(3) [OF assms(2)]
    by (auto simp: RegisterNode_def registrationOK_def Let_def split: if_splits sum.splits)
  show ?thesis
  proof (cases "findNode d (g_name reg)")
    case None
    then have "g_name reg \<notin> set (map n_name (nodes d))" by (auto simp: findNode_def find_None_iff)
    then show ?thesis using u None assms(1) by (auto simp: UpsertNodeRegistration_def ledgerOK_def)
  next
    case (Some n)
    let ?f = "\<lambda>n. (registeredRow now reg d n)\<lparr>n_epoch := n_epoch n + 1\<rparr>"
    have d': "d' = updNode (\<lambda>n. n_name n = g_name reg) ?f d" using u(1) Some by (simp add: UpsertNodeRegistration_def)
    have "map n_name (upd_where (\<lambda>n. n_name n = g_name reg) ?f (nodes d)) = map n_name (nodes d)"
      by (rule map_upd_where_same) simp
    then show ?thesis unfolding d' using assms(1) u(2) by (auto simp: ledgerOK_def set_upd_where)
  qed
qed

lemma step_ledgerOK:
  assumes "allocOK a" and "ledgerOK d" and "deploymentStep a ev d d'"
  shows "ledgerOK d'"
  using assms(3,2)
proof (cases rule: deploymentStep_cases)
  case (granted now tier gs)
  then show ?thesis using granted_ledgerOK [OF assms(1,2)] by blast
next
  case (moved now t am)
  then show ?thesis using assms(2) admissionTransition_result(3,4) by (simp add: ledgerOK_def)
qed (use assms(2) ResizeLeaving_rows(4) RegisterNode_ledgerOK tame_ledgerOK in blast)+

lemma run_ledgerOK: "deploymentRun a es d d' \<Longrightarrow> allocOK a \<Longrightarrow> ledgerOK d \<Longrightarrow> ledgerOK d'"
  by (induction rule: deploymentRun.induct) (auto intro: step_ledgerOK)

lemma kept_findLease:
  assumes "list_all2 rowKept rs rs'" and "find (\<lambda>r. r_id r = i) rs = Some r"
  shows "\<exists>r'. find (\<lambda>r. r_id r = i) rs' = Some r' \<and> rowKept r r'"
  using assms by (induction rule: list_all2_induct) (auto simp: rowKept_def split: if_splits)

lemma step_findLease:
  assumes "allocOK a" and "ledgerOK d" and "deploymentStep a ev d d'" and "findLease d i = Some r"
  shows "\<exists>r'. findLease d' i = Some r' \<and> rowKept r r'"
proof -
  obtain kept new where k: "leases d' = kept @ new" "list_all2 rowKept (leases d) kept"
    using step_leases [OF assms(1-3)] by metis
  obtain r' where "find (\<lambda>r. r_id r = i) kept = Some r'" "rowKept r r'"
    using kept_findLease [OF k(2)] assms(4) unfolding findLease_def by blast
  then show ?thesis by (simp add: findLease_def k(1) find_append)
qed

section \<open>The ceiling\<close>

lemma tame_sum_le:
  assumes "ledgerOK d" and "tame d d'" and "\<forall>r \<in> set (leases d). \<forall>r'. rowTame r r' \<longrightarrow> Q r' \<longrightarrow> Q r"
  shows "sum_where (\<lambda>r. isOpen r \<and> Q r) r_vcpu (leases d') \<le> sum_where (\<lambda>r. isOpen r \<and> Q r) r_vcpu (leases d)"
    and "sum_where (\<lambda>r. isOpen r \<and> Q r) r_memory (leases d') \<le> sum_where (\<lambda>r. isOpen r \<and> Q r) r_memory (leases d)"
    and "sum_where (\<lambda>r. isOpen r \<and> Q r) (\<lambda>_. 1) (leases d') \<le> sum_where (\<lambda>r. isOpen r \<and> Q r) (\<lambda>_. 1) (leases d)"
proof -
  let ?R = "\<lambda>r r'. r \<in> set (leases d) \<and> rowTame r r'"
  have t: "list_all2 ?R (leases d) (leases d')"
    using assms(2) by (simp add: tame_def list_all2_conv_all_nth)
  have "isOpen r" if "rowTame r r'" "isOpen r'" for r r'
    using that phaseKept_Terminal by (auto simp: isOpen_def rowTame_def rowKept_def)
  then have step: "isOpen r \<and> Q r" if "?R r r'" "isOpen r' \<and> Q r'" for r r' using that assms(3) by blast
  show "sum_where (\<lambda>r. isOpen r \<and> Q r) r_vcpu (leases d') \<le> sum_where (\<lambda>r. isOpen r \<and> Q r) r_vcpu (leases d)"
    "sum_where (\<lambda>r. isOpen r \<and> Q r) r_memory (leases d') \<le> sum_where (\<lambda>r. isOpen r \<and> Q r) r_memory (leases d)"
    "sum_where (\<lambda>r. isOpen r \<and> Q r) (\<lambda>_. 1) (leases d') \<le> sum_where (\<lambda>r. isOpen r \<and> Q r) (\<lambda>_. 1) (leases d)"
    using assms(1) step by (auto simp: ledgerOK_def rowTame_def intro!: list_all2_sum_le [OF t])
qed

lemma step_ceiling:
  assumes "allocOK a" and "ledgerOK d" and "deploymentStep a ev d d'"
  shows "u_vcpu (TotalUsage (leases d')) \<le> max (u_vcpu (TotalUsage (leases d))) (l_maxVCPU (a_limits a))
    \<and> u_memory (TotalUsage (leases d')) \<le> max (u_memory (TotalUsage (leases d))) (l_maxMemory (a_limits a))"
  using assms(3,2)
proof (cases rule: deploymentStep_cases)
  case (granted now tier gs)
  then show ?thesis using granted_ceiling [OF assms(1,2)] by blast
next
  case (resized it v m protect i e)
  show ?thesis
  proof (cases "d' = d")
    case False
    obtain l n where "load d i e = Inr l" "findNode d (leaseNode l) = Some n"
      using ResizeLeaving_changes [OF resized(2) False] by metis
    then show ?thesis
      using resize_bounds [OF assms(1,2) resized(2) False, of l n] unfolding load_Inr by (meson max.coboundedI2)
  qed simp
next
  case tame
  then show ?thesis using tame_sum_le(1,2) [OF assms(2), of d' "\<lambda>_. True"] by (simp add: le_max_iff_disj)
qed (use RegisterNode_row(5) admissionTransition_result(3) in simp_all)

text \<open>
  C1. The deployment never spends more than it was given. Starting from any well-formed
  ledger, after any sequence of the control plane's operations (purchases, resizes, lease
  transitions, reaping, quarantine, registrations, seals, enrolments, pool orders), in any order and with any
  arguments, the ledger is well formed and the vCPU and the memory of all open leases are
  within the configured ceiling, or within what they were at the start where that was over
  it already.
\<close>

theorem deployment_within_ceiling:
  assumes "allocOK a" and "ledgerOK d" and "deploymentRun a es d d'"
  shows "ledgerOK d'
    \<and> u_vcpu (TotalUsage (leases d')) \<le> max (u_vcpu (TotalUsage (leases d))) (l_maxVCPU (a_limits a))
    \<and> u_memory (TotalUsage (leases d')) \<le> max (u_memory (TotalUsage (leases d))) (l_maxMemory (a_limits a))"
  using assms(3,2)
proof (induction rule: deploymentRun.induct)
  case (more es d0 d1 ev d2)
  have ok: "ledgerOK d1" using more.IH more.prems by blast
  have "u_vcpu (TotalUsage (leases d1)) \<le> max (u_vcpu (TotalUsage (leases d0))) (l_maxVCPU (a_limits a))
    \<and> u_memory (TotalUsage (leases d1)) \<le> max (u_memory (TotalUsage (leases d0))) (l_maxMemory (a_limits a))"
    using more.IH more.prems by blast
  with step_ceiling [OF assms(1) ok more.hyps(2)] step_ledgerOK [OF assms(1) ok more.hyps(2)]
  show ?case unfolding le_max_iff_disj by linarith
qed simp

lemma sample_run:
  "\<exists>d'. deploymentRun sampleAlloc [Working, Granted] sampleLedger d' \<and> length (leases d') = 5"
proof -
  obtain gs d1 where g: "EscrowFor sampleAlloc 100 ''small'' 3 samplePurchase sampleIds sampleLedger = Inr (gs, d1)"
    "length gs = 3" using sample_buys by blast
  have "granted sampleAlloc 100 ''small'' sampleLedger gs d1" using g(1) unfolding granted_def by blast
  then have d1: "leases d1 = leases sampleLedger @ map fst gs" "ledgerOK d1"
    using granted_writes [OF sample_OK(1,2)] granted_ledgerOK [OF sample_OK(1,2)] by (metis addLeases_fields(1))+
  have "deploymentRun sampleAlloc [Working, Granted] sampleLedger (snd (Reap 200 d1))"
    by (rule deploymentRun.more [OF deploymentRun.more [OF deploymentRun.nothing deploymentStep.buy [OF g(1)]]
          deploymentStep.reap])
  moreover have "length (leases (snd (Reap 200 d1))) = 5"
    using d1(1) g(2) Reap_facts(1) [OF d1(2), of 200] by (simp add: upd_where_def sampleLedger_def)
  ultimately show ?thesis by blast
qed

theorem deployment_within_ceiling_witness:
  "\<exists>d'. deploymentRun sampleAlloc [Working, Granted] sampleLedger d' \<and> length (leases d') = 5
     \<and> u_vcpu (TotalUsage (leases d')) \<le> 24 \<and> u_memory (TotalUsage (leases d')) \<le> 64"
proof -
  obtain d' where r: "deploymentRun sampleAlloc [Working, Granted] sampleLedger d'" "length (leases d') = 5"
    using sample_run by blast
  have "u_vcpu (TotalUsage (leases sampleLedger)) = 8" "u_memory (TotalUsage (leases sampleLedger)) = 16"
    "l_maxVCPU (a_limits sampleAlloc) = 24" "l_maxMemory (a_limits sampleAlloc) = 64"
    by code_simp+
  then show ?thesis using deployment_within_ceiling [OF sample_OK(1,2) r(1)] r by (intro exI [of _ d']) simp
qed

section \<open>Every host\<close>

lemma rowKept_attributed:
  "rowPlaced r \<Longrightarrow> rowKept r r' \<Longrightarrow> attributedTo r' = attributedTo r \<and> rowPlaced r'"
  by (auto simp: rowPlaced_def rowKept_def attributedTo_def coalesceNode_def leaseNode_def leaseTarget_def
      split: option.splits)

lemma step_placed:
  assumes "allocOK a" and "ledgerOK d" and "deploymentStep a ev d d'" and "\<forall>r \<in> set (leases d). rowPlaced r"
  shows "\<forall>r \<in> set (leases d'). rowPlaced r"
proof -
  obtain kept new where k: "leases d' = kept @ new" "list_all2 rowKept (leases d) kept" "\<forall>r \<in> set new. isOpen r \<and> rowPlaced r"
    using step_leases [OF assms(1-3)] by metis
  have "rowPlaced r'" if "r' \<in> set kept" for r'
    using list_all2_source [OF k(2) that] assms(4) rowKept_attributed by blast
  then show ?thesis using k(1,3) by auto
qed

definition hostWithin :: "Allocator \<Rightarrow> string \<Rightarrow> NodeRow \<Rightarrow> Ledger \<Rightarrow> Ledger \<Rightarrow> bool" where
  "hostWithin a name n d d' \<longleftrightarrow>
     nu_vcpu (usageOfHost (leases d') name) \<le> max (nu_vcpu (usageOfHost (leases d) name)) (n_vcpu n)
     \<and> nu_memory (usageOfHost (leases d') name) \<le> max (nu_memory (usageOfHost (leases d) name)) (n_memory n)
     \<and> nu_macOS (usageOfHost (leases d') name) \<le> max (nu_macOS (usageOfHost (leases d) name)) (macOSLimit a name)"

lemma hostWithin_same: "leases d' = leases d \<Longrightarrow> hostWithin a name n d d'"
  by (simp add: hostWithin_def)

lemma hostWithin_trans:
  "hostWithin a name n d e \<Longrightarrow> nodeKept n n' \<Longrightarrow> hostWithin a name n' e f \<Longrightarrow> hostWithin a name n d f"
  unfolding hostWithin_def nodeKept_def le_max_iff_disj by (elim conjE) (intro conjI; linarith)

lemma tame_host:
  assumes "ledgerOK d" and "tame d d'" and "\<forall>r \<in> set (leases d). rowPlaced r"
  shows "hostWithin a name n d d'"
proof -
  have same: "attributedTo r' = attributedTo r" "r_macosSlot r' = r_macosSlot r" if "r \<in> set (leases d)" "rowTame r r'" for r r'
    using that assms(3) rowKept_attributed unfolding rowTame_def rowKept_def by blast+
  have host: "\<forall>r \<in> set (leases d). \<forall>r'. rowTame r r' \<longrightarrow> attributedTo r' = name \<longrightarrow> attributedTo r = name"
    using same(1) by metis
  have slot: "\<forall>r \<in> set (leases d). \<forall>r'. rowTame r r' \<longrightarrow> attributedTo r' = name \<and> r_macosSlot r' \<longrightarrow>
      attributedTo r = name \<and> r_macosSlot r"
    using same by metis
  show ?thesis
    unfolding hostWithin_def usageOfHost_sel count_where_sum le_max_iff_disj conj_assoc
    using tame_sum_le(1,2) [OF assms(1,2) host] tame_sum_le(3) [OF assms(1,2) slot] by blast
qed

lemma resize_host:
  assumes "allocOK a" and "ledgerOK d" and "ResizeLeaving a it v m protect i e d = Inr d'" and "findNode d name = Some n"
  shows "hostWithin a name n d d'"
proof (cases "d' = d")
  case False
  obtain l k price where r: "load d i e = Inr l" "findNode d (leaseNode l) = Some k" "leaseNode l \<noteq> []"
    "d' = ResizeLease v m it price i e d"
    using ResizeLeaving_changes [OF assms(3) False] by metis
  let ?f = "\<lambda>r. if atEpoch i e r then r\<lparr>r_vcpu := v, r_memory := m, r_instanceType := it, r_price := price\<rparr> else r"
  have ls: "leases d' = map ?f (leases d)" by (simp add: r(4) ResizeLease_def upd_where_def)
  have at: "isOpen (?f r) = isOpen r" "attributedTo (?f r) = attributedTo r" "r_macosSlot (?f r) = r_macosSlot r" for r
    by (simp_all add: isOpen_def attributedTo_def coalesceNode_def split: option.splits)
  have mac: "nu_macOS (usageOfHost (leases d') name) = nu_macOS (usageOfHost (leases d) name)"
    unfolding ls usageOfHost_sel count_where_sum by (rule sum_where_map_eq) (simp add: at)
  show ?thesis
  proof (cases "leaseNode l = name")
    case True
    then have "k = n" using r(2) assms(4) by simp
    then show ?thesis
      using resize_bounds [OF assms(1-3) False, of l k] r(1,2) mac True unfolding load_Inr hostWithin_def
      by (metis max.cobounded1)
  next
    case other: False
    have l: "findLease d i = Some l" using r(1) by (simp add: load_Inr)
    have "attributedTo l \<noteq> name"
      using r(3) other by (auto simp: attributedTo_def coalesceNode_def leaseNode_def split: option.splits)
    then have "sum_where (\<lambda>r. isOpen r \<and> attributedTo r = name) w (leases d') = sum_where (\<lambda>r. isOpen r \<and> attributedTo r = name) w (leases d)"
      for w unfolding ls by (intro sum_where_map_eq) (use at row_at [OF assms(2) l] in \<open>auto simp: atEpoch_def\<close>)
    then show ?thesis using mac by (simp add: hostWithin_def)
  qed
qed (simp add: hostWithin_same)

lemma kept_findNode:
  assumes "list_all2 nodeKept ns ns'" and "find (\<lambda>n. n_name n = name) ns = Some n"
  shows "\<exists>n'. find (\<lambda>n. n_name n = name) ns' = Some n' \<and> nodeKept n n'"
  using assms by (induction rule: list_all2_induct) (auto simp: nodeKept_def split: if_splits)

lemma step_node:
  assumes "ledgerOK d" and "allocOK a" and "deploymentStep a ev d d'" and "findNode d name = Some n" and "ev \<noteq> RegisteredNode name"
  obtains n' where "findNode d' name = Some n'" "nodeKept n n'"
  using assms(3,1)
proof (cases rule: deploymentStep_cases)
  case (granted now tier gs)
  have "nodes d' = nodes d" using granted_writes [OF assms(2,1) granted(2)] by (metis addLeases_fields(2))
  then show ?thesis using that [of n] assms(4) by (simp add: findNode_def)
next
  case (resized it v m protect i e)
  then show ?thesis using that [of n] assms(4) ResizeLeaving_rows(2) [OF assms(1)] by (simp add: findNode_def)
next
  case (registered now reg e)
  then show ?thesis using that [of n] assms(4,5) RegisterNode_row(4) by simp
next
  case (moved now t am)
  then show ?thesis using that [of n] assms(4) admissionTransition_result(4) by (simp add: findNode_def)
next
  case tame
  then show ?thesis using that assms(4) kept_findNode unfolding tame_def findNode_def by metis
qed

lemma step_host:
  assumes "allocOK a" and "ledgerOK d" and "deploymentStep a ev d d'" and "\<forall>r \<in> set (leases d). rowPlaced r"
    and "findNode d name = Some n"
  shows "hostWithin a name n d d'"
  using assms(3,2)
proof (cases rule: deploymentStep_cases)
  case (granted now tier gs)
  have "n \<in> set (nodes d)" "n_name n = name" using findNode_Some [OF assms(5)] by auto
  then show ?thesis using granted_host [OF assms(1,2) granted(2)] unfolding hostWithin_def by blast
next
  case (registered now reg e)
  then show ?thesis using RegisterNode_row(5) hostWithin_same by blast
next
  case (moved now t am)
  then show ?thesis using admissionTransition_result(3) hostWithin_same by blast
qed (use resize_host [OF assms(1,2) _ assms(5)] tame_host [OF assms(2) _ assms(4)] in blast)+

text \<open>
  C2. No machine is overcommitted, over any run. For a node of the fleet that does not
  register again meanwhile (registering is how a host changes its size), after any sequence
  of operations the vCPU, the memory and the macOS guests of the open leases charged to it
  are within what it registered and its licence, or within what they were at the start.
  Every lease stays charged to the host it was granted on from purchase to release.
\<close>

theorem deployment_within_host:
  assumes "allocOK a" and "ledgerOK d" and "\<forall>r \<in> set (leases d). rowPlaced r" and "findNode d name = Some n"
    and "deploymentRun a es d d'" and "RegisteredNode name \<notin> set es"
  shows "\<exists>n'. findNode d' name = Some n' \<and> n_vcpu n' = n_vcpu n \<and> n_memory n' = n_memory n
    \<and> nu_vcpu (usageOfHost (leases d') name) \<le> max (nu_vcpu (usageOfHost (leases d) name)) (n_vcpu n)
    \<and> nu_memory (usageOfHost (leases d') name) \<le> max (nu_memory (usageOfHost (leases d) name)) (n_memory n)
    \<and> nu_macOS (usageOfHost (leases d') name) \<le> max (nu_macOS (usageOfHost (leases d) name)) (macOSLimit a name)
    \<and> (\<forall>i r. findLease d i = Some r \<longrightarrow> (\<exists>r'. findLease d' i = Some r' \<and> attributedTo r' = attributedTo r))"
proof -
  have "ledgerOK d' \<and> (\<forall>r \<in> set (leases d'). rowPlaced r)
    \<and> (\<exists>n'. findNode d' name = Some n' \<and> nodeKept n n' \<and> hostWithin a name n d d')
    \<and> (\<forall>i r. findLease d i = Some r \<longrightarrow> (\<exists>r'. findLease d' i = Some r' \<and> attributedTo r' = attributedTo r))"
    using assms(5,2,3,4,6)
  proof (induction rule: deploymentRun.induct)
    case (nothing d)
    then show ?case by (simp add: hostWithin_same)
  next
    case (more es d d1 ev d2)
    obtain n1 where ih: "ledgerOK d1" "\<forall>r \<in> set (leases d1). rowPlaced r" "findNode d1 name = Some n1"
      "nodeKept n n1" "hostWithin a name n d d1"
      and row: "\<And>i r. findLease d i = Some r \<Longrightarrow> \<exists>r'. findLease d1 i = Some r' \<and> attributedTo r' = attributedTo r"
      using more.IH more.prems by auto
    note ok = step_ledgerOK [OF assms(1) ih(1) more.hyps(2)] step_placed [OF assms(1) ih(1) more.hyps(2) ih(2)]
    obtain n2 where n2: "findNode d2 name = Some n2" "nodeKept n1 n2"
      using step_node [OF ih(1) assms(1) more.hyps(2) ih(3)] more.prems by auto
    have "nodeKept n n2" using ih(4) n2(2) by (simp add: nodeKept_def)
    moreover have "hostWithin a name n d d2"
      using hostWithin_trans [OF ih(5,4) step_host [OF assms(1) ih(1) more.hyps(2) ih(2,3)]] .
    moreover have "\<exists>r'. findLease d2 i = Some r' \<and> attributedTo r' = attributedTo r" if f: "findLease d i = Some r" for i r
    proof -
      obtain r1 where r1: "findLease d1 i = Some r1" "attributedTo r1 = attributedTo r" using row [OF f] by blast
      obtain r2 where "findLease d2 i = Some r2" "rowKept r1 r2"
        using step_findLease [OF assms(1) ih(1) more.hyps(2) r1(1)] by blast
      moreover have "rowPlaced r1" using ih(2) findLease_Some [OF r1(1)] by blast
      ultimately show ?thesis using rowKept_attributed r1(2) by metis
    qed
    ultimately show ?case using ok n2(1) by blast
  qed
  then show ?thesis unfolding hostWithin_def nodeKept_def by blast
qed

theorem deployment_within_host_witness:
  "\<exists>d'. deploymentRun sampleAlloc [Working, Granted] sampleLedger d' \<and> length (leases d') = 5
     \<and> nu_vcpu (usageOfHost (leases d') ''beta'') \<le> 8"
proof -
  obtain d' where r: "deploymentRun sampleAlloc [Working, Granted] sampleLedger d'" "length (leases d') = 5"
    using sample_run by blast
  have p: "\<forall>r \<in> set (leases sampleLedger). rowPlaced r"
    by (simp add: sample_defs rowPlaced_def leaseTarget_def requiresPlacement_def)
  have n: "findNode sampleLedger ''beta'' = Some (sampleNode ''beta'' ProviderFirecracker 8 32)"
    by (simp add: findNode_def sample_defs)
  have "nu_vcpu (usageOfHost (leases sampleLedger) ''beta'') = 4" by code_simp
  then show ?thesis
    using deployment_within_host [OF sample_OK(1,2) p n r(1)] r
    by (intro exI [of _ d']) (auto simp: sampleNode_def simp del: usageOfHost_sel)
qed

section \<open>A lease's life\<close>

lemma run_findLease:
  assumes "deploymentRun a es d d'" and "allocOK a" and "ledgerOK d" and "findLease d i = Some r"
  shows "\<exists>r'. findLease d' i = Some r' \<and> rowKept r r'"
  using assms
proof (induction rule: deploymentRun.induct)
  case (more es d d1 ev d2)
  then obtain r1 where "findLease d1 i = Some r1" "rowKept r r1" by auto
  moreover have "ledgerOK d1" using run_ledgerOK more by blast
  ultimately show ?case using step_findLease [OF more.prems(1) _ more.hyps(2)] rowKept_trans by blast
qed simp

text \<open>
  C4. A lease's life only moves forward, over any run. The lease keeps its row, its tier
  and the host it was granted on; its epoch never falls; its phase is the same or further
  along the state machine, and once it is terminal it is terminal for good, so capacity given
  back is never silently taken again. A holder of an older epoch is refused by every
  operation that names one, at every later time: no release, renewal, binding or transition
  of a fenced process can land, however late it arrives.
\<close>

theorem lease_life_moves_forward:
  assumes "allocOK a" and "ledgerOK d" and "deploymentRun a es d d'" and "findLease d i = Some r"
  shows "\<exists>r'. findLease d' i = Some r' \<and> r_tier r' = r_tier r \<and> r_target r' = r_target r \<and> r_epoch r \<le> r_epoch r'
    \<and> (r_phase r' = r_phase r \<or> walk (r_phase r) (r_phase r') \<or> Terminal (r_phase r) \<and> Terminal (r_phase r'))
    \<and> (\<forall>e < r_epoch r.
        Assign a now run request i e d' = Inl ErrFenced \<and> Advance a now to_phase i e d' = Inl ErrFenced
        \<and> (node \<noteq> [] \<longrightarrow> Bind a node i e d' = Inl ErrFenced)
        \<and> (Terminal outcome \<longrightarrow> Release now outcome i e d' = Inl ErrFenced)
        \<and> (reasonAllowed why \<longrightarrow> MarkFailure now why i e d' = Inl ErrFenced \<and> ReleaseFailed now why i e d' = Inl ErrFenced)
        \<and> (nameable i \<longrightarrow> Heartbeat a now i e d' = Inl ErrFenced)
        \<and> ResizeLeaving a it v m protect i e d' = Inl ErrFenced)"
proof -
  obtain r' where r': "findLease d' i = Some r'" "rowKept r r'" using run_findLease [OF assms(3,1,2,4)] by blast
  have "e < r_epoch r'" if "e < r_epoch r" for e using r'(2) that by (simp add: rowKept_def)
  then show ?thesis
    using r' assign.holder_refused [OF TrueI r'(1)] advance.holder_refused [OF TrueI r'(1)] bind.holder_refused [OF _ r'(1)]
      release.holder_refused [OF _ r'(1)] markFailure.holder_refused [OF _ r'(1)] releaseFailed.holder_refused [OF _ r'(1)]
      heartbeat.holder_refused [OF _ r'(1)] resize.holder_refused [OF TrueI r'(1)]
    by (intro exI [of _ r']) (simp add: rowKept_def phaseKept_def)
qed

theorem lease_life_moves_forward_witness:
  "\<exists>d'. deploymentRun sampleAlloc [Working, Granted] sampleLedger d'
     \<and> Assign sampleAlloc 300 1 1 ''l1'' 0 d' = Inl ErrFenced"
proof -
  obtain d' where r: "deploymentRun sampleAlloc [Working, Granted] sampleLedger d'" using sample_run by blast
  have f: "findLease sampleLedger ''l1'' = Some (sampleLease ''l1'' ''big'' ''alpha'' PhaseBusy)"
    by (simp add: findLease_def sample_defs)
  from lease_life_moves_forward [OF sample_OK(1,2) r f, where now = 300 and run = 1 and request = 1
      and to_phase = PhaseDone and node = "''x''" and outcome = PhaseDone and why = "''x''" and it = "[]"
      and v = 1 and m = 1 and protect = "[]"]
  have "\<forall>e < r_epoch (sampleLease ''l1'' ''big'' ''alpha'' PhaseBusy). Assign sampleAlloc 300 1 1 ''l1'' e d' = Inl ErrFenced"
    by blast
  then show ?thesis using r by (intro exI [of _ d']) (simp add: sampleLease_def)
qed

section \<open>Draining\<close>

lemma step_sealed:
  assumes "allocOK a" and "ledgerOK d" and "deploymentStep a ev d d'" and "admission d \<noteq> AdmissionOpen" and "ev \<noteq> Resuming"
  shows "admission d' \<noteq> AdmissionOpen"
  using assms(3,2)
proof (cases rule: deploymentStep_cases)
  case (granted now tier gs)
  then show ?thesis using granted_writes [OF assms(1,2)] assms(4) by (metis addLeases_fields(6))
next
  case (moved now t am)
  then show ?thesis using admissionTransition_result(2) [OF moved(1)] assms(4,5) by auto
qed (use assms(4) ResizeLeaving_rows(3) [OF assms(2)] RegisterNode_row(6) in \<open>auto simp: tame_def\<close>)

text \<open>
  C26. A sealed deployment only drains. Until somebody resumes it, over any run: admission
  stays closed; every lease open afterwards was open before, at the same id, so the number of
  open leases never grows; and a deployment that once reported itself quiet still does.
\<close>

theorem sealed_deployment_only_drains:
  assumes "allocOK a" and "ledgerOK d" and "deploymentRun a es d d'" and "admission d \<noteq> AdmissionOpen"
    and "Resuming \<notin> set es"
  shows "admission d' \<noteq> AdmissionOpen
    \<and> (\<forall>r' \<in> set (leases d'). isOpen r' \<longrightarrow> (\<exists>r \<in> set (leases d). isOpen r \<and> r_id r = r_id r' \<and> r_tier r = r_tier r'))
    \<and> u_leases (TotalUsage (leases d')) \<le> u_leases (TotalUsage (leases d))
    \<and> (Quiet (readQuiescence d) \<longrightarrow> Quiet (readQuiescence d'))"
proof -
  have run: "admission d' \<noteq> AdmissionOpen \<and> list_all2 rowKept (leases d) (leases d')"
    using assms(3,2,4,5)
  proof (induction rule: deploymentRun.induct)
    case (nothing d)
    then show ?case by (simp add: list.rel_refl_strong)
  next
    case (more es d d1 ev d2)
    have ih: "admission d1 \<noteq> AdmissionOpen" "list_all2 rowKept (leases d) (leases d1)" "ev \<noteq> Resuming"
      using more by auto
    have ok: "ledgerOK d1" using run_ledgerOK [OF more.hyps(1) assms(1)] more.prems by blast
    obtain kept new where "leases d2 = kept @ new" "list_all2 rowKept (leases d1) kept" "new = []"
      using step_leases [OF assms(1) ok more.hyps(2)] ih(1) by metis
    then show ?case
      using step_sealed [OF assms(1) ok more.hyps(2) ih(1,3)] ih(2) list_all2_trans [OF rowKept_trans] by auto
  qed
  have opn: "isOpen r" if "rowKept r r'" "isOpen r'" for r r'
    using that phaseKept_Terminal by (auto simp: isOpen_def rowKept_def)
  have "sum_where isOpen (\<lambda>_. 1) (leases d') \<le> sum_where isOpen (\<lambda>_. 1) (leases d)"
    by (rule list_all2_sum_le [OF run [THEN conjunct2]]) (use opn in auto)
  moreover have "\<exists>r \<in> set (leases d). isOpen r \<and> r_id r = r_id r' \<and> r_tier r = r_tier r'"
    if o: "r' \<in> set (leases d')" "isOpen r'" for r'
  proof -
    obtain r where "r \<in> set (leases d)" "rowKept r r'" using list_all2_source [OF run [THEN conjunct2] o(1)] by blast
    then show ?thesis using opn o(2) by (intro bexI [of _ r]) (simp_all add: rowKept_def)
  qed
  moreover have "Quiet (readQuiescence e) \<longleftrightarrow> admission e \<noteq> AdmissionOpen \<and> (\<forall>r \<in> set (leases e). \<not> isOpen r)" for e
    by (auto simp: Quiet_def readQuiescence_def Sealed_def ReadAdmission_def ListOutstandingLeases_def phases_listed isOpen_def
        filter_empty_conv)
  ultimately show ?thesis using run by (auto simp: count_where_sum)
qed

text \<open>
  The sample deployment, sealed: a pass of the reaper ends the lease nobody had started and
  keeps the charge of the one that may still run. And one that was quiet stays so.
\<close>

theorem sealed_deployment_only_drains_witness:
  "\<exists>d' e'. deploymentRun sampleAlloc [Working] (sampleLedger\<lparr>admission := AdmissionSealed\<rparr>) d'
     \<and> map r_phase (leases d') = [PhaseQuarantine, PhaseFailed] \<and> admission d' \<noteq> AdmissionOpen
     \<and> u_leases (TotalUsage (leases d')) \<le> 2
     \<and> deploymentRun sampleAlloc [Working] quietLedger e' \<and> Quiet (readQuiescence e')"
proof -
  let ?d = "sampleLedger\<lparr>admission := AdmissionSealed\<rparr>"
  have reap: "deploymentRun sampleAlloc [Working] d (snd (Reap 200 d))" for d
    by (rule deploymentRun.more [OF deploymentRun.nothing deploymentStep.reap])
  have ok: "ledgerOK ?d" "ledgerOK quietLedger" by (simp_all add: quietLedger_def sample_defs ledgerOK_def)
  have closed: "admission ?d \<noteq> AdmissionOpen" "admission quietLedger \<noteq> AdmissionOpen" by (simp_all add: quietLedger_def)
  have "u_leases (TotalUsage (leases ?d)) = 2" "map r_phase (leases (snd (Reap 200 ?d))) = [PhaseQuarantine, PhaseFailed]"
    "Quiet (readQuiescence quietLedger)" by code_simp+
  then show ?thesis
    using sealed_deployment_only_drains [OF sample_OK(1) ok(1) reap closed(1)]
      sealed_deployment_only_drains [OF sample_OK(1) ok(2) reap closed(2)] reap [of ?d] reap [of quietLedger]
    by (intro exI [of _ "snd (Reap 200 ?d)"] exI [of _ "snd (Reap 200 quietLedger)"]) auto
qed

end
