(* ===== verification/Capacity_Spec.thy ===== *)
theory Capacity_Spec
  imports Deployment_Safety
begin

text \<open>
  What the allocator promises, without how it keeps it: a pot of capacity. Its state is what
  is charged (to which host, how much), how large the hosts are, and whether the pot is open.
  It takes, gives back, changes a charge, learns a host's size and opens or closes; a take or
  a change stays within the ceiling and within the hosts. The control plane refines it: read
  through \<open>capacityOf\<close>, every operation on the ledger is one step of the pot.
\<close>

section \<open>The pot\<close>

record charge =
  ch_host :: string
  ch_vcpu :: int
  ch_memory :: int
  ch_macOS :: bool

record capacity =
  cap_charges :: "string \<rightharpoonup> charge"
  cap_hosts :: "string \<rightharpoonup> int \<times> int"
  cap_open :: bool

definition chargedSum :: "(charge \<Rightarrow> bool) \<Rightarrow> (charge \<Rightarrow> int) \<Rightarrow> (string \<rightharpoonup> charge) \<Rightarrow> int" where
  "chargedSum P f m = (\<Sum>i \<in> {i. \<exists>c. m i = Some c \<and> P c}. f (the (m i)))"

text \<open>Nothing rises above a limit: neither in the deployment nor on any host.\<close>

definition withinLimits :: "Allocator \<Rightarrow> (string \<rightharpoonup> int \<times> int) \<Rightarrow> (string \<rightharpoonup> charge) \<Rightarrow> (string \<rightharpoonup> charge) \<Rightarrow> bool" where
  "withinLimits a hosts m m' \<longleftrightarrow>
     chargedSum (\<lambda>_. True) ch_vcpu m' \<le> max (chargedSum (\<lambda>_. True) ch_vcpu m) (l_maxVCPU (a_limits a))
     \<and> chargedSum (\<lambda>_. True) ch_memory m' \<le> max (chargedSum (\<lambda>_. True) ch_memory m) (l_maxMemory (a_limits a))
     \<and> (\<forall>h v b. hosts h = Some (v, b) \<longrightarrow>
          chargedSum (\<lambda>c. ch_host c = h) ch_vcpu m' \<le> max (chargedSum (\<lambda>c. ch_host c = h) ch_vcpu m) v
          \<and> chargedSum (\<lambda>c. ch_host c = h) ch_memory m' \<le> max (chargedSum (\<lambda>c. ch_host c = h) ch_memory m) b
          \<and> chargedSum (\<lambda>c. ch_host c = h \<and> ch_macOS c) (\<lambda>_. 1) m'
              \<le> max (chargedSum (\<lambda>c. ch_host c = h \<and> ch_macOS c) (\<lambda>_. 1) m) (macOSLimit a h))"

inductive capacityStep :: "Allocator \<Rightarrow> deploymentEvent \<Rightarrow> capacity \<Rightarrow> capacity \<Rightarrow> bool" for a where
  takes: "\<lbrakk>dom new \<inter> dom (cap_charges s) = {}; new \<noteq> Map.empty \<Longrightarrow> cap_open s;
     \<forall>i c. new i = Some c \<longrightarrow> ch_host c \<in> dom (cap_hosts s) \<and> 0 < ch_vcpu c \<and> 0 < ch_memory c;
     withinLimits a (cap_hosts s) (cap_charges s) (cap_charges s ++ new)\<rbrakk>
   \<Longrightarrow> capacityStep a Granted s (s\<lparr>cap_charges := cap_charges s ++ new\<rparr>)"
| givesBack: "ev = Working \<or> (\<exists>pe. ev = Pooling pe) \<Longrightarrow> capacityStep a ev s (s\<lparr>cap_charges := cap_charges s |` keep\<rparr>)"
| changes: "\<lbrakk>cap_charges s i = Some c; withinLimits a (cap_hosts s) (cap_charges s) ((cap_charges s)(i \<mapsto> c\<lparr>ch_vcpu := v, ch_memory := b\<rparr>))\<rbrakk>
   \<Longrightarrow> capacityStep a Working s (s\<lparr>cap_charges := (cap_charges s)(i \<mapsto> c\<lparr>ch_vcpu := v, ch_memory := b\<rparr>)\<rparr>)"
| learns: "capacityStep a (RegisteredNode h) s (s\<lparr>cap_hosts := (cap_hosts s)(h \<mapsto> (v, b))\<rparr>)"
| closes: "(now \<longrightarrow> cap_open s) \<Longrightarrow> capacityStep a Sealing s (s\<lparr>cap_open := now\<rparr>)"
| opens: "(cap_open s \<longrightarrow> now) \<Longrightarrow> capacityStep a Resuming s (s\<lparr>cap_open := now\<rparr>)"

inductive capacityRun :: "Allocator \<Rightarrow> deploymentEvent list \<Rightarrow> capacity \<Rightarrow> capacity \<Rightarrow> bool" for a where
  nothing: "capacityRun a [] s s"
| more: "capacityRun a es s s' \<Longrightarrow> capacityStep a ev s' s'' \<Longrightarrow> capacityRun a (ev # es) s s''"

section \<open>The ledger as a pot\<close>

definition chargeOf :: "LeaseRow \<Rightarrow> charge" where
  "chargeOf r = \<lparr>ch_host = attributedTo r, ch_vcpu = r_vcpu r, ch_memory = r_memory r, ch_macOS = r_macosSlot r\<rparr>"

definition chargesOf :: "LeaseRow list \<Rightarrow> string \<rightharpoonup> charge" where
  "chargesOf rs i = (case find (\<lambda>r. r_id r = i) rs of
     None \<Rightarrow> None | Some r \<Rightarrow> if isOpen r then Some (chargeOf r) else None)"

definition capacityOf :: "Ledger \<Rightarrow> capacity" where
  "capacityOf d = \<lparr>cap_charges = chargesOf (leases d),
     cap_hosts = (\<lambda>h. map_option (\<lambda>n. (n_vcpu n, n_memory n)) (findNode d h)), cap_open = (admission d = AdmissionOpen)\<rparr>"

lemma charge_sel [simp]:
  "ch_host (chargeOf r) = attributedTo r" "ch_vcpu (chargeOf r) = r_vcpu r" "ch_memory (chargeOf r) = r_memory r"
  "ch_macOS (chargeOf r) = r_macosSlot r"
  by (simp_all add: chargeOf_def)

lemma capacity_sel [simp]:
  "cap_charges (capacityOf d) = chargesOf (leases d)" "cap_open (capacityOf d) \<longleftrightarrow> admission d = AdmissionOpen"
  "cap_hosts (capacityOf d) h = map_option (\<lambda>n. (n_vcpu n, n_memory n)) (findNode d h)"
  by (simp_all add: capacityOf_def)

lemma chargesOf_row:
  "distinct (map r_id rs) \<Longrightarrow> r \<in> set rs \<Longrightarrow> chargesOf rs (r_id r) = (if isOpen r then Some (chargeOf r) else None)"
  by (simp add: chargesOf_def find_distinct)

lemma chargesOf_Some:
  "chargesOf rs i = Some c \<Longrightarrow> \<exists>r \<in> set rs. r_id r = i \<and> isOpen r \<and> c = chargeOf r"
  by (auto simp: chargesOf_def find_Some_iff split: option.splits if_splits)

lemma chargedSum_rows:
  assumes "distinct (map r_id rs)"
  shows "chargedSum P f (chargesOf rs) = sum_where (\<lambda>r. isOpen r \<and> P (chargeOf r)) (\<lambda>r. f (chargeOf r)) rs"
proof -
  let ?S = "{r \<in> set rs. isOpen r \<and> P (chargeOf r)}"
  have inj: "inj_on r_id ?S" using assms by (auto simp: distinct_map inj_on_def)
  have "{i. \<exists>c. chargesOf rs i = Some c \<and> P c} = r_id ` ?S"
    using chargesOf_Some chargesOf_row [OF assms] by (fastforce simp: image_iff)
  then have "chargedSum P f (chargesOf rs) = (\<Sum>r \<in> ?S. f (the (chargesOf rs (r_id r))))"
    unfolding chargedSum_def by (simp add: sum.reindex [OF inj])
  also have "\<dots> = (\<Sum>r \<in> ?S. f (chargeOf r))" by (rule sum.cong) (auto simp: chargesOf_row [OF assms])
  also have "\<dots> = sum_where (\<lambda>r. isOpen r \<and> P (chargeOf r)) (\<lambda>r. f (chargeOf r)) rs"
    using assms unfolding sum_where_def
    by (subst sum_list_distinct_conv_sum_set) (auto simp: distinct_map)
  finally show ?thesis .
qed

lemma ledger_withinLimits:
  assumes "allocOK a" and "ledgerOK d" and "deploymentStep a ev d d'" and "\<forall>r \<in> set (leases d). rowPlaced r"
  shows "withinLimits a (cap_hosts (capacityOf d)) (chargesOf (leases d)) (chargesOf (leases d'))"
proof -
  have ids: "distinct (map r_id (leases d))" "distinct (map r_id (leases d'))"
    using assms(2) step_ledgerOK [OF assms(1-3)] by (simp_all add: ledgerOK_def)
  note sums = chargedSum_rows [OF ids(1)] chargedSum_rows [OF ids(2)]
  have "hostWithin a h n d d'" if "findNode d h = Some n" for h n by (rule step_host [OF assms that])
  then show ?thesis
    using step_ceiling [OF assms(1-3)]
    by (auto simp: withinLimits_def sums hostWithin_def count_where_sum conj_assoc)
qed


section \<open>Every operation is a step of the pot\<close>

lemma tame_hosts: "tame d d' \<Longrightarrow> cap_hosts (capacityOf d') = cap_hosts (capacityOf d)"
proof
  fix h assume "tame d d'"
  then have "list_all2 nodeKept (nodes d) (nodes d')" by (simp add: tame_def)
  then have "map_option (\<lambda>n. (n_vcpu n, n_memory n)) (find (\<lambda>n. n_name n = h) (nodes d'))
      = map_option (\<lambda>n. (n_vcpu n, n_memory n)) (find (\<lambda>n. n_name n = h) (nodes d))"
    by (induction rule: list_all2_induct) (auto simp: nodeKept_def)
  then show "cap_hosts (capacityOf d') h = cap_hosts (capacityOf d) h" by (simp add: findNode_def)
qed

lemma tame_charges:
  assumes "tame d d'" and "\<forall>r \<in> set (leases d). rowPlaced r"
  shows "\<exists>keep. chargesOf (leases d') = chargesOf (leases d) |` keep"
proof -
  let ?keep = "dom (chargesOf (leases d'))"
  have rows: "list_all2 rowTame (leases d) (leases d')" using assms(1) by (simp add: tame_def)
  have "chargesOf rs' i = (if i \<in> dom (chargesOf rs') then chargesOf rs i else None)"
    if "list_all2 rowTame rs rs'" "\<forall>r \<in> set rs. rowPlaced r" for rs rs' i
    using that
  proof (induction rule: list_all2_induct)
    case (Cons r rs r' rs')
    have r: "r_id r' = r_id r" "chargeOf r' = chargeOf r" "isOpen r' \<longrightarrow> isOpen r"
      using Cons.hyps(1) rowKept_attributed [of r r'] Cons.prems phaseKept_Terminal [of "r_phase r" "r_phase r'"]
      by (auto simp: rowTame_def rowKept_def chargeOf_def isOpen_def)
    then show ?case using Cons.IH Cons.prems by (auto simp: chargesOf_def split: if_splits option.splits)
  qed (simp add: chargesOf_def)
  from this [OF rows assms(2)] show ?thesis by (intro exI [of _ ?keep]) (auto simp: restrict_map_def)
qed

lemma granted_charges:
  assumes "allocOK a" and "ledgerOK d" and "granted a now tier d gs d'"
  shows "\<exists>new. chargesOf (leases d') = chargesOf (leases d) ++ new \<and> dom new \<inter> dom (chargesOf (leases d)) = {}
    \<and> (new \<noteq> Map.empty \<longrightarrow> admission d = AdmissionOpen)
    \<and> (\<forall>i c. new i = Some c \<longrightarrow> ch_host c \<in> dom (cap_hosts (capacityOf d)) \<and> 0 < ch_vcpu c \<and> 0 < ch_memory c)"
proof -
  note w = granted_writes [OF assms]
  let ?new = "chargesOf (map fst gs)"
  have ls: "leases d' = leases d @ map fst gs" using w by (metis addLeases_fields(1))
  have ids: "distinct (map r_id (leases d @ map fst gs))" using w ls by simp
  have apart: "i \<notin> set (map r_id (leases d)) \<or> i \<notin> set (map r_id (map fst gs))" for i using ids by auto
  have none: "chargesOf rs i = None" if "i \<notin> set (map r_id rs)" for rs i
    using that chargesOf_Some by (cases "chargesOf rs i") fastforce+
  have split: "chargesOf (leases d @ map fst gs) i = (chargesOf (leases d) ++ ?new) i" for i
  proof (cases "find (\<lambda>r. r_id r = i) (leases d)")
    case None
    then have "i \<notin> set (map r_id (leases d))" by (auto simp: find_None_iff)
    then show ?thesis using None none [of i "leases d"] by (simp add: chargesOf_def find_append map_add_def split: option.splits)
  next
    case (Some r)
    then have "i \<in> set (map r_id (leases d))" by (auto simp: find_Some_iff)
    then have "?new i = None" using apart none by blast
    then show ?thesis using Some by (simp add: chargesOf_def find_append map_add_def)
  qed
  have dom: "dom ?new \<inter> dom (chargesOf (leases d)) = {}"
  proof -
    have "?new i = None \<or> chargesOf (leases d) i = None" for i
      using apart [of i] none [of i "leases d"] none [of i "map fst gs"] by argo
    then show ?thesis unfolding dom_def by (metis (mono_tags, lifting) disjoint_iff mem_Collect_eq)
  qed
  have each: "ch_host c \<in> dom (cap_hosts (capacityOf d)) \<and> 0 < ch_vcpu c \<and> 0 < ch_memory c \<and> admission d = AdmissionOpen"
    if c: "?new i = Some c" for i c
  proof -
    obtain r where r: "r \<in> set (map fst gs)" "c = chargeOf r" using chargesOf_Some [OF c] by blast
    then obtain g where g: "g \<in> set gs" "c = chargeOf (fst g)" by auto
    obtain t where t: "tierOf a tier = Some t" using granted_bought [OF assms(1,3)] by metis
    obtain node where n: "node \<in> set (nodes d)" "r_target (fst g) = Some (n_name node)"
      using granted_placed [OF assms t g(1)] by blast
    have "findNode d (n_name node) = Some node" by (rule findNode_distinct [OF assms(2) n(1)])
    moreover have "r_node (fst g) = None" "admission d = AdmissionOpen" using granted_unbound [OF assms g(1)] by simp_all
    moreover have "0 < r_vcpu (fst g) \<and> 0 < r_memory (fst g)" using w g(1) by blast
    ultimately show ?thesis unfolding g(2) using n(2) by (simp add: attributedTo_def coalesceNode_def domIff)
  qed
  have "admission d = AdmissionOpen" if some: "?new \<noteq> Map.empty"
  proof -
    obtain i c where "?new i = Some c" using some by (auto simp: fun_eq_iff)
    from each [OF this] show ?thesis by simp
  qed
  moreover have "chargesOf (leases d') = chargesOf (leases d) ++ ?new" unfolding ls using split by (rule ext)
  ultimately show ?thesis using dom each by (intro exI [of _ ?new]) blast
qed

lemma resize_charges:
  assumes "ledgerOK d" and "ResizeLeaving a it v m protect i e d = Inr d'" and "d' \<noteq> d"
  shows "\<exists>c. chargesOf (leases d) i = Some c \<and> chargesOf (leases d') = (chargesOf (leases d))(i \<mapsto> c\<lparr>ch_vcpu := v, ch_memory := m\<rparr>)"
proof -
  obtain l price where l: "load d i e = Inr l" "r_phase l = PhaseLaunching" "d' = ResizeLease v m it price i e d"
    using ResizeLeaving_changes [OF assms(2,3)] by metis
  let ?f = "\<lambda>r. r\<lparr>r_vcpu := v, r_memory := m, r_instanceType := it, r_price := price\<rparr>"
  have f: "findLease d i = Some l" "r_epoch l = e" using l(1) by (auto simp: load_Inr)
  have open_l: "isOpen l" using l(2) by (simp add: isOpen_def Terminal_def)
  have at: "attributedTo (?f r) = attributedTo r" "isOpen (?f r) = isOpen r" for r
    by (simp_all add: isOpen_def attributedTo_def coalesceNode_def split: option.splits)
  have ls: "leases d' = map (\<lambda>r. if atEpoch i e r then ?f r else r) (leases d)"
    by (simp add: l(3) ResizeLease_def upd_where_def)
  have find: "find (\<lambda>r. r_id r = j) (leases d') = map_option (\<lambda>r. if atEpoch i e r then ?f r else r) (findLease d j)" for j
    unfolding ls findLease_def by (rule find_map_same) (simp add: atEpoch_def)
  have "chargesOf (leases d') j = ((chargesOf (leases d))(i \<mapsto> (chargeOf l)\<lparr>ch_vcpu := v, ch_memory := m\<rparr>)) j" for j
  proof (cases "j = i")
    case True
    then show ?thesis using f open_l findLease_Some [OF f(1)] by (simp add: chargesOf_def find atEpoch_def at chargeOf_def)
  next
    case False
    have "\<not> atEpoch i e r" if "findLease d j = Some r" for r using findLease_Some [OF that] False by (simp add: atEpoch_def)
    then show ?thesis using False unfolding chargesOf_def find by (auto simp: findLease_def split: option.splits)
  qed
  moreover have "chargesOf (leases d) i = Some (chargeOf l)" using f(1) open_l by (simp add: chargesOf_def findLease_def)
  ultimately show ?thesis by blast
qed

lemma resuming_opens: "deploymentStep a Resuming d d' \<Longrightarrow> admission d = AdmissionOpen \<Longrightarrow> admission d' = AdmissionOpen"
  by (erule deploymentStep.cases)
     (auto simp: ResumeAdmission_def admissionTransition_def SetAdmission_def Let_def split: if_splits)


lemma step_refines:
  assumes "allocOK a" and "ledgerOK d" and "deploymentStep a ev d d'" and "\<forall>r \<in> set (leases d). rowPlaced r"
  shows "capacityStep a ev (capacityOf d) (capacityOf d')"
  using assms(3,2)
proof (cases rule: deploymentStep_cases)
  case (granted now tier gs)
  obtain new where n: "chargesOf (leases d') = chargesOf (leases d) ++ new" "dom new \<inter> dom (chargesOf (leases d)) = {}"
    "new \<noteq> Map.empty \<longrightarrow> admission d = AdmissionOpen"
    "\<forall>i c. new i = Some c \<longrightarrow> ch_host c \<in> dom (cap_hosts (capacityOf d)) \<and> 0 < ch_vcpu c \<and> 0 < ch_memory c"
    using granted_charges [OF assms(1,2) granted(2)] by blast
  have same: "nodes d' = nodes d" "admission d' = admission d"
    using granted_writes [OF assms(1,2) granted(2)] by (metis addLeases_fields(2), metis addLeases_fields(6))
  then have "capacityOf d' = (capacityOf d)\<lparr>cap_charges := cap_charges (capacityOf d) ++ new\<rparr>"
    by (simp add: capacityOf_def n(1) findNode_def)
  then show ?thesis
    using capacityStep.takes [of new "capacityOf d" a] n ledger_withinLimits [OF assms] granted(1) by simp
next
  case (resized it v m protect i e)
  show ?thesis
  proof (cases "d' = d")
    case True
    have "capacityStep a Working (capacityOf d) ((capacityOf d)\<lparr>cap_charges := cap_charges (capacityOf d) |` UNIV\<rparr>)"
      by (rule capacityStep.givesBack) simp
    then show ?thesis using True resized(1) by (simp add: capacityOf_def restrict_map_def)
  next
    case False
    obtain c where c: "chargesOf (leases d) i = Some c"
      "chargesOf (leases d') = (chargesOf (leases d))(i \<mapsto> c\<lparr>ch_vcpu := v, ch_memory := m\<rparr>)"
      using resize_charges [OF assms(2) resized(2) False] by blast
    have "capacityOf d' = (capacityOf d)\<lparr>cap_charges := (cap_charges (capacityOf d))(i \<mapsto> c\<lparr>ch_vcpu := v, ch_memory := m\<rparr>)\<rparr>"
      using ResizeLeaving_rows(2,3) [OF assms(2) resized(2)] by (simp add: capacityOf_def c(2) findNode_def)
    then show ?thesis
      using capacityStep.changes [of "capacityOf d" i c a m v] c ledger_withinLimits [OF assms] resized(1) by simp
  qed
next
  case (registered now reg e)
  let ?n = "(registeredRow now reg d (case findNode d (g_name reg) of None \<Rightarrow> freshNode | Some n \<Rightarrow> n))\<lparr>n_epoch := e\<rparr>"
  note r = RegisterNode_row [OF registered(2)]
  have "cap_hosts (capacityOf d') = (cap_hosts (capacityOf d))(g_name reg \<mapsto> (n_vcpu ?n, n_memory ?n))"
    using r(1,4) by (auto simp: fun_eq_iff)
  then have "capacityOf d' = (capacityOf d)\<lparr>cap_hosts := (cap_hosts (capacityOf d))(g_name reg \<mapsto> (n_vcpu ?n, n_memory ?n))\<rparr>"
    using r(5,6) by (simp add: capacityOf_def)
  then show ?thesis using capacityStep.learns registered(1) by simp
next
  case (moved now t am)
  note m = admissionTransition_result [OF moved(1)]
  have "capacityOf d' = (capacityOf d)\<lparr>cap_open := (admission d' = AdmissionOpen)\<rparr>"
    using m(3,4) by (simp add: capacityOf_def findNode_def)
  moreover have "admission d' = AdmissionOpen \<longrightarrow> admission d = AdmissionOpen" if "ev = Sealing"
    using moved(2) m(2) that by auto
  moreover have "admission d = AdmissionOpen \<longrightarrow> admission d' = AdmissionOpen" if "ev = Resuming"
    using resuming_opens assms(3) that by blast
  ultimately show ?thesis using moved(2) by (auto intro!: capacityStep.closes capacityStep.opens)
next
  case tame
  obtain keep where "chargesOf (leases d') = chargesOf (leases d) |` keep" using tame_charges [OF tame(2) assms(4)] by blast
  then have "capacityOf d' = (capacityOf d)\<lparr>cap_charges := cap_charges (capacityOf d) |` keep\<rparr>"
    using tame_hosts [OF tame(2)] tame(2) by (simp add: capacityOf_def tame_def)
  then show ?thesis using capacityStep.givesBack [OF tame(1), of a "capacityOf d" keep] by simp
qed

text \<open>
  C5. The control plane implements a pot of capacity. Read as what it charges to whom, how
  large its hosts are and whether it is open, every run of the ledger's operations is a run of
  the abstract pot, event by event: only a grant adds charges, and only to registered hosts,
  while admission is open and within the ceiling and the hosts' sizes; only a resize changes
  one, within the same limits and on the same host; everything else leaves the charges as they
  are or gives some back; only a registration changes a host's size.
\<close>

theorem deployment_refines_capacity:
  assumes "allocOK a" and "ledgerOK d" and "\<forall>r \<in> set (leases d). rowPlaced r" and "deploymentRun a es d d'"
  shows "capacityRun a es (capacityOf d) (capacityOf d')"
proof -
  have "capacityRun a es (capacityOf d) (capacityOf d') \<and> ledgerOK d' \<and> (\<forall>r \<in> set (leases d'). rowPlaced r)"
    using assms(4,2,3)
  proof (induction rule: deploymentRun.induct)
    case (nothing d)
    then show ?case by (simp add: capacityRun.nothing)
  next
    case (more es d d1 ev d2)
    then have ih: "capacityRun a es (capacityOf d) (capacityOf d1)" "ledgerOK d1" "\<forall>r \<in> set (leases d1). rowPlaced r"
      by simp_all
    then show ?case
      using capacityRun.more [OF ih(1) step_refines [OF assms(1) ih(2) more.hyps(2) ih(3)]]
        step_ledgerOK [OF assms(1) ih(2) more.hyps(2)] step_placed [OF assms(1) ih(2) more.hyps(2) ih(3)] by blast
  qed
  then show ?thesis ..
qed

theorem deployment_refines_capacity_witness:
  "\<exists>d'. deploymentRun sampleAlloc [Working, Granted] sampleLedger d' \<and> length (leases d') = 5
     \<and> capacityRun sampleAlloc [Working, Granted] (capacityOf sampleLedger) (capacityOf d')"
proof -
  obtain d' where r: "deploymentRun sampleAlloc [Working, Granted] sampleLedger d'" "length (leases d') = 5"
    using sample_run by blast
  have p: "\<forall>r \<in> set (leases sampleLedger). rowPlaced r"
    by (simp add: sample_defs rowPlaced_def leaseTarget_def requiresPlacement_def)
  show ?thesis using deployment_refines_capacity [OF sample_OK(1,2) p r(1)] r by blast
qed

end
