(* ===== verification/Pool_Runs.thy ===== *)
theory Pool_Runs
  imports Capacity_Spec
begin

text \<open>
  What credentials and pool orders promise over the whole control plane: the properties are about
  runs of \<open>deploymentStep\<close>, in which the operations of \<open>Pool_Steps\<close> are interleaved with every other
  operation of the allocator. A relation that every step keeps is kept by every run; the locale
  proves that once, and the properties instantiate it.
\<close>

section \<open>What a step leaves of the tables\<close>

lemma touched_kept: "orderTouched p p' \<Longrightarrow> orderKept p p'"
proof -
  assume t: "orderTouched p p'"
  then obtain c s t g where "p' = p\<lparr>po_contradicted := c, po_clearSince := s, po_clearObservedAt := t, po_clearGeneration := g\<rparr>"
    unfolding orderTouched_def by blast
  then show "orderKept p p'" using t by (simp add: orderTouched_def orderKept_def orderTyped_def)
qed

lemma touched_read:
  assumes "sidelines d d'" and "ReadPoolOrder d i = Some p"
  obtains p' where "ReadPoolOrder d' i = Some p'" "orderTouched p p'"
proof -
  have "list_all2 orderTouched ps ps' \<Longrightarrow> find (\<lambda>p. po_orderID p = i) ps = Some p \<Longrightarrow>
      \<exists>p'. find (\<lambda>p. po_orderID p = i) ps' = Some p' \<and> orderTouched p p'" for ps ps'
  proof (induction rule: list_all2_induct)
    case (Cons q qs q' qs')
    have "po_orderID q' = po_orderID q" using touched_kept [OF Cons(1)] by (simp add: orderKept_def)
    then show ?case using Cons by (auto split: if_splits)
  qed simp
  then show ?thesis using assms that unfolding sidelines_def ReadPoolOrder_def by blast
qed

lemma sidelines_rows:
  assumes "sidelines d d'"
  shows "rowsKept d d'"
proof -
  have c: "credentials d' = credentials d" and l: "list_all2 orderTouched (poolOrders d) (poolOrders d')"
    using assms by (simp_all add: sidelines_def)
  have "ordersKept d d'" unfolding ordersKept_def using touched_read [OF assms] touched_kept by metis
  moreover have "ordersOK ps \<longrightarrow> ordersOK ps'" if l: "list_all2 orderTouched ps ps'" for ps ps'
  proof -
    have "po_orderID q' = po_orderID q" if "orderTouched q q'" for q q' using touched_kept [OF that] by (simp add: orderKept_def)
    then have "map po_orderID ps' = map po_orderID ps" by (rule list_all2_keys [OF l])
    moreover have "\<forall>p' \<in> set ps'. \<exists>p \<in> set ps. orderKept p p'" using list_all2_source [OF l] touched_kept by blast
    ultimately show ?thesis by (auto simp: ordersOK_def orderKept_def)
  qed
  ultimately show ?thesis
    using views_cong(1) [OF c] CertRevocation_cong [OF c] l by (simp add: rowsKept_def tokensKept_def revokedKept_def credentialsOK_def c)
qed

text \<open>A step is an operation on credentials and pool orders, or leaves them to the side.\<close>

lemma deploymentStep_tables:
  assumes "allocOK a" and "ledgerOK d" and "deploymentStep a ev d d'"
  obtains (pooled) sha pe where "ev = Pooling pe" "poolStep sha pe d d'"
  | (aside) "\<forall>pe. ev \<noteq> Pooling pe" "sidelines d d'"
  using assms(3,2)
proof (cases rule: deploymentStep_kinds)
  case (granted now tier gs)
  then have "d' = addLeases (map fst gs) d" using granted_writes [OF assms(1,2)] by blast
  then have "sidelines d d'" by (metis sidelines_same addLeases_fields(5,13))
  then show ?thesis using aside granted(1) by simp
next
  case (resized it v m protect i e)
  have "sidelines d d'"
  proof (cases "d' = d")
    case False
    then show ?thesis using ResizeLeaving_changes [OF resized(2) False] by (metis sidelines_same ResizeLease_def updLease_other(4,12))
  qed (simp add: sidelines_same)
  then show ?thesis using aside resized(1) by simp
next
  case (registered now reg e)
  then have "UpsertNodeRegistration now reg d = (e, d')" by (auto simp: RegisterNode_def split: if_splits sum.splits)
  then have "sidelines d d'" by (auto simp: UpsertNodeRegistration_def sidelines_same split: option.splits)
  then show ?thesis using aside registered(1) by simp
next
  case (moved now t am)
  then have "sidelines d d'" by (auto simp: admissionTransition_def SetAdmission_def Let_def sidelines_same split: if_splits)
  then show ?thesis using aside moved(2) by auto
next
  case calm
  then show ?thesis using aside by (simp add: calm_def)
qed (rule pooled)

section \<open>From steps to runs\<close>

locale kept_along =
  fixes calmEvent :: "deploymentEvent \<Rightarrow> bool" and ok :: "Ledger \<Rightarrow> bool" and keeps :: "Ledger \<Rightarrow> Ledger \<Rightarrow> bool"
  assumes keeps_refl: "keeps d d"
    and keeps_trans: "keeps d e \<Longrightarrow> keeps e f \<Longrightarrow> keeps d f"
    and keeps_step: "allocOK a \<Longrightarrow> ledgerOK d \<Longrightarrow> ok d \<Longrightarrow> calmEvent ev \<Longrightarrow> deploymentStep a ev d d' \<Longrightarrow> keeps d d' \<and> ok d'"
begin

lemma along_run:
  assumes "deploymentRun a es d d'" and "allocOK a" and "ledgerOK d" and "ok d" and "\<forall>ev \<in> set es. calmEvent ev"
  shows "keeps d d' \<and> ok d'"
  using assms(1,3-5)
proof (induction rule: deploymentRun.induct)
  case (more es d d1 ev d2)
  have "ledgerOK d1" using run_ledgerOK [OF more.hyps(1) assms(2)] more.prems by blast
  then show ?case using more keeps_step [OF assms(2)] keeps_trans by (metis list.set_intros)
qed (simp add: keeps_refl)

end

lemma rows_step:
  assumes "allocOK a" and "ledgerOK d" and "deploymentStep a ev d d'"
  shows "rowsKept d d'"
  using assms
proof (cases rule: deploymentStep_tables)
  case (pooled sha pe)
  then show ?thesis using poolStep_moved unfolding poolMoved_def by blast
qed (rule sidelines_rows)

interpretation rows: kept_along "\<lambda>_. True" "\<lambda>_. True" rowsKept
  by unfold_locales (auto intro: rowsKept_trans rows_step)

end
