(* ===== verification/Pool_Sample.thy ===== *)
theory Pool_Sample
  imports Deployment Sample
begin

text \<open>
  One rented host from order to release, on which the theorems with hypotheses are applied: the
  order is recorded and placed, its machine joins on the source's word, registers, is asked back,
  answers twice that it is clear, and its release is sealed. Each ledger is what the operation
  answers on the one before it.
\<close>

definition sampleOrder :: OrderRequest where
  "sampleOrder = \<lparr>or_id = ''o1'', or_source = ''rack'', or_scope = ''eu'', or_shape = ''ax'', or_location = ''fsn'', or_arch = ArchX64\<rparr>"

definition sampleAdmission :: PoolAdmission where
  "sampleAdmission = \<lparr>ad_order = ''o1'', ad_fingerprint = ''key'', ad_csr = ''csr'', ad_token = ''tok'', ad_cert = ''pem'',
     ad_serial = ''s1'', ad_notAfter = ''2026-01-01T00:00:00Z'', ad_seen = 0\<rparr>"

definition sampleArrival :: NodeRegistration where
  "sampleArrival = \<lparr>g_name = ''pool-o1'', g_provider = ProviderFirecracker, g_site = ''eu'', g_vcpu = 8, g_memory = 32,
     g_shapes = [], g_architectures = [ArchX64], g_incarnation = ''boot'', g_fleet = [], g_jitPath = [], g_region = [],
     g_release = [], g_digest = [], g_wireMin = 1, g_wireMax = 41, g_wireVersion = 41\<rparr>"

definition sampleAnswer :: "int \<Rightarrow> PoolClearanceObservation" where
  "sampleAnswer asked = \<lparr>ob_order = ''o1'', ob_node = ''pool-o1'', ob_epoch = 1, ob_dispatch = 0, ob_empty = True, ob_running = False,
     ob_askedAt = asked, ob_generation = 0\<rparr>"

definition orderedLedger :: Ledger where
  "orderedLedger = projr (RecordPoolOrder 0 sampleOrder sampleLedger)"

definition tokenLedger :: Ledger where
  "tokenLedger = projr (NewPoolJoinToken (\<lambda>s. s) 0 ''tok'' ''o1'' 100 orderedLedger)"

definition placedLedger :: Ledger where
  "placedLedger = projr (PoolOrderPlaced 0 ''o1'' ''h1'' tokenLedger)"

definition admittedLedger :: Ledger where
  "admittedLedger = snd (AdmitPoolEnrollment (\<lambda>s. s) 1 sampleAdmission placedLedger)"

definition joinedLedger :: Ledger where
  "joinedLedger = snd (projr (RegisterNode 2 sampleArrival admittedLedger))"

definition askedLedger :: Ledger where
  "askedLedger = snd (projr (RequestPoolRelease 3 ''o1'' ''idle'' joinedLedger))"

definition answeredLedger :: Ledger where
  "answeredLedger = RecordPoolClearance 4 (sampleAnswer 3) askedLedger"

definition clearedLedger :: Ledger where
  "clearedLedger = RecordPoolClearance 300000000006 (sampleAnswer 300000000005) answeredLedger"

definition sealedLedger :: Ledger where
  "sealedLedger = snd (projr (SealPoolRelease 300000000007 ''o1'' clearedLedger))"

lemma projr_eq: "\<not> isl r \<Longrightarrow> r = Inr (projr r)" "\<not> isl q \<Longrightarrow> q = Inr (fst (projr q), snd (projr q))"
  by (cases r; simp) (cases q; auto)

lemma sample_steps:
  "RecordPoolOrder 0 sampleOrder sampleLedger = Inr orderedLedger"
  "NewPoolJoinToken (\<lambda>s. s) 0 ''tok'' ''o1'' 100 orderedLedger = Inr tokenLedger"
  "PoolOrderPlaced 0 ''o1'' ''h1'' tokenLedger = Inr placedLedger"
  "RegisterNode 2 sampleArrival admittedLedger = Inr (1, joinedLedger)"
  "RequestPoolRelease 3 ''o1'' ''idle'' joinedLedger = Inr (False, askedLedger)"
  "SealPoolRelease 300000000007 ''o1'' clearedLedger = Inr (\<lparr>pf_host = ''h1'', pf_at = 3, pf_verified = True\<rparr>, sealedLedger)"
proof -
  have "\<not> isl (RecordPoolOrder 0 sampleOrder sampleLedger)" "\<not> isl (NewPoolJoinToken (\<lambda>s. s) 0 ''tok'' ''o1'' 100 orderedLedger)"
    "\<not> isl (PoolOrderPlaced 0 ''o1'' ''h1'' tokenLedger)" by code_simp+
  then show "RecordPoolOrder 0 sampleOrder sampleLedger = Inr orderedLedger"
    "NewPoolJoinToken (\<lambda>s. s) 0 ''tok'' ''o1'' 100 orderedLedger = Inr tokenLedger"
    "PoolOrderPlaced 0 ''o1'' ''h1'' tokenLedger = Inr placedLedger"
    by (simp_all add: projr_eq(1) orderedLedger_def tokenLedger_def placedLedger_def)
  have "\<not> isl (RegisterNode 2 sampleArrival admittedLedger)" "fst (projr (RegisterNode 2 sampleArrival admittedLedger)) = 1" by code_simp+
  then show "RegisterNode 2 sampleArrival admittedLedger = Inr (1, joinedLedger)"
    using projr_eq(2) by (metis joinedLedger_def)
  have "\<not> isl (RequestPoolRelease 3 ''o1'' ''idle'' joinedLedger)" "fst (projr (RequestPoolRelease 3 ''o1'' ''idle'' joinedLedger)) = False"
    by code_simp+
  then show "RequestPoolRelease 3 ''o1'' ''idle'' joinedLedger = Inr (False, askedLedger)"
    using projr_eq(2) by (metis askedLedger_def)
  have "\<not> isl (SealPoolRelease 300000000007 ''o1'' clearedLedger)"
    "fst (projr (SealPoolRelease 300000000007 ''o1'' clearedLedger)) = \<lparr>pf_host = ''h1'', pf_at = 3, pf_verified = True\<rparr>"
    by code_simp+
  then show "SealPoolRelease 300000000007 ''o1'' clearedLedger = Inr (\<lparr>pf_host = ''h1'', pf_at = 3, pf_verified = True\<rparr>, sealedLedger)"
    using projr_eq(2) by (metis sealedLedger_def)
qed

lemma sample_admits:
  "AdmitPoolEnrollment (\<lambda>s. s) 1 sampleAdmission placedLedger = (Inr (the (readEnrollment admittedLedger ''pool-o1'')), admittedLedger)"
  "tokenSpent (\<lambda>s. s) sampleAdmission placedLedger = Some ''tok''" "admittedLedger \<noteq> placedLedger"
  "readEnrollment admittedLedger (PoolNodeName ''o1'') = Some (the (readEnrollment admittedLedger ''pool-o1''))"
proof -
  let ?r = "AdmitPoolEnrollment (\<lambda>s. s) 1 sampleAdmission placedLedger"
  have "\<not> isl (fst ?r)" "projr (fst ?r) = the (readEnrollment admittedLedger ''pool-o1'')" by code_simp+
  then have "fst ?r = Inr (the (readEnrollment admittedLedger ''pool-o1''))" by (metis projr_eq(1))
  then show "?r = (Inr (the (readEnrollment admittedLedger ''pool-o1'')), admittedLedger)"
    unfolding admittedLedger_def by (metis prod.collapse)
  show "tokenSpent (\<lambda>s. s) sampleAdmission placedLedger = Some ''tok''" by code_simp
  have "readEnrollment admittedLedger ''pool-o1'' \<noteq> readEnrollment placedLedger ''pool-o1''" by code_simp
  then show "admittedLedger \<noteq> placedLedger" by metis
  show "readEnrollment admittedLedger (PoolNodeName ''o1'') = Some (the (readEnrollment admittedLedger ''pool-o1''))" by code_simp
qed

text \<open>The runs, newest event first.\<close>

abbreviation "toPlaced \<equiv> [Pooling PoolWork, Pooling PoolWork, Pooling PoolWork]"
abbreviation "toJoined \<equiv> [RegisteredNode ''pool-o1'', Pooling (Vouched ''o1'' ''key'' (Some ''tok'') 1)]"
abbreviation "toCleared \<equiv> [Pooling (Answered 300000000006 (sampleAnswer 300000000005)), Pooling (Answered 4 (sampleAnswer 3)), Pooling PoolWork]"

lemmas pooled_more = deploymentRun.more [OF _ deploymentStep.pooling]

lemma placed_run: "deploymentRun sampleAlloc toPlaced sampleLedger placedLedger"
  by (rule pooled_more [OF pooled_more [OF pooled_more [OF deploymentRun.nothing poolStep.recordOrder [OF sample_steps(1)]]
        poolStep.newPoolToken [OF sample_steps(2)]] poolStep.orderPlaced [OF sample_steps(3)]])

lemma joined_run: "deploymentRun sampleAlloc toJoined placedLedger joinedLedger"
proof -
  have "poolStep (\<lambda>s. s) (Vouched ''o1'' ''key'' (Some ''tok'') 1) placedLedger admittedLedger"
    using poolStep.admit [OF sample_admits(1,3)] sample_admits(4) by (simp add: sampleAdmission_def sample_admits(2) [unfolded sampleAdmission_def])
  moreover have "deploymentStep sampleAlloc (RegisteredNode ''pool-o1'') admittedLedger joinedLedger"
    using deploymentStep.register [OF sample_steps(4)] by (simp add: sampleArrival_def)
  ultimately show ?thesis using deploymentRun.more [OF pooled_more [OF deploymentRun.nothing]] by blast
qed

lemma cleared_run: "deploymentRun sampleAlloc toCleared joinedLedger clearedLedger"
  unfolding clearedLedger_def answeredLedger_def
  by (rule pooled_more [OF pooled_more [OF pooled_more [OF deploymentRun.nothing poolStep.requestRelease [OF sample_steps(5)]]
        poolStep.clearance] poolStep.clearance])

end
