(* ===== verification/Pool_Safety.thy ===== *)
theory Pool_Safety
  imports Pool_Runs Pool_Sample
begin

text \<open>
  What the tables of credentials and pool orders keep over any run: the types of their rows, the
  way an order moves, and how often a join token admits.
\<close>

section \<open>Rows\<close>

text \<open>
  C12. The tables stay typed. Over any run of the control plane: keys stay unique in the tables of
  tokens, enrolments, certificates, revocations and pool orders; a token never has fewer than no
  uses left; every enrolment is pending, approved or denied, and pending exactly while undecided;
  every order is in one of its eight states, has a host in the states that have one, was asked back
  before it was sealed or released, and is linked only to the node that bears its own name.
\<close>

theorem pool_tables_stay_typed:
  assumes "allocOK a" and "ledgerOK d" and "deploymentRun a es d d'" and "credentialsOK d"
  shows "credentialsOK d'"
  using rows.along_run [OF assms(3,1,2)] assms(4) by (simp add: rowsKept_def)

theorem pool_tables_stay_typed_witness: "credentialsOK sampleLedger \<and> credentialsOK placedLedger"
proof -
  have "credentialsOK sampleLedger" by code_simp
  then show ?thesis using pool_tables_stay_typed [OF sample_OK(1) sampleLedger_OK placed_run] by blast
qed

text \<open>
  C11. A pool order only moves forward, and what is recorded of it is not rewritten. Over any run the
  order is still there, with what was ordered unchanged; its state is one that can follow the one it
  was in, so an order that was refused, abandoned or whose host is gone stays so; the host is named
  once; and the node, the key and the certificate it was joined with are never replaced, nor is
  anything linked to an order that was closed without a node.
\<close>

theorem pool_order_moves_forward:
  assumes "allocOK a" and "ledgerOK d" and "deploymentRun a es d d'" and "ReadPoolOrder d i = Some p"
  shows "\<exists>p'. ReadPoolOrder d' i = Some p' \<and> orderKept p p'
    \<and> (po_state p \<in> {PoolRefused, PoolAbandoned, PoolGone} \<longrightarrow> po_state p' = po_state p)"
proof -
  obtain p' where "ReadPoolOrder d' i = Some p'" "orderKept p p'"
    using rows.along_run [OF assms(3,1,2)] assms(4) by (auto simp: rowsKept_def ordersKept_def)
  moreover from this(2) have "po_state p' \<in> set (poolReach (po_state p))" by (simp add: orderKept_def)
  ultimately show ?thesis by (auto simp: poolReach_def)
qed

theorem pool_order_moves_forward_witness:
  "\<exists>p p'. ReadPoolOrder joinedLedger ''o1'' = Some p \<and> po_state p = PoolPlaced \<and> po_nodeName p = ''pool-o1''
     \<and> ReadPoolOrder clearedLedger ''o1'' = Some p' \<and> orderKept p p'"
proof -
  have "case ReadPoolOrder joinedLedger ''o1'' of None \<Rightarrow> False | Some p \<Rightarrow> po_state p = PoolPlaced \<and> po_nodeName p = ''pool-o1''"
    by code_simp
  then obtain p where "ReadPoolOrder joinedLedger ''o1'' = Some p" "po_state p = PoolPlaced" "po_nodeName p = ''pool-o1''"
    by (auto split: option.splits)
  moreover have "ledgerOK joinedLedger" using run_ledgerOK [OF joined_run sample_OK(1) run_ledgerOK [OF placed_run sample_OK(1) sampleLedger_OK]] .
  ultimately show ?thesis using pool_order_moves_forward [OF sample_OK(1) _ cleared_run] by blast
qed

section \<open>Join tokens\<close>

text \<open>When an event spent the token kept under a hash.\<close>

fun spends :: "string \<Rightarrow> deploymentEvent \<Rightarrow> int option" where
  "spends h (Pooling (Spent h' now)) = (if h' = h then Some now else None)"
| "spends h (Pooling (Vouched order fingerprint (Some h') now)) = (if h' = h then Some now else None)"
| "spends h _ = None"

lemma spendTokens_row:
  assumes "spendTokens P d = (n, d1)" and "n \<noteq> 0" and "tokensOK (credentials d)" and "findToken d h = Some t"
    and "\<And>t. P t \<Longrightarrow> jt_sha256 t = h"
  shows "P t" and "findToken d1 h = Some (t\<lparr>jt_uses := jt_uses t - 1\<rparr>)"
proof -
  have "count_where P (joinTokens (credentials d)) = (case findToken d h of None \<Rightarrow> 0 | Some t \<Rightarrow> if P t then 1 else 0)"
    unfolding findToken_def using assms(3) by (intro find_key_count assms(5)) (simp_all add: tokensOK_def)
  then show "P t" using assms(1,2,4) by (auto simp: spendTokens_def split: if_splits)
  then show "findToken d1 h = Some (t\<lparr>jt_uses := jt_uses t - 1\<rparr>)"
    using assms(1,4) findToken_upd [of P "\<lambda>t. t\<lparr>jt_uses := jt_uses t - 1\<rparr>" d h] by (auto simp: spendTokens_def)
qed

lemma spend_row:
  assumes "spendJoinTokenTx sha now token d = Inr d1 \<or> spendPoolJoinTokenTx sha now order token d = Inr d1"
    and "tokensOK (credentials d)" and "findToken d (hashJoinToken sha token) = Some t"
  shows "liveToken now t \<and> findToken d1 (hashJoinToken sha token) = Some (t\<lparr>jt_uses := jt_uses t - 1\<rparr>)"
proof -
  let ?h = "hashJoinToken sha token"
  obtain P n where "spendTokens P d = (n, d1)" "n \<noteq> 0" "\<And>t. P t \<Longrightarrow> jt_sha256 t = ?h \<and> liveToken now t"
    using assms(1) by (auto simp: spendJoinTokenTx_def spendPoolJoinTokenTx_def SpendJoinTokenRow_def SpendPoolJoinToken_def split: if_splits prod.splits)
  then show ?thesis using spendTokens_row [of P d n d1 ?h t] assms(2,3) by blast
qed

lemma spend_then:
  assumes "spendJoinTokenTx sha now token d = Inr d1 \<or> spendPoolJoinTokenTx sha now order token d = Inr d1"
    and "tokensOK (credentials d)" and "findToken d (hashJoinToken sha token) = Some t" and "poolKept d1 d'"
  shows "now < jt_expiresAt t \<and> (\<exists>t'. findToken d' (hashJoinToken sha token) = Some t' \<and> jt_uses t' \<le> jt_uses t - 1)"
proof -
  have "liveToken now t" "findToken d1 (hashJoinToken sha token) = Some (t\<lparr>jt_uses := jt_uses t - 1\<rparr>)"
    using spend_row [OF assms(1-3)] by blast+
  moreover have "tokensKept d1 d'" using assms(4) by (simp add: poolKept_def poolMoved_def rowsKept_def)
  ultimately obtain t' where "findToken d' (hashJoinToken sha token) = Some t'" "tokenKept (t\<lparr>jt_uses := jt_uses t - 1\<rparr>) t'"
    unfolding tokensKept_def by blast
  then show ?thesis using \<open>liveToken now t\<close> by (simp add: tokenKept_def liveToken_def)
qed

lemma spend_step:
  assumes "poolStep sha pe d d'" and "spends h (Pooling pe) = Some now" and "tokensOK (credentials d)" and "findToken d h = Some t"
  shows "now < jt_expiresAt t \<and> (\<exists>t'. findToken d' h = Some t' \<and> jt_uses t' \<le> jt_uses t - 1)"
  using assms(1,2)
proof (cases rule: poolStep.cases)
  case (spendToken now' token)
  then show ?thesis
    using spend_then [of sha now' token d d' _ t d'] assms(2-4) by (auto simp: SpendJoinToken_def split: if_splits)
next
  case (askNew name fingerprint now' csr token e)
  then obtain order d1 where d1: "spendEnrollmentTokenTx sha now' name token d = Inr (order, d1)"
    "requestEnrollmentTx now' name fingerprint csr order d1 = Inr (e, d')"
    by (auto simp: RequestEnrollmentWithToken_def split: if_splits sum.splits)
  have "spendJoinTokenTx sha now' token d = Inr d1 \<or> spendPoolJoinTokenTx sha now' order token d = Inr d1"
    using d1(1) by (auto simp: spendEnrollmentTokenTx_def Let_def split: if_splits option.splits sum.splits prod.splits)
  moreover have "h = hashJoinToken sha token" "now = now'" using assms(2) askNew(1) by (auto split: if_splits)
  ultimately show ?thesis using spend_then [OF _ assms(3) _ requestEnrollmentTx_kept [OF d1(2)]] assms(4) by blast
next
  case (admit now' adm e)
  obtain d1 where admitted: "admitRequest sha now' adm d = Inr (Admitted d1)" "poolKept d1 d'"
    using AdmitPoolEnrollment_admitted [OF admit(2-4)] poolKept_trans recordIssuedCertTx_kept linkPoolNodeTx_kept by metis
  have h: "tokenSpent sha adm d = Some h" "now = now'" using assms(2) admit(1) by (auto split: if_splits elim: spends.elims)
  from admitted(1) show ?thesis
  proof (cases rule: admitRequest_cases)
    case (new d0)
    then have "poolKept d0 d'" using poolKept_trans InsertAdmitted_kept admitted(2) by blast
    then show ?thesis using spend_then [of sha now' "ad_token adm" d d0 "ad_order adm"] new(1,2) h assms(3,4) by (simp add: tokenSpent_def)
  next
    case (replaced e0 d0)
    have "poolKept d0 d'" using poolKept_trans [OF poolKept_trans [OF ReplaceDenied_kept approvePendingPoolTx_kept [OF replaced(4)]] admitted(2)] .
    then show ?thesis using spend_then [of sha now' "ad_token adm" d d0 "ad_order adm"] replaced(1-3) h assms(3,4) by (simp add: tokenSpent_def)
  qed (use h in \<open>simp add: tokenSpent_def\<close>)
qed (use assms(2) in simp_all)

lemma tokenKept_expiry: "tokenKept t t' \<Longrightarrow> jt_expiresAt t' = jt_expiresAt t"
  unfolding tokenKept_def by (metis JoinTokenRow.select_convs(5) JoinTokenRow.surjective JoinTokenRow.update_convs(3))

lemma spends_pool: "spends h ev = Some now \<Longrightarrow> \<exists>pe. ev = Pooling pe"
  by (cases ev) simp_all

lemma spends_run:
  assumes "deploymentRun a es d d'" and "allocOK a" and "ledgerOK d" and "credentialsOK d" and "findToken d h = Some t"
  shows "\<exists>t'. findToken d' h = Some t' \<and> tokenKept t t' \<and> int (length (filter (\<lambda>ev. spends h ev \<noteq> None) es)) \<le> jt_uses t - jt_uses t'
    \<and> (\<forall>ev \<in> set es. \<forall>now. spends h ev = Some now \<longrightarrow> now < jt_expiresAt t)"
  using assms(1,3-5)
proof (induction rule: deploymentRun.induct)
  case (more es d d1 ev d2)
  obtain t1 where t1: "findToken d1 h = Some t1" "tokenKept t t1"
    "int (length (filter (\<lambda>ev. spends h ev \<noteq> None) es)) \<le> jt_uses t - jt_uses t1"
    "\<forall>ev \<in> set es. \<forall>now. spends h ev = Some now \<longrightarrow> now < jt_expiresAt t"
    using more by blast
  have ok: "ledgerOK d1" "tokensOK (credentials d1)"
    using run_ledgerOK [OF more.hyps(1) assms(2)] rows.along_run [OF more.hyps(1) assms(2)] more.prems
    by (simp_all add: rowsKept_def credentialsOK_def)
  obtain t2 where t2: "findToken d2 h = Some t2" "tokenKept t1 t2"
    using rows_step [OF assms(2) ok(1) more.hyps(2)] t1(1) by (auto simp: rowsKept_def tokensKept_def)
  have "now < jt_expiresAt t \<and> jt_uses t2 \<le> jt_uses t1 - 1" if s: "spends h ev = Some now" for now
  proof -
    obtain sha pe where "ev = Pooling pe" "poolStep sha pe d1 d2"
      using deploymentStep_tables [OF assms(2) ok(1) more.hyps(2)] spends_pool [OF s] by metis
    then show ?thesis using spend_step [OF _ _ ok(2) t1(1)] s t2(1) tokenKept_expiry [OF t1(2)] by fastforce
  qed
  then have "int (length (filter (\<lambda>ev. spends h ev \<noteq> None) (ev # es))) \<le> jt_uses t - jt_uses t2
      \<and> (\<forall>ev \<in> set (ev # es). \<forall>now. spends h ev = Some now \<longrightarrow> now < jt_expiresAt t)"
    using t1(3,4) t2(2) by (cases "spends h ev") (auto simp: tokenKept_def)
  then show ?case using t2(1) tokenKept_trans [OF t1(2) t2(2)] by blast
qed auto

text \<open>
  C10. A join token admits no more machines than it has uses, and none once it has expired. Over any
  run, however requests, admissions, retries and retirements interleave: the token is still there
  with the expiry it was made with and uses that are not negative, every time it was spent lies
  before its expiry, and the uses it has lost are at least the times it was spent.
\<close>

theorem join_token_admits_its_uses:
  assumes "allocOK a" and "ledgerOK d" and "credentialsOK d" and "deploymentRun a es d d'" and "findToken d h = Some t"
  shows "\<exists>t'. findToken d' h = Some t' \<and> jt_expiresAt t' = jt_expiresAt t \<and> 0 \<le> jt_uses t'
    \<and> int (length (filter (\<lambda>ev. spends h ev \<noteq> None) es)) \<le> jt_uses t - jt_uses t'
    \<and> (\<forall>ev \<in> set es. \<forall>now. spends h ev = Some now \<longrightarrow> now < jt_expiresAt t)"
proof -
  obtain t' where t': "findToken d' h = Some t'" "tokenKept t t'" "int (length (filter (\<lambda>ev. spends h ev \<noteq> None) es)) \<le> jt_uses t - jt_uses t'"
    "\<forall>ev \<in> set es. \<forall>now. spends h ev = Some now \<longrightarrow> now < jt_expiresAt t"
    using spends_run [OF assms(4,1-3,5)] by blast
  have "tokensOK (credentials d')" using rows.along_run [OF assms(4,1,2)] assms(3) by (simp add: rowsKept_def credentialsOK_def)
  moreover have "t' \<in> set (joinTokens (credentials d'))" using find_key_some [OF t'(1) [unfolded findToken_def]] by blast
  ultimately have "0 \<le> jt_uses t'" by (simp add: tokensOK_def)
  then show ?thesis using t' tokenKept_expiry [OF t'(2)] by blast
qed

theorem join_token_admits_its_uses_witness:
  "\<exists>t t'. findToken placedLedger ''tok'' = Some t \<and> jt_uses t = 1 \<and> findToken joinedLedger ''tok'' = Some t'
     \<and> length (filter (\<lambda>ev. spends ''tok'' ev \<noteq> None) toJoined) = 1 \<and> jt_uses t' = 0"
proof -
  have "case findToken placedLedger ''tok'' of None \<Rightarrow> False | Some t \<Rightarrow> jt_uses t = 1" by code_simp
  then obtain t where t: "findToken placedLedger ''tok'' = Some t" "jt_uses t = 1" by (auto split: option.splits)
  have "credentialsOK placedLedger" by code_simp
  moreover have "ledgerOK placedLedger" using run_ledgerOK [OF placed_run sample_OK(1) sampleLedger_OK] .
  ultimately obtain t' where "findToken joinedLedger ''tok'' = Some t'" "0 \<le> jt_uses t'"
    "int (length (filter (\<lambda>ev. spends ''tok'' ev \<noteq> None) toJoined)) \<le> jt_uses t - jt_uses t'"
    using join_token_admits_its_uses [OF sample_OK(1) _ _ joined_run t(1)] by blast
  then show ?thesis using t by (intro exI [of _ t] exI [of _ t']) simp
qed

end
