(* ===== verification/Pool_Access.thy ===== *)
theory Pool_Access
  imports Pool_Runs Pool_Sample
begin

text \<open>
  Who holds a name, and who is kept out, over any run: how an enrolment moves, what a revocation
  promises and what a renewal may rest on.
\<close>

section \<open>Columns an operation has no business with\<close>

lemma credentials_nodes [simp]:
  "credentials (MarkNodeDrainedForRelease node d) = credentials d" "credentials (DecommissionNode now proven actor node d) = credentials d"
  "credentials (HandOverPoolRetirement closing node sealing d) = credentials d" "credentials (retireReleasedNodeTx now node d) = credentials d"
  "credentials (settleClosedNodeTx now node proven actor d) = credentials d"
  by (simp_all add: MarkNodeDrainedForRelease_def DecommissionNode_def HandOverPoolRetirement_def retireReleasedNodeTx_def settleClosedNodeTx_def
      split: option.splits)

text \<open>
  A column of the credentials beside the tokens and the serials: what the operations that only
  write tokens, serials and orders leave of it, proved once for the enrolments and for the
  instants before which a node's certificates are revoked.
\<close>

locale credential_field =
  fixes field :: "Credentials \<Rightarrow> 'x"
  assumes field_tokens [simp]: "field (c\<lparr>joinTokens := tokens\<rparr>) = field c"
    and field_issued [simp]: "field (c\<lparr>issuedCerts := ics\<rparr>) = field c"
    and field_revoked [simp]: "field (c\<lparr>revokedCerts := rvs\<rparr>) = field c"
begin

lemma statements [simp]:
  "field (credentials (RetirePoolJoinTokens order d)) = field (credentials d)"
  "field (credentials (recordIssuedCertTx now cert d)) = field (credentials d)"
  "field (credentials (RevokeCertRow now serial node why d)) = field (credentials d)"
  "field (credentials (snd (spendTokens P d))) = field (credentials d)"
  by (simp_all add: RetirePoolJoinTokens_def recordIssuedCertTx_def RevokeCertRow_def spendTokens_def)

lemma revoking_each [simp]: "field (credentials (revokeEach now node why is d)) = field (credentials d)"
  by (induction "is" arbitrary: d) simp_all

lemma moves:
  "movePoolOrder (updOrders P f) d = Inr d' \<Longrightarrow> field (credentials d') = field (credentials d)"
  "sealPoolOrderTx now i node requested why d = Inr d' \<Longrightarrow> field (credentials d') = field (credentials d)"
  "linkPoolNodeTx now i name fingerprint serial heldMay d = Inr d' \<Longrightarrow> field (credentials d') = field (credentials d)"
  "spendJoinTokenTx sha now token d = Inr d' \<Longrightarrow> field (credentials d') = field (credentials d)"
  "spendPoolJoinTokenTx sha now i token d = Inr d' \<Longrightarrow> field (credentials d') = field (credentials d)"
  by (auto simp: movePoolOrder_def sealPoolOrderTx_def SealPoolOrder_def linkPoolNodeTx_def LinkPoolOrderNode_def
      spendJoinTokenTx_def SpendJoinTokenRow_def spendPoolJoinTokenTx_def SpendPoolJoinToken_def case_prod_beta split: if_splits option.splits)

lemma orders:
  "RecordPoolOrder now req d = Inr d' \<Longrightarrow> field (credentials d') = field (credentials d)"
  "PoolOrderPlaced now i host d = Inr d' \<Longrightarrow> field (credentials d') = field (credentials d)"
  "UncertainPoolOrderFound now i host d = Inr d' \<Longrightarrow> field (credentials d') = field (credentials d)"
  "PoolOrderUncertain now i why d = Inr d' \<Longrightarrow> field (credentials d') = field (credentials d)"
  "PoolOrderRefused now i why d = Inr d' \<Longrightarrow> field (credentials d') = field (credentials d)"
  "PoolOrderAbandoned now i why d = Inr d' \<Longrightarrow> field (credentials d') = field (credentials d)"
  "PoolOrderReleased now i d = Inr d' \<Longrightarrow> field (credentials d') = field (credentials d)"
  "PoolOrderGone now i d = Inr d' \<Longrightarrow> field (credentials d') = field (credentials d)"
  "ClosePoolOrder now i why d = Inr d' \<Longrightarrow> field (credentials d') = field (credentials d)"
  by (auto simp: RecordPoolOrder_def InsertPoolOrder_def PoolOrderPlaced_def UncertainPoolOrderFound_def PoolOrderUncertain_def PoolOrderRefused_def
      PoolOrderAbandoned_def PoolOrderReleased_def PoolOrderGone_def ClosePoolOrder_def closePoolOrderTx_def MarkPoolOrderPlaced_def
      MarkUncertainPoolOrderFound_def MarkPoolOrderUncertain_def MarkPoolOrderRefused_def MarkPoolOrderAbandoned_def MarkPoolOrderReleased_def
      MarkPoolOrderGone_def ClosePoolOrderRow_def case_prod_beta split: if_splits option.splits dest!: moves)

lemma joins:
  "NewJoinToken sha now token ttl uses note d = Inr d' \<Longrightarrow> field (credentials d') = field (credentials d)"
  "NewPoolJoinToken sha now token order ttl d = Inr d' \<Longrightarrow> field (credentials d') = field (credentials d)"
  "SpendJoinToken sha now token d = Inr d' \<Longrightarrow> field (credentials d') = field (credentials d)"
  "HoldPoolJoin now order why seen d = Inr d' \<Longrightarrow> field (credentials d') = field (credentials d)"
  "ReleasePoolJoin now order d = Inr d' \<Longrightarrow> field (credentials d') = field (credentials d)"
  "HoldLapsedPoolJoins now d = (n, d') \<Longrightarrow> field (credentials d') = field (credentials d)"
  "HoldLapsedPoolJoin now order d = Inr (held, d') \<Longrightarrow> field (credentials d') = field (credentials d)"
  by (auto simp: NewJoinToken_def NewPoolJoinToken_def insertJoinTokenTx_def InsertJoinToken_def SpendJoinToken_def HoldPoolJoin_def HoldPoolOrderJoin_def
      ReleasePoolJoin_def ReleasePoolOrderJoin_def HoldLapsedPoolJoins_def HoldLapsedPoolJoinsRow_def HoldLapsedPoolJoin_def HoldLapsedPoolJoinRow_def
      case_prod_beta updOrders_def split: if_splits option.splits dest!: moves)

lemma certificates:
  "RevokeCert now serial node why d = Inr d' \<Longrightarrow> field (credentials d') = field (credentials d)"
  "RecordIssuedCert now cert d = Inr d' \<Longrightarrow> field (credentials d') = field (credentials d)"
  "RecordRenewedCert now cert parent issuedAt d = Inr d' \<Longrightarrow> field (credentials d') = field (credentials d)"
  by (auto simp: RevokeCert_def RecordIssuedCert_def RecordRenewedCert_def split: if_splits option.splits)

lemma releases:
  "RequestPoolRelease now order why d = Inr (sealed, d') \<Longrightarrow> field (credentials d') = field (credentials d)"
  "field (credentials (RecordPoolClearance now obs d)) = field (credentials d)"
proof -
  show "RequestPoolRelease now order why d = Inr (sealed, d') \<Longrightarrow> field (credentials d') = field (credentials d)"
    by (auto simp: RequestPoolRelease_def requestJoinedTx_def RequestPoolOrderRelease_def sealUnjoinedTx_def LinkPoolOrderNode_def ContradictPoolRelease_updOrders
        map_sum_def Let_def case_prod_beta split: if_splits option.splits sum.splits dest!: moves(2))
  show "field (credentials (RecordPoolClearance now obs d)) = field (credentials d)"
    by (simp add: RecordPoolClearance_def computeListedNowTx_def EndPoolClearanceRun_def RecordPoolClearanceRun_def split: option.splits)
qed

lemmas leaves = orders joins certificates releases

end

abbreviation enrolled :: "Ledger \<Rightarrow> Enrollment list" where
  "enrolled d \<equiv> enrollments (credentials d)"

interpretation enrol: credential_field enrollments
  by unfold_locales simp_all

lemma readEnrollment_cong: "enrolled d' = enrolled d \<Longrightarrow> readEnrollment d' = readEnrollment d"
  by (simp add: readEnrollment_def fun_eq_iff)

lemma enrolled_revoking:
  "RevokeNode now node why d = (taken, d') \<Longrightarrow> enrolled d' = enrolled d" "SealPoolRelease now order d = Inr (p, d') \<Longrightarrow> enrolled d' = enrolled d"
  "ForceClosePoolOrder now i why d = Inr d' \<Longrightarrow> enrolled d' = enrolled d"
proof -
  have revoked [simp]: "enrolled (revokeNodeTx node why now d) = enrolled d" for node why now d by (simp add: revokeNodeTx_def RecordNodeRevocation_def)
  show "RevokeNode now node why d = (taken, d') \<Longrightarrow> enrolled d' = enrolled d" by (auto simp: RevokeNode_def)
  show "SealPoolRelease now order d = Inr (p, d') \<Longrightarrow> enrolled d' = enrolled d"
    by (auto elim!: SealPoolRelease_cases dest!: enrol.moves(2) simp: withdrawn_def)
  show "ForceClosePoolOrder now i why d = Inr d' \<Longrightarrow> enrolled d' = enrolled d"
    by (auto simp: ForceClosePoolOrder_def ForceClosePoolOrderRow_def case_prod_beta split: if_splits option.splits)
qed

section \<open>How an enrolment moves\<close>

text \<open>
  A name is asked for where nobody was asked about or the last key was denied; a pending request is
  decided about by somebody who names its key; the source of a pool admits the key it vouches for,
  where the name is free, was denied, or waits with that very key.
\<close>

definition enrolMove :: "poolEvent \<Rightarrow> string \<Rightarrow> Enrollment option \<Rightarrow> Enrollment option \<Rightarrow> bool" where
  "enrolMove ev name was now \<longleftrightarrow>
     (\<exists>e. now = Some e \<and> en_state e = EnrollPending \<and> (\<forall>w. was = Some w \<longrightarrow> en_state w = EnrollDenied))
     \<or> (\<exists>w e fp decision. was = Some w \<and> en_state w = EnrollPending \<and> now = Some e \<and> ev = Decided name fp decision
          \<and> fp \<noteq> [] \<and> en_fingerprint w = fp \<and> en_fingerprint e = fp \<and> en_state e = decision)
     \<or> (\<exists>e order fp h t. now = Some e \<and> ev = Vouched order fp h t \<and> name = PoolNodeName order \<and> fp \<noteq> []
          \<and> en_fingerprint e = fp \<and> en_state e = EnrollApproved
          \<and> (\<forall>w. was = Some w \<longrightarrow> en_state w = EnrollDenied \<or> en_state w = EnrollPending \<and> en_fingerprint w = fp))"

lemma readEnrollment_add:
  "readEnrollment d (en_name row) = None \<Longrightarrow> readEnrollment (addEnrollment row d) name = (if name = en_name row then Some row else readEnrollment d name)"
  by (simp add: readEnrollment_def addEnrollment_def find_key_append find_key_none)

lemma enrolMove_asked: "en_state e = EnrollPending \<Longrightarrow> (\<And>w. was = Some w \<Longrightarrow> en_state w = EnrollDenied) \<Longrightarrow> enrolMove ev name was (Some e)"
  by (simp add: enrolMove_def)

lemma requestEnrollmentTx_move:
  assumes "requestEnrollmentTx now who fingerprint csr order d = Inr (e, d')"
  shows "readEnrollment d' name = readEnrollment d name \<or> enrolMove ev name (readEnrollment d name) (readEnrollment d' name)"
proof (cases "readEnrollment d who")
  case None
  then have "d' = InsertEnrollment (askedRow now who fingerprint csr order) d" using assms by (auto simp: requestEnrollmentTx_def Let_def)
  then have "readEnrollment d' name = (if name = who then Some ((askedRow now who fingerprint csr order)\<lparr>en_source := CertEnrolled\<rparr>) else readEnrollment d name)"
    using None readEnrollment_add [of d "(askedRow now who fingerprint csr order)\<lparr>en_source := CertEnrolled\<rparr>" name]
    by (simp add: InsertEnrollment_def askedRow_def)
  then show ?thesis using None enrolMove_asked [of _ "readEnrollment d name" ev name] by (auto simp: askedRow_def)
next
  case (Some old)
  show ?thesis
  proof (cases "d' = d")
    case False
    then have d: "en_state old = EnrollDenied" "d' = ReplaceDeniedEnrollment (askedRow now who fingerprint csr order) d"
      using assms Some by (auto simp: requestEnrollmentTx_def Let_def split: if_splits)
    have "readEnrollment d' name = map_option (\<lambda>e. if en_name e = who then e\<lparr>en_fingerprint := fingerprint, en_csr := csr, en_cert := [],
        en_state := EnrollPending, en_source := CertEnrolled, en_requestedAt := now, en_decidedAt := None, en_poolOrder := order\<rparr> else e) (readEnrollment d name)"
      unfolding d(2) ReplaceDeniedEnrollment_def by (simp add: readEnrollment_upd askedRow_def)
    then show ?thesis using Some d(1) readEnrollment_name [of d name] by (cases "readEnrollment d name") (auto intro: enrolMove_asked)
  qed simp
qed

lemma ask_move:
  assumes "RequestEnrollment now who fingerprint csr d = Inr (e, d') \<or> RequestEnrollmentWithToken sha now who fingerprint csr token d = Inr (e, d')
    \<or> RecordHeldPoolRequest now order fingerprint csr d = Inr (e, d')"
  shows "readEnrollment d' name = readEnrollment d name \<or> enrolMove ev name (readEnrollment d name) (readEnrollment d' name)"
proof -
  have "d' = d \<or> (\<exists>d1 who order. enrolled d1 = enrolled d \<and> requestEnrollmentTx now who fingerprint csr order d1 = Inr (e, d'))"
    using assms
  proof (elim disjE)
    assume "RequestEnrollmentWithToken sha now who fingerprint csr token d = Inr (e, d')"
    moreover have "enrolled d1 = enrolled d" if "spendEnrollmentTokenTx sha now who token d = Inr (o1, d1)" for o1 d1
      using that by (auto simp: spendEnrollmentTokenTx_def Let_def split: if_splits option.splits sum.splits prod.splits dest: enrol.moves)
    ultimately show ?thesis by (auto simp: RequestEnrollmentWithToken_def split: if_splits sum.splits)
  qed (auto simp: RequestEnrollment_def RecordHeldPoolRequest_def Let_def split: if_splits option.splits prod.splits)
  then show ?thesis using requestEnrollmentTx_move readEnrollment_cong by metis
qed

lemma decide_move:
  assumes "decideEnrollment now who fingerprint decision cert serial issued d = Inr d'"
  shows "readEnrollment d' name = readEnrollment d name \<or> enrolMove (Decided who fingerprint decision) name (readEnrollment d name) (readEnrollment d' name)"
proof -
  obtain w where w: "readEnrollment d who = Some w" "en_state w = EnrollPending" "fingerprintMatches (en_fingerprint w) fingerprint"
    using assms by (auto simp: decideEnrollment_def split: if_splits option.splits)
  have "enrolled d' = enrolled (DecideEnrollmentRow now who decision cert d)"
    using assms w enrol.moves(3)
    by (auto simp: decideEnrollment_def DecideEnrollmentRow_def updEnrollments_def Let_def split: if_splits option.splits)
  then have "readEnrollment d' = readEnrollment (DecideEnrollmentRow now who decision cert d)" by (rule readEnrollment_cong)
  then have "readEnrollment d' name = map_option (\<lambda>e. if en_name e = who then e\<lparr>en_state := decision, en_cert := cert, en_decidedAt := Some now\<rparr> else e)
      (readEnrollment d name)"
    by (simp add: DecideEnrollmentRow_def readEnrollment_upd)
  then show ?thesis using w readEnrollment_name [of d name]
    by (cases "readEnrollment d name") (auto simp: enrolMove_def fingerprintMatches_def)
qed

lemma approvePending_read:
  assumes "approvePendingPoolTx now (PoolNodeName (ad_order adm)) adm d = Inr d'" and "distinct (map en_name (enrolled d))"
  obtains w e where "readEnrollment d (PoolNodeName (ad_order adm)) = Some w" "en_state w = EnrollPending" "en_fingerprint w = ad_fingerprint adm"
    "readEnrollment d' (PoolNodeName (ad_order adm)) = Some e" "en_fingerprint e = ad_fingerprint adm" "en_state e = EnrollApproved"
    "\<And>name. name \<noteq> PoolNodeName (ad_order adm) \<Longrightarrow> readEnrollment d' name = readEnrollment d name"
proof -
  let ?name = "PoolNodeName (ad_order adm)"
  let ?P = "\<lambda>e. en_name e = ?name \<and> en_fingerprint e = ad_fingerprint adm \<and> en_poolOrder e = ad_order adm \<and> en_state e = EnrollPending"
  let ?f = "\<lambda>e. e\<lparr>en_state := EnrollApproved, en_cert := ad_cert adm, en_source := CertPool, en_decidedAt := Some now\<rparr>"
  have n: "count_where ?P (enrolled d) = 1" and d': "d' = updEnrollments ?P ?f d"
    using assms(1) by (auto simp: approvePendingPoolTx_def AdmitPendingEnrollment_def Let_def split: if_splits)
  have "count_where ?P (enrolled d) = (case readEnrollment d ?name of None \<Rightarrow> 0 | Some e \<Rightarrow> if ?P e then 1 else 0)"
    unfolding readEnrollment_def by (rule find_key_count [OF assms(2)]) simp
  then obtain w where w: "readEnrollment d ?name = Some w" "?P w" using n by (auto split: option.splits if_splits)
  have r: "readEnrollment d' name = map_option (\<lambda>e. if ?P e then ?f e else e) (readEnrollment d name)" for name
    unfolding d' by (rule readEnrollment_upd) simp
  have "readEnrollment d' name = readEnrollment d name" if "name \<noteq> ?name" for name
    using that r [of name] readEnrollment_name [of d name] by (cases "readEnrollment d name") auto
  then show ?thesis using that [of w "?f w"] w r [of ?name] by simp
qed

lemma admit_move:
  assumes "AdmitPoolEnrollment sha now adm d = (Inr e, d')" and "d' \<noteq> d" and "readEnrollment d' (PoolNodeName (ad_order adm)) = Some e"
    and "distinct (map en_name (enrolled d))"
  shows "readEnrollment d' name = readEnrollment d name
    \<or> enrolMove (Vouched (ad_order adm) (ad_fingerprint adm) h t) name (readEnrollment d name) (readEnrollment d' name)"
proof -
  let ?name = "PoolNodeName (ad_order adm)"
  obtain d1 where admitted: "ad_fingerprint adm \<noteq> []" "admitRequest sha now adm d = Inr (Admitted d1)" "enrolled d' = enrolled d1"
    using AdmitPoolEnrollment_admitted [OF assms(1-3)] enrol.moves(3) enrol.statements(2) by metis
  have d': "readEnrollment d' = readEnrollment d1" by (rule readEnrollment_cong [OF admitted(3)])
  have step: "readEnrollment d1 name = readEnrollment d name \<or> name = ?name \<and> (\<exists>e. readEnrollment d1 ?name = Some e \<and> en_fingerprint e = ad_fingerprint adm
      \<and> en_state e = EnrollApproved) \<and> (\<forall>w. readEnrollment d ?name = Some w \<longrightarrow> en_state w = EnrollDenied
        \<or> en_state w = EnrollPending \<and> en_fingerprint w = ad_fingerprint adm)"
    using admitted(2)
  proof (cases rule: admitRequest_cases)
    case (new d0)
    then have "readEnrollment d0 = readEnrollment d" using enrol.moves(5) readEnrollment_cong by blast
    then show ?thesis using new by (simp add: InsertAdmittedEnrollment_def readEnrollment_add)
  next
    case (waiting w)
    show ?thesis by (rule approvePending_read [OF waiting(4) assms(4)]) (metis option.inject)
  next
    case (replaced w d0)
    let ?d0 = "ReplaceDeniedEnrollment (askedRow now ?name (ad_fingerprint adm) (ad_csr adm) (ad_order adm)) d0"
    have e0: "enrolled d0 = enrolled d" using enrol.moves(5) [OF replaced(3)] .
    have "distinct (map en_name (enrolled ?d0))"
      using assms(4) e0 by (simp add: ReplaceDeniedEnrollment_def updEnrollments_def map_upd_where_same)
    moreover have "readEnrollment ?d0 name = readEnrollment d name" if "name \<noteq> ?name"
      using that readEnrollment_name [of d name] readEnrollment_cong [OF e0]
      by (cases "readEnrollment d name") (auto simp: ReplaceDeniedEnrollment_def readEnrollment_upd askedRow_def)
    ultimately show ?thesis using approvePending_read [OF replaced(4)] replaced(1,2) by (metis option.inject)
  qed
  then show ?thesis using admitted(1) unfolding d' by (auto simp: enrolMove_def)
qed

lemma poolStep_enrol:
  assumes "poolStep sha ev d d'" and "distinct (map en_name (enrolled d))" and "ev \<noteq> IssuedTo name"
  shows "readEnrollment d' name = readEnrollment d name \<or> enrolMove ev name (readEnrollment d name) (readEnrollment d' name)"
proof -
  have keep: ?thesis if "enrolled d' = enrolled d" using readEnrollment_cong [OF that] by simp
  note same = enrol.leaves enrolled_revoking
  from assms(1) show ?thesis
  proof (cases rule: poolStep.cases)
    case (decide now who fingerprint decision cert serial)
    then show ?thesis using decide_move unfolding DecideEnrollment_def by blast
  next
    case (approve now who fingerprint cert issued)
    then show ?thesis using decide_move by (auto simp: ApproveEnrollment_def split: if_splits)
  next
    case (issue now who fingerprint cert was)
    then have "who \<noteq> name" using assms(3) by simp
    then have "readEnrollment d' name = readEnrollment d name"
      using issue(2) by (auto simp: RecordIssued_def UpsertIssuedEnrollment_def upsertBy_def readEnrollment_def find_upd_where find_key_append find_append
          map_option_case split: option.splits dest!: find_key_some)
    then show ?thesis ..
  next
    case (admitRefused now adm x)
    then have "enrolled d' = enrolled d" by (auto elim!: AdmitPoolEnrollment_cases simp: HoldPoolOrderJoin_def)
    then show ?thesis using readEnrollment_cong by metis
  next
    case (admitHeld now adm e)
    then have "enrolled d' = enrolled d" by (auto elim!: AdmitPoolEnrollment_cases simp: HoldPoolOrderJoin_def)
    then show ?thesis using readEnrollment_cong by metis
  next
    case (admit now adm e)
    then show ?thesis using admit_move [OF admit(2-4) assms(2)] by blast
  qed ((rule keep, (erule same | simp add: same)) | (rule ask_move, blast))+
qed

section \<open>Who holds a name\<close>

lemma credentialsOK_step:
  assumes "allocOK a" and "ledgerOK d" and "credentialsOK d" and "deploymentStep a ev d d'"
  shows "credentialsOK d'"
  using rows_step [OF assms(1,2,4)] assms(3) by (simp add: rowsKept_def)

lemma enrol_step:
  assumes "allocOK a" and "ledgerOK d" and "credentialsOK d" and "deploymentStep a ev d d'" and "ev \<noteq> Pooling (IssuedTo name)"
  shows "readEnrollment d' name = readEnrollment d name
    \<or> (\<exists>pe. ev = Pooling pe \<and> enrolMove pe name (readEnrollment d name) (readEnrollment d' name))"
  using assms(1,2,4)
proof (cases rule: deploymentStep_tables)
  case (pooled sha pe)
  have "distinct (map en_name (enrolled d))" using assms(3) by (simp add: credentialsOK_def enrollmentsOK_def)
  then show ?thesis using poolStep_enrol [OF pooled(2)] pooled(1) assms(5) by blast
next
  case aside
  then show ?thesis using views_cong(2) [of d' d] by (simp add: sidelines_def)
qed

definition approvedKept :: "string \<Rightarrow> Ledger \<Rightarrow> Ledger \<Rightarrow> bool" where
  "approvedKept name d d' \<longleftrightarrow> (\<forall>e. readEnrollment d name = Some e \<and> en_state e = EnrollApproved \<longrightarrow> readEnrollment d' name = Some e)"

interpretation approved: kept_along "\<lambda>ev. ev \<noteq> Pooling (IssuedTo name)" credentialsOK "approvedKept name" for name
proof unfold_locales
  fix a d ev d' assume s: "allocOK a" "ledgerOK d" "credentialsOK d" "ev \<noteq> Pooling (IssuedTo name)" "deploymentStep a ev d d'"
  have "approvedKept name d d'" using enrol_step [OF s(1-3,5,4)] by (auto simp: approvedKept_def enrolMove_def)
  then show "approvedKept name d d' \<and> credentialsOK d'" using credentialsOK_step [OF s(1-3,5)] ..
qed (simp_all add: approvedKept_def)

text \<open>The word an approval of a key rests on: a person's, who named the key, or the source's, who vouched for it.\<close>

definition spokenFor :: "string \<Rightarrow> string \<Rightarrow> deploymentEvent list \<Rightarrow> bool" where
  "spokenFor name fingerprint es \<longleftrightarrow> fingerprint \<noteq> [] \<and> (Pooling (Decided name fingerprint EnrollApproved) \<in> set es
     \<or> (\<exists>order h now. name = PoolNodeName order \<and> Pooling (Vouched order fingerprint h now) \<in> set es))"

lemma spoken_run:
  assumes "deploymentRun a es d d'" and "allocOK a" and "ledgerOK d" and "credentialsOK d" and "Pooling (IssuedTo name) \<notin> set es"
    and "readEnrollment d' name = Some e" and "en_state e = EnrollApproved"
  shows "readEnrollment d name = Some e \<or> spokenFor name (en_fingerprint e) es"
  using assms(1,3-6)
proof (induction rule: deploymentRun.induct)
  case (more es d d1 ev d2)
  have ok: "ledgerOK d1" "credentialsOK d1"
    using run_ledgerOK [OF more.hyps(1) assms(2)] rows.along_run [OF more.hyps(1) assms(2)] more.prems by (simp_all add: rowsKept_def)
  have "spokenFor name (en_fingerprint e) es \<Longrightarrow> spokenFor name (en_fingerprint e) (ev # es)" by (auto simp: spokenFor_def)
  moreover have "spokenFor name (en_fingerprint e) (ev # es)" if "readEnrollment d1 name \<noteq> Some e"
    using enrol_step [OF assms(2) ok more.hyps(2), of name] more.prems that assms(7) by (auto simp: enrolMove_def spokenFor_def)
  ultimately show ?case using more by auto
qed simp

text \<open>
  C7. A name is held by the key that was spoken for. Unless an operator hands out a certificate for
  the name directly, over any run: an approved enrolment stays exactly as it is, whoever asks for the
  name, is denied it or is admitted meanwhile; and an enrolment that is approved at the end either
  was so from the start, or its key was named by the person who approved it, or it is the key the
  source of that very order vouched for, and never an empty one.
\<close>

theorem name_is_held_by_the_key_spoken_for:
  assumes "allocOK a" and "ledgerOK d" and "credentialsOK d" and "deploymentRun a es d d'" and "Pooling (IssuedTo name) \<notin> set es"
  shows "(\<forall>e. readEnrollment d name = Some e \<and> en_state e = EnrollApproved \<longrightarrow> readEnrollment d' name = Some e)
    \<and> (\<forall>e. readEnrollment d' name = Some e \<and> en_state e = EnrollApproved \<longrightarrow>
         readEnrollment d name = Some e \<or> spokenFor name (en_fingerprint e) es)"
proof -
  have "approvedKept name d d'" using approved.along_run [OF assms(4,1-3)] assms(5) by blast
  then show ?thesis using spoken_run [OF assms(4,1-3,5)] unfolding approvedKept_def by blast
qed

theorem name_is_held_by_the_key_spoken_for_witness:
  "\<exists>e. readEnrollment joinedLedger ''pool-o1'' = Some e \<and> en_state e = EnrollApproved \<and> readEnrollment placedLedger ''pool-o1'' = None
     \<and> spokenFor ''pool-o1'' (en_fingerprint e) toJoined"
proof -
  have "case readEnrollment joinedLedger ''pool-o1'' of None \<Rightarrow> False | Some e \<Rightarrow> en_state e = EnrollApproved" by code_simp
  then obtain e where e: "readEnrollment joinedLedger ''pool-o1'' = Some e" "en_state e = EnrollApproved" by (auto split: option.splits)
  have n: "readEnrollment placedLedger ''pool-o1'' = None" by code_simp
  have ok: "credentialsOK placedLedger" by code_simp
  have "ledgerOK placedLedger" using run_ledgerOK [OF placed_run sample_OK(1) sampleLedger_OK] .
  then show ?thesis using name_is_held_by_the_key_spoken_for [OF sample_OK(1) _ ok joined_run, of "''pool-o1''"] e n by fastforce
qed

section \<open>Revocation\<close>

interpretation cutoff: credential_field nodeRevocations
  by unfold_locales simp_all

lemma cutoff_enrollments [simp]:
  "nodeRevocations (credentials (addEnrollment row d)) = nodeRevocations (credentials d)"
  "nodeRevocations (credentials (updEnrollments P f d)) = nodeRevocations (credentials d)"
  by (simp_all add: addEnrollment_def updEnrollments_def)

lemma cutoff_requests:
  "requestEnrollmentTx now who fingerprint csr order d = Inr (e, d') \<Longrightarrow> nodeRevocations (credentials d') = nodeRevocations (credentials d)"
  "spendEnrollmentTokenTx sha now who token d = Inr (order, d') \<Longrightarrow> nodeRevocations (credentials d') = nodeRevocations (credentials d)"
  "decideEnrollment now who fingerprint decision cert serial issued d = Inr d' \<Longrightarrow> nodeRevocations (credentials d') = nodeRevocations (credentials d)"
  "approvePendingPoolTx now who adm d = Inr d' \<Longrightarrow> nodeRevocations (credentials d') = nodeRevocations (credentials d)"
  by (auto simp: requestEnrollmentTx_def InsertEnrollment_def ReplaceDeniedEnrollment_def spendEnrollmentTokenTx_def decideEnrollment_def
      DecideEnrollmentRow_def approvePendingPoolTx_def AdmitPendingEnrollment_def Let_def split: option.splits if_splits sum.splits prod.splits dest!: cutoff.moves)

lemma cutoff_asks:
  "RequestEnrollment now who fingerprint csr d = Inr (e, d') \<Longrightarrow> nodeRevocations (credentials d') = nodeRevocations (credentials d)"
  "RequestEnrollmentWithToken sha now who fingerprint csr token d = Inr (e, d') \<Longrightarrow> nodeRevocations (credentials d') = nodeRevocations (credentials d)"
  "RecordHeldPoolRequest now order fingerprint csr d = Inr (e, d') \<Longrightarrow> nodeRevocations (credentials d') = nodeRevocations (credentials d)"
  "DecideEnrollment now who fingerprint decision cert serial d = Inr d' \<Longrightarrow> nodeRevocations (credentials d') = nodeRevocations (credentials d)"
  "ApproveEnrollment now who fingerprint cert issued d = Inr d' \<Longrightarrow> nodeRevocations (credentials d') = nodeRevocations (credentials d)"
  "RecordIssued now who fingerprint cert d = (was, d') \<Longrightarrow> nodeRevocations (credentials d') = nodeRevocations (credentials d)"
  by (auto simp: RequestEnrollment_def RequestEnrollmentWithToken_def RecordHeldPoolRequest_def DecideEnrollment_def ApproveEnrollment_def RecordIssued_def
      UpsertIssuedEnrollment_def Let_def split: if_splits option.splits sum.splits prod.splits dest!: cutoff_requests)

lemma cutoff_admit:
  assumes "AdmitPoolEnrollment sha now adm d = (r, d')"
  shows "nodeRevocations (credentials d') = nodeRevocations (credentials d)"
  using assms
proof (cases rule: AdmitPoolEnrollment_cases)
  case (admitted e d1 row)
  have "nodeRevocations (credentials d1) = nodeRevocations (credentials d)"
    using admitted(9) by (cases rule: admitRequest_cases)
      (auto dest!: cutoff_requests(4) cutoff.moves simp: InsertAdmittedEnrollment_def ReplaceDeniedEnrollment_def)
  then show ?thesis using cutoff.moves(3) [OF admitted(10)] by simp
qed (simp_all add: HoldPoolOrderJoin_def)

lemma cutoff_cong: "nodeRevocations (credentials d') = nodeRevocations (credentials d) \<Longrightarrow> NodeRevocationCutoff d' = NodeRevocationCutoff d"
  by (simp add: NodeRevocationCutoff_def fun_eq_iff)

lemma find_upsertBy: "find (\<lambda>r. key r = k) (upsertBy key row (\<lambda>_. row) rows) = (if k = key row then Some row else find (\<lambda>r. key r = k) rows)"
proof -
  have "find (\<lambda>r. key r = k) (upd_where (\<lambda>r. key r = key row) (\<lambda>_. row) rows)
    = (if k = key row then if k \<in> set (map key rows) then Some row else None else find (\<lambda>r. key r = k) rows)"
    by (induction rows) (auto simp: upd_where_def)
  then show ?thesis using find_key_append [of key row rows k] by (auto simp: upsertBy_def)
qed

lemma revokeNodeTx_cutoff:
  "NodeRevocationCutoff (revokeNodeTx who why now d) node = (if node = who then Some (truncSecond now + second) else NodeRevocationCutoff d node)"
  using find_upsertBy [of nr_node node "\<lparr>nr_node = who, nr_revokedBefore = truncSecond now + second, nr_reason = why, nr_revokedAt = now\<rparr>"
      "nodeRevocations (credentials d)"]
  by (simp add: NodeRevocationCutoff_def revokeNodeTx_def RecordNodeRevocation_def)

lemma revoking_cutoff:
  "RevokeNode now who why d = (taken, d') \<Longrightarrow> NodeRevocationCutoff d' node = (if node = who then Some (truncSecond now + second) else NodeRevocationCutoff d node)"
  "SealPoolRelease now order d = Inr (p, d') \<Longrightarrow> ReadPoolOrder d order = Some row \<Longrightarrow>
     NodeRevocationCutoff d' node = (if node = po_nodeName row then Some (truncSecond now + second) else NodeRevocationCutoff d node)"
  "ForceClosePoolOrder now i why d = Inr d' \<Longrightarrow> ReadPoolOrder d i = Some row \<Longrightarrow>
     NodeRevocationCutoff d' node = (if node = po_nodeName row then Some (truncSecond now + second) else NodeRevocationCutoff d node)"
proof -
  show "RevokeNode now who why d = (taken, d') \<Longrightarrow> NodeRevocationCutoff d' node = (if node = who then Some (truncSecond now + second) else NodeRevocationCutoff d node)"
    using revokeNodeTx_cutoff by (auto simp: RevokeNode_def)
  assume row: "ReadPoolOrder d order = Some row" "SealPoolRelease now order d = Inr (p, d')"
  from row(2) have "nodeRevocations (credentials d') = nodeRevocations (credentials (withdrawn now row d))"
  proof (cases rule: SealPoolRelease_cases)
    case (1 r requested)
    then show ?thesis using row(1) cutoff.moves(2) by auto
  qed
  then show "NodeRevocationCutoff d' node = (if node = po_nodeName row then Some (truncSecond now + second) else NodeRevocationCutoff d node)"
    using revokeNodeTx_cutoff cutoff_cong [of "withdrawn now row d" "revokeNodeTx (po_nodeName row) _ now d"] cutoff_cong [of d' "withdrawn now row d"]
    by (simp add: withdrawn_def)
next
  assume row: "ReadPoolOrder d i = Some row" "ForceClosePoolOrder now i why d = Inr d'"
  then obtain reason where "credentials d' = credentials (revokeNodeTx (po_nodeName row) reason now d)"
    by (auto simp: ForceClosePoolOrder_def ForceClosePoolOrderRow_def case_prod_beta split: if_splits)
  then show "NodeRevocationCutoff d' node = (if node = po_nodeName row then Some (truncSecond now + second) else NodeRevocationCutoff d node)"
    using revokeNodeTx_cutoff cutoff_cong by metis
qed

lemma poolStep_cutoff:
  assumes "poolStep sha ev d d'"
  shows "NodeRevocationCutoff d' node = NodeRevocationCutoff d node
    \<or> (\<exists>now. ev = RevokedNode node now \<and> NodeRevocationCutoff d' node = Some (truncSecond now + second))"
proof -
  have keep: ?thesis if "nodeRevocations (credentials d') = nodeRevocations (credentials d)" using cutoff_cong [OF that] by simp
  note same = cutoff.leaves cutoff_asks cutoff_admit
  from assms show ?thesis
  proof (cases rule: poolStep.cases)
    case (revokeNode now who why taken)
    then show ?thesis using revoking_cutoff(1) [OF revokeNode(2)] by simp
  next
    case (sealRelease now order p row)
    then show ?thesis using revoking_cutoff(2) [OF sealRelease(2,3)] by simp
  next
    case (forceClose now i why row)
    then show ?thesis using revoking_cutoff(3) [OF forceClose(2,3)] by simp
  next
    case (clearance now obs)
    then show ?thesis using keep cutoff.releases(2) by blast
  next
    case (admitAgain now adm e)
    then show ?thesis using keep by blast
  qed (rule keep, erule same)+
qed

lemma cutoff_step:
  assumes "allocOK a" and "ledgerOK d" and "deploymentStep a ev d d'"
  shows "NodeRevocationCutoff d' node = NodeRevocationCutoff d node
    \<or> (\<exists>now. ev = Pooling (RevokedNode node now) \<and> NodeRevocationCutoff d' node = Some (truncSecond now + second))"
  using assms
proof (cases rule: deploymentStep_tables)
  case (pooled sha pe)
  then show ?thesis using poolStep_cutoff by blast
next
  case aside
  then show ?thesis using cutoff_cong [of d' d] by (simp add: sidelines_def)
qed

lemma truncSecond_mono: "s \<le> t \<Longrightarrow> truncSecond s \<le> truncSecond t"
  by (simp add: truncSecond_def zdiv_mono1)

lemma truncSecond_later: "truncSecond (t + second) = truncSecond t + second"
  by (simp add: truncSecond_def)

definition revocationKept :: "string \<Rightarrow> string \<Rightarrow> int \<Rightarrow> Ledger \<Rightarrow> Ledger \<Rightarrow> bool" where
  "revocationKept node serial issuedAt d d' \<longleftrightarrow> (CertRevokedFor node serial issuedAt d \<longrightarrow> CertRevokedFor node serial issuedAt d')"

interpretation revocation: kept_along "\<lambda>ev. \<forall>later. ev = Pooling (RevokedNode node later) \<longrightarrow> issuedAt \<le> later" "\<lambda>_. True"
  "revocationKept node serial issuedAt" for node serial issuedAt
proof unfold_locales
  fix a d ev d' assume s: "allocOK a" "ledgerOK d" "\<forall>later. ev = Pooling (RevokedNode node later) \<longrightarrow> issuedAt \<le> later" "deploymentStep a ev d d'"
  have "CertRevocation d serial \<longrightarrow> CertRevocation d' serial" using rows_step [OF s(1,2,4)] by (simp add: rowsKept_def revokedKept_def)
  then show "revocationKept node serial issuedAt d d' \<and> True"
    using cutoff_step [OF s(1,2,4), of node] s(3) truncSecond_mono
    by (fastforce simp: revocationKept_def CertRevokedFor_def split: if_splits option.splits)
qed (simp_all add: revocationKept_def)

interpretation unrevoked: kept_along "\<lambda>ev. \<forall>later. ev \<noteq> Pooling (RevokedNode node later)" "\<lambda>_. True"
  "\<lambda>d d'. NodeRevocationCutoff d' node = NodeRevocationCutoff d node" for node
proof unfold_locales
  fix a d ev d' assume "allocOK a" "ledgerOK d" "\<forall>later. ev \<noteq> Pooling (RevokedNode node later)" "deploymentStep a ev d d'"
  then show "NodeRevocationCutoff d' node = NodeRevocationCutoff d node \<and> True" using cutoff_step [of a d ev d' node] by blast
qed simp_all

lemma revokeEach_revokes: "i \<in> set is \<Longrightarrow> CertRevocation (revokeEach now node reason is d) (ic_serial i)"
proof (induction "is" arbitrary: d)
  case (Cons j "is")
  have "CertRevocation (RevokeCertRow now (ic_serial j) node reason d) (ic_serial j)"
    by (auto simp: RevokeCertRow_def CertRevocation_def insertNew_def)
  then have "CertRevocation (revokeEach now node reason (j # is) d) (ic_serial j)"
    using revokeEach_kept [of "RevokeCertRow now (ic_serial j) node reason d" now node reason "is"]
    by (simp add: poolKept_def poolMoved_def rowsKept_def revokedKept_def)
  then show ?case using Cons by auto
qed simp

lemma revokeNodeTx_revokes:
  assumes "c \<in> set (issuedCerts (credentials d))" and "ic_node c = node" and "ts now < ic_notAfter c"
  shows "CertRevocation (revokeNodeTx node reason now d) (ic_serial c)"
proof (cases "CertRevocation d (ic_serial c)")
  case True
  then show ?thesis using revokeNodeTx_kept [of d node reason now]
    by (simp add: poolKept_def poolMoved_def rowsKept_def revokedKept_def)
next
  case False
  then have "c \<in> set (LiveCertsFor now node d)" using assms by (simp add: LiveCertsFor_def)
  from revokeEach_revokes [OF this, of now node reason d] show ?thesis
    by (simp add: revokeNodeTx_def RecordNodeRevocation_def CertRevocation_def)
qed

text \<open>
  C8. A revoked node stays out, and its replacement gets in. Over any run after a node's
  certificates are revoked, every certificate of the node that was on record and not past its
  end is refused by its serial, and renews nothing. Over a run in which later revocations of
  the node, if any, bear no earlier time, every certificate issued to the node up to the
  revocation is refused, whatever its serial and whether or not it was on record, and renews
  nothing. Over a run in which the node is not revoked again, a certificate issued to it a
  second later or more is accepted, unless its own serial was revoked.
\<close>

theorem revoked_node_stays_out:
  assumes "allocOK a" and "ledgerOK d" and "RevokeNode now node reason d = (taken, d1)" and "deploymentRun a es d1 d2"
  shows "(\<forall>c \<in> set (issuedCerts (credentials d)). ic_node c = node \<and> ts now < ic_notAfter c \<longrightarrow>
        (\<forall>issuedAt. CertRevokedFor node (ic_serial c) issuedAt d2
           \<and> (\<forall>t cert. ic_serial cert \<noteq> [] \<longrightarrow> RecordRenewedCert t cert (ic_serial c) issuedAt d2 = Inl ErrParentRevoked)))
    \<and> ((\<forall>later. Pooling (RevokedNode node later) \<in> set es \<longrightarrow> now \<le> later) \<longrightarrow>
        (\<forall>serial issuedAt. issuedAt \<le> now \<longrightarrow> CertRevokedFor node serial issuedAt d2)
        \<and> (\<forall>cert serial issuedAt t. issuedAt \<le> now \<and> ic_node cert = node \<and> ic_serial cert \<noteq> [] \<longrightarrow>
             RecordRenewedCert t cert serial issuedAt d2 = Inl ErrParentRevoked))
    \<and> ((\<forall>later. Pooling (RevokedNode node later) \<notin> set es) \<longrightarrow>
         (\<forall>serial issuedAt. now + second \<le> issuedAt \<and> \<not> CertRevocation d2 serial \<longrightarrow> \<not> CertRevokedFor node serial issuedAt d2))"
proof -
  have tx: "d1 = revokeNodeTx node reason now d" using assms(3) by (simp add: RevokeNode_def)
  have d1: "NodeRevocationCutoff d1 node = Some (truncSecond now + second)" using revoking_cutoff(1) [OF assms(3)] by simp
  have ok: "ledgerOK d1" using step_ledgerOK [OF assms(1,2) deploymentStep.pooling [OF poolStep.revokeNode [OF assms(3)]]] .
  have "CertRevocation d2 (ic_serial c)"
    if "c \<in> set (issuedCerts (credentials d))" "ic_node c = node" "ts now < ic_notAfter c" for c
    using revokeNodeTx_revokes [OF that, of reason] rows.along_run [OF assms(4,1) ok] by (simp add: tx rowsKept_def revokedKept_def)
  then have named: "CertRevokedFor node (ic_serial c) issuedAt d2
      \<and> (\<forall>t cert. ic_serial cert \<noteq> [] \<longrightarrow> RecordRenewedCert t cert (ic_serial c) issuedAt d2 = Inl ErrParentRevoked)"
    if "c \<in> set (issuedCerts (credentials d))" "ic_node c = node \<and> ts now < ic_notAfter c" for c issuedAt
    using that by (simp add: CertRevokedFor_def RecordRenewedCert_def)
  have out: "CertRevokedFor node serial issuedAt d2"
    if "issuedAt \<le> now" "\<forall>later. Pooling (RevokedNode node later) \<in> set es \<longrightarrow> now \<le> later" for serial issuedAt
  proof -
    have "CertRevokedFor node serial issuedAt d1" using truncSecond_mono [OF that(1)] by (simp add: CertRevokedFor_def d1)
    then show ?thesis using revocation.along_run [OF assms(4,1) ok, of node issuedAt serial] that by (fastforce simp: revocationKept_def)
  qed
  have renewed: "RecordRenewedCert t cert serial issuedAt d2 = Inl ErrParentRevoked"
    if "CertRevokedFor node serial issuedAt d2" "ic_node cert = node" "ic_serial cert \<noteq> []" for cert serial issuedAt t
    using that by (auto simp: RecordRenewedCert_def CertRevokedFor_def split: if_splits option.splits)
  have "\<not> CertRevokedFor node serial issuedAt d2"
    if "\<forall>later. Pooling (RevokedNode node later) \<notin> set es" "now + second \<le> issuedAt" "\<not> CertRevocation d2 serial" for serial issuedAt
  proof -
    have "NodeRevocationCutoff d2 node = Some (truncSecond now + second)" using unrevoked.along_run [OF assms(4,1) ok, of node] that(1) d1 by metis
    then show ?thesis using truncSecond_mono [OF that(2)] that(3) by (simp add: CertRevokedFor_def truncSecond_later)
  qed
  with named out renewed show ?thesis by blast
qed

theorem revoked_node_stays_out_witness:
  "\<exists>d1 d2. RevokeNode 5 ''pool-o1'' ''lost'' joinedLedger = (LiveCertsFor 5 ''pool-o1'' joinedLedger, d1) \<and> deploymentRun sampleAlloc [Working] d1 d2
     \<and> CertRevokedFor ''pool-o1'' ''s1'' 1000000005 d2 \<and> CertRevokedFor ''pool-o1'' ''s0'' 1 d2
     \<and> \<not> CertRevokedFor ''pool-o1'' ''s2'' 1000000005 d2"
proof -
  let ?d1 = "revokeNodeTx ''pool-o1'' ''lost'' 5 joinedLedger" and ?d2 = "snd (Reap 6 (revokeNodeTx ''pool-o1'' ''lost'' 5 joinedLedger))"
  have r: "RevokeNode 5 ''pool-o1'' ''lost'' joinedLedger = (LiveCertsFor 5 ''pool-o1'' joinedLedger, ?d1)" by (simp add: RevokeNode_def)
  have run: "deploymentRun sampleAlloc [Working] ?d1 ?d2" by (rule deploymentRun.more [OF deploymentRun.nothing deploymentStep.reap])
  have ok: "ledgerOK joinedLedger" using run_ledgerOK [OF joined_run sample_OK(1) run_ledgerOK [OF placed_run sample_OK(1) sampleLedger_OK]] .
  have "\<not> CertRevocation ?d2 ''s2''" by code_simp
  moreover have "list_ex (\<lambda>c. ic_node c = ''pool-o1'' \<and> ts 5 < ic_notAfter c \<and> ic_serial c = ''s1'') (issuedCerts (credentials joinedLedger))"
    by code_simp
  then obtain c where c: "c \<in> set (issuedCerts (credentials joinedLedger))" "ic_node c = ''pool-o1'' \<and> ts 5 < ic_notAfter c" "ic_serial c = ''s1''"
    unfolding list_ex_iff by blast
  note out = revoked_node_stays_out [OF sample_OK(1) ok r run]
  have "CertRevokedFor ''pool-o1'' ''s1'' 1000000005 ?d2" using out c unfolding c(3) [symmetric] by blast
  moreover have "CertRevokedFor ''pool-o1'' ''s0'' 1 ?d2" "\<not> CertRevocation ?d2 ''s2'' \<longrightarrow> \<not> CertRevokedFor ''pool-o1'' ''s2'' 1000000005 ?d2"
    using out by simp_all
  ultimately show ?thesis using r run by blast
qed

text \<open>
  The condition on the clock is needed: the upsert of a second revocation overwrites the cutoff
  of the first, also with an earlier one. A certificate no record names, refused after a
  revocation at ten seconds, is accepted again after one at five.
\<close>

lemma earlier_revocation_readmits:
  "CertRevokedFor ''n'' ''unrecorded'' 7000000000 (revokeNodeTx ''n'' ''lost'' 10000000000 sampleLedger)"
  "\<not> CertRevokedFor ''n'' ''unrecorded'' 7000000000
     (revokeNodeTx ''n'' ''again'' 5000000000 (revokeNodeTx ''n'' ''lost'' 10000000000 sampleLedger))"
  by code_simp+

text \<open>
  A certificate's end of validity is written without a fraction of a second, and compared as text with
  an instant that has one. So in the second it expires in, a certificate is still listed as live: half
  a second past its end, the only certificate of a node is taken for one it holds.
\<close>

lemma expired_certificate_listed_live:
  "ts 63934444800500000000 = ''2026-01-01T00:00:00.500000000Z''"
  "LiveCertsFor 63934444800500000000 ''n'' (sampleLedger\<lparr>credentials := (credentials sampleLedger)\<lparr>issuedCerts :=
     [\<lparr>ic_serial = ''s'', ic_node = ''n'', ic_source = CertIssued, ic_notAfter = ''2026-01-01T00:00:00Z'', ic_issuedAt = 0\<rparr>]\<rparr>\<rparr>)
   = [\<lparr>ic_serial = ''s'', ic_node = ''n'', ic_source = CertIssued, ic_notAfter = ''2026-01-01T00:00:00Z'', ic_issuedAt = 0\<rparr>]"
  by code_simp+

end
