(* ===== verification/Pool_Return.thy ===== *)
theory Pool_Return
  imports Pool_Access
begin

text \<open>
  Giving a rented host back, over any run: a host whose release was sealed stays empty, and what a
  clearance proves.
\<close>

section \<open>A sealed host stays empty\<close>

text \<open>The node of an order that was given back: out of placement, with nothing charged to it.\<close>

definition vacated :: "string \<Rightarrow> Ledger \<Rightarrow> bool" where
  "vacated node d \<longleftrightarrow> node \<noteq> [] \<and> (\<exists>i p. ReadPoolOrder d i = Some p \<and> po_nodeName p = node \<and> po_state p \<in> set releasedStates)
     \<and> (\<forall>n. findNode d node = Some n \<longrightarrow> n_drained n) \<and> (\<forall>r \<in> set (leases d). isOpen r \<longrightarrow> attributedTo r \<noteq> node)"

lemma vacated_released: "vacated node d \<Longrightarrow> PoolHostReleased d node"
  by (auto simp: vacated_def PoolHostReleased_def poolOrderOf_def list_ex_iff ReadPoolOrder_def dest!: find_key_some)

lemma kept_findNode_back:
  assumes "list_all2 nodeKept ns ns'" and "find (\<lambda>n. n_name n = name) ns' = Some n'"
  shows "\<exists>n. find (\<lambda>n. n_name n = name) ns = Some n \<and> nodeKept n n'"
  using assms by (induction rule: list_all2_induct) (auto simp: nodeKept_def split: if_splits)

lemma step_node_back:
  assumes "allocOK a" and "ledgerOK d" and "deploymentStep a ev d d'" and "findNode d' name = Some n'" and "PoolHostReleased d name"
  obtains n where "findNode d name = Some n" "n_drained n \<longrightarrow> n_drained n'"
  using assms(3,2)
proof (cases rule: deploymentStep_cases)
  case (granted now tier gs)
  have "nodes d' = nodes d" using granted_writes [OF assms(1,2) granted(2)] by (metis addLeases_fields(2))
  then show ?thesis using that [of n'] assms(4) by (simp add: findNode_def)
next
  case (resized it v m protect i e)
  then show ?thesis using that [of n'] assms(4) ResizeLeaving_rows(2) [OF assms(2)] by (simp add: findNode_def)
next
  case (registered now reg e)
  have "name \<noteq> g_name reg" using RegisterNode_row(8) [OF registered(2)] assms(5) by blast
  then show ?thesis using that [of n'] assms(4) RegisterNode_row(4) [OF registered(2)] by simp
next
  case (moved now t am)
  then show ?thesis using that [of n'] assms(4) admissionTransition_result(4) by (simp add: findNode_def)
next
  case tame
  then show ?thesis using that assms(4) kept_findNode_back [of "nodes d" "nodes d'" name n'] unfolding tame_def findNode_def nodeKept_def by blast
qed

lemma granted_elsewhere:
  assumes "allocOK a" and "ledgerOK d" and "granted a now tier d gs d'" and "g \<in> set gs" and "\<forall>n. findNode d node = Some n \<longrightarrow> n_drained n"
  shows "attributedTo (fst g) \<noteq> node"
proof -
  obtain t where t: "tierOf a tier = Some t" using granted_bought [OF assms(1,3)] by metis
  obtain n where n: "n \<in> set (nodes d)" "r_target (fst g) = Some (n_name n)" "\<not> n_drained n"
    using granted_placed [OF assms(1-3) t assms(4)] by blast
  have "findNode d (n_name n) = Some n" by (rule findNode_distinct [OF assms(2) n(1)])
  moreover have "r_node (fst g) = None" using granted_unbound [OF assms(1-4)] by blast
  ultimately show ?thesis using n(2,3) assms(5) by (auto simp: attributedTo_def coalesceNode_def)
qed

lemma step_vacated:
  assumes "allocOK a" and "ledgerOK d" and "\<forall>r \<in> set (leases d). rowPlaced r" and "deploymentStep a ev d d'" and "vacated node d"
  shows "vacated node d'"
proof -
  have v: "node \<noteq> []" "\<forall>n. findNode d node = Some n \<longrightarrow> n_drained n" "\<forall>r \<in> set (leases d). isOpen r \<longrightarrow> attributedTo r \<noteq> node"
    using assms(5) by (simp_all add: vacated_def)
  obtain i p where p: "ReadPoolOrder d i = Some p" "po_nodeName p = node" "po_state p \<in> set releasedStates"
    using assms(5) by (auto simp: vacated_def)
  obtain p' where p': "ReadPoolOrder d' i = Some p'" "orderKept p p'"
    using rows_step [OF assms(1,2,4)] p(1) by (auto simp: rowsKept_def ordersKept_def)
  have order: "po_nodeName p' = node" "po_state p' \<in> set releasedStates"
    using p'(2) p(2,3) v(1) by (auto simp: orderKept_def poolReach_def)
  have nodes: "n_drained n'" if "findNode d' node = Some n'" for n'
    using step_node_back [OF assms(1,2,4) that vacated_released [OF assms(5)]] v(2) by blast
  have "attributedTo r \<noteq> node" if r: "r \<in> set (leases d')" "isOpen r" for r
  proof (cases "ev = Granted")
    case True
    have "\<exists>now tier gs. granted a now tier d gs d'" using assms(4,2) by (cases rule: deploymentStep_cases) (use True in auto)
    then obtain now tier gs where g: "granted a now tier d gs d'" by blast
    have "leases d' = leases d @ map fst gs" using granted_writes [OF assms(1,2) g] by (metis addLeases_fields(1))
    then show ?thesis using r v(3) granted_elsewhere [OF assms(1,2) g _ v(2)] by auto
  next
    case False
    obtain kept new where k: "leases d' = kept @ new" "list_all2 rowKept (leases d) kept" "new = []"
      using step_leases [OF assms(1,2,4)] False by metis
    then obtain r0 where r0: "r0 \<in> set (leases d)" "rowKept r0 r" using r(1) list_all2_source [OF k(2)] by auto
    have "isOpen r0" using r0(2) r(2) phaseKept_Terminal by (auto simp: isOpen_def rowKept_def)
    then show ?thesis using v(3) r0 rowKept_attributed assms(3) by metis
  qed
  then show ?thesis using v(1) p'(1) order nodes unfolding vacated_def by blast
qed

interpretation vacant: kept_along "\<lambda>_. True" "\<lambda>d. \<forall>r \<in> set (leases d). rowPlaced r" "\<lambda>d d'. vacated node d \<longrightarrow> vacated node d'" for node
  by unfold_locales (use step_vacated step_placed in blast)+

lemma sealed_order:
  assumes "SealPoolRelease now order d = Inr (p, d')" and "ReadPoolOrder d order = Some row" and "ordersOK (poolOrders d)"
  obtains requested p' where "po_nodeName row \<noteq> []" "NewDrained (releaseHoldingsTx d row requested) = Some p"
    "ReadPoolOrder d' order = Some p'" "po_nodeName p' = po_nodeName row" "po_state p' = PoolSealed"
    "d' = snd (SealPoolOrder now requested (po_releaseReason row) order (po_nodeName row) (withdrawn now row d))"
proof -
  obtain requested where q: "po_nodeName row \<noteq> []" "NewDrained (releaseHoldingsTx d row requested) = Some p"
    "sealPoolOrderTx now order (po_nodeName row) requested (po_releaseReason row) (withdrawn now row d) = Inr d'"
    using assms(1,2) by (auto elim!: SealPoolRelease_cases)
  have ids: "distinct (map po_orderID (poolOrders (withdrawn now row d)))" using assms(3) by (simp add: ordersOK_def)
  from q(3) ids show ?thesis
  proof (cases rule: sealPoolOrderTx_cases)
    case (1 q0)
    show ?thesis by (rule that [OF q(1,2) 1(5) _ _ 1(6)]) (simp_all add: 1(3))
  qed
qed

lemma withdrawn_drained: "findNode (withdrawn now row d) (po_nodeName row) = Some n \<Longrightarrow> n_drained n"
proof -
  have "n_drained n" if f: "findNode (retireReleasedNodeTx now node (MarkNodeDrainedForRelease node e)) node = Some n" for node e
  proof -
    have "list_all2 nodeKept (nodes (MarkNodeDrainedForRelease node e)) (nodes (retireReleasedNodeTx now node (MarkNodeDrainedForRelease node e)))"
      using retireReleasedNodeTx_kept by (simp add: poolKept_def poolMoved_def poolFrame_def)
    then obtain m where "find (\<lambda>n. n_name n = node) (nodes (MarkNodeDrainedForRelease node e)) = Some m" "nodeKept m n"
      using kept_findNode_back f unfolding findNode_def by blast
    moreover have "n_drained m"
    proof -
      have "m \<in> set (upd_where (\<lambda>n. n_name n = node) (\<lambda>n. n\<lparr>n_drained := True\<rparr>) (nodes e))" "n_name m = node"
        using find_key_some [OF calculation(1)] by (simp_all add: MarkNodeDrainedForRelease_def)
      then obtain r where "m = (if n_name r = node then r\<lparr>n_drained := True\<rparr> else r)" "n_name m = node" unfolding set_upd_where by blast
      then show ?thesis by (cases "n_name r = node") simp_all
    qed
    ultimately show ?thesis by (simp add: nodeKept_def)
  qed
  then show "findNode (withdrawn now row d) (po_nodeName row) = Some n \<Longrightarrow> n_drained n" unfolding withdrawn_def .
qed

lemma seal_vacates:
  assumes "SealPoolRelease now order d = Inr (p, d')" and "ReadPoolOrder d order = Some row" and "ordersOK (poolOrders d)"
  shows "vacated (po_nodeName row) d'" and "proofFor p (po_hostID row)" and "leases d' = leases d"
    and "CountNodeHoldings d (po_nodeName row) = \<lparr>nh_outstanding = 0, nh_quarantine = 0, nh_custody = 0\<rparr>"
proof -
  obtain requested p' where q: "po_nodeName row \<noteq> []" "NewDrained (releaseHoldingsTx d row requested) = Some p"
    "ReadPoolOrder d' order = Some p'" "po_nodeName p' = po_nodeName row" "po_state p' = PoolSealed"
    and d': "d' = snd (SealPoolOrder now requested (po_releaseReason row) order (po_nodeName row) (withdrawn now row d))"
    using sealed_order [OF assms] by metis
  let ?c = "CountNodeHoldings d (po_nodeName row)"
  have "\<not> nh_outstanding ?c < 0" "\<not> 0 < nh_outstanding ?c" "\<not> nh_quarantine ?c < 0" "\<not> 0 < nh_quarantine ?c" "\<not> nh_custody ?c < 0" "\<not> 0 < nh_custody ?c"
    and for_host: "proofFor p (po_hostID row)"
    using q(2) by (auto simp: NewDrained_def releaseHoldingsTx_def proofFor_def Let_def split: if_splits)
  then show zero: "?c = \<lparr>nh_outstanding = 0, nh_quarantine = 0, nh_custody = 0\<rparr>" by (simp add: antisym_conv2)
  show "proofFor p (po_hostID row)" by (rule for_host)
  show leases: "leases d' = leases d" by (simp add: d' SealPoolOrder_def)
  have "findNode d' (po_nodeName row) = findNode (withdrawn now row d) (po_nodeName row)" by (simp add: findNode_def d' SealPoolOrder_def)
  then have "n_drained n" if "findNode d' (po_nodeName row) = Some n" for n using that withdrawn_drained by metis
  moreover have "attributedTo r \<noteq> po_nodeName row" if r: "r \<in> set (leases d')" "isOpen r" for r
  proof
    assume "attributedTo r = po_nodeName row"
    then have "coalesceNode r = Some (po_nodeName row)" using q(1) by (simp add: attributedTo_def split: option.splits)
    moreover have "nh_outstanding ?c = 0" using zero by simp
    ultimately show False using r leases by (auto simp: CountNodeHoldings_def count_where_def filter_empty_conv)
  qed
  ultimately show "vacated (po_nodeName row) d'" using q(1,3-5) unfolding vacated_def by auto
qed

text \<open>
  C6. A host whose release was sealed stays empty. When the seal succeeds its proof is for the order's
  own host, nothing is outstanding on its node, quarantined or in custody, and every certificate issued
  to the node up to that instant is refused. From then on, over any run: no open lease is ever charged
  to the node again, no machine can register under its name again, and the order stays sealed, released
  or gone with that node. So a host that is given back holds nothing of anybody's.
\<close>

theorem sealed_host_stays_empty:
  assumes "allocOK a" and "ledgerOK d" and "credentialsOK d" and "\<forall>r \<in> set (leases d). rowPlaced r"
    and "SealPoolRelease now order d = Inr (p, d1)" and "ReadPoolOrder d order = Some row" and "deploymentRun a es d1 d2"
  shows "proofFor p (po_hostID row)
    \<and> CountNodeHoldings d (po_nodeName row) = \<lparr>nh_outstanding = 0, nh_quarantine = 0, nh_custody = 0\<rparr>
    \<and> (\<forall>serial issuedAt. issuedAt \<le> now \<longrightarrow> CertRevokedFor (po_nodeName row) serial issuedAt d1)
    \<and> (\<forall>r \<in> set (leases d2). isOpen r \<longrightarrow> attributedTo r \<noteq> po_nodeName row)
    \<and> (\<forall>t reg. g_name reg = po_nodeName row \<longrightarrow> isl (RegisterNode t reg d2))
    \<and> (\<exists>row'. ReadPoolOrder d2 order = Some row' \<and> po_nodeName row' = po_nodeName row
         \<and> po_state row' \<in> {PoolSealed, PoolReleased, PoolGone})"
proof -
  have orders: "ordersOK (poolOrders d)" using assms(3) by (simp add: credentialsOK_def)
  note seal = seal_vacates [OF assms(5,6) orders]
  have ok: "ledgerOK d1" using step_ledgerOK [OF assms(1,2) deploymentStep.pooling [OF poolStep.sealRelease [OF assms(5,6)]]] .
  have v: "vacated (po_nodeName row) d2" using vacant.along_run [OF assms(7,1) ok] assms(4) seal(1,3) by simp
  have cut: "NodeRevocationCutoff d1 (po_nodeName row) = Some (truncSecond now + second)" using revoking_cutoff(2) [OF assms(5,6)] by simp
  have "CertRevokedFor (po_nodeName row) serial issuedAt d1" if "issuedAt \<le> now" for serial issuedAt
    using truncSecond_mono [OF that] by (simp add: CertRevokedFor_def cut)
  moreover have "isl (RegisterNode t reg d2)" if "g_name reg = po_nodeName row" for t reg
    using vacated_released [OF v] that RegisterNode_row(8) [of t reg d2] by (cases "RegisterNode t reg d2") auto
  moreover have "\<exists>row'. ReadPoolOrder d2 order = Some row' \<and> po_nodeName row' = po_nodeName row \<and> po_state row' \<in> {PoolSealed, PoolReleased, PoolGone}"
  proof (rule sealed_order [OF assms(5,6) orders])
    fix row' assume r: "po_nodeName row \<noteq> []" "ReadPoolOrder d1 order = Some row'" "po_nodeName row' = po_nodeName row" "po_state row' = PoolSealed"
    then obtain row2 where "ReadPoolOrder d2 order = Some row2" "orderKept row' row2"
      using rows.along_run [OF assms(7,1) ok] by (auto simp: rowsKept_def ordersKept_def)
    then show ?thesis using r by (intro exI [of _ row2]) (auto simp: orderKept_def poolReach_def)
  qed
  ultimately show ?thesis using seal v unfolding vacated_def by blast
qed

definition releasedLedger :: Ledger where
  "releasedLedger = projr (PoolOrderReleased 300000000008 ''o1'' sealedLedger)"

theorem sealed_host_stays_empty_witness:
  "\<exists>row row'. ReadPoolOrder clearedLedger ''o1'' = Some row \<and> po_nodeName row = ''pool-o1'' \<and> po_hostID row = ''h1''
     \<and> SealPoolRelease 300000000007 ''o1'' clearedLedger = Inr (\<lparr>pf_host = ''h1'', pf_at = 3, pf_verified = True\<rparr>, sealedLedger)
     \<and> ReadPoolOrder releasedLedger ''o1'' = Some row' \<and> isl (RegisterNode 300000000009 sampleArrival releasedLedger)"
proof -
  have "case ReadPoolOrder clearedLedger ''o1'' of None \<Rightarrow> False | Some row \<Rightarrow> po_nodeName row = ''pool-o1'' \<and> po_hostID row = ''h1''" by code_simp
  then obtain row where row: "ReadPoolOrder clearedLedger ''o1'' = Some row" "po_nodeName row = ''pool-o1''" "po_hostID row = ''h1''"
    by (auto split: option.splits)
  have joined: "ledgerOK joinedLedger" using run_ledgerOK [OF joined_run sample_OK(1) run_ledgerOK [OF placed_run sample_OK(1) sampleLedger_OK]] .
  have ok: "ledgerOK clearedLedger" using run_ledgerOK [OF cleared_run sample_OK(1) joined] .
  have typed: "credentialsOK clearedLedger" by code_simp
  have "list_all rowPlaced (leases clearedLedger)" by code_simp
  then have placed: "\<forall>r \<in> set (leases clearedLedger). rowPlaced r" by (simp add: list_all_iff)
  have "\<not> isl (PoolOrderReleased 300000000008 ''o1'' sealedLedger)" by code_simp
  then have "PoolOrderReleased 300000000008 ''o1'' sealedLedger = Inr releasedLedger" unfolding releasedLedger_def by (rule projr_eq(1))
  then have run: "deploymentRun sampleAlloc [Pooling PoolWork] sealedLedger releasedLedger"
    using pooled_more [OF deploymentRun.nothing poolStep.orderReleased] by blast
  show ?thesis
    using sealed_host_stays_empty [OF sample_OK(1) ok typed placed sample_steps(6) row(1) run] row sample_steps(6) by (auto simp: sampleArrival_def)
qed

section \<open>What a clearance rests on\<close>

text \<open>A node's own answer that it runs nothing, for the order, the fence and the generation an order's run is under.\<close>

definition answersFor :: "PoolOrder \<Rightarrow> PoolClearanceObservation \<Rightarrow> bool" where
  "answersFor p obs \<longleftrightarrow> ob_order obs = po_orderID p \<and> ob_node obs = po_nodeName p \<and> ob_empty obs \<and> \<not> ob_running obs
     \<and> ob_epoch obs = po_clearEpoch p \<and> ob_dispatch obs = po_clearDispatch p \<and> ob_generation obs = po_clearGeneration p"

definition clearBy :: "deploymentEvent list \<Rightarrow> PoolOrder \<Rightarrow> bool" where
  "clearBy es p \<longleftrightarrow> po_nodeName p \<noteq> []
     \<and> (\<forall>since. po_clearSince p = Some since \<longrightarrow> (\<exists>obs. Pooling (Answered since obs) \<in> set es \<and> answersFor p obs))
     \<and> (\<forall>asked. po_clearObservedAt p = Some asked \<longrightarrow> (\<exists>now obs. Pooling (Answered now obs) \<in> set es \<and> ob_askedAt obs = asked \<and> answersFor p obs))"

lemma clearBy_more: "clearBy es p \<Longrightarrow> clearBy (ev # es) p"
  unfolding clearBy_def by (meson list.set_intros(2))

lemma clearBy_kept:
  assumes "clearBy es p" and "clearKept p p'" and "orderKept p p'" and "po_clearSince p' \<noteq> None"
  shows "clearBy es p'"
proof -
  have "po_clearSince p' = po_clearSince p" "po_clearObservedAt p' = po_clearObservedAt p" "po_clearEpoch p' = po_clearEpoch p"
    "po_clearDispatch p' = po_clearDispatch p" "po_clearGeneration p' = po_clearGeneration p" "po_orderID p' = po_orderID p" "po_nodeName p' = po_nodeName p"
    using assms by (auto simp: clearKept_def orderKept_def clearBy_def)
  then show ?thesis using assms(1) by (simp add: clearBy_def answersFor_def)
qed

lemma sidelines_clears:
  assumes "sidelines d d'"
  shows "clearsKept d d'"
proof -
  have "list_all2 orderTouched ps ps' \<Longrightarrow> find (\<lambda>p. po_orderID p = i) ps' = Some p' \<Longrightarrow>
      \<exists>p. find (\<lambda>p. po_orderID p = i) ps = Some p \<and> orderTouched p p'" for ps ps' i p'
  proof (induction rule: list_all2_induct)
    case (Cons q qs q' qs')
    have "po_orderID q' = po_orderID q" using touched_kept [OF Cons(1)] by (simp add: orderKept_def)
    then show ?case using Cons by (auto split: if_splits)
  qed simp
  then show ?thesis using assms unfolding clearsKept_def sidelines_def ReadPoolOrder_def orderTouched_def by blast
qed

lemma answer_clears:
  assumes "ReadPoolOrder (RecordPoolClearance now obs d) i = Some p'" and "po_clearSince p' \<noteq> None" and "ledgerOK d"
  shows "(\<exists>p. ReadPoolOrder d i = Some p \<and> clearKept p p')
    \<or> (\<exists>p. ReadPoolOrder d i = Some p \<and> answersFor p' obs \<and> po_nodeName p' \<noteq> [] \<and> po_clearObservedAt p' = Some (ob_askedAt obs)
         \<and> (po_clearSince p' = Some now \<or> po_clearSince p' = po_clearSince p
              \<and> po_clearEpoch p' = po_clearEpoch p \<and> po_clearDispatch p' = po_clearDispatch p \<and> po_clearGeneration p' = po_clearGeneration p
              \<and> po_orderID p' = po_orderID p \<and> po_nodeName p' = po_nodeName p))"
proof (cases "clearsKept d (RecordPoolClearance now obs d)")
  case True
  then show ?thesis using assms(1,2) unfolding clearsKept_def by blast
next
  case False
  have "clearsKept d d" "clearsKept d (computeListedNowTx (ob_node obs) (ob_epoch obs) d)" "clearsKept d (EndPoolClearanceRun (ob_order obs) d)"
    using poolKept_refl [of d] computeListedNowTx_kept [of d] EndPoolClearanceRun_kept [of d] unfolding poolKept_def by blast+
  then obtain fence where f: "\<not> ob_running obs" "ob_empty obs" "findNode d (ob_node obs) = Some fence" "n_epoch fence = ob_epoch obs" "n_dispatch fence = ob_dispatch obs"
    "RecordPoolClearance now obs d = snd (RecordPoolClearanceRun (n_epoch fence) (n_dispatch fence) now (ob_askedAt obs) (ob_generation obs) (ob_order obs) (ob_node obs) d)"
    using False unfolding RecordPoolClearance_def by (auto split: option.splits if_splits)
  have node: "ob_node obs \<noteq> []" using findNode_Some [OF f(3)] assms(3) by (auto simp: ledgerOK_def)
  let ?P = "\<lambda>p. po_orderID p = ob_order obs \<and> po_state p = PoolPlaced \<and> po_releaseRequestedAt p \<noteq> None \<and> po_nodeName p = ob_node obs
      \<and> po_clearGeneration p = ob_generation obs"
  let ?f = "\<lambda>p. p\<lparr>po_clearSince := (if po_clearEpoch p = n_epoch fence \<and> po_clearDispatch p = n_dispatch fence \<and> po_clearSince p \<noteq> None
      then po_clearSince p else Some now), po_clearEpoch := n_epoch fence, po_clearDispatch := n_dispatch fence, po_clearObservedAt := Some (ob_askedAt obs)\<rparr>"
  have "ReadPoolOrder (RecordPoolClearance now obs d) i = map_option (\<lambda>p. if ?P p then ?f p else p) (ReadPoolOrder d i)"
    unfolding f(6) RecordPoolClearanceRun_def by (rule ReadPoolOrder_upd) simp
  then have "map_option (\<lambda>p. if ?P p then ?f p else p) (ReadPoolOrder d i) = Some p'" using assms(1) by (rule subst)
  then obtain p where p: "ReadPoolOrder d i = Some p" "p' = (if ?P p then ?f p else p)" by (cases "ReadPoolOrder d i") simp_all
  show ?thesis
  proof (cases "?P p")
    case True
    then show ?thesis using p f(1,2,4,5) node by (intro disjI2 exI [of _ p]) (simp add: answersFor_def)
  next
    case no: False
    then have "p' = p" using p(2) by (simp only: if_False)
    then show ?thesis using p(1) clearKept_refl by blast
  qed
qed

lemma clear_step:
  assumes "allocOK a" and "ledgerOK d" and "deploymentStep a ev d d'" and "ReadPoolOrder d' i = Some p'" and "po_clearSince p' \<noteq> None"
    and "\<And>p. ReadPoolOrder d i = Some p \<Longrightarrow> po_clearSince p \<noteq> None \<Longrightarrow> clearBy es p"
  shows "clearBy (ev # es) p'"
proof -
  have kept: "clearBy (ev # es) p'" if "ReadPoolOrder d i = Some p" "clearKept p p'" for p
  proof -
    have "ordersKept d d'" using rows_step [OF assms(1-3)] by (simp add: rowsKept_def)
    then have "orderKept p p'" using that(1) assms(4) unfolding ordersKept_def by (metis option.inject)
    moreover have "clearBy es p" using assms(5,6) that by (auto simp: clearKept_def)
    ultimately show ?thesis using clearBy_kept clearBy_more that(2) assms(5) by blast
  qed
  from assms(1-3) show ?thesis
  proof (cases rule: deploymentStep_tables)
    case aside
    then show ?thesis using sidelines_clears [OF aside(2)] kept assms(4,5) unfolding clearsKept_def by blast
  next
    case (pooled sha pe)
    show ?thesis
    proof (cases "\<exists>now obs. pe = Answered now obs")
      case False
      then have "clearsKept d d'" using poolStep_kept [OF pooled(2)] by (simp add: poolKept_def)
      then show ?thesis using kept assms(4,5) unfolding clearsKept_def by blast
    next
      case True
      then obtain now obs where a: "pe = Answered now obs" "d' = RecordPoolClearance now obs d" using pooled(2) by (auto elim: answeredE)
      from answer_clears [OF assms(4,5) [unfolded a(2)] assms(2)] show ?thesis
      proof (elim disjE exE conjE)
        fix p assume p: "ReadPoolOrder d i = Some p" "answersFor p' obs" "po_nodeName p' \<noteq> []" "po_clearObservedAt p' = Some (ob_askedAt obs)"
          "po_clearSince p' = po_clearSince p" "po_clearEpoch p' = po_clearEpoch p" "po_clearDispatch p' = po_clearDispatch p"
          "po_clearGeneration p' = po_clearGeneration p" "po_orderID p' = po_orderID p" "po_nodeName p' = po_nodeName p"
        then have "clearBy es p" using assms(5,6) by simp
        then show ?thesis using p pooled(1) a(1) unfolding clearBy_def answersFor_def by auto
      qed (use kept pooled(1) a(1) in \<open>auto simp: clearBy_def\<close>)
    qed
  qed
qed

lemma clear_run:
  assumes "deploymentRun a es d d'" and "allocOK a" and "ledgerOK d" and "\<And>p. ReadPoolOrder d i = Some p \<Longrightarrow> po_clearSince p = None"
    and "ReadPoolOrder d' i = Some p" and "po_clearSince p \<noteq> None"
  shows "clearBy es p"
  using assms(1,3-6)
proof (induction arbitrary: p rule: deploymentRun.induct)
  case (more es d d1 ev d2)
  have "ledgerOK d1" using run_ledgerOK [OF more.hyps(1) assms(2)] more.prems(1) by blast
  then show ?case using clear_step [OF assms(2) _ more.hyps(2) more.prems(3,4)] more.IH more.prems(1,2) by blast
qed simp

text \<open>
  C9. A clearance rests on two answers of the node itself, a grace period apart. Where an order's
  run of clear answers is taken as proof, starting from any ledger in which it had none, the node
  answered that it ran nothing at two instants, the second asked for at least the grace period after
  the first was recorded; both answers were given for this order and this node under the registration
  and the dispatch in force now, and in the order's current generation, so nothing has contradicted
  the release since the first of them.
\<close>

theorem clearance_rests_on_two_answers:
  assumes "allocOK a" and "ledgerOK d" and "deploymentRun a es d d'" and "\<And>p. ReadPoolOrder d i = Some p \<Longrightarrow> po_clearSince p = None"
    and "ReadPoolOrder d' i = Some p" and "ReadNodeReleaseFacts d' (po_nodeName p) = Some facts" and "poolClearanceProved p facts"
  shows "\<exists>first obs1 last obs2. Pooling (Answered first obs1) \<in> set es \<and> Pooling (Answered last obs2) \<in> set es
    \<and> first + computeAbsenceGrace \<le> ob_askedAt obs2 \<and> answersFor p obs1 \<and> answersFor p obs2
    \<and> ob_epoch obs1 = rf_epoch facts \<and> ob_dispatch obs1 = rf_dispatch facts \<and> ob_epoch obs2 = rf_epoch facts \<and> ob_dispatch obs2 = rf_dispatch facts"
proof -
  obtain since observed where c: "po_clearSince p = Some since" "po_clearObservedAt p = Some observed" "po_clearEpoch p = rf_epoch facts"
    "po_clearDispatch p = rf_dispatch facts" "since + computeAbsenceGrace \<le> observed"
    using assms(7) by (auto simp: poolClearanceProved_def split: option.splits)
  then have "clearBy es p" using clear_run [OF assms(3,1,2,4,5)] by simp
  then obtain obs1 last obs2 where "Pooling (Answered since obs1) \<in> set es" "answersFor p obs1" "Pooling (Answered last obs2) \<in> set es"
    "ob_askedAt obs2 = observed" "answersFor p obs2" using c(1,2) unfolding clearBy_def by blast
  then show ?thesis using c by (intro exI [of _ since] exI [of _ obs1] exI [of _ last] exI [of _ obs2]) (auto simp: answersFor_def)
qed

theorem clearance_rests_on_two_answers_witness:
  "\<exists>p facts first obs1 last obs2. ReadPoolOrder clearedLedger ''o1'' = Some p \<and> ReadNodeReleaseFacts clearedLedger (po_nodeName p) = Some facts
     \<and> poolClearanceProved p facts \<and> Pooling (Answered first obs1) \<in> set toCleared \<and> Pooling (Answered last obs2) \<in> set toCleared
     \<and> first + computeAbsenceGrace \<le> ob_askedAt obs2"
proof -
  have "case ReadPoolOrder clearedLedger ''o1'' of None \<Rightarrow> False | Some p \<Rightarrow>
      (case ReadNodeReleaseFacts clearedLedger (po_nodeName p) of None \<Rightarrow> False | Some facts \<Rightarrow> poolClearanceProved p facts)" by code_simp
  then obtain p facts where c: "ReadPoolOrder clearedLedger ''o1'' = Some p" "ReadNodeReleaseFacts clearedLedger (po_nodeName p) = Some facts" "poolClearanceProved p facts"
    by (auto split: option.splits)
  have "case ReadPoolOrder joinedLedger ''o1'' of None \<Rightarrow> False | Some p \<Rightarrow> po_clearSince p = None" by code_simp
  then have none: "\<And>p. ReadPoolOrder joinedLedger ''o1'' = Some p \<Longrightarrow> po_clearSince p = None" by simp
  have ok: "ledgerOK joinedLedger" using run_ledgerOK [OF joined_run sample_OK(1) run_ledgerOK [OF placed_run sample_OK(1) sampleLedger_OK]] .
  show ?thesis using clearance_rests_on_two_answers [OF sample_OK(1) ok cleared_run none c] c by blast
qed

end
