(* ===== verification/Spec2Isabelle.thy ===== *)
theory Spec2Isabelle
  imports Hold_Facts Rollout_Progress Pool_Safety Pool_Return
begin

text \<open>
  A verification of billet's control plane: the part that decides which continuous-integration
  job runs on which machine, and that keeps the promise "no machine and no account is asked for
  more than it has" through crashes, retries, upgrades and forgetful hosts.

  \<^bold>\<open>The program.\<close> billet runs GitHub Actions jobs on machines its operator owns or rents. A
  control plane keeps one durable \<^emph>\<open>ledger\<close>. Listeners (one for each tier of runner) buy
  capacity from the \<^emph>\<open>allocator\<close> (\<open>internal/alloc\<close>), which grants \<^emph>\<open>leases\<close>; a lease is
  bound to a node, launched, renewed by heartbeats and released, or reclaimed by the reaper when
  its holder falls silent. Nodes register with the plane under an epoch, report what they run,
  and are drained, withdrawn or decommissioned; a machine is let in by a join token and a decision
  about its key, and kept out by revoking its certificates. Hosts rented by the hour come from
  \<^emph>\<open>pool orders\<close> and are given back once it is proved that they hold nothing. A queue
  (\<open>internal/server\<close>) orders the tiers that wait for room. An operator can seal admission, prove the fleet idle, and roll a release out
  over the control plane and its hosts (\<open>internal/rollout\<close>).

  \<^bold>\<open>The theories, bottom up.\<close>

  \<^item> \<open>Prelude\<close>: errors as values, Go's integer division, \<open>strings.TrimSpace\<close>, sums over tables,
    and the lemma collections the components share.
  \<^item> \<open>Lease_Phase\<close> (\<open>lease/lease.go\<close>): the lease state machine.
  \<^item> \<open>Catalog\<close>, \<open>Encoding\<close> (\<open>config\<close>, \<open>alloc.go\<close>): tiers, providers, architectures, shapes, limits
    and shares as the allocator reads them; the texts the ledger stores, with their decoders.
  \<^item> \<open>Ledger\<close>, \<open>History\<close> (\<open>state/queries/*.sql\<close>): the tables and one definition a statement.
  \<^item> \<open>Placement\<close>, \<open>Placement_Count\<close> (\<open>alloc/placement.go\<close>): ranking hosts, the room of a host, the
    choice of the next one; the count by division equals placing one lease at a time.
  \<^item> \<open>Fleet\<close>, \<open>Fleet_Facts\<close>, \<open>Room_Facts\<close> (\<open>alloc.go\<close>, \<open>floors.go\<close>, \<open>share.go\<close>, \<open>headroom_node.go\<close>):
    what is committed, floors reserved for tiers, target shares, headroom.
  \<^item> \<open>Escrow\<close>, \<open>Grant_Safety\<close>, \<open>Grants\<close>: buying leases. The locale \<open>resource\<close> is what a purchase
    must not overspend (the deployment's vCPU and memory, a host's, its macOS licence, a target's
    share); it is interpreted seven times, and each limit is a fact of one interpretation.
  \<^item> \<open>Lease_Ops\<close>, \<open>Lease_Facts\<close>, \<open>Lease_Safety\<close>, \<open>Reaping\<close>, \<open>Heartbeats\<close>, \<open>Resize\<close>: the life of a
    lease. The locale \<open>fenced\<close> is an operation that names a lease at an epoch and must be refused
    once the lease has moved on; each operation of a holder is an interpretation.
  \<^item> \<open>Inventory\<close>, \<open>Quarantine\<close>, \<open>Quarantine_Facts\<close>, \<open>Held_Leases\<close> (\<open>quarantine.go\<close>, \<open>lease_holds.go\<close>,
    \<open>force.go\<close>): what hosts report running, and how a lease whose compute may still exist leaves.
  \<^item> \<open>Admission\<close> (\<open>state/admission.go\<close>, \<open>quiescence.go\<close>): sealing, resuming, being quiet.
  \<^item> \<open>Version\<close> (\<open>version\<close>), \<open>Node_Registry\<close>, \<open>Registry_Facts\<close> (\<open>nodes.go\<close>, \<open>alloc.go\<close>): membership.
  \<^item> \<open>Barrier\<close>, \<open>Barrier_Facts\<close> (\<open>barrier.go\<close>): the proof that the fleet runs nothing.
  \<^item> \<open>Timestamps\<close> (\<open>ts\<close> of \<open>alloc.go\<close>, \<open>nowStamp\<close> of \<open>pool_runner.go\<close>): instants as the texts the
    ledger compares.
  \<^item> \<open>Credentials\<close> (\<open>jointoken.go\<close>, \<open>revocation.go\<close>): join tokens and certificates. \<open>Enrolling\<close>
    (\<open>enrollment.go\<close>, \<open>pooljoin.go\<close>): asking for a name and deciding about it.
  \<^item> \<open>Pool_Orders\<close> (\<open>pool.go\<close>, \<open>pooljoin.go\<close>), \<open>Pool_Release\<close> (\<open>poolrelease.go\<close>,
    \<open>releaseproof/releaseproof.go\<close>): ordering a host, linking its node, giving it back.
  \<^item> \<open>Pool_Facts\<close>, \<open>Pool_Steps\<close>: what each of these operations leaves of the tables, and the
    operations as one labelled step relation.
  \<^item> \<open>Deployment\<close>, \<open>Deployment_Safety\<close>: all of the above as one labelled step relation over the
    ledger, with the invariants of every run.
  \<^item> \<open>Pool_Runs\<close>, \<open>Pool_Safety\<close>, \<open>Pool_Access\<close>, \<open>Pool_Return\<close>: what credentials and orders promise
    over any run of the whole control plane. The locale \<open>kept_along\<close> is a relation every step
    keeps, and so every run; it is interpreted for the rows of the tables, an approved name, a
    revocation, its cutoff and a host given back. The locale \<open>credential_field\<close> is a column the
    operations on tokens, serials and orders leave alone.
  \<^item> \<open>Capacity_Spec\<close>: the abstract pot of capacity, and that the control plane refines it.
  \<^item> \<open>Admission_Queue\<close>, \<open>Queue_Facts\<close>, \<open>Hold_Facts\<close> (\<open>server/admissionorder.go\<close>,
    \<open>alloc/potential.go\<close>, \<open>alloc/hold.go\<close>): the order in which waiting tiers buy freed room.
  \<^item> \<open>Rollout_Store\<close>, \<open>Rollout_Facts\<close>, \<open>Rollout_Coordinator\<close>, \<open>Coordinator_Facts\<close>,
    \<open>Rollout_Progress\<close> (\<open>rollout/*.go\<close>, \<open>state/queries/rollouts.sql\<close>): the fleet decision, a pass of
    the coordinator, the automatic starter.
  \<^item> \<open>Sample\<close>, \<open>Pool_Sample\<close>: one small deployment, and one rented host from order to release, on
    which the theorems with hypotheses are applied.

  \<^bold>\<open>What is shown.\<close> C1 and C2 (\<open>Deployment_Safety\<close>) say that over any run of the control plane's
  operations, in any order and with any arguments, the ceiling and every host's capacity hold;
  C4 that a lease's life only moves forward and a fenced holder stays fenced; C5 that all of it
  refines the pot of capacity. C3 says that a fleet reported clear was idle; its runs are those of
  \<open>fleetStep\<close>, of which every operation on leases, credentials and pool orders is a step
  (\<open>poolStep_fleetStep\<close>). C6 to C12 are about
  rented hosts and credentials: a host given back stays empty and was proved so, a name is held by
  the key somebody spoke for, a revoked node stays out, a token admits no more than its uses, and
  the tables keep their types. C13, C14, C17 to C21 and C25 are about purchases, C15, C16, C22 to
  C24 about reaping, renewal and the texts of the ledger, C26 to C32 about the seal, membership,
  resizing and held leases, C33 and C34 about the order of purchases, C35 to C38 about rollouts,
  C39 and C40 about quiescence and versions. The runs of C1, C2, C4 to C12 and C26 are runs of the same
  step relation, so each of these holds while the operations of all the others go on.

  \<^bold>\<open>How the model reads the code.\<close> A transaction of the store is a function from the ledger to an
  error or a new ledger: the store has a single writer and a failed transaction changes nothing,
  so interleavings of calls are sequences of transactions and those are what \<open>deploymentStep\<close>
  ranges over. An operation is given one reading of the clock; where the code reads it more than
  once in a transaction, or once in each of the transactions of one call (the batches of
  \<open>HeartbeatMany\<close>), the readings are taken as equal. Go's \<open>int\<close> and \<open>int64\<close> are integers, with the wrap-around written out
  (\<open>wrap64\<close>) where a value supplied from outside could reach it. A random identifier is a
  parameter. A Go map that is ranged over is an association list, so that a theorem about every
  list holds for every iteration order. Ranks and shares that the code holds in a \<open>float64\<close> are
  rationals where they are only compared, and are rounded (\<open>Prelude\<close>) where they are computed
  with. Strings are lists of bytes, \<open>TrimSpace\<close> trims the ASCII blanks and \<open>ToLower\<close> lowers the
  ASCII letters. Messages for people are
  abbreviated and log lines are left out; every error a caller can tell apart is a constructor.

  \<^bold>\<open>Loops and bounds.\<close> Every loop of the modelled code is a total function: by structure, or with
  a measure (the walk of a rollout over its phases is bounded by the number of phases). One loop
  has a bound the source does not write: placing leases one at a time (\<open>placeLoop\<close>) recurses on the
  number of leases the hosts' free room could hold, and C25 shows that this is enough, that is,
  that the loop stops only where no host is left to place on, because every placement spends a
  positive cost. No other definition takes fuel.

  \<^bold>\<open>Parameters.\<close> Code outside the repository enters as an argument: what a node answered when it
  was told to upgrade, what the release resolver answered, what a cloud's shapes cost, what a pool's
  source vouched for. A token's secret is an argument, and its SHA-256 is a function argument (\<open>sha\<close>) of
  which nothing is assumed.

  \<^bold>\<open>Not modelled.\<close> The loop that sizes a pool and calls its sources, job records beyond the columns
  modelled operations read and write, the reports, the listeners' loops, the HTTP transport between
  plane and nodes, and the installation of a release: not yet. The node agent, the compute backends, the guest's side, the
  clients of AWS and GitHub, backups, images and the command line are input and output against an
  operating system or a service, and decide nothing about capacity.
\<close>

end
